(* ===== verification/Zebra_Prelude.thy ===== *)
theory Zebra_Prelude
  imports Main "HOL-Library.Word"
begin

text \<open>
  Shared vocabulary of the development.

  \<^item> Panics. A Rust function that may panic (\<open>expect\<close>, \<open>assert!\<close>, \<open>unreachable!\<close>, an index out
    of range) is modelled with the result type \<open>outcome\<close>: \<open>Done x\<close> for a normal return and
    \<open>Panic\<close> for a panic. \<open>run_bind\<close> is sequencing.
  \<^item> Errors. \<open>Result<T, E>\<close> is the sum type \<open>'e + 'a\<close>, with \<open>Inl\<close> for \<open>Err\<close>. \<open>try_bind\<close> is the
    question-mark operator on functions that may also panic.
  \<^item> Machine integers. Where the source uses \<open>checked_*\<close> or \<open>try_from\<close>, integers are \<open>int\<close> or
    \<open>nat\<close> with the range test written out; plain operators on signed integers wrap
    (\<open>wrap_i64\<close>), as they do in the release profile.
  \<^item> Byte strings are lists of 8-bit words; \<open>le_bytes\<close> and \<open>le_nat\<close> are the little-endian
    encoding that the \<open>byteorder\<close> readers and writers use.
\<close>

named_theorems outcome_simps \<open>rewrite rules for outcomes and results\<close>
named_theorems range_defs \<open>definitions of the integer ranges\<close>
named_theorems codec_simps \<open>rewrite rules for encoders and decoders\<close>

section \<open>Panics and results\<close>

datatype 'a outcome = Done 'a | Panic

primrec run_bind :: "'a outcome \<Rightarrow> ('a \<Rightarrow> 'b outcome) \<Rightarrow> 'b outcome" where
  "run_bind (Done x) f = f x"
| "run_bind Panic f = Panic"

definition expect_some :: "'a option \<Rightarrow> 'a outcome" where
  "expect_some m = (case m of Some x \<Rightarrow> Done x | None \<Rightarrow> Panic)"

definition expect_ok :: "'e + 'a \<Rightarrow> 'a outcome" where
  "expect_ok r = (case r of Inr x \<Rightarrow> Done x | Inl e \<Rightarrow> Panic)"

definition assert_that :: "bool \<Rightarrow> unit outcome" where
  "assert_that b = (if b then Done () else Panic)"

definition res_bind :: "'e + 'a \<Rightarrow> ('a \<Rightarrow> 'e + 'b) \<Rightarrow> 'e + 'b" where
  "res_bind r f = (case r of Inl e \<Rightarrow> Inl e | Inr x \<Rightarrow> f x)"

definition map_err :: "('e \<Rightarrow> 'f) \<Rightarrow> 'e + 'a \<Rightarrow> 'f + 'a" where
  "map_err g r = (case r of Inl e \<Rightarrow> Inl (g e) | Inr x \<Rightarrow> Inr x)"

definition ok_or :: "'e \<Rightarrow> 'a option \<Rightarrow> 'e + 'a" where
  "ok_or e m = (case m of None \<Rightarrow> Inl e | Some x \<Rightarrow> Inr x)"

definition res_ok :: "'e + 'a \<Rightarrow> 'a option" where
  "res_ok r = (case r of Inl e \<Rightarrow> None | Inr x \<Rightarrow> Some x)"

definition try_bind :: "('e + 'a) outcome \<Rightarrow> ('a \<Rightarrow> ('e + 'b) outcome) \<Rightarrow> ('e + 'b) outcome" where
  "try_bind m f = run_bind m (\<lambda>r. case r of Inl e \<Rightarrow> Done (Inl e) | Inr x \<Rightarrow> f x)"

primrec map_outcome_list :: "('a \<Rightarrow> 'b outcome) \<Rightarrow> 'a list \<Rightarrow> 'b list outcome" where
  "map_outcome_list f [] = Done []"
| "map_outcome_list f (x # xs) =
     run_bind (f x) (\<lambda>y. run_bind (map_outcome_list f xs) (\<lambda>ys. Done (y # ys)))"

lemma run_bind_Done_iff [outcome_simps]:
  "run_bind m f = Done y \<longleftrightarrow> (\<exists>x. m = Done x \<and> f x = Done y)"
  by (cases m) auto

lemma run_bind_Panic_iff [outcome_simps]:
  "run_bind m f = Panic \<longleftrightarrow> m = Panic \<or> (\<exists>x. m = Done x \<and> f x = Panic)"
  by (cases m) auto

lemma run_bind_assoc: "run_bind (run_bind m f) g = run_bind m (\<lambda>x. run_bind (f x) g)"
  by (cases m) auto

lemma not_Panic_iff: "m \<noteq> Panic \<longleftrightarrow> (\<exists>x. m = Done x)"
  by (cases m) auto

lemma expect_some_simps [simp]:
  "expect_some (Some x) = Done x"
  "expect_some None = Panic"
  "expect_some m = Done x \<longleftrightarrow> m = Some x"
  "expect_some m = Panic \<longleftrightarrow> m = None"
  by (auto simp: expect_some_def split: option.splits)

lemma expect_ok_simps [simp]:
  "expect_ok (Inr x) = Done x"
  "expect_ok (Inl e) = Panic"
  "expect_ok r = Done x \<longleftrightarrow> r = Inr x"
  "expect_ok r = Panic \<longleftrightarrow> (\<exists>e. r = Inl e)"
  by (auto simp: expect_ok_def split: sum.splits)

lemma assert_that_simps [simp]:
  "assert_that True = Done ()"
  "assert_that False = Panic"
  "assert_that b = Done u \<longleftrightarrow> b"
  "assert_that b = Panic \<longleftrightarrow> \<not> b"
  by (auto simp: assert_that_def)

lemma res_bind_simps [simp]:
  "res_bind (Inr x) f = f x"
  "res_bind (Inl e) f = Inl e"
  by (auto simp: res_bind_def)

lemma res_bind_Inr_iff [outcome_simps]:
  "res_bind r f = Inr y \<longleftrightarrow> (\<exists>x. r = Inr x \<and> f x = Inr y)"
  by (cases r) auto

lemma map_err_simps [simp]:
  "map_err g (Inr x) = Inr x"
  "map_err g (Inl e) = Inl (g e)"
  "map_err g r = Inr x \<longleftrightarrow> r = Inr x"
  by (auto simp: map_err_def split: sum.splits)

lemma ok_or_simps [simp]:
  "ok_or e (Some x) = Inr x"
  "ok_or e None = Inl e"
  "ok_or e m = Inr x \<longleftrightarrow> m = Some x"
  by (auto simp: ok_or_def split: option.splits)

lemma res_ok_simps [simp]:
  "res_ok (Inr x) = Some x"
  "res_ok (Inl e) = None"
  "res_ok r = Some x \<longleftrightarrow> r = Inr x"
  by (auto simp: res_ok_def split: sum.splits)

lemma try_bind_simps [simp]:
  "try_bind (Done (Inr x)) f = f x"
  "try_bind (Done (Inl e)) f = Done (Inl e)"
  "try_bind Panic f = Panic"
  by (auto simp: try_bind_def)

lemma try_bind_Inr_iff [outcome_simps]:
  "try_bind m f = Done (Inr y) \<longleftrightarrow> (\<exists>x. m = Done (Inr x) \<and> f x = Done (Inr y))"
proof (cases m)
  case (Done r)
  then show ?thesis by (cases r) auto
qed simp

lemma map_outcome_list_Done:
  "(\<And>x. x \<in> set xs \<Longrightarrow> f x = Done (g x)) \<Longrightarrow> map_outcome_list f xs = Done (map g xs)"
  by (induction xs) auto

section \<open>Machine integers\<close>

definition in_i64 :: "int \<Rightarrow> bool" where
  [range_defs]: "in_i64 x \<longleftrightarrow> - (2 ^ 63) \<le> x \<and> x < 2 ^ 63"

definition in_i128 :: "int \<Rightarrow> bool" where
  [range_defs]: "in_i128 x \<longleftrightarrow> - (2 ^ 127) \<le> x \<and> x < 2 ^ 127"

definition in_u32 :: "int \<Rightarrow> bool" where
  [range_defs]: "in_u32 x \<longleftrightarrow> 0 \<le> x \<and> x < 2 ^ 32"

definition in_u64 :: "int \<Rightarrow> bool" where
  [range_defs]: "in_u64 x \<longleftrightarrow> 0 \<le> x \<and> x < 2 ^ 64"

definition wrap_i64 :: "int \<Rightarrow> int" where
  "wrap_i64 x = (x + 2 ^ 63) mod 2 ^ 64 - 2 ^ 63"

definition checked_i64 :: "int \<Rightarrow> int option" where
  "checked_i64 x = (if in_i64 x then Some x else None)"

definition u32_try_from :: "int \<Rightarrow> nat option" where
  "u32_try_from x = (if in_u32 x then Some (nat x) else None)"

text \<open>Rust's integer division rounds towards zero.\<close>

definition rust_div :: "int \<Rightarrow> int \<Rightarrow> int" where
  "rust_div a b = sgn a * sgn b * (\<bar>a\<bar> div \<bar>b\<bar>)"

lemma wrap_i64_in_range: "in_i64 (wrap_i64 x)"
proof -
  have "0 \<le> (x + 2 ^ 63) mod 2 ^ 64" and "(x + 2 ^ 63) mod 2 ^ 64 < (2 ^ 64 :: int)"
    by simp_all
  then show ?thesis by (simp add: wrap_i64_def in_i64_def)
qed

lemma wrap_i64_id: "in_i64 x \<Longrightarrow> wrap_i64 x = x"
  by (simp add: wrap_i64_def in_i64_def)

lemma checked_i64_simps [simp]:
  "in_i64 x \<Longrightarrow> checked_i64 x = Some x"
  "\<not> in_i64 x \<Longrightarrow> checked_i64 x = None"
  "checked_i64 x = Some y \<longleftrightarrow> in_i64 x \<and> y = x"
  "checked_i64 x = None \<longleftrightarrow> \<not> in_i64 x"
  by (auto simp: checked_i64_def)

lemma rust_div_nonneg: "0 \<le> a \<Longrightarrow> 0 < b \<Longrightarrow> rust_div a b = a div b"
  by (cases "a = 0") (auto simp: rust_div_def)

lemma rust_div_neg: "a < 0 \<Longrightarrow> 0 < b \<Longrightarrow> rust_div a b = - ((- a) div b)"
  by (auto simp: rust_div_def)

lemma int_div_le_self: "0 < b \<Longrightarrow> 0 \<le> a \<Longrightarrow> a div b \<le> (a :: int)"
  using zdiv_mono2 [of a 1 b] by simp

lemma rust_div_bounds:
  assumes "lo \<le> 0" "0 \<le> hi" "lo \<le> a" "a \<le> hi" "0 < b"
  shows "lo \<le> rust_div a b \<and> rust_div a b \<le> hi"
proof (cases "0 \<le> a")
  case True
  then have "0 \<le> a div b" and "a div b \<le> a"
    using assms int_div_le_self [of b a] by (auto simp: pos_imp_zdiv_nonneg_iff)
  then show ?thesis using assms True by (simp add: rust_div_nonneg)
next
  case False
  then have "0 \<le> (- a) div b" and "(- a) div b \<le> - a"
    using assms int_div_le_self [of b "- a"] by (auto simp: pos_imp_zdiv_nonneg_iff)
  then show ?thesis using assms False by (simp add: rust_div_neg)
qed

section \<open>Little-endian byte strings\<close>

type_synonym byte = "8 word"

primrec le_bytes :: "nat \<Rightarrow> nat \<Rightarrow> byte list" where
  "le_bytes 0 k = []"
| "le_bytes (Suc n) k = word_of_nat (k mod 256) # le_bytes n (k div 256)"

primrec le_nat :: "byte list \<Rightarrow> nat" where
  "le_nat [] = 0"
| "le_nat (b # bs) = unat b + 256 * le_nat bs"

lemma length_le_bytes [simp]: "length (le_bytes n k) = n"
  by (induction n arbitrary: k) auto

lemma le_nat_le_bytes [codec_simps]: "le_nat (le_bytes n k) = k mod 256 ^ n"
proof (induction n arbitrary: k)
  case (Suc n)
  have "le_nat (le_bytes (Suc n) k) = k mod 256 + 256 * (k div 256 mod 256 ^ n)"
    by (simp add: Suc unat_of_nat)
  also have "\<dots> = k mod 256 ^ Suc n"
    by (simp add: mod_mult2_eq)
  finally show ?case .
qed simp

lemma le_nat_bound: "le_nat bs < 256 ^ length bs"
proof (induction bs)
  case (Cons b bs)
  have "unat b < 256" using unsigned_less [of b, where ?'a = nat] by simp
  then have "unat b + 256 * le_nat bs < 256 + 256 * le_nat bs" by simp
  also have "\<dots> \<le> 256 * 256 ^ length bs" using Cons by simp
  finally show ?case by simp
qed simp

lemma le_bytes_le_nat [codec_simps]: "le_bytes (length bs) (le_nat bs) = bs"
proof (induction bs)
  case (Cons b bs)
  have "unat b < 256" using unsigned_less [of b, where ?'a = nat] by simp
  then show ?case using Cons by simp
qed simp

text \<open>A reader over a byte string: \<open>read_bytes n\<close> takes the next \<open>n\<close> bytes or reports end of input.\<close>

definition read_bytes :: "'e \<Rightarrow> nat \<Rightarrow> byte list \<Rightarrow> 'e + byte list \<times> byte list" where
  "read_bytes eof n bs = (if length bs < n then Inl eof else Inr (take n bs, drop n bs))"

lemma read_bytes_append [codec_simps]:
  "length xs = n \<Longrightarrow> read_bytes eof n (xs @ ys) = Inr (xs, ys)"
  by (simp add: read_bytes_def)

lemma read_bytes_Inr:
  "read_bytes eof n bs = Inr (xs, ys) \<longleftrightarrow> bs = xs @ ys \<and> length xs = n"
  by (auto simp: read_bytes_def)

text \<open>The interface of a fixed-width codec: what a record of several encoded fields relies on.\<close>

locale fixed_codec =
  fixes enc :: "'a \<Rightarrow> byte list"
    and dec :: "byte list \<Rightarrow> 'e + 'a"
    and width :: nat
    and ok :: "'a \<Rightarrow> bool"
  assumes enc_width: "length (enc x) = width"
    and dec_enc: "ok x \<Longrightarrow> dec (enc x) = Inr x"
    and dec_ok: "dec bs = Inr x \<Longrightarrow> ok x"
    and enc_dec: "length bs = width \<Longrightarrow> dec bs = Inr x \<Longrightarrow> enc x = bs"
begin

lemma enc_inj: "ok x \<Longrightarrow> ok y \<Longrightarrow> enc x = enc y \<Longrightarrow> x = y"
  by (metis dec_enc sum.inject(2))

lemma length_concat_enc: "length (concat (map enc xs)) = width * length xs"
  by (induction xs) (auto simp: enc_width)

lemma dec_slot:
  assumes "i < length xs" and "\<forall>x \<in> set xs. ok x"
  shows "dec (take width (drop (width * i) (concat (map enc xs)))) = Inr (xs ! i)"
  using assms
proof (induction xs arbitrary: i)
  case (Cons x xs)
  show ?case
  proof (cases i)
    case 0
    then show ?thesis using Cons.prems by (simp add: enc_width dec_enc)
  next
    case (Suc j)
    have "drop (width * i) (enc x @ concat (map enc xs)) = drop (width * j) (concat (map enc xs))"
      using Suc by (simp add: enc_width)
    then show ?thesis using Cons Suc by simp
  qed
qed simp

lemma concat_slots:
  assumes "length bs = width * n" and "\<forall>i < n. dec (take width (drop (width * i) bs)) = Inr (xs ! i)"
    and "length xs = n"
  shows "concat (map enc xs) = bs"
  using assms
proof (induction n arbitrary: bs xs)
  case (Suc n)
  obtain y ys where xs: "xs = y # ys" using Suc.prems(3) by (cases xs) auto
  have "enc y = take width bs"
    using Suc.prems(1) Suc.prems(2) [rule_format, of 0] xs by (intro enc_dec) auto
  moreover have "concat (map enc ys) = drop width bs"
  proof (rule Suc.IH)
    show "length (drop width bs) = width * n" using Suc.prems(1) by simp
    show "length ys = n" using Suc.prems(3) xs by simp
    show "\<forall>i<n. dec (take width (drop (width * i) (drop width bs))) = Inr (ys ! i)"
    proof (intro allI impI)
      fix i assume "i < n"
      then show "dec (take width (drop (width * i) (drop width bs))) = Inr (ys ! i)"
        using Suc.prems(2) [rule_format, of "Suc i"] xs by (simp add: add.commute)
    qed
  qed
  ultimately show ?case using xs by simp
qed simp

end

section \<open>Ordered maps\<close>

text \<open>
  A \<open>BTreeMap\<close> is the list of its entries in increasing key order. \<open>btree_insert\<close> replaces the value of
  a key that is present, and \<open>btree_collect\<close> is \<open>collect\<close> and \<open>extend\<close>: the last value of a key wins.
\<close>

type_synonym ('k, 'v) btree = "('k \<times> 'v) list"

fun btree_insert :: "'k :: linorder \<Rightarrow> 'v \<Rightarrow> ('k, 'v) btree \<Rightarrow> ('k, 'v) btree" where
  "btree_insert k v [] = [(k, v)]"
| "btree_insert k v ((k', v') # m) =
     (if k < k' then (k, v) # (k', v') # m
      else if k = k' then (k, v) # m
      else (k', v') # btree_insert k v m)"

definition btree_extend :: "('k :: linorder, 'v) btree \<Rightarrow> ('k \<times> 'v) list \<Rightarrow> ('k, 'v) btree" where
  "btree_extend m kvs = fold (\<lambda>(k, v). btree_insert k v) kvs m"

abbreviation btree_collect :: "('k :: linorder \<times> 'v) list \<Rightarrow> ('k, 'v) btree" where
  "btree_collect \<equiv> btree_extend []"

definition btree_ok :: "('k :: linorder, 'v) btree \<Rightarrow> bool" where
  "btree_ok m \<longleftrightarrow> sorted_wrt (<) (map fst m)"

lemma btree_ok_simps [simp]:
  "btree_ok []"
  "btree_ok ((k, v) # m) \<longleftrightarrow> (\<forall>k' \<in> fst ` set m. k < k') \<and> btree_ok m"
  by (auto simp: btree_ok_def)

lemma keys_btree_insert [simp]: "fst ` set (btree_insert k v m) = insert k (fst ` set m)"
  by (induction k v m rule: btree_insert.induct) auto

lemma btree_ok_insert: "btree_ok m \<Longrightarrow> btree_ok (btree_insert k v m)"
  by (induction k v m rule: btree_insert.induct) auto

lemma map_of_btree_insert:
  "btree_ok m \<Longrightarrow> map_of (btree_insert k v m) = (map_of m)(k \<mapsto> v)"
  by (induction k v m rule: btree_insert.induct) (auto simp: fun_eq_iff)

lemma btree_extend_Cons:
  "btree_extend m ((k, v) # kvs) = btree_extend (btree_insert k v m) kvs"
  by (simp add: btree_extend_def)

lemma btree_ok_extend: "btree_ok m \<Longrightarrow> btree_ok (btree_extend m kvs)"
  by (induction kvs arbitrary: m)
    (simp add: btree_extend_def, simp only: btree_extend_Cons btree_ok_insert split_paired_all)

lemma keys_btree_extend: "fst ` set (btree_extend m kvs) = fst ` set m \<union> fst ` set kvs"
  by (induction kvs arbitrary: m)
    (simp add: btree_extend_def, simp only: btree_extend_Cons split_paired_all, simp)

lemma btree_ok_distinct: "btree_ok m \<Longrightarrow> distinct (map fst m)"
  by (auto simp: btree_ok_def strict_sorted_iff)

lemma btree_insert_last:
  "(\<forall>k' \<in> fst ` set m. k' < k) \<Longrightarrow> btree_insert k v m = m @ [(k, v)]"
  by (induction k v m rule: btree_insert.induct) auto

lemma btree_extend_sorted:
  "sorted_wrt (<) (map fst kvs) \<Longrightarrow> (\<forall>k' \<in> fst ` set m. \<forall>k \<in> fst ` set kvs. k' < k) \<Longrightarrow>
   btree_extend m kvs = m @ kvs"
proof (induction kvs arbitrary: m)
  case Nil
  then show ?case by (simp add: btree_extend_def)
next
  case (Cons kv kvs)
  obtain k v where kv: "kv = (k, v)" by (cases kv)
  then show ?case using Cons
    by (auto simp: btree_extend_Cons btree_insert_last)
qed

section \<open>Lists and maps\<close>

lemma find_SomeD: "find P xs = Some x \<Longrightarrow> x \<in> set xs \<and> P x"
  by (induction xs) (auto split: if_splits)

end
