(* ===== verification/Heights.thy ===== *)
theory Heights
  imports Zebra_Prelude
begin

text \<open>
  Block heights: \<open>zebra-chain/src/block/height.rs\<close>.

  A \<open>Height\<close> is a \<open>u32\<close>, modelled by a natural number; \<open>is_u32\<close> is its machine range, and valid
  heights are at most \<open>Height_MAX\<close>, which is smaller. A \<open>HeightDiff\<close> is an \<open>i64\<close>, modelled by an
  integer; the additions in \<open>Add\<close> and \<open>Sub\<close> wrap.
\<close>

type_synonym height = nat

datatype height_error = Overflow | Underflow

definition Height_MIN :: height where
  "Height_MIN = 0"

definition Height_MAX :: height where
  "Height_MAX = (2 ^ 32 - 1) div 2"

definition MAX_EXPIRY_HEIGHT :: height where
  "MAX_EXPIRY_HEIGHT = 499999999"

definition is_u32 :: "nat \<Rightarrow> bool" where
  "is_u32 h \<longleftrightarrow> h < 2 ^ 32"

definition height_try_from_u32 :: "nat \<Rightarrow> string + height" where
  "height_try_from_u32 h =
     (if h \<le> Height_MAX then Inr h else Inl ''heights must be less than or equal to Height::MAX'')"

definition height_diff :: "height \<Rightarrow> height \<Rightarrow> int" where
  "height_diff h h' = wrap_i64 (int h - int h')"

definition height_sub :: "height \<Rightarrow> int \<Rightarrow> height option" where
  "height_sub h d =
     (case u32_try_from (wrap_i64 (int h - d)) of
        None \<Rightarrow> None
      | Some r \<Rightarrow> res_ok (height_try_from_u32 r))"

definition height_add :: "height \<Rightarrow> int \<Rightarrow> height option" where
  "height_add h d =
     (case u32_try_from (wrap_i64 (int h + d)) of
        None \<Rightarrow> None
      | Some r \<Rightarrow> res_ok (height_try_from_u32 r))"

definition height_next :: "height \<Rightarrow> height_error + height" where
  "height_next h = ok_or Overflow (height_add h 1)"

definition height_previous :: "height \<Rightarrow> height_error + height" where
  "height_previous h = ok_or Underflow (height_sub h 1)"

definition height_is_min :: "height \<Rightarrow> bool" where
  "height_is_min h \<longleftrightarrow> h = Height_MIN"

text \<open>\<open>TryIntoHeight\<close> for \<open>u64\<close>, \<open>usize\<close> and \<open>i32\<close>: the boxed error is only known to be an error.\<close>

definition try_into_height :: "int \<Rightarrow> unit + height" where
  "try_into_height x =
     (case u32_try_from x of
        None \<Rightarrow> Inl ()
      | Some r \<Rightarrow> map_err (\<lambda>_. ()) (height_try_from_u32 r))"

lemma Height_MAX_value: "Height_MAX = 2147483647"
  by (simp add: Height_MAX_def)

lemma height_try_from_u32_ok: "height_try_from_u32 h = Inr h' \<longleftrightarrow> h \<le> Height_MAX \<and> h' = h"
  by (auto simp: height_try_from_u32_def)

lemma wrap_far:
  assumes "in_i64 d" and "h < 2 ^ 32"
  shows "wrap_i64 (int h + d) = int h + d \<or> wrap_i64 (int h + d) < 0 \<and> 2 ^ 63 \<le> int h + d"
proof (cases "in_i64 (int h + d)")
  case True
  then show ?thesis by (simp add: wrap_i64_id)
next
  case False
  then have big: "2 ^ 63 \<le> int h + d" using assms by (auto simp: in_i64_def)
  have "int h < 2 ^ 32" using assms(2) by simp
  have "(int h + d + 2 ^ 63) mod 2 ^ 64 = (int h + d + 2 ^ 63 - 2 ^ 64) mod 2 ^ 64"
    by (rule minus_mod_self2 [symmetric])
  also have "\<dots> = int h + d + 2 ^ 63 - 2 ^ 64"
    using big assms(1) \<open>int h < 2 ^ 32\<close> by (intro mod_pos_pos_trivial) (simp_all add: in_i64_def)
  finally have "wrap_i64 (int h + d) = int h + d - 2 ^ 64" by (simp add: wrap_i64_def)
  then show ?thesis using big assms(1) \<open>int h < 2 ^ 32\<close> by (simp add: in_i64_def)
qed

lemma u32_height_exact:
  "(case u32_try_from x of None \<Rightarrow> None | Some r \<Rightarrow> res_ok (height_try_from_u32 r)) = Some h' \<longleftrightarrow>
   0 \<le> x \<and> x \<le> int Height_MAX \<and> h' = nat x"
  by (auto simp: u32_try_from_def in_u32_def height_try_from_u32_def Height_MAX_value)

lemma height_add_exact:
  assumes "is_u32 h" and "in_i64 d"
  shows "height_add h d = Some h' \<longleftrightarrow> int h' = int h + d \<and> h' \<le> Height_MAX"
  using wrap_far [OF assms(2), of h] assms
  by (auto simp: height_add_def u32_height_exact is_u32_def Height_MAX_value in_i64_def)

lemma height_sub_exact:
  assumes "is_u32 h" and "in_i64 d"
  shows "height_sub h d = Some h' \<longleftrightarrow> int h' = int h - d \<and> h' \<le> Height_MAX"
proof (cases "in_i64 (- d)")
  case True
  show ?thesis
    using wrap_far [OF True, of h] assms
    by (auto simp: height_sub_def u32_height_exact is_u32_def Height_MAX_value in_i64_def)
next
  case False
  then have d: "d = - (2 ^ 63)" using assms(2) by (auto simp: in_i64_def)
  have "int h < 2 ^ 32" using assms(1) by (simp add: is_u32_def)
  then have "wrap_i64 (int h - d) = int h - 2 ^ 63"
    by (simp add: d wrap_i64_def)
  then show ?thesis
    using \<open>int h < 2 ^ 32\<close> by (auto simp: height_sub_def u32_height_exact d Height_MAX_value)
qed

lemma height_next_simp [simp]:
  "h < Height_MAX \<Longrightarrow> height_next h = Inr (Suc h)"
  using height_add_exact [of h 1 "Suc h"]
  by (simp add: height_next_def is_u32_def in_i64_def Height_MAX_value)

lemma height_previous_Suc [simp]:
  "Suc h \<le> Height_MAX \<Longrightarrow> height_previous (Suc h) = Inr h"
  using height_sub_exact [of "Suc h" 1 h]
  by (simp add: height_previous_def is_u32_def in_i64_def Height_MAX_value)

lemma height_diff_exact: "is_u32 h \<Longrightarrow> is_u32 h' \<Longrightarrow> height_diff h h' = int h - int h'"
  by (simp add: height_diff_def wrap_i64_id in_i64_def is_u32_def)

section \<open>Properties\<close>

text \<open>Height arithmetic is exact on every machine value: adding or subtracting any 64-bit difference
  to any 32-bit height, including the cases where the internal addition wraps, yields the exact
  height when that is valid and nothing otherwise; and the difference of two valid heights, added
  to the second, gives the first.\<close>

theorem height_arithmetic_exact:
  assumes "is_u32 h" and "in_i64 d"
  shows "(\<forall>h'. height_add h d = Some h' \<longleftrightarrow> int h' = int h + d \<and> h' \<le> Height_MAX) \<and>
         (\<forall>h'. height_sub h d = Some h' \<longleftrightarrow> int h' = int h - d \<and> h' \<le> Height_MAX) \<and>
         (\<forall>h1 \<le> Height_MAX. height_add h (height_diff h1 h) = Some h1)"
proof -
  have "height_add h (height_diff h1 h) = Some h1" if "h1 \<le> Height_MAX" for h1
  proof -
    have "is_u32 h1" using that by (simp add: is_u32_def Height_MAX_value)
    then have e: "height_diff h1 h = int h1 - int h" using assms(1) by (simp add: height_diff_exact)
    moreover have "in_i64 (int h1 - int h)"
      using assms(1) \<open>is_u32 h1\<close> by (simp add: in_i64_def is_u32_def)
    ultimately show ?thesis using height_add_exact [OF assms(1)] that by simp
  qed
  then show ?thesis using height_add_exact [OF assms] height_sub_exact [OF assms] by blast
qed

theorem height_arithmetic_exact_witness:
  "height_add 5 7 = Some 12 \<and> height_sub 5 7 = None \<and> height_add 4294967295 9223372036854775807 = None"
proof -
  have "is_u32 5" "in_i64 7" "is_u32 4294967295" "in_i64 9223372036854775807"
    by (simp_all add: is_u32_def in_i64_def)
  note a = height_arithmetic_exact [OF this(1,2)] and b = height_arithmetic_exact [OF this(3,4)]
  have "height_add 5 7 = Some 12" using a by (simp add: Height_MAX_value)
  moreover have "height_sub 5 7 = None" using a by (cases "height_sub 5 7") auto
  moreover have "height_add 4294967295 9223372036854775807 = None"
    using b by (cases "height_add 4294967295 9223372036854775807") (auto simp: Height_MAX_value)
  ultimately show ?thesis by simp
qed

end
