(* ===== verification/Checkpoint_Lists.thy ===== *)
theory Checkpoint_Lists
  imports Heights
begin

text \<open>
  Checkpoint lists: \<open>zebra-chain/src/parameters/checkpoint/list.rs\<close>.

  A block hash is its 32 bytes, and a \<open>CheckpointList\<close> is the ordered map it wraps. The boxed errors of
  \<open>from_list\<close> are their messages; its call to \<open>max_height\<close> can panic on an empty map, so the result is
  an \<open>outcome\<close>, and \<open>checkpoint_list_accepts\<close> shows that it never does. A range argument
  (\<open>RangeBounds\<close>) is given by its membership test.
\<close>

type_synonym block_hash = "byte list"

type_synonym checkpoint_list = "(height, block_hash) btree"

definition null_hash :: block_hash where
  "null_hash = replicate 32 0"

definition min_height_in_range :: "checkpoint_list \<Rightarrow> (height \<Rightarrow> bool) \<Rightarrow> height option" where
  "min_height_in_range cl bounds = map_option fst (find (\<lambda>(h, _). bounds h) cl)"

definition max_height_in_range :: "checkpoint_list \<Rightarrow> (height \<Rightarrow> bool) \<Rightarrow> height option" where
  "max_height_in_range cl bounds = map_option fst (find (\<lambda>(h, _). bounds h) (rev cl))"

definition max_height :: "checkpoint_list \<Rightarrow> height outcome" where
  "max_height cl = expect_some (max_height_in_range cl (\<lambda>_. True))"

definition checkpoint_contains :: "checkpoint_list \<Rightarrow> height \<Rightarrow> bool" where
  "checkpoint_contains cl h \<longleftrightarrow> h \<in> fst ` set cl"

definition checkpoint_hash :: "checkpoint_list \<Rightarrow> height \<Rightarrow> block_hash option" where
  "checkpoint_hash cl h = map_of cl h"

definition from_list :: "(height \<times> block_hash) list \<Rightarrow> (string + checkpoint_list) outcome" where
  "from_list original_checkpoints =
     (let original_len = length original_checkpoints;
          checkpoints = btree_collect original_checkpoints;
          block_hashes = snd ` set checkpoints
      in case checkpoints of
           [] \<Rightarrow> Done (Inl ''there must be at least one checkpoint, for the genesis block'')
         | (h0, _) # _ \<Rightarrow>
             if h0 \<noteq> 0 then Done (Inl ''checkpoints must start at the genesis block height 0'')
             else if length checkpoints \<noteq> original_len
             then Done (Inl ''checkpoint heights must be unique'')
             else if card block_hashes \<noteq> original_len
             then Done (Inl ''checkpoint hashes must be unique'')
             else if null_hash \<in> block_hashes
             then Done (Inl ''checkpoint list contains invalid checkpoint hash: found null hash'')
             else run_bind (max_height checkpoints) (\<lambda>m.
               if m > Height_MAX
               then Done (Inl ''checkpoint list contains invalid checkpoint: checkpoint height is greater than the maximum block height'')
               else Done (Inr checkpoints)))"

text \<open>\<open>keys().rposition(..)\<close>: the last index whose key satisfies the test.\<close>

definition rposition :: "('a \<Rightarrow> bool) \<Rightarrow> 'a list \<Rightarrow> nat option" where
  "rposition P xs = find (\<lambda>i. P (xs ! i)) (rev [0..<length xs])"

definition prev_checkpoint_index :: "checkpoint_list \<Rightarrow> height \<Rightarrow> nat outcome" where
  "prev_checkpoint_index cl h = expect_some (rposition (\<lambda>k. k \<le> h) (map fst cl))"

definition iter_cloned :: "checkpoint_list \<Rightarrow> (height \<times> block_hash) list" where
  "iter_cloned cl = map (\<lambda>(h, hash). (h, hash)) cl"

definition checkpoint_len :: "checkpoint_list \<Rightarrow> nat" where
  "checkpoint_len cl = length cl"

section \<open>Lemmas\<close>

lemma btree_insert_length:
  "btree_ok m \<Longrightarrow> length (btree_insert k v m) = (if k \<in> fst ` set m then length m else Suc (length m))"
  by (induction k v m rule: btree_insert.induct) auto

lemma btree_extend_length_le: "btree_ok m \<Longrightarrow> length (btree_extend m kvs) \<le> length m + length kvs"
proof (induction kvs arbitrary: m)
  case (Cons e kvs)
  then show ?case
    using Cons.IH [of "btree_insert (fst e) (snd e) m"]
    by (cases e) (auto simp: btree_extend_Cons btree_ok_insert btree_insert_length split: if_splits)
qed (simp add: btree_extend_def)

lemma btree_extend_distinct:
  assumes "btree_ok m" and "distinct (map fst kvs)" and "fst ` set m \<inter> fst ` set kvs = {}"
  shows "set (btree_extend m kvs) = set m \<union> set kvs"
  using assms
proof (induction kvs arbitrary: m)
  case (Cons e kvs)
  obtain k v where e: "e = (k, v)" by (cases e)
  have "k \<notin> fst ` set m" using Cons.prems(3) e by auto
  then have "set (btree_insert k v m) = insert (k, v) (set m)"
    by (induction k v m rule: btree_insert.induct) auto
  moreover have "fst ` set (btree_insert k v m) \<inter> fst ` set kvs = {}"
    using Cons.prems(2,3) by (simp add: e)
  ultimately show ?case
    using Cons.IH [of "btree_insert k v m"] Cons.prems by (simp add: e btree_extend_Cons btree_ok_insert)
qed (simp add: btree_extend_def)

lemma btree_length_card: "btree_ok m \<Longrightarrow> length m = card (fst ` set m)"
  using btree_ok_distinct [of m] distinct_card [of "map fst m"] by simp

lemma btree_collect_length:
  "length (btree_collect kvs) = length kvs \<longleftrightarrow> distinct (map fst kvs)"
  using btree_length_card [OF btree_ok_extend [of "[]" kvs]] keys_btree_extend [of "[]" kvs]
    card_distinct [of "map fst kvs"] distinct_card [of "map fst kvs"]
  by auto

lemma find_rev_total: "find (\<lambda>_. True) (rev xs) = (if xs = [] then None else Some (last xs))"
  by (cases xs rule: rev_cases) simp_all

lemma max_height_nonempty: "cl \<noteq> [] \<Longrightarrow> max_height cl = Done (fst (last cl))"
  by (simp add: max_height_def max_height_in_range_def case_prod_unfold find_rev_total)

lemma btree_last_max: "btree_ok cl \<Longrightarrow> x \<in> set cl \<Longrightarrow> fst x \<le> fst (last cl)"
  by (induction cl) (auto simp: btree_ok_def split: if_splits dest!: last_in_set)

lemma btree_hd_min: "btree_ok ((h0, v0) # cl) \<Longrightarrow> x \<in> set cl \<Longrightarrow> h0 < fst x"
  by auto

lemma rposition_Some:
  "rposition P xs = Some i \<Longrightarrow> i < length xs \<and> P (xs ! i) \<and> (\<forall>j. i < j \<and> j < length xs \<longrightarrow> \<not> P (xs ! j))"
proof (induction xs rule: rev_induct)
  case (snoc x xs)
  have c: "find (\<lambda>i. P ((xs @ [x]) ! i)) (rev [0..<length xs]) = find (\<lambda>i. P (xs ! i)) (rev [0..<length xs])"
    by (rule find_cong) (auto simp: nth_append)
  show ?case
  proof (cases "P x")
    case True
    then show ?thesis using snoc.prems by (auto simp: rposition_def)
  next
    case False
    then have "rposition P xs = Some i" using snoc.prems c by (simp add: rposition_def)
    from snoc.IH [OF this] show ?thesis using False
      by (auto simp: nth_append less_Suc_eq)
  qed
qed (simp add: rposition_def)

lemma rposition_exists: "x \<in> set xs \<Longrightarrow> P x \<Longrightarrow> \<exists>i. rposition P xs = Some i"
  by (auto simp: rposition_def in_set_conv_nth find_None_iff simp flip: not_None_eq)

text \<open>The lists that \<open>from_list\<close> accepts.\<close>

definition checkpoints_valid :: "(height \<times> block_hash) list \<Rightarrow> bool" where
  "checkpoints_valid kvs \<longleftrightarrow>
     0 \<in> fst ` set kvs \<and> distinct (map fst kvs) \<and> distinct (map snd kvs) \<and>
     null_hash \<notin> snd ` set kvs \<and> (\<forall>h \<in> fst ` set kvs. h \<le> Height_MAX)"

lemma hashes_unique:
  assumes "distinct (map fst kvs)"
  shows "card (snd ` set kvs) = length kvs \<longleftrightarrow> distinct (map snd kvs)"
  using card_distinct [of "map snd kvs"] distinct_card [of "map snd kvs"] by auto

lemma starts_at_genesis:
  assumes "btree_ok m"
  shows "(case m of [] \<Rightarrow> False | (h0, _) # _ \<Rightarrow> h0 = (0 :: nat)) \<longleftrightarrow> 0 \<in> fst ` set m"
  using assms by (cases m) (auto split: prod.splits dest!: bspec)

lemma from_list_total:
  "\<exists>r. from_list kvs = Done r \<and> (checkpoints_valid kvs \<longleftrightarrow> (\<exists>cl. r = Inr cl)) \<and>
       (\<forall>cl. r = Inr cl \<longrightarrow>
          btree_ok cl \<and> set cl = set kvs \<and>
          (\<forall>h hash. checkpoint_hash cl h = Some hash \<longleftrightarrow> (h, hash) \<in> set kvs))"
proof -
  let ?m = "btree_collect kvs"
  have ok: "btree_ok ?m" and keys: "fst ` set ?m = fst ` set kvs"
    using keys_btree_extend [of "[]" kvs] by (simp_all add: btree_ok_extend)
  show ?thesis
  proof (cases "0 \<in> fst ` set kvs \<and> distinct (map fst kvs)")
    case False
    then show ?thesis
      using starts_at_genesis [OF ok] keys btree_collect_length [of kvs]
      by (cases ?m) (auto simp: from_list_def Let_def checkpoints_valid_def)
  next
    case True
    then have set_m: "set ?m = set kvs" and len: "length ?m = length kvs"
      using btree_extend_distinct [of "[]" kvs] btree_collect_length [of kvs] by auto
    obtain v0 m' where m: "?m = (0, v0) # m'"
      using iffD2 [OF starts_at_genesis [OF ok]] keys True by (auto split: list.splits)
    then have ne: "?m \<noteq> []" by simp
    have "fst (last ?m) \<in> fst ` set kvs" using last_in_set [OF ne] set_m by auto
    then have max: "fst (last ?m) > Height_MAX \<longleftrightarrow> \<not> (\<forall>h \<in> fst ` set kvs. h \<le> Height_MAX)"
      using btree_last_max [OF ok] set_m by (fastforce simp: not_le [symmetric])
    have "from_list kvs = Done r \<longleftrightarrow>
      r = (if \<not> distinct (map snd kvs) then Inl ''checkpoint hashes must be unique''
           else if null_hash \<in> snd ` set kvs
           then Inl ''checkpoint list contains invalid checkpoint hash: found null hash''
           else if fst (last ?m) > Height_MAX
           then Inl ''checkpoint list contains invalid checkpoint: checkpoint height is greater than the maximum block height''
           else Inr ?m)" for r
      unfolding from_list_def Let_def set_m
      using m len max_height_nonempty [OF ne] hashes_unique [of kvs] True by auto
    moreover have "checkpoint_hash ?m h = Some hash \<longleftrightarrow> (h, hash) \<in> set kvs" for h hash
      using btree_ok_distinct [OF ok] set_m by (simp add: checkpoint_hash_def)
    ultimately show ?thesis
      using True ok set_m max by (simp add: checkpoints_valid_def)
  qed
qed

lemma find_rev_rposition: "find P (rev xs) = map_option ((!) xs) (rposition P xs)"
proof (induction xs rule: rev_induct)
  case (snoc x xs)
  have c: "find (\<lambda>i. P ((xs @ [x]) ! i)) (rev [0..<length xs]) = rposition P xs"
    unfolding rposition_def by (rule find_cong) (auto simp: nth_append)
  have "map_option ((!) (xs @ [x])) (rposition P xs) = map_option ((!) xs) (rposition P xs)"
    using rposition_Some [of P xs] by (cases "rposition P xs") (simp_all add: nth_append)
  then show ?case using snoc c by (simp add: rposition_def)
qed (simp add: rposition_def)

lemma rposition_map: "rposition P (map f xs) = rposition (\<lambda>x. P (f x)) xs"
  unfolding rposition_def by (auto intro!: find_cong)

section \<open>Properties\<close>

text \<open>Building a checkpoint list never panics, and it succeeds exactly when the entries contain a genesis
  checkpoint, have distinct heights and distinct hashes, contain no null hash and stay within the
  height limit; the list then holds exactly the given checkpoints in increasing height order.\<close>

theorem checkpoint_list_accepts:
  "\<exists>r. from_list kvs = Done r \<and> (checkpoints_valid kvs \<longleftrightarrow> (\<exists>cl. r = Inr cl)) \<and>
       (\<forall>cl. r = Inr cl \<longrightarrow>
          btree_ok cl \<and> set cl = set kvs \<and>
          (\<forall>h hash. checkpoint_hash cl h = Some hash \<longleftrightarrow> (h, hash) \<in> set kvs))"
  by (rule from_list_total)

text \<open>On every checkpoint list built by \<open>from_list\<close>, \<open>prev_checkpoint_index\<close> is total and returns the
  index of the last checkpoint at or below the given height, and that checkpoint's height is
  \<open>max_height_in_range(..=height)\<close>.\<close>

theorem prev_checkpoint_index_correct:
  assumes "from_list kvs = Done (Inr cl)"
  shows "\<exists>i. prev_checkpoint_index cl h = Done i \<and> i < checkpoint_len cl \<and> fst (cl ! i) \<le> h \<and>
             (Suc i < checkpoint_len cl \<longrightarrow> h < fst (cl ! Suc i)) \<and>
             max_height_in_range cl (\<lambda>k. k \<le> h) = Some (fst (cl ! i))"
proof -
  have cl: "btree_ok cl" "set cl = set kvs" "0 \<in> fst ` set kvs"
    using from_list_total [of kvs] assms by (auto simp: checkpoints_valid_def)
  let ?P = "\<lambda>(k, _). k \<le> h"
  obtain v0 where "(0, v0) \<in> set cl" using cl by auto
  then obtain i where i: "rposition ?P cl = Some i" using rposition_exists [of "(0, v0)" cl ?P] by auto
  note r = rposition_Some [OF i]
  have "h < fst (cl ! Suc i)" if "Suc i < length cl"
    using r that by (auto simp: case_prod_unfold not_le)
  moreover have "prev_checkpoint_index cl h = Done i"
    using i by (simp add: prev_checkpoint_index_def rposition_map case_prod_unfold)
  moreover have "max_height_in_range cl (\<lambda>k. k \<le> h) = Some (fst (cl ! i))"
    using i by (simp add: max_height_in_range_def find_rev_rposition)
  ultimately show ?thesis using r by (auto simp: checkpoint_len_def case_prod_unfold)
qed

end
