(* ===== verification/Amounts.thy ===== *)
theory Amounts
  imports Zebra_Prelude
begin

text \<open>
  Zatoshi amounts: \<open>zebra-chain/src/amount.rs\<close>.

  \<open>Amount<C>\<close> is an \<open>i64\<close> whose range is given by the marker type \<open>C\<close>. The marker is the first
  argument of every operation that validates (the datatype \<open>amount_constraint\<close>), the value is an
  \<open>int\<close>, and every \<open>checked_*\<close> or \<open>try_into\<close> step is a range test. \<open>amount_ok c a\<close> is the type
  invariant \<open>C::validate\<close> establishes. The locale \<open>money_range\<close> is the contract the operations
  need of a constraint; it is interpreted for every constraint of the source.
\<close>

section \<open>Constraints and errors\<close>

datatype amount_constraint = NegativeAllowed | NonNegative | NegativeOrZero

datatype amount = Amount (zatoshis: int)

datatype amount_error =
    Constraint int int int
  | Convert int
  | MultiplicationOverflow int int int
  | DivideByZero int
  | SumOverflow int nat

definition COIN :: int where
  "COIN = 100000000"

definition MAX_MONEY :: int where
  "MAX_MONEY = 21000000 * COIN"

fun valid_range :: "amount_constraint \<Rightarrow> int \<times> int" where
  "valid_range NegativeAllowed = (- MAX_MONEY, MAX_MONEY)"
| "valid_range NonNegative = (0, MAX_MONEY)"
| "valid_range NegativeOrZero = (- MAX_MONEY, 0)"

definition validate :: "amount_constraint \<Rightarrow> int \<Rightarrow> amount_error + int" where
  "validate c v =
     (let (lo, hi) = valid_range c
      in if \<not> (lo \<le> v \<and> v \<le> hi) then Inl (Constraint v lo hi) else Inr v)"

fun invalid_value :: "amount_error \<Rightarrow> int" where
  "invalid_value (Constraint v lo hi) = v"
| "invalid_value (Convert v) = v"
| "invalid_value (MultiplicationOverflow a m r) = r"
| "invalid_value (DivideByZero a) = a"
| "invalid_value (SumOverflow p n) = p"

section \<open>Conversions\<close>

definition amount_try_from_i64 :: "amount_constraint \<Rightarrow> int \<Rightarrow> amount_error + amount" where
  "amount_try_from_i64 c v = res_bind (validate c v) (\<lambda>v'. Inr (Amount v'))"

definition amount_try_from_u64 :: "amount_constraint \<Rightarrow> int \<Rightarrow> amount_error + amount" where
  "amount_try_from_u64 c v =
     res_bind (ok_or (Convert v) (checked_i64 v)) (\<lambda>v'. amount_try_from_i64 c v')"

definition amount_try_from_i128 :: "amount_constraint \<Rightarrow> int \<Rightarrow> amount_error + amount" where
  "amount_try_from_i128 c v =
     res_bind (ok_or (Convert v) (checked_i64 v)) (\<lambda>v'. amount_try_from_i64 c v')"

definition amount_constrain :: "amount_constraint \<Rightarrow> amount \<Rightarrow> amount_error + amount" where
  "amount_constrain c2 a = amount_try_from_i64 c2 (zatoshis a)"

definition amount_new :: "int \<Rightarrow> amount outcome" where
  "amount_new z = run_bind (assert_that (z \<le> MAX_MONEY \<and> z \<ge> 0)) (\<lambda>_. Done (Amount z))"

definition amount_new_from_zec :: "int \<Rightarrow> amount outcome" where
  "amount_new_from_zec zec = run_bind (expect_some (checked_i64 (zec * COIN))) amount_new"

definition amount_zero :: "amount_constraint \<Rightarrow> amount outcome" where
  "amount_zero c = expect_ok (amount_try_from_i64 c 0)"

definition amount_is_zero :: "amount \<Rightarrow> bool" where
  "amount_is_zero a \<longleftrightarrow> zatoshis a = 0"

definition amount_to_u64 :: "amount \<Rightarrow> int outcome" where
  "amount_to_u64 a = (if in_u64 (zatoshis a) then Done (zatoshis a) else Panic)"

section \<open>Arithmetic\<close>

definition amount_add :: "amount_constraint \<Rightarrow> amount \<Rightarrow> amount \<Rightarrow> (amount_error + amount) outcome" where
  "amount_add c a b =
     run_bind (expect_some (checked_i64 (zatoshis a + zatoshis b)))
       (\<lambda>v. Done (amount_try_from_i64 c v))"

definition amount_sub :: "amount_constraint \<Rightarrow> amount \<Rightarrow> amount \<Rightarrow> (amount_error + amount) outcome" where
  "amount_sub c a b =
     run_bind (expect_some (checked_i64 (zatoshis a - zatoshis b)))
       (\<lambda>v. Done (amount_try_from_i64 c v))"

text \<open>\<open>Result<Amount<C>> + Amount<C>\<close>, \<open>Amount<C> + Result<Amount<C>>\<close> and \<open>+=\<close>: an error on either
  side is returned unchanged.\<close>

definition amount_result_add ::
  "amount_constraint \<Rightarrow> amount_error + amount \<Rightarrow> amount \<Rightarrow> (amount_error + amount) outcome" where
  "amount_result_add c r b = try_bind (Done r) (\<lambda>a. amount_add c a b)"

definition amount_add_result ::
  "amount_constraint \<Rightarrow> amount \<Rightarrow> amount_error + amount \<Rightarrow> (amount_error + amount) outcome" where
  "amount_add_result c a r = try_bind (Done r) (\<lambda>b. amount_add c a b)"

definition amount_add_assign ::
  "amount_constraint \<Rightarrow> amount_error + amount \<Rightarrow> amount \<Rightarrow> (amount_error + amount) outcome" where
  "amount_add_assign c r b = (case r of Inr lhs \<Rightarrow> amount_add c lhs b | Inl e \<Rightarrow> Done r)"

definition amount_result_sub ::
  "amount_constraint \<Rightarrow> amount_error + amount \<Rightarrow> amount \<Rightarrow> (amount_error + amount) outcome" where
  "amount_result_sub c r b = try_bind (Done r) (\<lambda>a. amount_sub c a b)"

definition amount_sub_result ::
  "amount_constraint \<Rightarrow> amount \<Rightarrow> amount_error + amount \<Rightarrow> (amount_error + amount) outcome" where
  "amount_sub_result c a r = try_bind (Done r) (\<lambda>b. amount_sub c a b)"

definition amount_sub_assign ::
  "amount_constraint \<Rightarrow> amount_error + amount \<Rightarrow> amount \<Rightarrow> (amount_error + amount) outcome" where
  "amount_sub_assign c r b = (case r of Inr lhs \<Rightarrow> amount_sub c lhs b | Inl e \<Rightarrow> Done r)"

definition amount_checked_sub :: "amount \<Rightarrow> amount \<Rightarrow> amount option" where
  "amount_checked_sub a b =
     (case checked_i64 (zatoshis a - zatoshis b) of
        None \<Rightarrow> None
      | Some v \<Rightarrow> res_ok (amount_try_from_i64 NegativeAllowed v))"

definition amount_mul :: "amount_constraint \<Rightarrow> amount \<Rightarrow> int \<Rightarrow> (amount_error + amount) outcome" where
  "amount_mul c a rhs =
     run_bind (if in_i128 (zatoshis a * rhs) then Done (zatoshis a * rhs) else Panic)
       (\<lambda>v. Done (map_err (\<lambda>_. MultiplicationOverflow (zatoshis a) rhs v)
                    (amount_try_from_i128 c v)))"

definition amount_div :: "amount_constraint \<Rightarrow> amount \<Rightarrow> int \<Rightarrow> (amount_error + amount) outcome" where
  "amount_div c a rhs =
     (if rhs = 0 then Done (Inl (DivideByZero (zatoshis a)))
      else run_bind (expect_ok (amount_try_from_i128 c (rust_div (zatoshis a) rhs)))
             (\<lambda>q. Done (Inr q)))"

definition amount_div_exact :: "amount \<Rightarrow> int \<Rightarrow> amount outcome" where
  "amount_div_exact a rhs =
     run_bind (expect_some (if rhs = 0 then None else checked_i64 (rust_div (zatoshis a) rhs)))
       (\<lambda>result. if zatoshis a - rhs * rust_div (zatoshis a) rhs \<noteq> 0 then Panic
                 else Done (Amount result))"

definition amount_neg :: "amount \<Rightarrow> amount outcome" where
  "amount_neg a = expect_ok (amount_try_from_i64 NegativeAllowed (wrap_i64 (- zatoshis a)))"

text \<open>\<open>Sum\<close>: a \<open>try_fold\<close> that stops at the first overflow and counts the items it did not read.\<close>

fun amount_try_fold ::
  "amount_constraint \<Rightarrow> amount \<Rightarrow> amount list \<Rightarrow> ((amount_error \<times> nat) + amount) outcome" where
  "amount_try_fold c acc [] = Done (Inr acc)"
| "amount_try_fold c acc (x # xs) =
     run_bind (amount_add c acc x)
       (\<lambda>r. case r of Inl e \<Rightarrow> Done (Inl (e, length xs)) | Inr acc' \<Rightarrow> amount_try_fold c acc' xs)"

definition amount_sum :: "amount_constraint \<Rightarrow> amount list \<Rightarrow> (amount_error + amount) outcome" where
  "amount_sum c xs =
     run_bind (amount_zero c) (\<lambda>z. run_bind (amount_try_fold c z xs)
       (\<lambda>r. case r of
              Inr s \<Rightarrow> Done (Inr s)
            | Inl (Constraint v lo hi, remaining) \<Rightarrow> Done (Inl (SumOverflow v remaining))
            | Inl (_, remaining) \<Rightarrow> Panic))"

text \<open>Comparison ignores the constraint.\<close>

definition amount_cmp_lt :: "amount \<Rightarrow> amount \<Rightarrow> bool" where
  "amount_cmp_lt a b \<longleftrightarrow> zatoshis a < zatoshis b"

definition amount_eq :: "amount \<Rightarrow> amount \<Rightarrow> bool" where
  "amount_eq a b \<longleftrightarrow> zatoshis a = zatoshis b"

section \<open>Byte encodings\<close>

definition i64_to_le_bytes :: "int \<Rightarrow> byte list" where
  "i64_to_le_bytes z = le_bytes 8 (nat (z mod 2 ^ 64))"

definition i64_from_le_bytes :: "byte list \<Rightarrow> int" where
  "i64_from_le_bytes bs =
     (let n = int (le_nat bs) in if n < 2 ^ 63 then n else n - 2 ^ 64)"

definition amount_to_bytes :: "amount \<Rightarrow> byte list" where
  "amount_to_bytes a = i64_to_le_bytes (zatoshis a)"

definition amount_from_bytes :: "amount_constraint \<Rightarrow> byte list \<Rightarrow> amount_error + amount" where
  "amount_from_bytes c bs = amount_try_from_i64 c (i64_from_le_bytes bs)"

datatype serialization_error =
    Io
  | Parse string
  | Utf8Error
  | TryFromSliceError
  | TryFromIntError
  | FromHexError
  | AmountError amount_error
  | BadTransactionBalance

definition amount_zcash_serialize :: "amount \<Rightarrow> byte list" where
  "amount_zcash_serialize a = i64_to_le_bytes (zatoshis a)"

definition amount_zcash_deserialize :: "byte list \<Rightarrow> serialization_error + amount \<times> byte list" where
  "amount_zcash_deserialize bs =
     res_bind (read_bytes Io 8 bs)
       (\<lambda>(x, rest). res_bind (map_err AmountError
                       (amount_try_from_i64 NegativeAllowed (i64_from_le_bytes x)))
                     (\<lambda>a. Inr (a, rest)))"

definition nonneg_zcash_serialize :: "amount \<Rightarrow> byte list outcome" where
  "nonneg_zcash_serialize a = run_bind (amount_to_u64 a) (\<lambda>u. Done (le_bytes 8 (nat u)))"

definition nonneg_zcash_deserialize :: "byte list \<Rightarrow> serialization_error + amount \<times> byte list" where
  "nonneg_zcash_deserialize bs =
     res_bind (read_bytes Io 8 bs)
       (\<lambda>(x, rest). res_bind (map_err AmountError (amount_try_from_u64 NonNegative (int (le_nat x))))
                     (\<lambda>a. Inr (a, rest)))"

text \<open>The change a coinbase transaction makes to the deferred pool.\<close>

datatype deferred_pool_balance_change = DeferredPoolBalanceChange (deferred_value: amount)

definition deferred_zero :: "deferred_pool_balance_change outcome" where
  "deferred_zero = run_bind (amount_zero NegativeAllowed) (\<lambda>z. Done (DeferredPoolBalanceChange z))"

section \<open>The type invariant\<close>

definition range_lo :: "amount_constraint \<Rightarrow> int" where
  "range_lo c = fst (valid_range c)"

definition range_hi :: "amount_constraint \<Rightarrow> int" where
  "range_hi c = snd (valid_range c)"

definition amount_ok :: "amount_constraint \<Rightarrow> amount \<Rightarrow> bool" where
  "amount_ok c a \<longleftrightarrow> range_lo c \<le> zatoshis a \<and> zatoshis a \<le> range_hi c"

lemma MAX_MONEY_value: "MAX_MONEY = 2100000000000000"
  by (simp add: MAX_MONEY_def COIN_def)

lemma validate_cases:
  "validate c v =
     (if range_lo c \<le> v \<and> v \<le> range_hi c then Inr v else Inl (Constraint v (range_lo c) (range_hi c)))"
  by (auto simp: validate_def range_lo_def range_hi_def split: prod.splits)

lemma try_from_i64_cases:
  "amount_try_from_i64 c v =
     (if range_lo c \<le> v \<and> v \<le> range_hi c then Inr (Amount v)
      else Inl (Constraint v (range_lo c) (range_hi c)))"
  by (simp add: amount_try_from_i64_def validate_cases)

lemma try_from_i64_ok: "amount_try_from_i64 c v = Inr a \<longleftrightarrow> a = Amount v \<and> amount_ok c a"
  by (auto simp: try_from_i64_cases amount_ok_def)

lemma amount_ok_Amount [simp]: "amount_ok c (Amount v) \<longleftrightarrow> range_lo c \<le> v \<and> v \<le> range_hi c"
  by (simp add: amount_ok_def)

text \<open>What the operations need of a constraint: a range around zero, inside the money range.\<close>

locale money_range =
  fixes c :: amount_constraint
  assumes lo_nonpos: "range_lo c \<le> 0"
    and hi_nonneg: "0 \<le> range_hi c"
    and lo_money: "- MAX_MONEY \<le> range_lo c"
    and hi_money: "range_hi c \<le> MAX_MONEY"
begin

lemmas range_facts = lo_nonpos hi_nonneg lo_money hi_money MAX_MONEY_value

lemma ok_in_i64: "amount_ok c a \<Longrightarrow> in_i64 (zatoshis a)"
  using range_facts by (auto simp: amount_ok_def in_i64_def)

lemma add_in_i64: "amount_ok c a \<Longrightarrow> amount_ok c b \<Longrightarrow> in_i64 (zatoshis a + zatoshis b)"
  using range_facts by (auto simp: amount_ok_def in_i64_def)

lemma sub_in_i64: "amount_ok c a \<Longrightarrow> amount_ok c b \<Longrightarrow> in_i64 (zatoshis a - zatoshis b)"
  using range_facts by (auto simp: amount_ok_def in_i64_def)

lemma add_done:
  "amount_ok c a \<Longrightarrow> amount_ok c b \<Longrightarrow>
   amount_add c a b = Done (amount_try_from_i64 c (zatoshis a + zatoshis b))"
  by (simp add: amount_add_def add_in_i64)

lemma sub_done:
  "amount_ok c a \<Longrightarrow> amount_ok c b \<Longrightarrow>
   amount_sub c a b = Done (amount_try_from_i64 c (zatoshis a - zatoshis b))"
  by (simp add: amount_sub_def sub_in_i64)

lemma zero_done: "amount_zero c = Done (Amount 0)"
  using lo_nonpos hi_nonneg by (simp add: amount_zero_def try_from_i64_cases)

lemma neg_done: "amount_ok c a \<Longrightarrow> amount_neg a = Done (Amount (- zatoshis a))"
proof -
  assume ok: "amount_ok c a"
  then have r: "- MAX_MONEY \<le> - zatoshis a \<and> - zatoshis a \<le> MAX_MONEY"
    using range_facts by (auto simp: amount_ok_def)
  then have "wrap_i64 (- zatoshis a) = - zatoshis a"
    using MAX_MONEY_value by (intro wrap_i64_id) (auto simp: in_i64_def)
  then show ?thesis
    using r by (simp add: amount_neg_def try_from_i64_cases range_lo_def range_hi_def)
qed

lemma mul_in_i128:
  assumes "amount_ok c a" and "in_u64 k"
  shows "in_i128 (zatoshis a * k)"
proof -
  have a: "- (2 ^ 62) \<le> zatoshis a" "zatoshis a \<le> 2 ^ 62"
    using assms(1) range_facts by (auto simp: amount_ok_def)
  have k: "0 \<le> k" "k \<le> 2 ^ 64" using assms(2) by (auto simp: in_u64_def)
  have "\<bar>zatoshis a * k\<bar> \<le> 2 ^ 62 * 2 ^ 64"
    using a k mult_mono [of "\<bar>zatoshis a\<bar>" "2 ^ 62" "\<bar>k\<bar>" "2 ^ 64"] by (auto simp: abs_mult)
  then show ?thesis by (auto simp: in_i128_def)
qed

lemma div_in_range:
  assumes "amount_ok c a" and "0 < k"
  shows "range_lo c \<le> rust_div (zatoshis a) k \<and> rust_div (zatoshis a) k \<le> range_hi c"
proof (rule rust_div_bounds [OF lo_nonpos hi_nonneg])
  show "range_lo c \<le> zatoshis a" "zatoshis a \<le> range_hi c" "0 < k"
    using assms by (simp_all add: amount_ok_def)
qed

lemma div_done:
  assumes "amount_ok c a" and "in_u64 k" and "k \<noteq> 0"
  shows "amount_div c a k = Done (Inr (Amount (rust_div (zatoshis a) k)))"
proof -
  let ?q = "rust_div (zatoshis a) k"
  have q: "range_lo c \<le> ?q \<and> ?q \<le> range_hi c"
    using assms div_in_range by (auto simp: in_u64_def)
  then have "in_i64 ?q" using range_facts by (auto simp: in_i64_def)
  then show ?thesis using q assms(3)
    by (simp add: amount_div_def amount_try_from_i128_def try_from_i64_cases)
qed

lemma fold_cases:
  assumes "amount_ok c acc" and "list_all (amount_ok c) xs"
  shows "((\<forall>i \<le> length xs. amount_ok c (Amount (zatoshis acc + sum_list (map zatoshis (take i xs))))) \<and>
          amount_try_fold c acc xs = Done (Inr (Amount (zatoshis acc + sum_list (map zatoshis xs))))) \<or>
         (\<exists>pre x post. xs = pre @ x # post \<and>
            (\<forall>i \<le> length pre. amount_ok c (Amount (zatoshis acc + sum_list (map zatoshis (take i xs))))) \<and>
            \<not> amount_ok c (Amount (zatoshis acc + sum_list (map zatoshis (pre @ [x])))) \<and>
            amount_try_fold c acc xs =
              Done (Inl (Constraint (zatoshis acc + sum_list (map zatoshis (pre @ [x])))
                           (range_lo c) (range_hi c), length post)))"
  using assms
proof (induction xs arbitrary: acc)
  case Nil
  then show ?case by (auto simp: amount_ok_def)
next
  case (Cons x xs)
  let ?s = "zatoshis acc + zatoshis x"
  have acc: "amount_ok c (Amount (zatoshis acc))"
    using Cons.prems(1) by (simp add: amount_ok_def)
  show ?case
  proof (cases "amount_ok c (Amount ?s)")
    case True
    then have step: "amount_try_fold c acc (x # xs) = amount_try_fold c (Amount ?s) xs"
      using Cons.prems by (simp add: add_done try_from_i64_cases)
    have "list_all (amount_ok c) xs" using Cons.prems by simp
    from Cons.IH [OF True this] show ?thesis
    proof (elim disjE exE conjE)
      assume all: "\<forall>i\<le>length xs. amount_ok c (Amount (zatoshis (Amount ?s) + sum_list (map zatoshis (take i xs))))"
        and fin: "amount_try_fold c (Amount ?s) xs =
          Done (Inr (Amount (zatoshis (Amount ?s) + sum_list (map zatoshis xs))))"
      have "amount_ok c (Amount (zatoshis acc + sum_list (map zatoshis (take i (x # xs)))))"
        if "i \<le> length (x # xs)" for i
        using all acc that by (cases i) (auto simp: add.assoc)
      then show ?thesis using fin step by (simp add: add.assoc)
    next
      fix pre y post
      assume xs: "xs = pre @ y # post"
        and all: "\<forall>i\<le>length pre. amount_ok c (Amount (zatoshis (Amount ?s) + sum_list (map zatoshis (take i xs))))"
        and bad: "\<not> amount_ok c (Amount (zatoshis (Amount ?s) + sum_list (map zatoshis (pre @ [y]))))"
        and fail: "amount_try_fold c (Amount ?s) xs =
          Done (Inl (Constraint (zatoshis (Amount ?s) + sum_list (map zatoshis (pre @ [y])))
                       (range_lo c) (range_hi c), length post))"
      have "amount_ok c (Amount (zatoshis acc + sum_list (map zatoshis (take i (x # xs)))))"
        if "i \<le> length (x # pre)" for i
        using all acc that by (cases i) (auto simp: add.assoc)
      moreover have "x # xs = (x # pre) @ y # post" using xs by simp
      ultimately show ?thesis using bad fail step
        by (intro disjI2 exI [of _ "x # pre"] exI [of _ y] exI [of _ post]) (simp add: add.assoc)
    qed
  next
    case False
    then have "amount_try_fold c acc (x # xs) =
        Done (Inl (Constraint ?s (range_lo c) (range_hi c), length xs))"
      using Cons.prems by (auto simp: add_done try_from_i64_cases)
    then show ?thesis using False acc
      by (intro disjI2 exI [of _ "[]"] exI [of _ x] exI [of _ xs]) simp
  qed
qed

lemma sum_of_fold:
  "amount_sum c xs =
     run_bind (amount_try_fold c (Amount 0) xs)
       (\<lambda>r. case r of
              Inr s \<Rightarrow> Done (Inr s)
            | Inl (Constraint v lo hi, remaining) \<Rightarrow> Done (Inl (SumOverflow v remaining))
            | Inl (_, remaining) \<Rightarrow> Panic)"
  by (simp add: amount_sum_def zero_done)

end

interpretation constraints: money_range c for c
  by unfold_locales (cases c; simp add: range_lo_def range_hi_def MAX_MONEY_value)+

lemma neg_constraint_range [simp]:
  "range_lo NegativeAllowed = - MAX_MONEY" "range_hi NegativeAllowed = MAX_MONEY"
  "range_lo NonNegative = 0" "range_hi NonNegative = MAX_MONEY"
  "range_lo NegativeOrZero = - MAX_MONEY" "range_hi NegativeOrZero = 0"
  by (simp_all add: range_lo_def range_hi_def)

lemma amount_ok_widen: "amount_ok c a \<Longrightarrow> amount_ok NegativeAllowed a"
  using constraints.lo_money [of c] constraints.hi_money [of c] by (auto simp: amount_ok_def)

lemma amount_constrain_widen: "amount_ok c a \<Longrightarrow> amount_constrain NegativeAllowed a = Inr a"
  using amount_ok_widen [of c a] by (auto simp: amount_constrain_def try_from_i64_ok)

lemma amount_add_result_ok: "amount_add c a b = Done (Inr s) \<Longrightarrow> amount_ok c s"
  by (auto simp: amount_add_def outcome_simps try_from_i64_ok)

lemma amount_sub_result_ok: "amount_sub c a b = Done (Inr s) \<Longrightarrow> amount_ok c s"
  by (auto simp: amount_sub_def outcome_simps try_from_i64_ok)

section \<open>Encodings are inverse\<close>

lemma mod_pos_neg_trivial_i64: "- (2 ^ 64) \<le> z \<Longrightarrow> z < 0 \<Longrightarrow> z mod 2 ^ 64 = z + (2 ^ 64 :: int)"
  using mod_add_self2 [of z "2 ^ 64"] mod_pos_pos_trivial [of "z + 2 ^ 64" "2 ^ 64"] by linarith

lemma i64_le_roundtrip: "in_i64 z \<Longrightarrow> i64_from_le_bytes (i64_to_le_bytes z) = z"
proof -
  assume z: "in_i64 z"
  have le: "int (le_nat (i64_to_le_bytes z)) = z mod 2 ^ 64"
    by (simp add: i64_to_le_bytes_def codec_simps nat_less_iff)
  show ?thesis
  proof (cases "0 \<le> z")
    case True
    then have "z mod 2 ^ 64 = z" using z by (simp add: in_i64_def)
    then show ?thesis using z le by (simp add: i64_from_le_bytes_def in_i64_def)
  next
    case False
    then have "z mod 2 ^ 64 = z + 2 ^ 64"
      using z by (intro mod_pos_neg_trivial_i64) (auto simp: in_i64_def)
    then show ?thesis using z False le by (simp add: i64_from_le_bytes_def in_i64_def)
  qed
qed

lemma i64_le_roundtrip_bytes: "length bs = 8 \<Longrightarrow> i64_to_le_bytes (i64_from_le_bytes bs) = bs"
proof -
  assume len: "length bs = 8"
  have "le_nat bs < 2 ^ 64" using le_nat_bound [of bs] len by simp
  then have "nat (i64_from_le_bytes bs mod 2 ^ 64) = le_nat bs"
    by (auto simp: i64_from_le_bytes_def Let_def)
  then show ?thesis using len le_bytes_le_nat [of bs] by (simp add: i64_to_le_bytes_def)
qed

lemma length_i64_to_le_bytes [simp]: "length (i64_to_le_bytes z) = 8"
  by (simp add: i64_to_le_bytes_def)

lemma length_amount_to_bytes [simp]: "length (amount_to_bytes a) = 8"
  by (simp add: amount_to_bytes_def)

lemma amount_bytes_roundtrip_ok [codec_simps]:
  "amount_ok c a \<Longrightarrow> amount_from_bytes c (amount_to_bytes a) = Inr a"
  using constraints.ok_in_i64 [of c a]
  by (cases a) (simp add: amount_from_bytes_def amount_to_bytes_def i64_le_roundtrip try_from_i64_cases)

lemma amount_from_bytes_ok:
  "amount_from_bytes c bs = Inr a \<Longrightarrow> amount_ok c a"
  by (auto simp: amount_from_bytes_def try_from_i64_ok)

lemma amount_to_from_bytes:
  "length bs = 8 \<Longrightarrow> amount_from_bytes c bs = Inr a \<Longrightarrow> amount_to_bytes a = bs"
  by (auto simp: amount_from_bytes_def amount_to_bytes_def try_from_i64_ok i64_le_roundtrip_bytes)

interpretation amount_codec: fixed_codec amount_to_bytes "amount_from_bytes c" 8 "amount_ok c" for c
  by unfold_locales
    (auto simp: amount_bytes_roundtrip_ok amount_from_bytes_ok amount_to_from_bytes)

section \<open>Properties\<close>

text \<open>Adding or subtracting two amounts that satisfy a constraint never panics, and returns the
  exact sum or difference when it satisfies the constraint and the constraint error with the exact
  value otherwise.\<close>

theorem amount_add_sub_exact:
  assumes "amount_ok c a" and "amount_ok c b"
  shows "amount_add c a b =
           Done (if amount_ok c (Amount (zatoshis a + zatoshis b)) then Inr (Amount (zatoshis a + zatoshis b))
                 else Inl (Constraint (zatoshis a + zatoshis b) (range_lo c) (range_hi c))) \<and>
         amount_sub c a b =
           Done (if amount_ok c (Amount (zatoshis a - zatoshis b)) then Inr (Amount (zatoshis a - zatoshis b))
                 else Inl (Constraint (zatoshis a - zatoshis b) (range_lo c) (range_hi c)))"
  using assms by (simp_all add: constraints.add_done constraints.sub_done try_from_i64_cases)

theorem amount_add_sub_exact_witness:
  "amount_add NonNegative (Amount 3) (Amount 4) = Done (Inr (Amount 7)) \<and>
   amount_sub NonNegative (Amount 3) (Amount 4) = Done (Inl (Constraint (- 1) 0 2100000000000000))"
  using amount_add_sub_exact [of NonNegative "Amount 3" "Amount 4"]
  by (simp add: MAX_MONEY_value)

text \<open>Summing a list of valid amounts never panics. It succeeds exactly when every prefix sum
  satisfies the constraint, and then returns the exact total; otherwise it reports the first prefix
  sum that leaves the range, with the number of items after it.\<close>

theorem amount_sum_exact:
  assumes "list_all (amount_ok c) xs"
  shows "((\<forall>i \<le> length xs. amount_ok c (Amount (sum_list (map zatoshis (take i xs))))) \<and>
          amount_sum c xs = Done (Inr (Amount (sum_list (map zatoshis xs))))) \<or>
         (\<exists>pre x post. xs = pre @ x # post \<and>
            (\<forall>i \<le> length pre. amount_ok c (Amount (sum_list (map zatoshis (take i xs))))) \<and>
            \<not> amount_ok c (Amount (sum_list (map zatoshis (pre @ [x])))) \<and>
            amount_sum c xs = Done (Inl (SumOverflow (sum_list (map zatoshis (pre @ [x]))) (length post))))"
proof -
  have z: "amount_ok c (Amount 0)" using constraints.lo_nonpos constraints.hi_nonneg by simp
  from constraints.fold_cases [OF z assms] show ?thesis
  proof (elim disjE exE conjE)
    assume "\<forall>i\<le>length xs. amount_ok c (Amount (zatoshis (Amount 0) + sum_list (map zatoshis (take i xs))))"
      and "amount_try_fold c (Amount 0) xs = Done (Inr (Amount (zatoshis (Amount 0) + sum_list (map zatoshis xs))))"
    then show ?thesis by (intro disjI1) (simp add: constraints.sum_of_fold)
  next
    fix pre x post
    assume "xs = pre @ x # post"
      and "\<forall>i\<le>length pre. amount_ok c (Amount (zatoshis (Amount 0) + sum_list (map zatoshis (take i xs))))"
      and "\<not> amount_ok c (Amount (zatoshis (Amount 0) + sum_list (map zatoshis (pre @ [x]))))"
      and "amount_try_fold c (Amount 0) xs =
        Done (Inl (Constraint (zatoshis (Amount 0) + sum_list (map zatoshis (pre @ [x])))
                     (range_lo c) (range_hi c), length post))"
    then show ?thesis
      by (intro disjI2 exI [of _ pre] exI [of _ x] exI [of _ post]) (simp add: constraints.sum_of_fold)
  qed
qed

text \<open>Multiplying a valid amount by any 64-bit factor never panics: the result is the exact product,
  or the overflow error that reports it. Dividing by any non-zero 64-bit divisor never panics and
  returns the quotient rounded towards zero, and dividing by zero is the divide-by-zero error.\<close>

theorem amount_mul_div_exact:
  assumes "amount_ok c a" and "in_u64 k"
  shows "amount_mul c a k =
           Done (if amount_ok c (Amount (zatoshis a * k)) then Inr (Amount (zatoshis a * k))
                 else Inl (MultiplicationOverflow (zatoshis a) k (zatoshis a * k))) \<and>
         amount_div c a k =
           Done (if k = 0 then Inl (DivideByZero (zatoshis a))
                 else Inr (Amount (rust_div (zatoshis a) k))) \<and>
         (k \<noteq> 0 \<longrightarrow> amount_ok c (Amount (rust_div (zatoshis a) k)))"
proof -
  have mul: "amount_mul c a k =
           Done (if amount_ok c (Amount (zatoshis a * k)) then Inr (Amount (zatoshis a * k))
                 else Inl (MultiplicationOverflow (zatoshis a) k (zatoshis a * k)))"
  proof (cases "in_i64 (zatoshis a * k)")
    case True
    then show ?thesis
      using constraints.mul_in_i128 [OF assms]
      by (simp add: amount_mul_def amount_try_from_i128_def try_from_i64_cases)
  next
    case False
    then have "\<not> amount_ok c (Amount (zatoshis a * k))"
      using constraints.ok_in_i64 [of c "Amount (zatoshis a * k)"] by auto
    then show ?thesis
      using False constraints.mul_in_i128 [OF assms]
      by (auto simp: amount_mul_def amount_try_from_i128_def)
  qed
  have "amount_div c a 0 = Done (Inl (DivideByZero (zatoshis a)))"
    by (simp add: amount_div_def)
  moreover have "k \<noteq> 0 \<longrightarrow> 0 < k" using assms(2) by (auto simp: in_u64_def)
  ultimately show ?thesis
    using mul constraints.div_done [OF assms] constraints.div_in_range [OF assms(1)] by auto
qed

theorem amount_mul_div_exact_witness:
  "amount_mul NonNegative (Amount 7) 3 = Done (Inr (Amount 21)) \<and>
   amount_div NonNegative (Amount 7) 2 = Done (Inr (Amount 3))"
  using amount_mul_div_exact [of NonNegative "Amount 7" 3] amount_mul_div_exact [of NonNegative "Amount 7" 2]
  by (simp add: in_u64_def MAX_MONEY_value rust_div_def)

text \<open>The byte encodings of amounts are exact inverses: decoding the encoding of a valid amount
  gives it back and leaves the following bytes unread, for both the signed and the non-negative
  wire format, and eight bytes that decode at all are the encoding of what they decode to.\<close>

theorem amount_bytes_roundtrip:
  assumes "amount_ok c a"
  shows "amount_from_bytes c (amount_to_bytes a) = Inr a \<and>
         (\<forall>bs a'. length bs = 8 \<and> amount_from_bytes c bs = Inr a' \<longrightarrow> amount_to_bytes a' = bs) \<and>
         amount_zcash_deserialize (amount_zcash_serialize a @ rest) = Inr (a, rest) \<and>
         (amount_ok NonNegative a \<longrightarrow>
            (\<exists>bs. nonneg_zcash_serialize a = Done bs \<and> nonneg_zcash_deserialize (bs @ rest) = Inr (a, rest)))"
proof -
  have signed: "amount_zcash_deserialize (amount_zcash_serialize a @ rest) = Inr (a, rest)"
    using constraints.ok_in_i64 [OF assms] amount_ok_widen [OF assms]
    by (cases a) (simp add: amount_zcash_deserialize_def amount_zcash_serialize_def codec_simps
        i64_le_roundtrip try_from_i64_cases)
  have "\<exists>bs. nonneg_zcash_serialize a = Done bs \<and> nonneg_zcash_deserialize (bs @ rest) = Inr (a, rest)"
    if nn: "amount_ok NonNegative a"
  proof -
    obtain z where a: "a = Amount z" and z: "0 \<le> z" "z \<le> 2100000000000000"
      using nn by (cases a) (auto simp: MAX_MONEY_value)
    have "nonneg_zcash_serialize a = Done (le_bytes 8 (nat z))"
      using a z by (simp add: nonneg_zcash_serialize_def amount_to_u64_def in_u64_def)
    moreover have "nonneg_zcash_deserialize (le_bytes 8 (nat z) @ rest) = Inr (a, rest)"
      using a z by (simp add: nonneg_zcash_deserialize_def codec_simps amount_try_from_u64_def
          in_i64_def try_from_i64_cases MAX_MONEY_value)
    ultimately show ?thesis by blast
  qed
  then show ?thesis
    using assms signed amount_bytes_roundtrip_ok amount_to_from_bytes by blast
qed

theorem amount_bytes_roundtrip_witness:
  "amount_from_bytes NegativeAllowed (amount_to_bytes (Amount (- 5))) = Inr (Amount (- 5))"
  using amount_bytes_roundtrip [of NegativeAllowed "Amount (- 5)" "[]"] by (simp add: MAX_MONEY_value)

end
