(* ===== verification/Serialization.thy ===== *)
theory Serialization
  imports Checkpoint_Lists Amounts
begin

text \<open>
  The consensus-critical wire format: compact sizes
  (\<open>zebra-chain/src/serialization/compact_size.rs\<close>), vectors and byte strings
  (\<open>zcash_serialize.rs\<close>, \<open>zcash_deserialize.rs\<close>) and block hashes (\<open>block/hash.rs\<close>).

  A serializer is the list of bytes it writes; a deserializer returns the value and the rest of the input.
  Integers are natural numbers with the width they are written at; \<open>usize\<close> has 64 bits.

  The locale \<open>wire_codec\<close> is the contract of a \<open>ZcashSerialize\<close> and \<open>ZcashDeserialize\<close> pair: values are
  read back with the rest of the input untouched, and only canonical encodings are accepted. Vectors
  of such a type satisfy it again.
\<close>

section \<open>Contract of a wire format\<close>

fun deserialize_items ::
  "(byte list \<Rightarrow> serialization_error + 'a \<times> byte list) \<Rightarrow> nat \<Rightarrow> byte list \<Rightarrow>
   serialization_error + 'a list \<times> byte list" where
  "deserialize_items dec 0 bs = Inr ([], bs)"
| "deserialize_items dec (Suc n) bs =
     res_bind (dec bs) (\<lambda>(x, rest).
     res_bind (deserialize_items dec n rest) (\<lambda>(xs, rest'). Inr (x # xs, rest')))"

locale wire_codec =
  fixes enc :: "'a \<Rightarrow> byte list"
    and dec :: "byte list \<Rightarrow> serialization_error + 'a \<times> byte list"
    and ok :: "'a \<Rightarrow> bool"
  assumes read_back: "ok x \<Longrightarrow> dec (enc x @ rest) = Inr (x, rest)"
    and canonical: "dec bs = Inr (x, rest) \<Longrightarrow> ok x \<and> bs = enc x @ rest"
begin

lemma read_iff: "dec bs = Inr (x, rest) \<longleftrightarrow> ok x \<and> bs = enc x @ rest"
  using read_back canonical by blast

lemma unambiguous:
  assumes "ok x" and "ok y" and "enc x @ r = enc y @ s"
  shows "x = y \<and> r = s"
proof -
  have "Inr (x, r) = dec (enc y @ s)" using read_back [OF assms(1), of r] unfolding assms(3) by (rule sym)
  also have "\<dots> = Inr (y, s)" using assms(2) by (rule read_back)
  finally show ?thesis by simp
qed

lemma items_iff:
  "deserialize_items dec n bs = Inr (xs, rest) \<longleftrightarrow>
   length xs = n \<and> list_all ok xs \<and> bs = concat (map enc xs) @ rest"
proof (induction n arbitrary: bs xs)
  case (Suc n)
  have "deserialize_items dec (Suc n) bs = Inr (xs, rest) \<longleftrightarrow>
        (\<exists>x ys r. dec bs = Inr (x, r) \<and> deserialize_items dec n r = Inr (ys, rest) \<and> xs = x # ys)"
    by (auto simp: res_bind_Inr_iff split: prod.splits)
  also have "\<dots> \<longleftrightarrow> (\<exists>x ys. ok x \<and> length ys = n \<and> list_all ok ys \<and> xs = x # ys \<and>
                   bs = enc x @ concat (map enc ys) @ rest)"
    unfolding read_iff Suc.IH by blast
  also have "\<dots> \<longleftrightarrow> length xs = Suc n \<and> list_all ok xs \<and> bs = concat (map enc xs) @ rest"
    by (cases xs) auto
  finally show ?case .
qed auto

end

section \<open>Integers and compact sizes\<close>

definition MAX_PROTOCOL_MESSAGE_LEN :: nat where
  "MAX_PROTOCOL_MESSAGE_LEN = 2 * 1024 * 1024"

definition write_uint :: "nat \<Rightarrow> nat \<Rightarrow> byte list" where
  "write_uint width n = le_bytes width n"

definition read_uint :: "nat \<Rightarrow> byte list \<Rightarrow> serialization_error + nat \<times> byte list" where
  "read_uint width bs =
     res_bind (read_bytes Io width bs) (\<lambda>(x, rest). Inr (le_nat x, rest))"

definition compact_size64_serialize :: "nat \<Rightarrow> byte list" where
  "compact_size64_serialize n =
     (if n \<le> 0xfc then write_uint 1 n
      else if n \<le> 0xffff then write_uint 1 0xfd @ write_uint 2 n
      else if n \<le> 0xffffffff then write_uint 1 0xfe @ write_uint 4 n
      else write_uint 1 0xff @ write_uint 8 n)"

definition compact_size64_deserialize :: "byte list \<Rightarrow> serialization_error + nat \<times> byte list" where
  "compact_size64_deserialize bs =
     res_bind (read_uint 1 bs) (\<lambda>(flag_byte, rest).
       if flag_byte \<le> 0xfc then Inr (flag_byte, rest)
       else if flag_byte = 0xfd then
         res_bind (read_uint 2 rest) (\<lambda>(n, rest').
           if 0xfd \<le> n then Inr (n, rest') else Inl (Parse ''non-canonical CompactSize''))
       else if flag_byte = 0xfe then
         res_bind (read_uint 4 rest) (\<lambda>(n, rest').
           if 0x10000 \<le> n then Inr (n, rest') else Inl (Parse ''non-canonical CompactSize''))
       else
         res_bind (read_uint 8 rest) (\<lambda>(n, rest').
           if 0x100000000 \<le> n then Inr (n, rest') else Inl (Parse ''non-canonical CompactSize'')))"

definition compact_size_message_try_from :: "nat \<Rightarrow> serialization_error + nat" where
  "compact_size_message_try_from sz =
     (if 2 ^ 32 \<le> sz then Inl TryFromIntError
      else if sz > MAX_PROTOCOL_MESSAGE_LEN
      then Inl (Parse ''CompactSize larger than protocol message limit'')
      else Inr sz)"

definition compact_size_message_serialize :: "nat \<Rightarrow> byte list outcome" where
  "compact_size_message_serialize n =
     run_bind (assert_that (n \<le> MAX_PROTOCOL_MESSAGE_LEN)) (\<lambda>_. Done (compact_size64_serialize n))"

definition compact_size_message_deserialize :: "byte list \<Rightarrow> serialization_error + nat \<times> byte list" where
  "compact_size_message_deserialize bs =
     res_bind (compact_size64_deserialize bs) (\<lambda>(n, rest).
     res_bind (compact_size_message_try_from n) (\<lambda>sz. Inr (sz, rest)))"

section \<open>Vectors and byte strings\<close>

definition MAX_U8_ALLOCATION :: nat where
  "MAX_U8_ALLOCATION = MAX_PROTOCOL_MESSAGE_LEN - 5"

definition zcash_serialize_external_count :: "('a \<Rightarrow> byte list) \<Rightarrow> 'a list \<Rightarrow> byte list" where
  "zcash_serialize_external_count enc xs = concat (map enc xs)"

definition vec_zcash_serialize :: "('a \<Rightarrow> byte list) \<Rightarrow> 'a list \<Rightarrow> byte list outcome" where
  "vec_zcash_serialize enc xs =
     run_bind (expect_ok (compact_size_message_try_from (length xs))) (\<lambda>len.
     run_bind (compact_size_message_serialize len) (\<lambda>prefix.
       Done (prefix @ zcash_serialize_external_count enc xs)))"

definition zcash_deserialize_external_count ::
  "(byte list \<Rightarrow> serialization_error + 'a \<times> byte list) \<Rightarrow> nat \<Rightarrow> nat \<Rightarrow> byte list \<Rightarrow>
   serialization_error + 'a list \<times> byte list" where
  "zcash_deserialize_external_count dec max_allocation external_count bs =
     (if external_count > max_allocation then Inl (Parse ''Vector longer than max_allocation'')
      else deserialize_items dec external_count bs)"

definition vec_zcash_deserialize ::
  "(byte list \<Rightarrow> serialization_error + 'a \<times> byte list) \<Rightarrow> nat \<Rightarrow> byte list \<Rightarrow>
   serialization_error + 'a list \<times> byte list" where
  "vec_zcash_deserialize dec max_allocation bs =
     res_bind (compact_size_message_deserialize bs) (\<lambda>(len, rest).
       zcash_deserialize_external_count dec max_allocation len rest)"

text \<open>An \<open>io::Error\<close> made from a failed length conversion is only known to be an error.\<close>

definition zcash_serialize_bytes :: "byte list \<Rightarrow> (unit + byte list) outcome" where
  "zcash_serialize_bytes bs =
     (case compact_size_message_try_from (length bs) of
        Inl _ \<Rightarrow> Done (Inl ())
      | Inr len \<Rightarrow> run_bind (compact_size_message_serialize len) (\<lambda>prefix. Done (Inr (prefix @ bs))))"

definition zcash_deserialize_bytes_external_count ::
  "nat \<Rightarrow> byte list \<Rightarrow> serialization_error + byte list \<times> byte list" where
  "zcash_deserialize_bytes_external_count external_count bs =
     (if external_count > MAX_U8_ALLOCATION
      then Inl (Parse ''Byte vector longer than MAX_U8_ALLOCATION'')
      else read_bytes Io external_count bs)"

definition bytes_zcash_deserialize :: "byte list \<Rightarrow> serialization_error + byte list \<times> byte list" where
  "bytes_zcash_deserialize bs =
     res_bind (compact_size_message_deserialize bs) (\<lambda>(len, rest).
       zcash_deserialize_bytes_external_count len rest)"

definition hash_zcash_serialize :: "block_hash \<Rightarrow> byte list" where
  "hash_zcash_serialize hash = hash"

definition hash_zcash_deserialize :: "byte list \<Rightarrow> serialization_error + block_hash \<times> byte list" where
  "hash_zcash_deserialize bs = read_bytes Io 32 bs"

section \<open>Lemmas\<close>

lemma length_write_uint [simp]: "length (write_uint w n) = w"
  by (simp add: write_uint_def)

lemma read_uint_iff:
  "read_uint w bs = Inr (n, rest) \<longleftrightarrow> n < 256 ^ w \<and> bs = write_uint w n @ rest"
proof
  assume "read_uint w bs = Inr (n, rest)"
  then obtain x where x: "bs = x @ rest" "length x = w" "n = le_nat x"
    by (auto simp: read_uint_def res_bind_Inr_iff read_bytes_Inr)
  then show "n < 256 ^ w \<and> bs = write_uint w n @ rest"
    using le_nat_bound [of x] le_bytes_le_nat [of x] by (simp add: write_uint_def)
next
  assume a: "n < 256 ^ w \<and> bs = write_uint w n @ rest"
  then have "read_bytes Io w bs = Inr (write_uint w n, rest)" by (simp add: read_bytes_append)
  then show "read_uint w bs = Inr (n, rest)"
    using a by (simp add: read_uint_def write_uint_def le_nat_le_bytes)
qed

lemma read_uint_write [codec_simps]:
  "n < 256 ^ w \<Longrightarrow> read_uint w (write_uint w n @ rest) = Inr (n, rest)"
  by (simp add: read_uint_iff)

lemma compact_size64_read_back:
  assumes "n < 2 ^ 64"
  shows "compact_size64_deserialize (compact_size64_serialize n @ rest) = Inr (n, rest)"
  using assms by (simp add: compact_size64_deserialize_def compact_size64_serialize_def codec_simps)

lemma compact_size64_canonical:
  assumes "compact_size64_deserialize bs = Inr (n, rest)"
  shows "n < 2 ^ 64 \<and> bs = compact_size64_serialize n @ rest"
proof -
  from assms obtain f r where f: "read_uint 1 bs = Inr (f, r)"
    by (auto simp: compact_size64_deserialize_def res_bind_Inr_iff)
  then have bs: "bs = write_uint 1 f @ r" and f256: "f < 256" by (auto simp: read_uint_iff)
  consider "f \<le> 0xfc" | "f = 0xfd" | "f = 0xfe" | "f = 0xff" using f256 by linarith
  then show ?thesis
  proof cases
    case 1
    with assms f have "n = f" "rest = r" by (simp_all add: compact_size64_deserialize_def)
    with 1 bs show ?thesis by (simp add: compact_size64_serialize_def)
  next
    case 2
    with assms f have "read_uint 2 r = Inr (n, rest)" "0xfd \<le> n"
      by (auto simp: compact_size64_deserialize_def res_bind_Inr_iff split: if_splits)
    with 2 bs show ?thesis by (simp add: compact_size64_serialize_def read_uint_iff)
  next
    case 3
    with assms f have "read_uint 4 r = Inr (n, rest)" "0x10000 \<le> n"
      by (auto simp: compact_size64_deserialize_def res_bind_Inr_iff split: if_splits)
    with 3 bs show ?thesis by (simp add: compact_size64_serialize_def read_uint_iff)
  next
    case 4
    with assms f have "read_uint 8 r = Inr (n, rest)" "0x100000000 \<le> n"
      by (auto simp: compact_size64_deserialize_def res_bind_Inr_iff split: if_splits)
    with 4 bs show ?thesis by (simp add: compact_size64_serialize_def read_uint_iff)
  qed
qed

interpretation compact_size64_wire:
  wire_codec compact_size64_serialize compact_size64_deserialize "\<lambda>n. n < 2 ^ 64"
  by unfold_locales (rule compact_size64_read_back, assumption, rule compact_size64_canonical, assumption)

lemma compact_size_message_try_from_Inr:
  "compact_size_message_try_from n = Inr m \<longleftrightarrow> n \<le> MAX_PROTOCOL_MESSAGE_LEN \<and> m = n"
  by (auto simp: compact_size_message_try_from_def MAX_PROTOCOL_MESSAGE_LEN_def)

lemma compact_size_message_iff:
  "compact_size_message_deserialize bs = Inr (n, rest) \<longleftrightarrow>
   n \<le> MAX_PROTOCOL_MESSAGE_LEN \<and> bs = compact_size64_serialize n @ rest"
proof -
  have "compact_size_message_deserialize bs = Inr (n, rest) \<longleftrightarrow>
        compact_size64_deserialize bs = Inr (n, rest) \<and> n \<le> MAX_PROTOCOL_MESSAGE_LEN"
    by (auto simp: compact_size_message_deserialize_def res_bind_Inr_iff
        compact_size_message_try_from_Inr)
  also have "\<dots> \<longleftrightarrow> n \<le> MAX_PROTOCOL_MESSAGE_LEN \<and> bs = compact_size64_serialize n @ rest"
    unfolding compact_size64_wire.read_iff by (auto simp: MAX_PROTOCOL_MESSAGE_LEN_def)
  finally show ?thesis .
qed

lemma compact_size_message_serialize_Done:
  "n \<le> MAX_PROTOCOL_MESSAGE_LEN \<Longrightarrow> compact_size_message_serialize n = Done (compact_size64_serialize n)"
  by (simp add: compact_size_message_serialize_def assert_that_def)

interpretation compact_size_message_wire:
  wire_codec compact_size64_serialize compact_size_message_deserialize
    "\<lambda>n. n \<le> MAX_PROTOCOL_MESSAGE_LEN"
  by unfold_locales (simp_all add: compact_size_message_iff)

interpretation hash_wire:
  wire_codec hash_zcash_serialize hash_zcash_deserialize "\<lambda>h. length h = 32"
  by unfold_locales
    (auto simp: hash_zcash_serialize_def hash_zcash_deserialize_def read_bytes_Inr codec_simps)

interpretation u32_wire: wire_codec "write_uint 4" "read_uint 4" "\<lambda>n. n < 2 ^ 32"
  by unfold_locales (simp_all add: read_uint_iff)

lemma vec_zcash_serialize_Done_iff:
  "vec_zcash_serialize enc xs = Done p \<longleftrightarrow>
   length xs \<le> MAX_PROTOCOL_MESSAGE_LEN \<and>
   p = compact_size64_serialize (length xs) @ concat (map enc xs)"
proof (cases "length xs \<le> MAX_PROTOCOL_MESSAGE_LEN")
  case True
  then have "compact_size_message_try_from (length xs) = Inr (length xs)"
    by (simp add: compact_size_message_try_from_Inr)
  with True show ?thesis
    by (auto simp: vec_zcash_serialize_def compact_size_message_serialize_Done
        zcash_serialize_external_count_def)
next
  case False
  then obtain e where "compact_size_message_try_from (length xs) = Inl e"
    by (cases "compact_size_message_try_from (length xs)") (auto simp: compact_size_message_try_from_Inr)
  with False show ?thesis by (simp add: vec_zcash_serialize_def)
qed

context wire_codec
begin

lemma vec_iff:
  "vec_zcash_deserialize dec max_allocation bs = Inr (xs, rest) \<longleftrightarrow>
   length xs \<le> max_allocation \<and> list_all ok xs \<and>
   (\<exists>p. vec_zcash_serialize enc xs = Done p \<and> bs = p @ rest)"
  by (auto simp: vec_zcash_deserialize_def zcash_deserialize_external_count_def res_bind_Inr_iff
      compact_size_message_iff items_iff vec_zcash_serialize_Done_iff)

end

lemma zcash_serialize_bytes_iff:
  "zcash_serialize_bytes xs = Done (Inr p) \<longleftrightarrow>
   length xs \<le> MAX_PROTOCOL_MESSAGE_LEN \<and> p = compact_size64_serialize (length xs) @ xs"
proof (cases "length xs \<le> MAX_PROTOCOL_MESSAGE_LEN")
  case True
  then have "compact_size_message_try_from (length xs) = Inr (length xs)"
    by (simp add: compact_size_message_try_from_Inr)
  with True show ?thesis
    by (auto simp: zcash_serialize_bytes_def compact_size_message_serialize_Done)
next
  case False
  then show ?thesis
    by (auto simp: zcash_serialize_bytes_def compact_size_message_try_from_Inr split: sum.splits)
qed

lemma bytes_deserialize_iff:
  "bytes_zcash_deserialize bs = Inr (xs, rest) \<longleftrightarrow>
   length xs \<le> MAX_U8_ALLOCATION \<and> bs = compact_size64_serialize (length xs) @ xs @ rest"
  by (auto simp: bytes_zcash_deserialize_def zcash_deserialize_bytes_external_count_def res_bind_Inr_iff
      compact_size_message_iff read_bytes_Inr MAX_U8_ALLOCATION_def intro!: exI [of _ "length xs"])

section \<open>Properties\<close>

text \<open>A compact size is decoded exactly from its canonical encoding: the decoder returns a size and
  the rest of the input if and only if the input is the encoding of that size (a 64-bit number)
  followed by the rest. So every size has one accepted encoding and no encoding is ambiguous.\<close>

theorem compact_size_decodes_exactly_canonical:
  "compact_size64_deserialize bs = Inr (n, rest) \<longleftrightarrow> n < 2 ^ 64 \<and> bs = compact_size64_serialize n @ rest"
  by (rule compact_size64_wire.read_iff)

text \<open>For a type whose items decode exactly from their encodings, the vector decoder accepts exactly
  what the vector encoder writes for a vector of valid items no longer than the item type's maximum
  allocation, and leaves the rest of the input.\<close>

theorem vec_decodes_exactly_encoded:
  assumes "\<And>x bs rest. dec bs = Inr (x, rest) \<longleftrightarrow> ok x \<and> bs = enc x @ rest"
  shows "vec_zcash_deserialize dec max_allocation bs = Inr (xs, rest) \<longleftrightarrow>
    length xs \<le> max_allocation \<and> list_all ok xs \<and>
    (\<exists>p. vec_zcash_serialize enc xs = Done p \<and> bs = p @ rest)"
proof -
  have "wire_codec enc dec ok" by unfold_locales (simp_all add: assms)
  then show ?thesis by (rule wire_codec.vec_iff)
qed

text \<open>A byte string is read back from its encoding exactly when it is at most five bytes shorter
  than the protocol message limit; a longer one that the encoder still accepts is refused.\<close>

theorem byte_string_roundtrip:
  assumes "zcash_serialize_bytes xs = Done (Inr p)"
  shows "bytes_zcash_deserialize (p @ rest) = Inr (xs, rest) \<longleftrightarrow> length xs \<le> MAX_U8_ALLOCATION"
  using assms by (auto simp: zcash_serialize_bytes_iff bytes_deserialize_iff)

theorem byte_string_roundtrip_witness:
  "zcash_serialize_bytes [1, 2, 3] = Done (Inr [3, 1, 2, 3]) \<and>
   bytes_zcash_deserialize ([3, 1, 2, 3] @ [8]) = Inr ([1, 2, 3], [8])"
proof -
  have p: "zcash_serialize_bytes [1, 2, 3] = Done (Inr [3, 1, 2, 3])"
    by (simp add: zcash_serialize_bytes_iff MAX_PROTOCOL_MESSAGE_LEN_def compact_size64_serialize_def
        write_uint_def)
  then show ?thesis
    using byte_string_roundtrip [OF p, of "[8]"]
    by (simp add: MAX_U8_ALLOCATION_def MAX_PROTOCOL_MESSAGE_LEN_def)
qed

end
