(* ===== verification/Value_Balances.thy ===== *)
theory Value_Balances
  imports Amounts
begin

text \<open>
  Chain and transaction value pools: \<open>zebra-chain/src/value_balance.rs\<close>.

  A \<open>ValueBalance<C>\<close> holds one amount per pool. The operations check the pools in the order of
  the source, so that the first pool that fails decides the error. \<open>add_chain_value_pool_change\<close>
  is the consensus rule of ZIP 209: no chain value pool may become negative. The byte format is a
  client of the amount codec.
\<close>

section \<open>Pools\<close>

record value_balance =
  transparent :: amount
  sprout :: amount
  sapling :: amount
  orchard :: amount
  deferred :: amount

datatype value_balance_error =
    TransparentErr amount_error
  | SproutErr amount_error
  | SaplingErr amount_error
  | OrchardErr amount_error
  | DeferredErr amount_error
  | Unparsable

definition vb_zero :: "amount_constraint \<Rightarrow> value_balance outcome" where
  "vb_zero c =
     run_bind (amount_zero c)
       (\<lambda>z. Done \<lparr>transparent = z, sprout = z, sapling = z, orchard = z, deferred = z\<rparr>)"

definition from_transparent_amount :: "amount_constraint \<Rightarrow> amount \<Rightarrow> value_balance outcome" where
  "from_transparent_amount c a = run_bind (vb_zero c) (\<lambda>v. Done (v\<lparr>transparent := a\<rparr>))"

definition from_sprout_amount :: "amount_constraint \<Rightarrow> amount \<Rightarrow> value_balance outcome" where
  "from_sprout_amount c a = run_bind (vb_zero c) (\<lambda>v. Done (v\<lparr>sprout := a\<rparr>))"

definition from_sapling_amount :: "amount_constraint \<Rightarrow> amount \<Rightarrow> value_balance outcome" where
  "from_sapling_amount c a = run_bind (vb_zero c) (\<lambda>v. Done (v\<lparr>sapling := a\<rparr>))"

definition from_orchard_amount :: "amount_constraint \<Rightarrow> amount \<Rightarrow> value_balance outcome" where
  "from_orchard_amount c a = run_bind (vb_zero c) (\<lambda>v. Done (v\<lparr>orchard := a\<rparr>))"

definition set_transparent_value_balance :: "value_balance \<Rightarrow> value_balance \<Rightarrow> value_balance" where
  "set_transparent_value_balance v w = v\<lparr>transparent := transparent w\<rparr>"

definition set_sprout_value_balance :: "value_balance \<Rightarrow> value_balance \<Rightarrow> value_balance" where
  "set_sprout_value_balance v w = v\<lparr>sprout := sprout w\<rparr>"

definition set_sapling_value_balance :: "value_balance \<Rightarrow> value_balance \<Rightarrow> value_balance" where
  "set_sapling_value_balance v w = v\<lparr>sapling := sapling w\<rparr>"

definition set_orchard_value_balance :: "value_balance \<Rightarrow> value_balance \<Rightarrow> value_balance" where
  "set_orchard_value_balance v w = v\<lparr>orchard := orchard w\<rparr>"

definition set_deferred_amount :: "value_balance \<Rightarrow> amount \<Rightarrow> value_balance" where
  "set_deferred_amount v a = v\<lparr>deferred := a\<rparr>"

definition vb_constrain :: "amount_constraint \<Rightarrow> value_balance \<Rightarrow> value_balance_error + value_balance" where
  "vb_constrain c2 v =
     res_bind (map_err TransparentErr (amount_constrain c2 (transparent v))) (\<lambda>t.
     res_bind (map_err SproutErr (amount_constrain c2 (sprout v))) (\<lambda>sp.
     res_bind (map_err SaplingErr (amount_constrain c2 (sapling v))) (\<lambda>sa.
     res_bind (map_err OrchardErr (amount_constrain c2 (orchard v))) (\<lambda>orc.
     res_bind (map_err DeferredErr (amount_constrain c2 (deferred v))) (\<lambda>d.
     Inr \<lparr>transparent = t, sprout = sp, sapling = sa, orchard = orc, deferred = d\<rparr>)))))"

section \<open>Arithmetic\<close>

definition lift_err ::
  "(amount_error \<Rightarrow> value_balance_error) \<Rightarrow> (amount_error + amount) outcome \<Rightarrow> (value_balance_error + amount) outcome" where
  "lift_err f m = run_bind m (\<lambda>r. Done (map_err f r))"

definition vb_add ::
  "amount_constraint \<Rightarrow> value_balance \<Rightarrow> value_balance \<Rightarrow> (value_balance_error + value_balance) outcome" where
  "vb_add c v w =
     try_bind (lift_err TransparentErr (amount_add c (transparent v) (transparent w))) (\<lambda>t.
     try_bind (lift_err SproutErr (amount_add c (sprout v) (sprout w))) (\<lambda>sp.
     try_bind (lift_err SaplingErr (amount_add c (sapling v) (sapling w))) (\<lambda>sa.
     try_bind (lift_err OrchardErr (amount_add c (orchard v) (orchard w))) (\<lambda>orc.
     try_bind (lift_err DeferredErr (amount_add c (deferred v) (deferred w))) (\<lambda>d.
     Done (Inr \<lparr>transparent = t, sprout = sp, sapling = sa, orchard = orc, deferred = d\<rparr>))))))"

definition vb_sub ::
  "amount_constraint \<Rightarrow> value_balance \<Rightarrow> value_balance \<Rightarrow> (value_balance_error + value_balance) outcome" where
  "vb_sub c v w =
     try_bind (lift_err TransparentErr (amount_sub c (transparent v) (transparent w))) (\<lambda>t.
     try_bind (lift_err SproutErr (amount_sub c (sprout v) (sprout w))) (\<lambda>sp.
     try_bind (lift_err SaplingErr (amount_sub c (sapling v) (sapling w))) (\<lambda>sa.
     try_bind (lift_err OrchardErr (amount_sub c (orchard v) (orchard w))) (\<lambda>orc.
     try_bind (lift_err DeferredErr (amount_sub c (deferred v) (deferred w))) (\<lambda>d.
     Done (Inr \<lparr>transparent = t, sprout = sp, sapling = sa, orchard = orc, deferred = d\<rparr>))))))"

definition vb_result_add ::
  "amount_constraint \<Rightarrow> value_balance_error + value_balance \<Rightarrow> value_balance \<Rightarrow>
   (value_balance_error + value_balance) outcome" where
  "vb_result_add c r w = try_bind (Done r) (\<lambda>v. vb_add c v w)"

definition vb_add_result ::
  "amount_constraint \<Rightarrow> value_balance \<Rightarrow> value_balance_error + value_balance \<Rightarrow>
   (value_balance_error + value_balance) outcome" where
  "vb_add_result c v r = try_bind (Done r) (\<lambda>w. vb_add c v w)"

definition vb_add_assign ::
  "amount_constraint \<Rightarrow> value_balance_error + value_balance \<Rightarrow> value_balance \<Rightarrow>
   (value_balance_error + value_balance) outcome" where
  "vb_add_assign c r w = (case r of Inr lhs \<Rightarrow> vb_add c lhs w | Inl e \<Rightarrow> Done r)"

definition vb_result_sub ::
  "amount_constraint \<Rightarrow> value_balance_error + value_balance \<Rightarrow> value_balance \<Rightarrow>
   (value_balance_error + value_balance) outcome" where
  "vb_result_sub c r w = try_bind (Done r) (\<lambda>v. vb_sub c v w)"

definition vb_sub_result ::
  "amount_constraint \<Rightarrow> value_balance \<Rightarrow> value_balance_error + value_balance \<Rightarrow>
   (value_balance_error + value_balance) outcome" where
  "vb_sub_result c v r = try_bind (Done r) (\<lambda>w. vb_sub c v w)"

definition vb_sub_assign ::
  "amount_constraint \<Rightarrow> value_balance_error + value_balance \<Rightarrow> value_balance \<Rightarrow>
   (value_balance_error + value_balance) outcome" where
  "vb_sub_assign c r w = (case r of Inr lhs \<Rightarrow> vb_sub c lhs w | Inl e \<Rightarrow> Done r)"

fun vb_try_fold ::
  "amount_constraint \<Rightarrow> value_balance \<Rightarrow> value_balance list \<Rightarrow> (value_balance_error + value_balance) outcome" where
  "vb_try_fold c acc [] = Done (Inr acc)"
| "vb_try_fold c acc (x # xs) = try_bind (vb_add c acc x) (\<lambda>acc'. vb_try_fold c acc' xs)"

definition vb_sum ::
  "amount_constraint \<Rightarrow> value_balance list \<Rightarrow> (value_balance_error + value_balance) outcome" where
  "vb_sum c xs = run_bind (vb_zero c) (\<lambda>z. vb_try_fold c z xs)"

definition vb_neg :: "value_balance \<Rightarrow> value_balance outcome" where
  "vb_neg v =
     run_bind (amount_neg (transparent v)) (\<lambda>t.
     run_bind (amount_neg (sprout v)) (\<lambda>sp.
     run_bind (amount_neg (sapling v)) (\<lambda>sa.
     run_bind (amount_neg (orchard v)) (\<lambda>orc.
     run_bind (amount_neg (deferred v)) (\<lambda>d.
     Done \<lparr>transparent = t, sprout = sp, sapling = sa, orchard = orc, deferred = d\<rparr>)))))"

section \<open>Consensus rules\<close>

text \<open>The remaining value in a transaction's pool, which must be non-negative.\<close>

definition remaining_transaction_value :: "value_balance \<Rightarrow> (amount_error + amount) outcome" where
  "remaining_transaction_value v =
     try_bind
       (run_bind (amount_add NegativeAllowed (transparent v) (sprout v)) (\<lambda>r.
        run_bind (amount_result_add NegativeAllowed r (sapling v)) (\<lambda>r.
        amount_result_add NegativeAllowed r (orchard v))))
       (\<lambda>s. Done (amount_constrain NonNegative s))"

definition add_chain_value_pool_change ::
  "value_balance \<Rightarrow> value_balance \<Rightarrow> (value_balance_error + value_balance) outcome" where
  "add_chain_value_pool_change v change =
     run_bind (expect_ok (vb_constrain NegativeAllowed v)) (\<lambda>pool.
     try_bind (vb_add NegativeAllowed pool change) (\<lambda>pool'.
     Done (vb_constrain NonNegative pool')))"

section \<open>Byte format\<close>

definition vb_to_bytes :: "value_balance \<Rightarrow> byte list outcome" where
  "vb_to_bytes v =
     (let bytes = concat [amount_to_bytes (transparent v), amount_to_bytes (sprout v),
                          amount_to_bytes (sapling v), amount_to_bytes (orchard v),
                          amount_to_bytes (deferred v)]
      in if length bytes = 40 then Done bytes else Panic)"

definition slice8 :: "byte list \<Rightarrow> nat \<Rightarrow> byte list" where
  "slice8 bs i = take 8 (drop i bs)"

definition vb_from_bytes :: "byte list \<Rightarrow> (value_balance_error + value_balance) outcome" where
  "vb_from_bytes bs =
     (if \<not> (length bs = 32 \<or> length bs = 40) then Done (Inl Unparsable)
      else
        try_bind (Done (map_err TransparentErr (amount_from_bytes NonNegative (slice8 bs 0)))) (\<lambda>t.
        try_bind (Done (map_err SproutErr (amount_from_bytes NonNegative (slice8 bs 8)))) (\<lambda>sp.
        try_bind (Done (map_err SaplingErr (amount_from_bytes NonNegative (slice8 bs 16)))) (\<lambda>sa.
        try_bind (Done (map_err OrchardErr (amount_from_bytes NonNegative (slice8 bs 24)))) (\<lambda>orc.
        try_bind (if length bs = 32 then run_bind (amount_zero NonNegative) (\<lambda>z. Done (Inr z))
                  else if length bs = 40
                    then Done (map_err DeferredErr (amount_from_bytes NonNegative (slice8 bs 32)))
                  else Done (Inl Unparsable)) (\<lambda>d.
        Done (Inr \<lparr>transparent = t, sprout = sp, sapling = sa, orchard = orc, deferred = d\<rparr>)))))))"

section \<open>The type invariant\<close>

definition pools :: "value_balance \<Rightarrow> amount list" where
  "pools v = [transparent v, sprout v, sapling v, orchard v, deferred v]"

definition vb_ok :: "amount_constraint \<Rightarrow> value_balance \<Rightarrow> bool" where
  "vb_ok c v \<longleftrightarrow> (\<forall>a \<in> set (pools v). amount_ok c a)"

definition amount_plus :: "amount \<Rightarrow> amount \<Rightarrow> amount" where
  "amount_plus a b = Amount (zatoshis a + zatoshis b)"

definition vb_plus :: "value_balance \<Rightarrow> value_balance \<Rightarrow> value_balance" where
  "vb_plus v w =
     \<lparr>transparent = amount_plus (transparent v) (transparent w), sprout = amount_plus (sprout v) (sprout w),
      sapling = amount_plus (sapling v) (sapling w), orchard = amount_plus (orchard v) (orchard w),
      deferred = amount_plus (deferred v) (deferred w)\<rparr>"

lemma vb_ok_iff:
  "vb_ok c v \<longleftrightarrow>
     amount_ok c (transparent v) \<and> amount_ok c (sprout v) \<and> amount_ok c (sapling v) \<and>
     amount_ok c (orchard v) \<and> amount_ok c (deferred v)"
  by (simp add: vb_ok_def pools_def)

lemma vb_zero_done:
  "vb_zero c = Done \<lparr>transparent = Amount 0, sprout = Amount 0, sapling = Amount 0,
                     orchard = Amount 0, deferred = Amount 0\<rparr>"
  by (simp add: vb_zero_def constraints.zero_done)

lemma amount_constrain_ok: "amount_ok c a \<Longrightarrow> amount_constrain c a = Inr a"
  by (cases a) (simp add: amount_constrain_def try_from_i64_cases)

lemma amount_constrain_err: "\<not> amount_ok c a \<Longrightarrow> \<exists>e. amount_constrain c a = Inl e"
  by (auto simp: amount_constrain_def try_from_i64_cases amount_ok_def)

lemma vb_constrain_ok: "vb_ok c v \<Longrightarrow> vb_constrain c v = Inr v"
  by (simp add: vb_constrain_def vb_ok_iff amount_constrain_ok)

lemma vb_constrain_err: "\<not> vb_ok c v \<Longrightarrow> \<exists>e. vb_constrain c v = Inl e"
  using amount_constrain_ok [of c] amount_constrain_err [of c]
  by (fastforce simp: vb_constrain_def vb_ok_iff res_bind_def map_err_def split: sum.splits)

lemma vb_ok_widen: "vb_ok c v \<Longrightarrow> vb_ok NegativeAllowed v"
  by (auto simp: vb_ok_def amount_ok_widen)

lemma lift_amount_add:
  assumes "amount_ok c a" and "amount_ok c b"
  shows "lift_err f (amount_add c a b) =
     Done (if amount_ok c (amount_plus a b) then Inr (amount_plus a b)
           else Inl (f (Constraint (zatoshis a + zatoshis b) (range_lo c) (range_hi c))))"
  using assms by (auto simp: lift_err_def constraints.add_done try_from_i64_cases amount_plus_def)

lemma vb_add_done:
  assumes "vb_ok c v" and "vb_ok c w"
  shows "if vb_ok c (vb_plus v w) then vb_add c v w = Done (Inr (vb_plus v w))
         else \<exists>e. vb_add c v w = Done (Inl e)"
  using assms by (auto simp: vb_ok_iff vb_add_def lift_amount_add vb_plus_def)

lemma vb_neg_done:
  assumes "vb_ok c v"
  shows "vb_neg v = Done \<lparr>transparent = Amount (- zatoshis (transparent v)),
     sprout = Amount (- zatoshis (sprout v)), sapling = Amount (- zatoshis (sapling v)),
     orchard = Amount (- zatoshis (orchard v)), deferred = Amount (- zatoshis (deferred v))\<rparr>"
  using assms constraints.neg_done [of c] by (simp add: vb_neg_def vb_ok_iff)

lemma vb_neg_ok: "vb_ok c v \<Longrightarrow> vb_neg v = Done w \<Longrightarrow> vb_ok NegativeAllowed w"
  using vb_ok_widen [of c v] by (auto simp: vb_neg_done vb_ok_iff amount_ok_def)

lemma add_change_cases:
  assumes "vb_ok NonNegative v" and "vb_ok NegativeAllowed d"
  shows "if vb_ok NonNegative (vb_plus v d)
         then add_chain_value_pool_change v d = Done (Inr (vb_plus v d))
         else \<exists>e. add_chain_value_pool_change v d = Done (Inl e)"
proof -
  have wide: "vb_ok NegativeAllowed v" using assms(1) by (rule vb_ok_widen)
  note sum = vb_add_done [OF wide assms(2)]
  have step: "add_chain_value_pool_change v d =
      try_bind (vb_add NegativeAllowed v d) (\<lambda>p. Done (vb_constrain NonNegative p))"
    using wide by (simp add: add_chain_value_pool_change_def vb_constrain_ok)
  show ?thesis
  proof (cases "vb_ok NonNegative (vb_plus v d)")
    case True
    then have "vb_ok NegativeAllowed (vb_plus v d)" by (rule vb_ok_widen)
    then show ?thesis using True sum step by (simp add: vb_constrain_ok)
  next
    case False
    then obtain e where e: "vb_constrain NonNegative (vb_plus v d) = Inl e"
      using vb_constrain_err by blast
    show ?thesis
      using False sum step e by (cases "vb_ok NegativeAllowed (vb_plus v d)") auto
  qed
qed

lemma pool_plus_neg:
  assumes "vb_neg d = Done d'" and "vb_ok c d"
  shows "vb_plus (vb_plus v d) d' = v"
  using assms by (auto simp: vb_neg_done vb_plus_def amount_plus_def)

lemma slice8_concat:
  assumes "i < length xs" and "\<forall>a \<in> set xs. amount_ok NonNegative a"
  shows "amount_from_bytes NonNegative (slice8 (concat (map amount_to_bytes xs)) (8 * i)) = Inr (xs ! i)"
  using amount_codec.dec_slot [OF assms] by (simp add: slice8_def)

lemma vb_to_bytes_done: "vb_to_bytes v = Done (concat (map amount_to_bytes (pools v)))"
  by (simp add: vb_to_bytes_def pools_def)

lemma slice8_pools:
  assumes "vb_ok NonNegative v" and "bs = concat (map amount_to_bytes (pools v))"
  shows "amount_from_bytes NonNegative (slice8 bs 0) = Inr (transparent v)"
    and "amount_from_bytes NonNegative (slice8 bs 8) = Inr (sprout v)"
    and "amount_from_bytes NonNegative (slice8 bs 16) = Inr (sapling v)"
    and "amount_from_bytes NonNegative (slice8 bs 24) = Inr (orchard v)"
    and "amount_from_bytes NonNegative (slice8 bs 32) = Inr (deferred v)"
proof -
  have ok: "\<forall>a \<in> set (pools v). amount_ok NonNegative a" using assms(1) by (simp add: vb_ok_def)
  have len: "length (pools v) = 5" by (simp add: pools_def)
  have slot: "amount_from_bytes NonNegative (slice8 bs (8 * i)) = Inr (pools v ! i)" if "i < 5" for i
    using slice8_concat [OF _ ok] that len assms(2) by simp
  show "amount_from_bytes NonNegative (slice8 bs 0) = Inr (transparent v)"
    using slot [of 0] by (simp add: pools_def)
  show "amount_from_bytes NonNegative (slice8 bs 8) = Inr (sprout v)"
    using slot [of 1] by (simp add: pools_def)
  show "amount_from_bytes NonNegative (slice8 bs 16) = Inr (sapling v)"
    using slot [of 2] by (simp add: pools_def)
  show "amount_from_bytes NonNegative (slice8 bs 24) = Inr (orchard v)"
    using slot [of 3] by (simp add: pools_def)
  show "amount_from_bytes NonNegative (slice8 bs 32) = Inr (deferred v)"
    using slot [of 4] by (simp add: pools_def)
qed

lemma slice8_take32: "i + 8 \<le> 32 \<Longrightarrow> slice8 (take 32 bs) i = slice8 bs i"
  by (simp add: slice8_def drop_take)

section \<open>Properties\<close>

text \<open>C3. ZIP 209. Applying a block's value pool change to valid chain value pools never panics. It
  succeeds exactly when every pool, the transparent and the deferred one included, stays between
  zero and the maximum money, and then every pool is the exact sum; otherwise it is an error.\<close>

theorem chain_value_pools_stay_nonnegative:
  assumes "vb_ok NonNegative v" and "vb_ok NegativeAllowed d"
  shows "(\<forall>v'. add_chain_value_pool_change v d = Done (Inr v') \<longleftrightarrow>
              v' = vb_plus v d \<and> vb_ok NonNegative v') \<and>
         add_chain_value_pool_change v d \<noteq> Panic"
proof (cases "vb_ok NonNegative (vb_plus v d)")
  case True
  then show ?thesis using add_change_cases [OF assms] by auto
next
  case False
  then obtain e where "add_chain_value_pool_change v d = Done (Inl e)"
    using add_change_cases [OF assms] by auto
  then show ?thesis using False by auto
qed

theorem chain_value_pools_stay_nonnegative_witness:
  "\<exists>v d. vb_ok NonNegative v \<and> vb_ok NegativeAllowed d \<and>
         add_chain_value_pool_change v d = Done (Inr (vb_plus v d))"
proof (intro exI conjI)
  let ?v = "\<lparr>transparent = Amount 5, sprout = Amount 3, sapling = Amount 0, orchard = Amount 1, deferred = Amount 2\<rparr>"
  let ?d = "\<lparr>transparent = Amount (- 4), sprout = Amount (- 3), sapling = Amount 7, orchard = Amount 0, deferred = Amount 1\<rparr>"
  show v: "vb_ok NonNegative ?v" and d: "vb_ok NegativeAllowed ?d"
    by (simp_all add: vb_ok_iff MAX_MONEY_value)
  have "vb_ok NonNegative (vb_plus ?v ?d)"
    by (simp add: vb_ok_iff vb_plus_def amount_plus_def MAX_MONEY_value)
  then show "add_chain_value_pool_change ?v ?d = Done (Inr (vb_plus ?v ?d))"
    using chain_value_pools_stay_nonnegative [OF v d] by blast
qed

text \<open>Reverting a block's value pool change is exact: when a change was accepted, its negation can be
  computed, is accepted on the new pools, and restores the old pools.\<close>

theorem chain_value_pool_change_reverts:
  assumes "vb_ok NonNegative v" and "vb_ok NegativeAllowed d"
    and "add_chain_value_pool_change v d = Done (Inr v')"
  shows "\<exists>d'. vb_neg d = Done d' \<and> add_chain_value_pool_change v' d' = Done (Inr v)"
proof -
  obtain d' where d': "vb_neg d = Done d'" using vb_neg_done [OF assms(2)] by blast
  have v': "v' = vb_plus v d" "vb_ok NonNegative v'"
    using add_change_cases [OF assms(1,2)] assms(3) by (auto split: if_splits)
  have "vb_ok NegativeAllowed d'" using vb_neg_ok [OF assms(2) d'] .
  from add_change_cases [OF v'(2) this]
  have "add_chain_value_pool_change v' d' = Done (Inr v)"
    using pool_plus_neg [OF d' assms(2)] v'(1) assms(1) by simp
  with d' show ?thesis by blast
qed

text \<open>The database format of value pools is read back exactly, and the older 32-byte format without
  a deferred pool is read as the same pools with a zero deferred pool. Any other length is rejected.\<close>

theorem value_balance_bytes_roundtrip:
  assumes "vb_ok NonNegative v"
  shows "\<exists>bs. vb_to_bytes v = Done bs \<and> length bs = 40 \<and>
           vb_from_bytes bs = Done (Inr v) \<and>
           vb_from_bytes (take 32 bs) = Done (Inr (v\<lparr>deferred := Amount 0\<rparr>)) \<and>
           (\<forall>bs'. length bs' \<noteq> 32 \<and> length bs' \<noteq> 40 \<longrightarrow> vb_from_bytes bs' = Done (Inl Unparsable))"
proof -
  let ?bs = "concat (map amount_to_bytes (pools v))"
  have len: "length ?bs = 40" by (simp add: pools_def)
  note slots = slice8_pools [OF assms refl]
  have "vb_from_bytes ?bs = Done (Inr v)"
    using slots len by (simp add: vb_from_bytes_def)
  moreover have "vb_from_bytes (take 32 ?bs) = Done (Inr (v\<lparr>deferred := Amount 0\<rparr>))"
    using slots len by (simp add: vb_from_bytes_def slice8_take32 constraints.zero_done)
  ultimately show ?thesis
    using len by (auto simp: vb_to_bytes_done vb_from_bytes_def)
qed

theorem value_balance_bytes_roundtrip_witness:
  "\<exists>bs. vb_to_bytes \<lparr>transparent = Amount 5, sprout = Amount 3, sapling = Amount 0, orchard = Amount 1,
                      deferred = Amount 2\<rparr> = Done bs \<and>
        vb_from_bytes bs = Done (Inr \<lparr>transparent = Amount 5, sprout = Amount 3, sapling = Amount 0,
                                      orchard = Amount 1, deferred = Amount 2\<rparr>)"
proof -
  let ?v = "\<lparr>transparent = Amount 5, sprout = Amount 3, sapling = Amount 0, orchard = Amount 1, deferred = Amount 2\<rparr>"
  have "vb_ok NonNegative ?v" by (simp add: vb_ok_iff MAX_MONEY_value)
  from value_balance_bytes_roundtrip [OF this] show ?thesis by blast
qed

end
