(* ===== verification/Transparent.thy ===== *)
theory Transparent
  imports Serialization Value_Balances
begin

text \<open>
  Transparent inputs and outputs: \<open>zebra-chain/src/transparent.rs\<close>, \<open>transparent/serialize.rs\<close> and
  \<open>transparent/script.rs\<close>.

  Transaction hashes and scripts are byte strings. A \<open>HashMap\<close> of outputs is a partial function.
  The wire format of inputs has two irregular points, which the predicate \<open>input_ok\<close> makes
  explicit: an input that spends the all-zero hash would be read as a coinbase input, and the
  genesis coinbase data stands for height zero although it also starts with the encoding of height
  520617983.
\<close>

section \<open>Inputs and outputs\<close>

type_synonym transaction_hash = "byte list"
type_synonym script = "byte list"

datatype outpoint = OutPoint (outpoint_hash: transaction_hash) (outpoint_index: nat)

datatype transparent_input =
    PrevOut outpoint script nat
  | Coinbase height "byte list" nat

record transparent_output =
  output_value :: amount
  lock_script :: script

definition MIN_TRANSPARENT_COINBASE_MATURITY :: nat where
  "MIN_TRANSPARENT_COINBASE_MATURITY = 100"

definition ONE_THIRD_DUST_THRESHOLD_RATE :: nat where
  "ONE_THIRD_DUST_THRESHOLD_RATE = 100"

definition outpoint_from_usize :: "transaction_hash \<Rightarrow> nat \<Rightarrow> outpoint outcome" where
  "outpoint_from_usize hash index =
     run_bind (expect_some (u32_try_from (int index))) (\<lambda>i. Done (OutPoint hash i))"

fun input_sequence :: "transparent_input \<Rightarrow> nat" where
  "input_sequence (PrevOut outpoint unlock_script sequence) = sequence"
| "input_sequence (Coinbase h data sequence) = sequence"

fun input_outpoint :: "transparent_input \<Rightarrow> outpoint option" where
  "input_outpoint (PrevOut outpoint unlock_script sequence) = Some outpoint"
| "input_outpoint (Coinbase h data sequence) = None"

fun extra_coinbase_data :: "transparent_input \<Rightarrow> byte list option" where
  "extra_coinbase_data (PrevOut outpoint unlock_script sequence) = None"
| "extra_coinbase_data (Coinbase h data sequence) = Some data"

fun value_from_outputs ::
  "transparent_input \<Rightarrow> (outpoint \<rightharpoonup> transparent_output) \<Rightarrow> amount outcome" where
  "value_from_outputs (PrevOut outpoint unlock_script sequence) outputs =
     run_bind (expect_some (outputs outpoint)) (\<lambda>out. Done (output_value out))"
| "value_from_outputs (Coinbase h data sequence) outputs = amount_zero NonNegative"

section \<open>Coinbase heights\<close>

definition MAX_COINBASE_DATA_LEN :: nat where
  "MAX_COINBASE_DATA_LEN = 100"

definition MAX_COINBASE_HEIGHT_DATA_LEN :: nat where
  "MAX_COINBASE_HEIGHT_DATA_LEN = 6"

definition MIN_COINBASE_DATA_LEN :: nat where
  "MIN_COINBASE_DATA_LEN = 2"

definition GENESIS_COINBASE_DATA :: "byte list" where
  "GENESIS_COINBASE_DATA = [
    4, 255, 255, 7, 31, 1, 4, 69, 90, 99, 97, 115, 104, 48, 98, 57, 99, 52, 101, 101, 102, 56, 98,
    55, 99, 99, 52, 49, 55, 101, 101, 53, 48, 48, 49, 101, 51, 53, 48, 48, 57, 56, 52, 98, 54, 102,
    101, 97, 51, 53, 54, 56, 51, 97, 55, 99, 97, 99, 49, 52, 49, 97, 48, 52, 51, 99, 52, 50, 48,
    54, 52, 56, 51, 53, 100, 51, 52]"

text \<open>One multi-byte branch of \<open>parse_coinbase_height\<close>: a length byte and \<open>n\<close> little-endian height bytes.\<close>

definition parse_height_bytes ::
  "nat \<Rightarrow> nat \<Rightarrow> nat \<Rightarrow> byte list \<Rightarrow> serialization_error + height \<times> byte list" where
  "parse_height_bytes n lo hi data =
     (let h = le_nat (take n (drop 1 data))
      in if lo \<le> h \<and> h < hi then Inr (h, drop (n + 1) data) else Inl (Parse ''Invalid block height''))"

definition parse_coinbase_height ::
  "byte list \<Rightarrow> serialization_error + height \<times> byte list" where
  "parse_coinbase_height data =
     (case data of
        [] \<Rightarrow> Inl (Parse ''Could not parse BIP34 height in coinbase data'')
      | op # _ \<Rightarrow>
          if 0x51 \<le> op \<and> op \<le> 0x60 \<and> length data \<ge> 1 then Inr (unat (op - 0x50), drop 1 data)
          else if op = 1 \<and> length data \<ge> 2 \<and> data ! 1 < 0x80 then parse_height_bytes 1 17 128 data
          else if op = 2 \<and> length data \<ge> 3 \<and> data ! 2 < 0x80 then parse_height_bytes 2 128 32768 data
          else if op = 3 \<and> length data \<ge> 4 \<and> data ! 3 < 0x80 then
            parse_height_bytes 3 32768 8388608 data
          else if op = 4 \<and> data = GENESIS_COINBASE_DATA then Inr (0, data)
          else if op = 4 \<and> length data \<ge> 5 \<and> data ! 4 < 0x80 then
            parse_height_bytes 4 8388608 (Height_MAX + 1) data
          else Inl (Parse ''Could not parse BIP34 height in coinbase data''))"

definition write_coinbase_height :: "height \<Rightarrow> byte list \<Rightarrow> (unit + byte list) outcome" where
  "write_coinbase_height h coinbase_data =
     (if h = 0 then
        (if coinbase_data \<noteq> GENESIS_COINBASE_DATA then Done (Inl ()) else Done (Inr []))
      else if h \<le> 16 then Done (Inr [0x50 + word_of_nat h])
      else if h \<le> 127 then Done (Inr (1 # write_uint 1 h))
      else if h \<le> 32767 then Done (Inr (2 # write_uint 2 h))
      else if h \<le> 8388607 then Done (Inr (3 # write_uint 3 h))
      else if h \<le> Height_MAX then Done (Inr (4 # write_uint 4 h))
      else Panic)"

definition coinbase_zcash_serialized_size :: "height \<Rightarrow> nat outcome" where
  "coinbase_zcash_serialized_size h =
     run_bind (write_coinbase_height h []) (\<lambda>r. run_bind (expect_ok r) (\<lambda>bs. Done (length bs)))"

definition new_coinbase :: "height \<Rightarrow> byte list \<Rightarrow> nat option \<Rightarrow> transparent_input outcome" where
  "new_coinbase h miner_data sequence =
     (let data = (if miner_data = [] then [0] else miner_data)
      in run_bind (coinbase_zcash_serialized_size h) (\<lambda>height_size.
         let data_limit = MAX_COINBASE_DATA_LEN - height_size
         in run_bind (assert_that (length data \<le> data_limit)) (\<lambda>_.
            Done (Coinbase h data (case sequence of None \<Rightarrow> 0 | Some s \<Rightarrow> s)))))"

fun coinbase_script :: "transparent_input \<Rightarrow> byte list option outcome" where
  "coinbase_script (PrevOut outpoint unlock_script sequence) = Done None"
| "coinbase_script (Coinbase h data sequence) =
     run_bind (write_coinbase_height h data) (\<lambda>r.
       Done (case r of Inl _ \<Rightarrow> None | Inr height_bytes \<Rightarrow> Some (height_bytes @ data)))"

section \<open>Wire format\<close>

definition outpoint_serialize :: "outpoint \<Rightarrow> byte list" where
  "outpoint_serialize op = outpoint_hash op @ write_uint 4 (outpoint_index op)"

definition outpoint_deserialize :: "byte list \<Rightarrow> serialization_error + outpoint \<times> byte list" where
  "outpoint_deserialize bs =
     res_bind (read_bytes Io 32 bs) (\<lambda>(hash, r1).
     res_bind (read_uint 4 r1) (\<lambda>(index, r2). Inr (OutPoint hash index, r2)))"

definition script_serialize :: "script \<Rightarrow> (unit + byte list) outcome" where
  "script_serialize s = zcash_serialize_bytes s"

definition script_deserialize :: "byte list \<Rightarrow> serialization_error + script \<times> byte list" where
  "script_deserialize bs = bytes_zcash_deserialize bs"

fun input_serialize :: "transparent_input \<Rightarrow> (unit + byte list) outcome" where
  "input_serialize (PrevOut outpoint unlock_script sequence) =
     try_bind (script_serialize unlock_script) (\<lambda>script_bytes.
       Done (Inr (outpoint_serialize outpoint @ script_bytes @ write_uint 4 sequence)))"
| "input_serialize (Coinbase h data sequence) =
     try_bind (write_coinbase_height h data) (\<lambda>height_bytes.
     try_bind (zcash_serialize_bytes (height_bytes @ data)) (\<lambda>data_bytes.
       Done (Inr (replicate 32 0 @ write_uint 4 0xffffffff @ data_bytes @ write_uint 4 sequence))))"

definition input_deserialize :: "byte list \<Rightarrow> serialization_error + transparent_input \<times> byte list" where
  "input_deserialize bs =
     res_bind (read_bytes Io 32 bs) (\<lambda>(hash, r1).
       if hash = replicate 32 0 then
         res_bind (read_uint 4 r1) (\<lambda>(index, r2).
           if index \<noteq> 0xffffffff then Inl (Parse ''wrong index in coinbase'')
           else res_bind (compact_size_message_deserialize r2) (\<lambda>(len, r3).
             if len > MAX_COINBASE_DATA_LEN then Inl (Parse ''coinbase data is too long'')
             else if len < MIN_COINBASE_DATA_LEN then Inl (Parse ''coinbase data is too short'')
             else res_bind (zcash_deserialize_bytes_external_count len r3) (\<lambda>(coinbase_bytes, r4).
                  res_bind (parse_coinbase_height coinbase_bytes) (\<lambda>(h, data).
                  res_bind (read_uint 4 r4) (\<lambda>(sequence, r5).
                    Inr (Coinbase h data sequence, r5))))))
       else
         res_bind (read_uint 4 r1) (\<lambda>(index, r2).
         res_bind (script_deserialize r2) (\<lambda>(unlock_script, r3).
         res_bind (read_uint 4 r3) (\<lambda>(sequence, r4).
           Inr (PrevOut (OutPoint hash index) unlock_script sequence, r4)))))"

definition output_serialize :: "transparent_output \<Rightarrow> (unit + byte list) outcome" where
  "output_serialize out =
     run_bind (nonneg_zcash_serialize (output_value out)) (\<lambda>value_bytes.
     try_bind (script_serialize (lock_script out)) (\<lambda>script_bytes.
       Done (Inr (value_bytes @ script_bytes))))"

definition output_deserialize :: "byte list \<Rightarrow> serialization_error + transparent_output \<times> byte list" where
  "output_deserialize bs =
     res_bind (nonneg_zcash_deserialize bs) (\<lambda>(v, r1).
     res_bind (script_deserialize r1) (\<lambda>(s, r2).
       Inr (\<lparr>output_value = v, lock_script = s\<rparr>, r2)))"

text \<open>\<open>Output::is_dust\<close>: the arithmetic is on 32-bit unsigned integers and wraps.\<close>

definition is_dust :: "transparent_output \<Rightarrow> bool outcome" where
  "is_dust out =
     run_bind (output_serialize out) (\<lambda>r.
     run_bind (expect_ok r) (\<lambda>bs.
     run_bind (expect_some (u32_try_from (int (length bs)))) (\<lambda>output_size.
       let threshold =
         3 * (ONE_THIRD_DUST_THRESHOLD_RATE * ((output_size + 148) mod 2 ^ 32) mod 2 ^ 32 div 1000)
           mod 2 ^ 32
       in Done (zatoshis (output_value out) < int threshold))))"

section \<open>Lemmas\<close>

lemma nth_le_bytes: "i < n \<Longrightarrow> le_bytes n k ! i = word_of_nat (k div 256 ^ i mod 256)"
proof (induction n arbitrary: i k)
  case (Suc n)
  then show ?case by (cases i) (auto simp: div_mult2_eq)
qed simp

lemma parse_height_bytes_write:
  assumes "lo \<le> h" and "h < hi" and "hi \<le> 256 ^ n"
  shows "parse_height_bytes n lo hi (op # write_uint n h @ data) = Inr (h, data)"
  using assms by (simp add: parse_height_bytes_def write_uint_def le_nat_le_bytes)

lemma top_byte_small:
  assumes "h < 128 * 256 ^ n"
  shows "(op # write_uint (Suc n) h @ data) ! Suc n < (0x80 :: byte)"
proof -
  have "h div 256 ^ n < 128" using assms by (simp add: less_mult_imp_div_less)
  then have "word_of_nat (h div 256 ^ n mod 256) < (0x80 :: byte)"
    by (simp add: word_less_nat_alt unat_of_nat)
  moreover have "(op # write_uint (Suc n) h @ data) ! Suc n = word_of_nat (h div 256 ^ n mod 256)"
    by (simp add: write_uint_def nth_append nth_le_bytes del: le_bytes.simps)
  ultimately show ?thesis by simp
qed

lemma parse_height_bytes_Inr:
  assumes "parse_height_bytes n lo hi bs = Inr (h, data)" and "n < length bs"
  shows "lo \<le> h \<and> h < hi \<and> bs = hd bs # write_uint n h @ data"
proof -
  have h: "h = le_nat (take n (drop 1 bs))" "data = drop (n + 1) bs" "lo \<le> h" "h < hi"
    using assms(1) by (auto simp: parse_height_bytes_def Let_def split: if_splits)
  have "length (take n (drop 1 bs)) = n" using assms(2) by simp
  then have "write_uint n h = take n (drop 1 bs)"
    using le_bytes_le_nat [of "take n (drop 1 bs)"] h(1) by (simp add: write_uint_def)
  moreover have "bs = hd bs # drop 1 bs" using assms(2) by (cases bs) auto
  moreover have "drop 1 bs = take n (drop 1 bs) @ drop (n + 1) bs"
    by (metis append_take_drop_id drop_drop)
  ultimately show ?thesis using h by metis
qed

lemma parse_write_coinbase_height:
  assumes "write_coinbase_height h data = Done (Inr p)" and "p @ data = GENESIS_COINBASE_DATA \<Longrightarrow> h = 0"
  shows "parse_coinbase_height (p @ data) = Inr (h, data)"
proof -
  have "h \<le> Height_MAX" using assms(1) by (auto simp: write_coinbase_height_def Height_MAX_value split: if_splits)
  then consider "h = 0" | "1 \<le> h" "h \<le> 16" | "16 < h" "h \<le> 127" | "127 < h" "h \<le> 32767"
    | "32767 < h" "h \<le> 8388607" | "8388607 < h" "h \<le> Height_MAX" by linarith
  then show ?thesis
  proof cases
    case 1
    then have "p = []" "data = GENESIS_COINBASE_DATA"
      using assms(1) by (auto simp: write_coinbase_height_def split: if_splits)
    then show ?thesis using 1 by (simp add: parse_coinbase_height_def GENESIS_COINBASE_DATA_def)
  next
    case 2
    have u: "unat (word_of_nat h :: byte) = h" using 2 by (simp add: unat_of_nat)
    have op: "unat (0x50 + word_of_nat h :: byte) = 0x50 + h"
      using 2 u by (subst unat_add_lem [THEN iffD1]) auto
    have "p = [0x50 + word_of_nat h]" using assms(1) 2 by (simp add: write_coinbase_height_def)
    moreover have "0x51 \<le> (0x50 + word_of_nat h :: byte)" "(0x50 + word_of_nat h :: byte) \<le> 0x60"
      using op 2 by (simp_all add: word_le_nat_alt)
    ultimately show ?thesis using u by (simp add: parse_coinbase_height_def)
  next
    case 3
    have "p = 1 # write_uint 1 h" using assms(1) 3 by (simp add: write_coinbase_height_def)
    then show ?thesis
      using 3 parse_height_bytes_write [of 17 h 128 1 1 data] top_byte_small [of h 0 1 data]
      by (simp add: parse_coinbase_height_def word_le_nat_alt)
  next
    case 4
    have "p = 2 # write_uint 2 h" using assms(1) 4 by (simp add: write_coinbase_height_def)
    moreover have "(2 # write_uint 2 h @ data) ! 2 < 0x80"
      using top_byte_small [of h 1 2 data] 4 by (simp add: numeral_2_eq_2)
    ultimately show ?thesis
      using 4 parse_height_bytes_write [of 128 h 32768 2 2 data] by (simp add: parse_coinbase_height_def)
  next
    case 5
    have "p = 3 # write_uint 3 h" using assms(1) 5 by (simp add: write_coinbase_height_def)
    moreover have "(3 # write_uint 3 h @ data) ! 3 < 0x80"
      using top_byte_small [of h 2 3 data] 5 by (simp add: Suc_numeral del: nth_Cons_numeral)
    ultimately show ?thesis
      using 5 parse_height_bytes_write [of 32768 h 8388608 3 3 data]
      by (simp add: parse_coinbase_height_def)
  next
    case 6
    have "p = 4 # write_uint 4 h" using assms(1) 6 by (simp add: write_coinbase_height_def)
    moreover have "(4 # write_uint 4 h @ data) ! 4 < 0x80"
      using top_byte_small [of h 3 4 data] 6
      by (simp add: Height_MAX_value Suc_numeral del: nth_Cons_numeral)
    ultimately show ?thesis
      using 6 assms(2) parse_height_bytes_write [of 8388608 h "Height_MAX + 1" 4 4 data]
      by (auto simp: parse_coinbase_height_def Height_MAX_value)
  qed
qed

lemma parse_coinbase_height_canonical:
  assumes "parse_coinbase_height bs = Inr (h, data)"
  shows "\<exists>p. write_coinbase_height h data = Done (Inr p) \<and> bs = p @ data \<and>
             (bs = GENESIS_COINBASE_DATA \<longrightarrow> h = 0)"
proof -
  obtain op rest where bs: "bs = op # rest"
    using assms by (cases bs) (auto simp: parse_coinbase_height_def)
  have genesis_op: "bs = GENESIS_COINBASE_DATA \<Longrightarrow> op = 4"
    using bs by (simp add: GENESIS_COINBASE_DATA_def)
  consider (op_n) "0x51 \<le> op" "op \<le> 0x60" "h = unat (op - 0x50)" "data = rest"
    | (one) "op = 1" "1 < length bs" "parse_height_bytes 1 17 128 bs = Inr (h, data)"
    | (two) "op = 2" "2 < length bs" "parse_height_bytes 2 128 32768 bs = Inr (h, data)"
    | (three) "op = 3" "3 < length bs" "parse_height_bytes 3 32768 8388608 bs = Inr (h, data)"
    | (genesis) "bs = GENESIS_COINBASE_DATA" "h = 0" "data = bs"
    | (four) "op = 4" "4 < length bs" "bs \<noteq> GENESIS_COINBASE_DATA"
        "parse_height_bytes 4 8388608 (Height_MAX + 1) bs = Inr (h, data)"
    using assms bs by (auto simp: parse_coinbase_height_def Suc_le_eq split: if_splits)
  then show ?thesis
  proof cases
    case op_n
    then have "unat op \<le> 0x60" "0x51 \<le> unat op" by (simp_all add: word_le_nat_alt)
    moreover have "unat (op - 0x50) = unat op - 0x50"
      using op_n(1) by (subst unat_sub) (auto simp: word_le_nat_alt)
    ultimately have h: "1 \<le> h" "h \<le> 16" using op_n(3) by auto
    have "0x50 + word_of_nat h = op" using op_n(3) by simp
    then have "write_coinbase_height h data = Done (Inr [op])"
      using h by (simp add: write_coinbase_height_def)
    moreover have "bs \<noteq> GENESIS_COINBASE_DATA" using genesis_op op_n(1) by auto
    ultimately show ?thesis using bs op_n(4) by auto
  next
    case one
    from parse_height_bytes_Inr [OF one(3,2)] one(1) bs genesis_op show ?thesis
      by (auto simp: write_coinbase_height_def)
  next
    case two
    from parse_height_bytes_Inr [OF two(3,2)] two(1) bs genesis_op show ?thesis
      by (auto simp: write_coinbase_height_def)
  next
    case three
    from parse_height_bytes_Inr [OF three(3,2)] three(1) bs genesis_op show ?thesis
      by (auto simp: write_coinbase_height_def)
  next
    case genesis
    then show ?thesis by (auto simp: write_coinbase_height_def)
  next
    case four
    from parse_height_bytes_Inr [OF four(4,2)] four(1,3) bs show ?thesis
      by (auto simp: write_coinbase_height_def)
  qed
qed

text \<open>Which inputs and outputs have a wire format that is read back, and that format.\<close>

definition coinbase_bytes :: "height \<Rightarrow> byte list \<Rightarrow> byte list" where
  "coinbase_bytes h data =
     (case write_coinbase_height h data of Done (Inr p) \<Rightarrow> p @ data | _ \<Rightarrow> [])"

fun input_ok :: "transparent_input \<Rightarrow> bool" where
  "input_ok (PrevOut (OutPoint hash index) unlock_script sequence) \<longleftrightarrow>
     length hash = 32 \<and> hash \<noteq> replicate 32 0 \<and> index < 2 ^ 32 \<and>
     length unlock_script \<le> MAX_U8_ALLOCATION \<and> sequence < 2 ^ 32"
| "input_ok (Coinbase h data sequence) \<longleftrightarrow>
     (\<exists>p. write_coinbase_height h data = Done (Inr p) \<and>
          MIN_COINBASE_DATA_LEN \<le> length (p @ data) \<and> length (p @ data) \<le> MAX_COINBASE_DATA_LEN \<and>
          (p @ data = GENESIS_COINBASE_DATA \<longrightarrow> h = 0)) \<and>
     sequence < 2 ^ 32"

definition bytes_layout :: "byte list \<Rightarrow> byte list" where
  "bytes_layout bs = compact_size64_serialize (length bs) @ bs"

fun input_layout :: "transparent_input \<Rightarrow> byte list" where
  "input_layout (PrevOut (OutPoint hash index) unlock_script sequence) =
     hash @ write_uint 4 index @ bytes_layout unlock_script @ write_uint 4 sequence"
| "input_layout (Coinbase h data sequence) =
     replicate 32 0 @ write_uint 4 0xffffffff @ bytes_layout (coinbase_bytes h data) @
     write_uint 4 sequence"

definition output_ok :: "transparent_output \<Rightarrow> bool" where
  "output_ok out \<longleftrightarrow> amount_ok NonNegative (output_value out) \<and> length (lock_script out) \<le> MAX_U8_ALLOCATION"

definition output_layout :: "transparent_output \<Rightarrow> byte list" where
  "output_layout out = le_bytes 8 (nat (zatoshis (output_value out))) @ bytes_layout (lock_script out)"

lemma bytes_wire_iff:
  "bytes_zcash_deserialize bs = Inr (xs, rest) \<longleftrightarrow>
   length xs \<le> MAX_U8_ALLOCATION \<and> bs = bytes_layout xs @ rest"
  by (simp add: bytes_deserialize_iff bytes_layout_def)

interpretation bytes_wire:
  wire_codec bytes_layout bytes_zcash_deserialize "\<lambda>xs. length xs \<le> MAX_U8_ALLOCATION"
  by unfold_locales (simp_all add: bytes_wire_iff)

lemma zcash_serialize_bytes_layout:
  "length xs \<le> MAX_U8_ALLOCATION \<Longrightarrow> zcash_serialize_bytes xs = Done (Inr (bytes_layout xs))"
  by (simp add: zcash_serialize_bytes_iff bytes_layout_def MAX_U8_ALLOCATION_def)

lemma coinbase_data_small: "length xs \<le> MAX_COINBASE_DATA_LEN \<Longrightarrow> length xs \<le> MAX_U8_ALLOCATION"
  by (simp add: MAX_COINBASE_DATA_LEN_def MAX_U8_ALLOCATION_def MAX_PROTOCOL_MESSAGE_LEN_def)

lemma coinbase_serialize_layout:
  "length p + length data \<le> MAX_COINBASE_DATA_LEN \<Longrightarrow>
   zcash_serialize_bytes (p @ data) = Done (Inr (bytes_layout (p @ data)))"
  by (rule zcash_serialize_bytes_layout, rule coinbase_data_small) simp

lemma input_serialize_layout: "input_ok i \<Longrightarrow> input_serialize i = Done (Inr (input_layout i))"
  by (induction i rule: input_ok.induct)
    (auto simp: script_serialize_def zcash_serialize_bytes_layout outpoint_serialize_def
      coinbase_serialize_layout coinbase_bytes_def)

lemma input_deserialize_layout:
  assumes "input_ok i"
  shows "input_deserialize (input_layout i @ rest) = Inr (i, rest)"
  using assms
proof (induction i rule: input_ok.induct)
  case (1 hash index unlock_script sequence)
  then show ?case
    by (simp add: input_deserialize_def read_bytes_append read_uint_write script_deserialize_def
        bytes_wire.read_back)
next
  case (2 h data sequence)
  then obtain p where p: "write_coinbase_height h data = Done (Inr p)"
    "MIN_COINBASE_DATA_LEN \<le> length (p @ data)" "length (p @ data) \<le> MAX_COINBASE_DATA_LEN"
    "p @ data = GENESIS_COINBASE_DATA \<longrightarrow> h = 0" and seq: "sequence < 2 ^ 32" by auto
  have bytes: "coinbase_bytes h data = p @ data" using p(1) by (simp add: coinbase_bytes_def)
  have "length (p @ data) \<le> MAX_U8_ALLOCATION" using p(3) by (rule coinbase_data_small)
  moreover have "compact_size_message_deserialize (bytes_layout (p @ data) @ r) =
      Inr (length (p @ data), p @ data @ r)" for r
    using p(3) by (simp add: compact_size_message_iff bytes_layout_def MAX_COINBASE_DATA_LEN_def
        MAX_PROTOCOL_MESSAGE_LEN_def)
  moreover have "parse_coinbase_height (p @ data) = Inr (h, data)"
    using p(1,4) by (intro parse_write_coinbase_height) auto
  ultimately show ?case
    using p(2,3) seq bytes read_bytes_append [of "p @ data" "length (p @ data)" Io "write_uint 4 sequence @ rest"]
    by (simp add: input_deserialize_def read_bytes_append read_uint_write
        zcash_deserialize_bytes_external_count_def)
qed

lemma input_deserialize_canonical:
  assumes "input_deserialize bs = Inr (i, rest)"
  shows "input_ok i \<and> bs = input_layout i @ rest"
proof -
  from assms obtain hash r1 where hash: "read_bytes Io 32 bs = Inr (hash, r1)"
    by (auto simp: input_deserialize_def res_bind_Inr_iff)
  then have bs: "bs = hash @ r1" "length hash = 32" by (auto simp: read_bytes_Inr)
  show ?thesis
  proof (cases "hash = replicate 32 0")
    case True
    with assms hash obtain r2 len r3 cb r4 h data sequence where
      steps: "read_uint 4 r1 = Inr (0xffffffff, r2)" "compact_size_message_deserialize r2 = Inr (len, r3)"
        "len \<le> MAX_COINBASE_DATA_LEN" "MIN_COINBASE_DATA_LEN \<le> len"
        "read_bytes Io len r3 = Inr (cb, r4)" "parse_coinbase_height cb = Inr (h, data)"
        "read_uint 4 r4 = Inr (sequence, rest)" and i: "i = Coinbase h data sequence"
      by (auto simp: input_deserialize_def res_bind_Inr_iff zcash_deserialize_bytes_external_count_def
          split: if_splits)
    from parse_coinbase_height_canonical [OF steps(6)] obtain p where
      p: "write_coinbase_height h data = Done (Inr p)" "cb = p @ data"
        "cb = GENESIS_COINBASE_DATA \<longrightarrow> h = 0" by blast
    show ?thesis
      using steps i p bs True
      by (auto simp: read_uint_iff compact_size_message_iff read_bytes_Inr bytes_layout_def coinbase_bytes_def)
  next
    case False
    with assms hash obtain index r2 s r3 sequence where
      steps: "read_uint 4 r1 = Inr (index, r2)" "bytes_zcash_deserialize r2 = Inr (s, r3)"
        "read_uint 4 r3 = Inr (sequence, rest)" and i: "i = PrevOut (OutPoint hash index) s sequence"
      by (auto simp: input_deserialize_def res_bind_Inr_iff script_deserialize_def)
    then show ?thesis using bs False by (auto simp: read_uint_iff bytes_wire_iff)
  qed
qed

interpretation input_wire: wire_codec input_layout input_deserialize input_ok
  by unfold_locales (rule input_deserialize_layout, assumption, rule input_deserialize_canonical, assumption)

lemma nonneg_try_from_u64:
  "amount_try_from_u64 NonNegative v = Inr a \<longleftrightarrow> amount_ok NonNegative a \<and> v = zatoshis a"
  by (cases a)
    (auto simp: amount_try_from_u64_def res_bind_Inr_iff try_from_i64_cases in_i64_def MAX_MONEY_value
      split: if_splits)

lemma nonneg_wire_iff:
  "nonneg_zcash_deserialize bs = Inr (a, rest) \<longleftrightarrow>
   amount_ok NonNegative a \<and> bs = le_bytes 8 (nat (zatoshis a)) @ rest"
proof -
  have "nonneg_zcash_deserialize bs = Inr (a, rest) \<longleftrightarrow>
      (\<exists>x. read_uint 8 bs = Inr (x, rest) \<and> amount_ok NonNegative a \<and> int x = zatoshis a)"
    by (auto simp: nonneg_zcash_deserialize_def read_uint_def res_bind_Inr_iff nonneg_try_from_u64)
  also have "\<dots> \<longleftrightarrow> amount_ok NonNegative a \<and> bs = le_bytes 8 (nat (zatoshis a)) @ rest"
    by (cases a) (auto simp: read_uint_iff write_uint_def MAX_MONEY_value intro!: exI [of _ "nat (zatoshis a)"])
  finally show ?thesis .
qed

lemma output_wire_iff:
  "output_deserialize bs = Inr (out, rest) \<longleftrightarrow> output_ok out \<and> bs = output_layout out @ rest"
proof -
  have "output_deserialize bs = Inr (out, rest) \<longleftrightarrow>
      (\<exists>r1. nonneg_zcash_deserialize bs = Inr (output_value out, r1) \<and>
            bytes_zcash_deserialize r1 = Inr (lock_script out, rest))"
    by (cases out) (auto simp: output_deserialize_def script_deserialize_def res_bind_Inr_iff)
  also have "\<dots> \<longleftrightarrow> output_ok out \<and> bs = output_layout out @ rest"
    by (auto simp: nonneg_wire_iff bytes_wire_iff output_ok_def output_layout_def)
  finally show ?thesis .
qed

interpretation output_wire: wire_codec output_layout output_deserialize output_ok
  by unfold_locales (simp_all add: output_wire_iff)

lemma output_serialize_layout:
  assumes "output_ok out"
  shows "output_serialize out = Done (Inr (output_layout out))"
proof -
  have "in_u64 (zatoshis (output_value out))"
    using assms by (cases "output_value out") (auto simp: output_ok_def in_u64_def MAX_MONEY_value)
  then show ?thesis
    using assms by (simp add: output_serialize_def nonneg_zcash_serialize_def amount_to_u64_def
        script_serialize_def zcash_serialize_bytes_layout output_ok_def output_layout_def)
qed

lemma write_coinbase_height_length:
  "write_coinbase_height h data = Done (Inr p) \<Longrightarrow> 0 < h \<Longrightarrow>
   1 \<le> length p \<and> length p \<le> 5 \<and> write_coinbase_height h data' = Done (Inr p)"
  by (auto simp: write_coinbase_height_def split: if_splits)

lemma write_coinbase_height_total:
  "0 < h \<Longrightarrow> h \<le> Height_MAX \<Longrightarrow> \<exists>p. write_coinbase_height h data = Done (Inr p)"
  by (simp add: write_coinbase_height_def split: if_split)

lemma new_coinbase_genesis_panics: "new_coinbase 0 data sequence = Panic"
  by (simp add: new_coinbase_def coinbase_zcash_serialized_size_def write_coinbase_height_def
      GENESIS_COINBASE_DATA_def)

section \<open>Properties\<close>

text \<open>The transparent input decoder accepts exactly what the encoder writes for a well-formed input,
  and leaves the rest of the input bytes. In particular every accepted coinbase input carries the
  minimal encoding of its height, a script of 2 to 100 bytes, and re-encodes to the bytes it was read
  from.\<close>

theorem input_decodes_exactly_serialized:
  "input_deserialize bs = Inr (i, rest) \<longleftrightarrow>
   input_ok i \<and> (\<exists>p. input_serialize i = Done (Inr p) \<and> bs = p @ rest)"
  using input_wire.read_iff [of bs i rest] input_serialize_layout [of i] by auto

text \<open>A coinbase input made by the block template code for any height above genesis has a script
  of 2 to 100 bytes that the decoder parses back to that height, unless the script is the
  genesis coinbase data; making it panics exactly when the miner data does not fit.\<close>

theorem new_coinbase_script_parses_back:
  assumes "0 < h" and "h \<le> Height_MAX"
  shows "(new_coinbase h miner_data sequence = Panic \<longleftrightarrow>
          MAX_COINBASE_DATA_LEN < length (coinbase_bytes h (if miner_data = [] then [0] else miner_data))) \<and>
         (\<forall>i. new_coinbase h miner_data sequence = Done i \<longrightarrow>
            (\<exists>bs. coinbase_script i = Done (Some bs) \<and>
               MIN_COINBASE_DATA_LEN \<le> length bs \<and> length bs \<le> MAX_COINBASE_DATA_LEN \<and>
               (bs \<noteq> GENESIS_COINBASE_DATA \<longrightarrow>
                  parse_coinbase_height bs = Inr (h, if miner_data = [] then [0] else miner_data))))"
proof -
  define data where "data = (if miner_data = [] then [0] else miner_data)"
  have data: "1 \<le> length data" by (cases miner_data) (auto simp: data_def)
  obtain p where p: "write_coinbase_height h [] = Done (Inr p)"
    using write_coinbase_height_total [OF assms] by blast
  have len: "1 \<le> length p" "length p \<le> 5" and pd: "write_coinbase_height h data = Done (Inr p)"
    using write_coinbase_height_length [OF p assms(1)] by auto
  have make: "new_coinbase h miner_data sequence =
      (if length (p @ data) \<le> MAX_COINBASE_DATA_LEN
       then Done (Coinbase h data (case sequence of None \<Rightarrow> 0 | Some s \<Rightarrow> s)) else Panic)"
    using p len by (auto simp: new_coinbase_def coinbase_zcash_serialized_size_def Let_def
        MAX_COINBASE_DATA_LEN_def assert_that_def simp flip: data_def)
  have parse: "parse_coinbase_height (p @ data) = Inr (h, data)" if "p @ data \<noteq> GENESIS_COINBASE_DATA"
    using that by (intro parse_write_coinbase_height [OF pd]) simp
  show ?thesis
    unfolding data_def [symmetric]
    using make pd len data parse by (auto simp: coinbase_bytes_def MIN_COINBASE_DATA_LEN_def)
qed

end
