(* ===== verification/Difficulties.thy ===== *)
theory Difficulties
  imports Checkpoint_Lists
begin

text \<open>
  Proof-of-work difficulties: \<open>zebra-chain/src/work/difficulty.rs\<close>.

  A \<open>CompactDifficulty\<close> is a 32-bit word. \<open>U256\<close> values (of the \<open>primitive_types\<close> crate) are natural numbers
  below \<open>2 ^ 256\<close>, and its \<open>+\<close>, \<open>*\<close> and \<open>pow\<close> panic on overflow, as that crate documents. \<open>Work\<close> and
  \<open>PartialCumulativeWork\<close> are \<open>u128\<close> values.
\<close>

unbundle bit_operations_syntax

section \<open>256-bit integers\<close>

definition is_u256 :: "nat \<Rightarrow> bool" where
  "is_u256 x \<longleftrightarrow> x < 2 ^ 256"

definition u256_checked :: "nat \<Rightarrow> nat outcome" where
  "u256_checked x = (if x < 2 ^ 256 then Done x else Panic)"

definition u256_add :: "nat \<Rightarrow> nat \<Rightarrow> nat outcome" where
  "u256_add x y = u256_checked (x + y)"

definition u256_mul :: "nat \<Rightarrow> nat \<Rightarrow> nat outcome" where
  "u256_mul x y = u256_checked (x * y)"

definition u256_pow :: "nat \<Rightarrow> nat \<Rightarrow> nat outcome" where
  "u256_pow x n = u256_checked (x ^ n)"

definition u256_div :: "nat \<Rightarrow> nat \<Rightarrow> nat outcome" where
  "u256_div x y = (if y = 0 then Panic else Done (x div y))"

definition u256_not :: "nat \<Rightarrow> nat" where
  "u256_not x = 2 ^ 256 - 1 - x"

definition u256_shl :: "nat \<Rightarrow> nat \<Rightarrow> nat" where
  "u256_shl x n = x * 2 ^ n mod 2 ^ 256"

definition u256_shr :: "nat \<Rightarrow> nat \<Rightarrow> nat" where
  "u256_shr x n = x div 2 ^ n"

fun u256_bits :: "nat \<Rightarrow> nat" where
  "u256_bits x = (if x = 0 then 0 else Suc (u256_bits (x div 2)))"

declare u256_bits.simps [simp del]

section \<open>Compact and expanded difficulties\<close>

datatype compact_difficulty = CompactDifficulty (compact_bits: "32 word")

type_synonym expanded_difficulty = nat

definition COMPACT_BASE :: nat where
  "COMPACT_BASE = 256"

definition COMPACT_OFFSET :: int where
  "COMPACT_OFFSET = 3"

definition COMPACT_PRECISION :: nat where
  "COMPACT_PRECISION = 24"

definition SIGN_BIT :: "32 word" where
  "SIGN_BIT = push_bit (COMPACT_PRECISION - 1) 1"

definition UNSIGNED_MANTISSA_MASK :: "32 word" where
  "UNSIGNED_MANTISSA_MASK = SIGN_BIT - 1"

text \<open>The match that normalises mantissa and exponent; \<open>None\<close> is the early \<open>return None\<close>.\<close>

definition normalise_compact :: "32 word \<Rightarrow> int \<Rightarrow> (32 word \<times> int) option" where
  "normalise_compact m e =
     (if e \<ge> 32 then None
      else if e = 31 \<and> m > 0xff then None
      else if e = 31 \<and> m \<le> 0xff then Some (push_bit 16 m, e - 2)
      else if e = 30 \<and> m > 0xffff then None
      else if e = 30 \<and> m \<le> 0xffff then Some (push_bit 8 m, e - 1)
      else if e < 0 then Some (drop_bit (nat (\<bar>e\<bar> * 8)) m, 0)
      else Some (m, e))"

fun to_expanded :: "compact_difficulty \<Rightarrow> expanded_difficulty option outcome" where
  "to_expanded (CompactDifficulty x) =
     (if x AND SIGN_BIT = SIGN_BIT then Done None
      else
        let mantissa = x AND UNSIGNED_MANTISSA_MASK;
            exponent = int (unat (drop_bit COMPACT_PRECISION x)) - COMPACT_OFFSET
        in case normalise_compact mantissa exponent of
             None \<Rightarrow> Done None
           | Some (m, e) \<Rightarrow>
               run_bind (u256_pow COMPACT_BASE (nat e)) (\<lambda>power.
               run_bind (u256_mul (unat m) power) (\<lambda>result.
                 if result = 0 then Done None else Done (Some result))))"

declare to_expanded.simps [simp del]

definition to_compact :: "expanded_difficulty \<Rightarrow> compact_difficulty outcome" where
  "to_compact x =
     run_bind (assert_that (x > 0)) (\<lambda>_.
     let size = u256_bits x div 8 + 1;
         mantissa =
           (if x \<le> unat UNSIGNED_MANTISSA_MASK then u256_shl x (8 * (3 - size))
            else u256_shr x (8 * (size - 3)))
     in
     run_bind (assert_that (int size < 31 + COMPACT_OFFSET)) (\<lambda>_.
     run_bind (assert_that (mantissa \<le> unat UNSIGNED_MANTISSA_MASK)) (\<lambda>_.
     if mantissa > 0
     then Done (CompactDifficulty (of_nat mantissa + push_bit 24 (of_nat size)))
     else Panic)))"

definition from_hash :: "block_hash \<Rightarrow> expanded_difficulty" where
  "from_hash hash = le_nat hash"

text \<open>The comparison of a hash with a threshold, \<open>hash > &difficulty_threshold\<close>.\<close>

definition hash_greater_than :: "block_hash \<Rightarrow> expanded_difficulty \<Rightarrow> bool" where
  "hash_greater_than hash threshold \<longleftrightarrow> from_hash hash > threshold"

text \<open>Big-endian bytes of a \<open>u32\<close>.\<close>

definition bytes_in_display_order :: "compact_difficulty \<Rightarrow> byte list" where
  "bytes_in_display_order c = (case c of CompactDifficulty x \<Rightarrow> rev (le_bytes 4 (unat x)))"

definition from_bytes_in_display_order :: "byte list \<Rightarrow> (string + compact_difficulty) outcome" where
  "from_bytes_in_display_order bs =
     (let difficulty = CompactDifficulty (of_nat (le_nat (rev bs))) in
      run_bind (to_expanded difficulty) (\<lambda>r.
        if r = None then Done (Inl ''invalid difficulty value'') else Done (Inr difficulty)))"

fun expanded_sum :: "expanded_difficulty \<Rightarrow> expanded_difficulty list \<Rightarrow> expanded_difficulty outcome" where
  "expanded_sum acc [] = Done acc"
| "expanded_sum acc (d # ds) = run_bind (u256_add acc d) (\<lambda>s. expanded_sum s ds)"

definition expanded_div :: "expanded_difficulty \<Rightarrow> nat \<Rightarrow> expanded_difficulty outcome" where
  "expanded_div d n = u256_div d n"

definition expanded_mul :: "expanded_difficulty \<Rightarrow> nat \<Rightarrow> expanded_difficulty outcome" where
  "expanded_mul d n = u256_mul d n"

section \<open>Work\<close>

datatype work = Work (work_value: nat)

definition work_try_from :: "expanded_difficulty \<Rightarrow> (unit + work) outcome" where
  "work_try_from expanded =
     run_bind (u256_add expanded 1) (\<lambda>divisor.
     run_bind (u256_div (u256_not expanded) divisor) (\<lambda>quotient.
     run_bind (u256_add quotient 1) (\<lambda>result.
       if result \<le> 2 ^ 128 - 1 then Done (Inr (Work result)) else Done (Inl ()))))"

definition to_work :: "compact_difficulty \<Rightarrow> work option outcome" where
  "to_work c =
     run_bind (to_expanded c) (\<lambda>r.
       case r of
         None \<Rightarrow> Done None
       | Some expanded \<Rightarrow> run_bind (work_try_from expanded) (\<lambda>w. Done (res_ok w)))"

datatype partial_cumulative_work = PartialCumulativeWork (cumulative: nat)

definition cumulative_zero :: partial_cumulative_work where
  "cumulative_zero = PartialCumulativeWork 0"

definition cumulative_from :: "work \<Rightarrow> partial_cumulative_work" where
  "cumulative_from w = PartialCumulativeWork (work_value w)"

definition cumulative_add :: "partial_cumulative_work \<Rightarrow> work \<Rightarrow> partial_cumulative_work outcome" where
  "cumulative_add p w =
     (if cumulative p + work_value w < 2 ^ 128
      then Done (PartialCumulativeWork (cumulative p + work_value w)) else Panic)"

definition work_add :: "work \<Rightarrow> work \<Rightarrow> partial_cumulative_work outcome" where
  "work_add a b = cumulative_add (cumulative_from a) b"

definition cumulative_sub :: "partial_cumulative_work \<Rightarrow> work \<Rightarrow> partial_cumulative_work outcome" where
  "cumulative_sub p w =
     (if work_value w \<le> cumulative p
      then Done (PartialCumulativeWork (cumulative p - work_value w)) else Panic)"

section \<open>Lemmas\<close>

lemma u256_bits_0 [simp]: "u256_bits 0 = 0"
  by (simp add: u256_bits.simps)

lemma u256_bits_le_iff: "u256_bits x \<le> n \<longleftrightarrow> x < 2 ^ n"
proof (induction x arbitrary: n rule: u256_bits.induct)
  case (1 x)
  show ?case
  proof (cases "x = 0")
    case False
    show ?thesis
    proof (cases n)
      case 0
      then show ?thesis using False by (simp add: u256_bits.simps [of x])
    next
      case (Suc k)
      have "x div 2 < 2 ^ k \<longleftrightarrow> x < 2 ^ Suc k" by (auto simp: div_less_iff_less_mult)
      then show ?thesis using 1 [OF False, of k] False by (simp add: u256_bits.simps [of x] Suc)
    qed
  qed simp
qed

lemma u256_bits_less: "x < 2 ^ u256_bits x"
  using u256_bits_le_iff by blast

lemma u256_bits_ge_iff: "Suc n \<le> u256_bits x \<longleftrightarrow> 2 ^ n \<le> x"
  using u256_bits_le_iff [of x n] by linarith

lemma u256_bits_eqI: "2 ^ n \<le> x \<Longrightarrow> x < 2 ^ Suc n \<Longrightarrow> u256_bits x = Suc n"
  using u256_bits_le_iff [of x "Suc n"] u256_bits_ge_iff [of n x] by simp

lemma sign_bit_value: "SIGN_BIT = 0x800000" "unat UNSIGNED_MANTISSA_MASK = 0x7fffff"
  "UNSIGNED_MANTISSA_MASK = mask 23"
  by (simp_all add: SIGN_BIT_def UNSIGNED_MANTISSA_MASK_def COMPACT_PRECISION_def push_bit_eq_mult
      mask_eq_exp_minus_1)

lemma sign_bit_iff: "x AND SIGN_BIT = SIGN_BIT \<longleftrightarrow> bit x 23"
proof -
  have s: "bit SIGN_BIT n \<longleftrightarrow> n = 23" for n
    by (simp only: SIGN_BIT_def COMPACT_PRECISION_def bit_push_bit_iff bit_1_iff possible_bit_word) auto
  show ?thesis
  proof
    assume "x AND SIGN_BIT = SIGN_BIT"
    then have "bit (x AND SIGN_BIT) 23 = bit SIGN_BIT 23" by simp
    then show "bit x 23" by (simp only: bit_and_iff s simp_thms)
  next
    assume "bit x 23"
    then show "x AND SIGN_BIT = SIGN_BIT" by (intro bit_eqI) (auto simp add: bit_and_iff s)
  qed
qed

lemma unat_mantissa: "unat (x AND UNSIGNED_MANTISSA_MASK) = unat x mod 2 ^ 23"
  by (simp only: sign_bit_value(3) take_bit_eq_mask [symmetric] unsigned_take_bit_eq)
    (simp only: take_bit_eq_mod)

lemma unat_drop_bit: "unat (drop_bit n (x :: 32 word)) = unat x div 2 ^ n"
proof -
  have "take_bit LENGTH(32) (unat x) = unat x" by (rule take_bit_nat_eq_self) (rule unsigned_less)
  then show ?thesis by (simp only: unsigned_drop_bit_eq) (simp only: drop_bit_eq_div)
qed

lemma unat_size: "unat (drop_bit COMPACT_PRECISION (x :: 32 word)) = unat x div 2 ^ 24"
  by (simp only: COMPACT_PRECISION_def unat_drop_bit)

lemma unat_push_bit_small:
  assumes "unat (m :: 32 word) * 2 ^ n < 2 ^ 32"
  shows "unat (push_bit n m) = unat m * 2 ^ n"
proof -
  have "unat (push_bit n m) = unat m * 2 ^ n mod 2 ^ LENGTH(32)"
    by (simp only: unsigned_push_bit_eq) (simp only: push_bit_eq_mult take_bit_eq_mod)
  then show ?thesis using assms by simp
qed

text \<open>\<open>ToTarget(nBits)\<close> of the protocol specification, as a function of mantissa and size.\<close>

definition compact_target :: "nat \<Rightarrow> nat \<Rightarrow> nat" where
  "compact_target mantissa sz =
     (if 3 \<le> sz then mantissa * 256 ^ (sz - 3) else mantissa div 256 ^ (3 - sz))"

definition valid_target :: "nat \<Rightarrow> nat option" where
  "valid_target t = (if t = 0 \<or> 2 ^ 256 \<le> t then None else Some t)"

lemma normalise_target:
  assumes "unat m < 2 ^ 23" and "sz < 256"
  shows "(case normalise_compact m (int sz - 3) of
            None \<Rightarrow> Done None
          | Some (m', e) \<Rightarrow>
              run_bind (u256_pow COMPACT_BASE (nat e)) (\<lambda>power.
              run_bind (u256_mul (unat m') power) (\<lambda>result.
                if result = 0 then Done None else Done (Some result)))) =
         Done (valid_target (compact_target (unat m) sz))"
proof -
  have pow: "u256_pow COMPACT_BASE k = Done (256 ^ k)" if "k \<le> 29" for k
  proof -
    have "(256 :: nat) ^ k \<le> 256 ^ 29" using that by (intro power_increasing) simp_all
    then show ?thesis by (simp add: u256_pow_def u256_checked_def COMPACT_BASE_def)
  qed
  have fin: "run_bind (u256_mul a (256 ^ k)) (\<lambda>result. if result = 0 then Done None else Done (Some result)) =
             Done (valid_target (a * 256 ^ k))" if "a * 256 ^ k < 2 ^ 256" for a k
    using that by (auto simp: u256_mul_def u256_checked_def valid_target_def)
  consider "35 \<le> sz" | "sz = 34" | "sz = 33" | "3 \<le> sz" "sz \<le> 32" | "sz < 3" by linarith
  then show ?thesis
  proof cases
    case 1
    have "valid_target (unat m * 256 ^ (sz - 3)) = None"
    proof (cases "unat m = 0")
      case False
      have "(2 :: nat) ^ 256 = 256 ^ 32" by simp
      also have "\<dots> \<le> 256 ^ (sz - 3)" using 1 by (intro power_increasing) simp_all
      also have "\<dots> \<le> unat m * 256 ^ (sz - 3)" using False by simp
      finally show ?thesis by (simp only: valid_target_def if_True disj.left_commute simp_thms)
    qed (simp add: valid_target_def)
    then show ?thesis using 1 by (simp add: normalise_compact_def compact_target_def)
  next
    case 2
    show ?thesis
    proof (cases "m \<le> 0xff")
      case True
      then have le: "unat m \<le> 255" by (simp add: word_le_nat_alt)
      then have "unat (push_bit 16 m) = unat m * 2 ^ 16" by (intro unat_push_bit_small) simp
      then show ?thesis
        using True leD [OF True] 2 le pow [of 29] fin [of "unat m * 2 ^ 16" 29]
        by (simp add: normalise_compact_def compact_target_def mult.assoc)
    next
      case False
      then have "256 \<le> unat m" by (simp add: word_le_nat_alt)
      then have "valid_target (unat m * 256 ^ 31) = None" by (simp add: valid_target_def)
      then show ?thesis using False 2 by (simp add: normalise_compact_def compact_target_def not_le)
    qed
  next
    case 3
    show ?thesis
    proof (cases "m \<le> 0xffff")
      case True
      then have le: "unat m \<le> 65535" by (simp add: word_le_nat_alt)
      then have "unat (push_bit 8 m) = unat m * 2 ^ 8" by (intro unat_push_bit_small) simp
      then show ?thesis
        using True leD [OF True] 3 le pow [of 29] fin [of "unat m * 2 ^ 8" 29]
        by (simp add: normalise_compact_def compact_target_def mult.assoc)
    next
      case False
      then have "65536 \<le> unat m" by (simp add: word_le_nat_alt)
      then have "valid_target (unat m * 256 ^ 30) = None" by (simp add: valid_target_def)
      then show ?thesis using False 3 by (simp add: normalise_compact_def compact_target_def not_le)
    qed
  next
    case 4
    have "(256 :: nat) ^ (sz - 3) \<le> 256 ^ 29" using 4 by (intro power_increasing) simp_all
    then have "unat m * 256 ^ (sz - 3) \<le> 2 ^ 23 * 256 ^ 29" using assms(1) by (intro mult_mono) simp_all
    then have "unat m * 256 ^ (sz - 3) < 2 ^ 256" by simp
    moreover have "nat (int sz - 3) = sz - 3" using 4 by simp
    ultimately show ?thesis
      using 4 pow [of "sz - 3"] fin [of "unat m" "sz - 3"]
      by (simp add: normalise_compact_def compact_target_def)
  next
    case 5
    have s: "nat (\<bar>int sz - 3\<bar> * 8) = 8 * (3 - sz)" using 5 by simp
    have d: "unat (drop_bit (8 * (3 - sz)) m) = unat m div 256 ^ (3 - sz)"
      by (simp only: unat_drop_bit) (simp add: power_mult)
    have "unat m div 256 ^ (3 - sz) < 2 ^ 256"
      by (rule order.strict_trans1 [OF div_le_dividend]) (use assms(1) in simp)
    then show ?thesis
      using 5 s d pow [of 0] fin [of "unat m div 256 ^ (3 - sz)" 0]
      by (simp add: normalise_compact_def compact_target_def)
  qed
qed

lemma to_expanded_target:
  "to_expanded (CompactDifficulty x) =
     Done (if bit x 23 then None
           else valid_target (compact_target (unat x mod 2 ^ 23) (unat x div 2 ^ 24)))"
proof -
  have "unat x < 2 ^ 32" using unsigned_less [of x, where ?'a = nat] by simp
  then have "unat x div 2 ^ 24 < 256" by simp
  moreover have "unat (x AND UNSIGNED_MANTISSA_MASK) < 2 ^ 23" by (simp add: unat_mantissa)
  ultimately show ?thesis
    using normalise_target [of "x AND UNSIGNED_MANTISSA_MASK" "unat x div 2 ^ 24"]
    unfolding unat_mantissa
    by (simp add: to_expanded.simps sign_bit_iff unat_size COMPACT_OFFSET_def)
qed

subsection \<open>Compact representation of a target\<close>

definition compact_size :: "nat \<Rightarrow> nat" where
  "compact_size x = u256_bits x div 8 + 1"

definition compact_mantissa :: "nat \<Rightarrow> nat" where
  "compact_mantissa x =
     (if x < 2 ^ 23 then x * 256 ^ (3 - compact_size x) else x div 256 ^ (compact_size x - 3))"

text \<open>The target that the compact representation of \<open>x\<close> stands for.\<close>

definition compact_round :: "nat \<Rightarrow> nat" where
  "compact_round x =
     (if x < 2 ^ 23 then x else x div 256 ^ (compact_size x - 3) * 256 ^ (compact_size x - 3))"

lemma pow_256: "(256 :: nat) ^ n = 2 ^ (8 * n)"
  by (simp add: power_mult)

lemma bits_size: "8 * (compact_size x - 1) \<le> u256_bits x" "u256_bits x \<le> 8 * compact_size x - 1"
  by (simp_all add: compact_size_def)

lemma small_size: "x < 2 ^ 23 \<Longrightarrow> compact_size x \<le> 3"
  using u256_bits_le_iff [of x 23] by (simp add: compact_size_def)

lemma large_size: "2 ^ 23 \<le> x \<Longrightarrow> 4 \<le> compact_size x"
  using u256_bits_ge_iff [of 23 x] by (simp add: compact_size_def)

lemma u256_size: "is_u256 x \<Longrightarrow> compact_size x \<le> 33"
  using u256_bits_le_iff [of x 256] by (simp add: compact_size_def is_u256_def)

lemma top_bit:
  assumes "0 < x"
  obtains n where "u256_bits x = Suc n" and "2 ^ n \<le> x" and "x < 2 ^ Suc n"
proof -
  obtain n where n: "u256_bits x = Suc n" using assms by (auto simp: u256_bits.simps [of x])
  then show ?thesis using that u256_bits_ge_iff [of n x] u256_bits_less [of x] by simp
qed

lemma large_mantissa:
  assumes "2 ^ 23 \<le> x"
  shows "2 ^ 15 \<le> x div 256 ^ (compact_size x - 3)" and "x div 256 ^ (compact_size x - 3) < 2 ^ 23"
proof -
  have "0 < x" using assms by (cases x) simp_all
  then obtain n where n: "u256_bits x = Suc n" "2 ^ n \<le> x" "x < 2 ^ Suc n" by (rule top_bit)
  let ?k = "8 * (compact_size x - 3)"
  have b: "?k + 15 \<le> n" "Suc n \<le> ?k + 23"
    using bits_size [of x] n(1) large_size [OF assms] by simp_all
  have "2 ^ (?k + 15) \<le> x" using order.trans [OF power_increasing [OF b(1), of 2] n(2)] by simp
  then show "2 ^ 15 \<le> x div 256 ^ (compact_size x - 3)"
    by (simp add: pow_256 less_eq_div_iff_mult_less_eq power_add mult.commute)
  have "x < 2 ^ (?k + 23)"
    by (rule order.strict_trans2 [OF n(3)], rule power_increasing [OF b(2)]) simp
  then show "x div 256 ^ (compact_size x - 3) < 2 ^ 23"
    by (simp add: pow_256 div_less_iff_less_mult power_add mult.commute)
qed

lemma compact_mantissa_range:
  assumes "0 < x"
  shows "0 < compact_mantissa x \<and> compact_mantissa x < 2 ^ 23"
proof (cases "x < 2 ^ 23")
  case True
  let ?k = "8 * (3 - compact_size x)"
  have "u256_bits x + ?k \<le> 23" using bits_size(2) [of x] small_size [OF True] by (simp add: compact_size_def)
  have "x * 2 ^ ?k < 2 ^ u256_bits x * 2 ^ ?k" using u256_bits_less [of x] by simp
  also have "\<dots> = 2 ^ (u256_bits x + ?k)" by (simp add: power_add)
  also have "\<dots> \<le> 2 ^ 23" by (rule power_increasing [OF \<open>_ \<le> 23\<close>]) simp
  finally show ?thesis using True assms by (simp add: compact_mantissa_def pow_256)
next
  case False
  then show ?thesis
    using large_mantissa [of x] by (simp add: compact_mantissa_def order.strict_trans2 [of 0 "2 ^ 15"])
qed

lemma compact_round_target: "compact_target (compact_mantissa x) (compact_size x) = compact_round x"
proof (cases "x < 2 ^ 23")
  case True
  then show ?thesis
    using small_size [OF True] by (simp add: compact_target_def compact_mantissa_def compact_round_def)
next
  case False
  then show ?thesis
    using large_size [of x] by (simp add: compact_target_def compact_mantissa_def compact_round_def)
qed

lemma compact_round_le: "compact_round x \<le> x"
  by (simp add: compact_round_def)

lemma compact_round_precision: "2 ^ 15 * (x - compact_round x) \<le> compact_round x"
proof (cases "x < 2 ^ 23")
  case False
  let ?d = "256 ^ (compact_size x - 3) :: nat"
  have "x - x div ?d * ?d = x mod ?d" by (simp add: minus_div_mult_eq_mod)
  also have "\<dots> \<le> ?d" by simp
  finally have "2 ^ 15 * (x - x div ?d * ?d) \<le> 2 ^ 15 * ?d" by simp
  also have "\<dots> \<le> x div ?d * ?d" using large_mantissa(1) [of x] False by (intro mult_right_mono) simp_all
  finally show ?thesis using False by (simp add: compact_round_def)
qed (simp add: compact_round_def)

lemma compact_round_same:
  assumes "0 < x"
  shows "compact_size (compact_round x) = compact_size x"
    and "compact_mantissa (compact_round x) = compact_mantissa x" and "0 < compact_round x"
proof -
  have "compact_size (compact_round x) = compact_size x \<and>
        compact_mantissa (compact_round x) = compact_mantissa x \<and> 0 < compact_round x"
  proof (cases "x < 2 ^ 23")
    case False
    let ?d = "256 ^ (compact_size x - 3) :: nat" and ?k = "8 * (compact_size x - 3)"
    obtain n where n: "u256_bits x = Suc n" "2 ^ n \<le> x" "x < 2 ^ Suc n"
      using top_bit [OF assms] .
    have b: "?k \<le> n" "23 \<le> n"
      using bits_size [of x] n(1) large_size [of x] False by simp_all
    have "2 ^ n = 2 ^ (n - ?k) * ?d" using b(1) by (simp add: pow_256 flip: power_add)
    moreover have "2 ^ (n - ?k) \<le> x div ?d"
      using n(2) calculation by (simp add: less_eq_div_iff_mult_less_eq pow_256)
    ultimately have low: "2 ^ n \<le> compact_round x" using False by (simp add: compact_round_def)
    have "u256_bits (compact_round x) = Suc n"
      using u256_bits_eqI [OF low] compact_round_le [of x] n(3) by simp
    then have s: "compact_size (compact_round x) = compact_size x" using n(1) by (simp add: compact_size_def)
    have "2 ^ 23 \<le> compact_round x"
      using order.trans [OF power_increasing [OF b(2), of 2] low] by simp
    moreover have "compact_round x div ?d = x div ?d" using False by (simp add: compact_round_def)
    ultimately show ?thesis using s False by (simp add: compact_mantissa_def)
  qed (use assms in \<open>simp add: compact_round_def\<close>)
  then show "compact_size (compact_round x) = compact_size x"
    and "compact_mantissa (compact_round x) = compact_mantissa x" and "0 < compact_round x"
    by simp_all
qed

definition compact_of :: "nat \<Rightarrow> nat \<Rightarrow> compact_difficulty" where
  "compact_of m sz = CompactDifficulty (of_nat m + push_bit 24 (of_nat sz))"

lemma to_compact_exact:
  assumes "0 < x" and "is_u256 x"
  shows "to_compact x = Done (compact_of (compact_mantissa x) (compact_size x))"
proof -
  note r = compact_mantissa_range [OF assms(1)]
  have "compact_mantissa x < 2 ^ 256" by (rule order.strict_trans [OF conjunct2 [OF r]]) simp
  then have shl: "u256_shl x (8 * (3 - compact_size x)) = compact_mantissa x" if "x < 2 ^ 23"
    using that by (simp add: u256_shl_def compact_mantissa_def pow_256)
  have shr: "u256_shr x (8 * (compact_size x - 3)) = compact_mantissa x" if "\<not> x < 2 ^ 23"
    using that by (simp add: u256_shr_def compact_mantissa_def pow_256)
  have m: "(if x \<le> unat UNSIGNED_MANTISSA_MASK then u256_shl x (8 * (3 - compact_size x))
            else u256_shr x (8 * (compact_size x - 3))) = compact_mantissa x"
    using shl shr by (cases "x < 2 ^ 23") (simp_all add: sign_bit_value(2))
  show ?thesis
    unfolding to_compact_def Let_def compact_size_def [symmetric] m
    using assms r u256_size [OF assms(2)]
    by (simp add: assert_that_def COMPACT_OFFSET_def sign_bit_value(2) compact_of_def)
qed

lemma to_expanded_compact_of:
  assumes "m < 2 ^ 23" and "sz < 256"
  shows "to_expanded (compact_of m sz) = Done (valid_target (compact_target m sz))"
proof -
  let ?x = "of_nat m + push_bit 24 (of_nat sz) :: 32 word"
  have "?x = of_nat (m + sz * 2 ^ 24)" by (simp add: push_bit_eq_mult)
  moreover have "m + sz * 2 ^ 24 < 2 ^ 32" using assms by simp
  ultimately have u: "unat ?x = m + sz * 2 ^ 24" by (simp only: unat_of_nat) simp
  have e: "m + sz * 2 ^ 24 = m + (2 * sz) * 2 ^ 23" by simp
  have "(m + sz * 2 ^ 24) mod 2 ^ 23 = m" unfolding e mod_mult_self1 using assms(1) by simp
  moreover have "(m + sz * 2 ^ 24) div 2 ^ 24 = sz" using assms by simp
  moreover have "\<not> bit ?x 23"
  proof -
    have "bit ?x 23 \<longleftrightarrow> odd (unat ?x div 2 ^ 23)"
      by (simp only: bit_iff_odd [symmetric] bit_unsigned_iff) simp
    moreover have "(m + sz * 2 ^ 24) div 2 ^ 23 = 2 * sz" using assms(1) by simp
    ultimately show ?thesis unfolding u by simp
  qed
  ultimately show ?thesis by (simp add: compact_of_def to_expanded_target u del: push_bit_numeral)
qed

lemma valid_target_even:
  "valid_target (compact_target m sz) = Some t \<Longrightarrow> m < 2 ^ 23 \<Longrightarrow> t + 1 < 2 ^ 256"
proof -
  assume a: "valid_target (compact_target m sz) = Some t" "m < 2 ^ 23"
  then have t: "t = compact_target m sz" "t < 2 ^ 256" by (auto simp: valid_target_def split: if_splits)
  show "t + 1 < 2 ^ 256"
  proof (cases "4 \<le> sz")
    case True
    then have "even t" using t(1) by (simp add: compact_target_def)
    moreover have "odd (2 ^ 256 - 1 :: nat)" by simp
    ultimately have "t \<noteq> 2 ^ 256 - 1" by metis
    then show ?thesis using t(2) by linarith
  next
    case False
    have "t \<le> m"
    proof (cases "sz = 3")
      case True
      then show ?thesis using t(1) by (simp add: compact_target_def)
    next
      case ne: False
      then show ?thesis using t(1) False by (simp add: compact_target_def)
    qed
    then show ?thesis using a(2) by simp
  qed
qed

lemma work_try_from_exact:
  assumes "0 < t" and "t + 1 < 2 ^ 256"
  shows "work_try_from t =
         Done (if 2 ^ 256 div (t + 1) < 2 ^ 128 then Inr (Work (2 ^ 256 div (t + 1))) else Inl ())"
proof -
  have "(2 ^ 256 - 1 - t) div (t + 1) + 1 = (2 ^ 256 - 1 - t + (t + 1)) div (t + 1)"
    by (rule div_add_self2 [symmetric]) simp
  also have "2 ^ 256 - 1 - t + (t + 1) = 2 ^ 256" using assms by simp
  finally have e: "(2 ^ 256 - 1 - t) div (t + 1) + 1 = 2 ^ 256 div (t + 1)" .
  have "2 ^ 256 div (t + 1) \<le> 2 ^ 256 div 2" using assms(1) by (intro div_le_mono2) simp_all
  then have "2 ^ 256 div (t + 1) < 2 ^ 256" by (rule order.strict_trans1) simp
  moreover have "q \<le> 2 ^ 128 - 1 \<longleftrightarrow> q < 2 ^ 128" for q :: nat by auto
  ultimately show ?thesis
    using assms e unfolding work_try_from_def u256_add_def u256_checked_def u256_div_def u256_not_def
    by (simp del: power_numeral)
qed

section \<open>Properties\<close>

text \<open>C25. Expanding a compact difficulty never panics and computes \<open>ToTarget\<close> of the protocol: a set sign bit, a zero
  target and a target of more than 256 bits give no threshold, and every other value expands to its
  mantissa times 256 to the power of its size minus 3, rounded down.\<close>

theorem to_expanded_is_to_target:
  "to_expanded (CompactDifficulty x) =
     Done (if bit x 23 then None
           else valid_target (compact_target (unat x mod 2 ^ 23) (unat x div 2 ^ 24)))"
  by (rule to_expanded_target)

text \<open>Converting a nonzero target to compact form never panics and always gives a valid difficulty. The
  target it stands for is at most the original and differs from it by less than one part in \<open>2 ^ 15\<close>,
  and converting it again gives the same compact value.\<close>

theorem to_compact_rounds_down_canonically:
  assumes "0 < x" and "is_u256 x"
  shows "\<exists>c y. to_compact x = Done c \<and> to_expanded c = Done (Some y) \<and>
               0 < y \<and> y \<le> x \<and> 2 ^ 15 * (x - y) \<le> y \<and> to_compact y = Done c"
proof -
  let ?y = "compact_round x" and ?c = "compact_of (compact_mantissa x) (compact_size x)"
  note same = compact_round_same [OF assms(1)]
  have u: "is_u256 ?y" using assms(2) compact_round_le [of x] by (simp add: is_u256_def)
  have "to_expanded ?c = Done (valid_target ?y)"
    using to_expanded_compact_of [of "compact_mantissa x" "compact_size x"]
      compact_mantissa_range [OF assms(1)] u256_size [OF assms(2)]
    by (simp add: compact_round_target)
  moreover have "valid_target ?y = Some ?y"
    using u same(3) by (simp only: valid_target_def is_u256_def not_le [symmetric] simp_thms if_False)
      (simp add: is_u256_def)
  moreover have "to_compact ?y = Done ?c" using to_compact_exact [OF same(3) u] same by simp
  ultimately show ?thesis
    using to_compact_exact [OF assms] same(3) compact_round_le [of x] compact_round_precision [of x] by auto
qed

text \<open>The work of a compact difficulty is computed without panics and is exactly \<open>2 ^ 256\<close> divided by its target
  plus one, rounded down, whenever that fits in 128 bits.\<close>

theorem to_work_exact:
  assumes "to_expanded c = Done (Some t)"
  shows "to_work c =
         Done (if 2 ^ 256 div (t + 1) < 2 ^ 128 then Some (Work (2 ^ 256 div (t + 1))) else None)"
proof -
  obtain x where c: "c = CompactDifficulty x" by (cases c)
  then have v: "valid_target (compact_target (unat x mod 2 ^ 23) (unat x div 2 ^ 24)) = Some t"
    using assms by (simp add: to_expanded_target split: if_splits)
  then have "0 < t" by (auto simp: valid_target_def split: if_splits)
  moreover have "t + 1 < 2 ^ 256" by (rule valid_target_even [OF v]) simp
  ultimately show ?thesis
    using assms work_try_from_exact [of t] by (simp add: to_work_def del: power_numeral)
qed

end
