(* ===== verification/Network_Upgrades.thy ===== *)
theory Network_Upgrades
  imports Amounts Difficulties
begin

text \<open>
  Networks, network upgrades and activation schedules:
  \<open>zebra-chain/src/parameters/network_upgrade.rs\<close>, \<open>parameters/constants.rs\<close>,
  \<open>parameters/network.rs\<close> and the testnet builder in \<open>parameters/network/testnet.rs\<close>.

  \<open>Parameters\<close> and \<open>ParametersBuilder\<close> are records with the fields of the structs. Functions that panic
  return an \<open>outcome\<close>. The \<open>zfuture\<close> variant and the branch id of NU7 exist only under compile-time flags
  and are left out. Transparent addresses are kept in their encoded form, as strings.

  The locale \<open>activation_schedule\<close> is the contract of an activation list: it starts with
  \<open>Genesis\<close> at height 0, and heights and upgrades both increase.
\<close>

section \<open>Network upgrades\<close>

datatype network_upgrade =
    Genesis | BeforeOverwinter | Overwinter | Sapling | Blossom | Heartwood | Canopy | Nu5 | Nu6
  | Nu6_1 | Nu7

definition NetworkUpgrade_iter :: "network_upgrade list" where
  "NetworkUpgrade_iter =
     [Genesis, BeforeOverwinter, Overwinter, Sapling, Blossom, Heartwood, Canopy, Nu5, Nu6, Nu6_1,
      Nu7]"

text \<open>The derived \<open>Ord\<close> of the enum compares discriminants.\<close>

fun nu_index :: "network_upgrade \<Rightarrow> nat" where
  "nu_index Genesis = 0"
| "nu_index BeforeOverwinter = 1"
| "nu_index Overwinter = 2"
| "nu_index Sapling = 3"
| "nu_index Blossom = 4"
| "nu_index Heartwood = 5"
| "nu_index Canopy = 6"
| "nu_index Nu5 = 7"
| "nu_index Nu6 = 8"
| "nu_index Nu6_1 = 9"
| "nu_index Nu7 = 10"

lemma nu_index_inj: "nu_index a = nu_index b \<Longrightarrow> a = b"
  by (cases a; cases b) simp_all

instantiation network_upgrade :: linorder
begin

definition less_eq_network_upgrade :: "network_upgrade \<Rightarrow> network_upgrade \<Rightarrow> bool" where
  "less_eq_network_upgrade a b \<longleftrightarrow> nu_index a \<le> nu_index b"

definition less_network_upgrade :: "network_upgrade \<Rightarrow> network_upgrade \<Rightarrow> bool" where
  "less_network_upgrade a b \<longleftrightarrow> nu_index a < nu_index b"

instance
  by standard (auto simp: less_eq_network_upgrade_def less_network_upgrade_def nu_index_inj)

end

lemmas nu_order_defs = less_eq_network_upgrade_def less_network_upgrade_def

text \<open>\<open>skip_while(|nu| self != nu).nth(1)\<close>.\<close>

definition nth_after :: "network_upgrade \<Rightarrow> network_upgrade list \<Rightarrow> network_upgrade option" where
  "nth_after nu nus =
     (case dropWhile (\<lambda>x. nu \<noteq> x) nus of _ # x # _ \<Rightarrow> Some x | _ \<Rightarrow> None)"

definition next_upgrade :: "network_upgrade \<Rightarrow> network_upgrade option" where
  "next_upgrade nu = nth_after nu NetworkUpgrade_iter"

definition previous_upgrade :: "network_upgrade \<Rightarrow> network_upgrade option" where
  "previous_upgrade nu = nth_after nu (rev NetworkUpgrade_iter)"

lemma next_upgrade_simps [simp]:
  "next_upgrade Genesis = Some BeforeOverwinter" "next_upgrade BeforeOverwinter = Some Overwinter"
  "next_upgrade Overwinter = Some Sapling" "next_upgrade Sapling = Some Blossom"
  "next_upgrade Blossom = Some Heartwood" "next_upgrade Heartwood = Some Canopy"
  "next_upgrade Canopy = Some Nu5" "next_upgrade Nu5 = Some Nu6" "next_upgrade Nu6 = Some Nu6_1"
  "next_upgrade Nu6_1 = Some Nu7" "next_upgrade Nu7 = None"
  by (simp_all add: next_upgrade_def nth_after_def NetworkUpgrade_iter_def)

lemma next_upgrade_index: "next_upgrade nu = Some nu' \<Longrightarrow> nu_index nu' = Suc (nu_index nu)"
  by (cases nu) auto

lemma next_upgrade_None: "next_upgrade nu = None \<Longrightarrow> nu' \<le> nu"
  by (cases nu; cases nu') (auto simp: nu_order_defs)

lemma nu_index_bound: "nu_index nu \<le> 10"
  by (cases nu) simp_all

section \<open>Networks and parameters\<close>

datatype funding_stream_receiver = Ecc | ZcashFoundation | MajorGrants | Deferred

record funding_stream_recipient =
  numerator :: nat
  addresses :: "string list"

text \<open>The height range is half open, \<open>fst\<close> to \<open>snd\<close>. \<open>recipients\<close> is a \<open>HashMap\<close>, given here by its
  entries in iteration order.\<close>

record funding_streams =
  height_range :: "height \<times> height"
  recipients :: "(funding_stream_receiver \<times> funding_stream_recipient) list"

record parameters =
  p_network_name :: string
  p_network_magic :: "byte list"
  p_genesis_hash :: block_hash
  p_activation_heights :: "(height, network_upgrade) btree"
  p_slow_start_interval :: height
  p_slow_start_shift :: height
  p_funding_streams :: "funding_streams list"
  p_target_difficulty_limit :: expanded_difficulty
  p_disable_pow :: bool
  p_should_allow_unshielded_coinbase_spends :: bool
  p_pre_blossom_halving_interval :: int
  p_post_blossom_halving_interval :: int
  p_lockbox_disbursements :: "(string \<times> amount) list"
  p_checkpoints :: checkpoint_list

datatype network = Mainnet | Testnet parameters

definition is_a_test_network :: "network \<Rightarrow> bool" where
  "is_a_test_network net \<longleftrightarrow> net \<noteq> Mainnet"

definition MAINNET_ACTIVATION_HEIGHTS :: "(height \<times> network_upgrade) list" where
  "MAINNET_ACTIVATION_HEIGHTS =
     [(0, Genesis), (1, BeforeOverwinter), (347500, Overwinter), (419200, Sapling),
      (653600, Blossom), (903000, Heartwood), (1046400, Canopy), (1687104, Nu5), (2726400, Nu6),
      (3146400, Nu6_1)]"

definition TESTNET_ACTIVATION_HEIGHTS :: "(height \<times> network_upgrade) list" where
  "TESTNET_ACTIVATION_HEIGHTS =
     [(0, Genesis), (1, BeforeOverwinter), (207500, Overwinter), (280000, Sapling),
      (584000, Blossom), (903800, Heartwood), (1028500, Canopy), (1842420, Nu5), (2976000, Nu6),
      (3536500, Nu6_1)]"

definition activation_list :: "network \<Rightarrow> (height, network_upgrade) btree" where
  "activation_list net =
     (case net of
        Mainnet \<Rightarrow> btree_collect MAINNET_ACTIVATION_HEIGHTS
      | Testnet params \<Rightarrow> p_activation_heights params)"

text \<open>\<open>range(..=height)\<close> followed by \<open>next_back\<close>.\<close>

definition range_to :: "('k :: linorder, 'v) btree \<Rightarrow> 'k \<Rightarrow> ('k \<times> 'v) list" where
  "range_to m k = takeWhile (\<lambda>(k', _). k' \<le> k) m"

definition next_back :: "'a list \<Rightarrow> 'a option" where
  "next_back xs = (if xs = [] then None else Some (last xs))"

definition current_with_activation_height ::
  "network \<Rightarrow> height \<Rightarrow> (network_upgrade \<times> height) outcome" where
  "current_with_activation_height net h =
     expect_some (next_back (map (\<lambda>(h', nu). (nu, h')) (range_to (activation_list net) h)))"

definition nu_current :: "network \<Rightarrow> height \<Rightarrow> network_upgrade outcome" where
  "nu_current net h = expect_some (next_back (map snd (range_to (activation_list net) h)))"

function activation_height :: "network_upgrade \<Rightarrow> network \<Rightarrow> height option" where
  "activation_height nu net =
     (case find (\<lambda>(_, nu'). nu' = nu) (activation_list net) of
        Some (h, _) \<Rightarrow> Some h
      | None \<Rightarrow>
          (case next_upgrade nu of
             None \<Rightarrow> None
           | Some next_nu \<Rightarrow> activation_height next_nu net))"
  by pat_completeness auto

termination
proof (relation "measure (\<lambda>(nu, _). 10 - nu_index nu)")
  fix nu next_nu net
  assume "next_upgrade nu = Some next_nu"
  then show "((next_nu, net :: network), nu, net) \<in> measure (\<lambda>(nu, _). 10 - nu_index nu)"
    using next_upgrade_index [of nu next_nu] nu_index_bound [of next_nu] by simp
qed simp

declare activation_height.simps [simp del]

definition full_activation_list :: "network \<Rightarrow> (height \<times> network_upgrade) list" where
  "full_activation_list net =
     List.map_filter (\<lambda>nu. map_option (\<lambda>h. (h, nu)) (activation_height nu net)) NetworkUpgrade_iter"

definition is_activation_height :: "network \<Rightarrow> height \<Rightarrow> bool" where
  "is_activation_height net h \<longleftrightarrow> h \<in> fst ` set (activation_list net)"

definition CONSENSUS_BRANCH_IDS :: "(network_upgrade \<times> nat) list" where
  "CONSENSUS_BRANCH_IDS =
     [(Overwinter, 0x5ba81b19), (Sapling, 0x76b809bb), (Blossom, 0x2bb40e60),
      (Heartwood, 0xf5b9230b), (Canopy, 0xe9ff75a6), (Nu5, 0xc2d6d0b4), (Nu6, 0xc8e71055),
      (Nu6_1, 0x4dec4df0)]"

text \<open>\<open>TryFrom<u32>\<close>; the error is \<open>InvalidConsensusBranchId\<close>.\<close>

definition network_upgrade_try_from :: "nat \<Rightarrow> unit + network_upgrade" where
  "network_upgrade_try_from branch_id =
     ok_or () (map_option fst (find (\<lambda>(_, b). b = branch_id) CONSENSUS_BRANCH_IDS))"

text \<open>Collecting the entries into a \<open>HashMap\<close> lets the last one of an upgrade win.\<close>

definition branch_id_list :: "network_upgrade \<rightharpoonup> nat" where
  "branch_id_list = Map.empty ++ map_of (rev CONSENSUS_BRANCH_IDS)"

definition branch_id :: "network_upgrade \<Rightarrow> nat option" where
  "branch_id nu = branch_id_list nu"

definition consensus_branch_id_current :: "network \<Rightarrow> height \<Rightarrow> nat option outcome" where
  "consensus_branch_id_current net h = run_bind (nu_current net h) (\<lambda>nu. Done (branch_id nu))"

section \<open>Block spacing\<close>

text \<open>Durations and times are in seconds.\<close>

definition PRE_BLOSSOM_POW_TARGET_SPACING :: int where
  "PRE_BLOSSOM_POW_TARGET_SPACING = 150"

definition POST_BLOSSOM_POW_TARGET_SPACING :: int where
  "POST_BLOSSOM_POW_TARGET_SPACING = 75"

definition POW_AVERAGING_WINDOW :: nat where
  "POW_AVERAGING_WINDOW = 17"

definition TESTNET_MINIMUM_DIFFICULTY_GAP_MULTIPLIER :: int where
  "TESTNET_MINIMUM_DIFFICULTY_GAP_MULTIPLIER = 6"

definition TESTNET_MINIMUM_DIFFICULTY_START_HEIGHT :: height where
  "TESTNET_MINIMUM_DIFFICULTY_START_HEIGHT = 299188"

definition TESTNET_MAX_TIME_START_HEIGHT :: height where
  "TESTNET_MAX_TIME_START_HEIGHT = 653606"

fun target_spacing :: "network_upgrade \<Rightarrow> int" where
  "target_spacing Genesis = PRE_BLOSSOM_POW_TARGET_SPACING"
| "target_spacing BeforeOverwinter = PRE_BLOSSOM_POW_TARGET_SPACING"
| "target_spacing Overwinter = PRE_BLOSSOM_POW_TARGET_SPACING"
| "target_spacing Sapling = PRE_BLOSSOM_POW_TARGET_SPACING"
| "target_spacing _ = POST_BLOSSOM_POW_TARGET_SPACING"

definition target_spacing_for_height :: "network \<Rightarrow> height \<Rightarrow> int outcome" where
  "target_spacing_for_height net h =
     run_bind (nu_current net h) (\<lambda>nu. Done (target_spacing nu))"

definition target_spacings :: "network \<Rightarrow> (height \<times> int) list" where
  "target_spacings net =
     List.map_filter
       (\<lambda>(upgrade, spacing). map_option (\<lambda>h. (h, spacing)) (activation_height upgrade net))
       [(Genesis, PRE_BLOSSOM_POW_TARGET_SPACING), (Blossom, POST_BLOSSOM_POW_TARGET_SPACING)]"

definition minimum_difficulty_spacing_for_height :: "network \<Rightarrow> height \<Rightarrow> int option outcome" where
  "minimum_difficulty_spacing_for_height net h =
     (case net of
        Mainnet \<Rightarrow> Done None
      | Testnet _ \<Rightarrow>
          if h < TESTNET_MINIMUM_DIFFICULTY_START_HEIGHT then Done None
          else run_bind (nu_current net h) (\<lambda>nu.
            Done (Some (target_spacing nu * TESTNET_MINIMUM_DIFFICULTY_GAP_MULTIPLIER))))"

definition is_testnet_min_difficulty_block ::
  "network \<Rightarrow> height \<Rightarrow> int \<Rightarrow> int \<Rightarrow> bool outcome" where
  "is_testnet_min_difficulty_block net h block_time previous_block_time =
     run_bind (minimum_difficulty_spacing_for_height net h) (\<lambda>gap.
       Done (case gap of
               Some min_difficulty_gap \<Rightarrow> block_time - previous_block_time > min_difficulty_gap
             | None \<Rightarrow> False))"

definition averaging_window_timespan :: "network_upgrade \<Rightarrow> int" where
  "averaging_window_timespan nu = target_spacing nu * int POW_AVERAGING_WINDOW"

definition averaging_window_timespan_for_height :: "network \<Rightarrow> height \<Rightarrow> int outcome" where
  "averaging_window_timespan_for_height net h =
     run_bind (nu_current net h) (\<lambda>nu. Done (averaging_window_timespan nu))"

definition is_max_block_time_enforced :: "network \<Rightarrow> height \<Rightarrow> bool" where
  "is_max_block_time_enforced net h =
     (case net of Mainnet \<Rightarrow> True | Testnet _ \<Rightarrow> h \<ge> TESTNET_MAX_TIME_START_HEIGHT)"

definition mandatory_checkpoint_height :: "network \<Rightarrow> height outcome" where
  "mandatory_checkpoint_height net =
     run_bind (expect_some (activation_height Canopy net)) (\<lambda>canopy.
       expect_ok (height_previous canopy))"

definition sapling_activation_height :: "network \<Rightarrow> height outcome" where
  "sapling_activation_height net = expect_some (activation_height Sapling net)"

section \<open>Activation schedules\<close>

locale activation_schedule =
  fixes sched :: "(height, network_upgrade) btree"
  assumes starts: "\<exists>rest. sched = (0, Genesis) # rest"
    and heights_increase: "sorted_wrt (<) (map fst sched)"
    and upgrades_increase: "sorted_wrt (<) (map snd sched)"
begin

lemma nth_increase:
  "i < j \<Longrightarrow> j < length sched \<Longrightarrow> fst (sched ! i) < fst (sched ! j) \<and> snd (sched ! i) < snd (sched ! j)"
  using heights_increase upgrades_increase by (simp add: sorted_wrt_iff_nth_less)

lemma entries_mono:
  assumes "(h1, nu1) \<in> set sched" and "(h2, nu2) \<in> set sched"
  shows "h1 \<le> h2 \<longleftrightarrow> nu1 \<le> nu2"
proof -
  obtain i j where ij: "i < length sched" "sched ! i = (h1, nu1)" "j < length sched" "sched ! j = (h2, nu2)"
    using assms by (metis in_set_conv_nth)
  consider "i < j" | "j < i" | "i = j" by linarith
  then show ?thesis using nth_increase [of i j] nth_increase [of j i] ij by cases auto
qed

lemma range_nonempty: "range_to sched h \<noteq> []"
  using starts by (auto simp: range_to_def)

lemma set_range_to: "set (range_to sched h) = {(k, nu) \<in> set sched. k \<le> h}"
  using heights_increase
proof (induction sched)
  case (Cons e sched)
  then show ?case by (cases e) (fastforce simp: range_to_def)
qed (simp add: range_to_def)

lemma last_range_to:
  assumes "last (range_to sched h) = (k, nu)"
  shows "(k, nu) \<in> set sched" and "k \<le> h" and "(k', nu') \<in> set sched \<Longrightarrow> k' \<le> h \<Longrightarrow> nu' \<le> nu"
proof -
  have mem: "(k, nu) \<in> set (range_to sched h)"
    using assms last_in_set [OF range_nonempty [of h]] by simp
  then show "(k, nu) \<in> set sched" and "k \<le> h" by (auto simp: set_range_to)
  assume "(k', nu') \<in> set sched" "k' \<le> h"
  then have "(k', nu') \<in> set (range_to sched h)" by (simp add: set_range_to)
  then obtain i where i: "i < length (range_to sched h)" "range_to sched h ! i = (k', nu')"
    by (metis in_set_conv_nth)
  have sub: "\<exists>ys. sched = range_to sched h @ ys"
    unfolding range_to_def by (metis takeWhile_dropWhile_id)
  then have s: "sorted_wrt (<) (map snd (range_to sched h))"
    using upgrades_increase by (metis map_append sorted_wrt_append)
  have l: "range_to sched h ! (length (range_to sched h) - 1) = (k, nu)"
    using assms range_nonempty [of h] by (simp add: last_conv_nth)
  show "nu' \<le> nu"
  proof (cases "i = length (range_to sched h) - 1")
    case True
    then show ?thesis using i l by simp
  next
    case False
    then have lt: "i < length (range_to sched h) - 1" using i by simp
    have "map snd (range_to sched h) ! i < map snd (range_to sched h) ! (length (range_to sched h) - 1)"
      by (rule sorted_wrt_nth_less [OF s lt]) (use lt in simp)
    then show ?thesis using i l lt by simp
  qed
qed

lemma first_at_or_after:
  assumes "find (\<lambda>(_, nu'). nu \<le> nu') sched = Some (k, nu0)"
  shows "(k, nu0) \<in> set sched" and "nu \<le> nu0"
    and "(k', nu') \<in> set sched \<Longrightarrow> nu \<le> nu' \<Longrightarrow> k \<le> k'"
proof -
  from find_SomeD [OF assms] show "(k, nu0) \<in> set sched" and "nu \<le> nu0" by simp_all
  assume a: "(k', nu') \<in> set sched" "nu \<le> nu'"
  obtain i where i: "i < length sched" "(k, nu0) = sched ! i"
    "\<And>j. j < i \<Longrightarrow> \<not> (case sched ! j of (_, x) \<Rightarrow> nu \<le> x)"
    using assms unfolding find_Some_iff by blast
  obtain j where j: "j < length sched" "sched ! j = (k', nu')" using a by (metis in_set_conv_nth)
  then have "i \<le> j" using i(3) [of j] a(2) by (cases "j < i") auto
  then have "i = j \<or> fst (sched ! i) < fst (sched ! j)"
    using j(1) nth_increase [of i j] by (cases "i = j") simp_all
  then show "k \<le> k'" using i(2) j(2) by (metis fst_conv order.refl order.strict_implies_order)
qed

lemma find_upgrade:
  assumes "(h, nu) \<in> set sched"
  shows "find (\<lambda>(_, nu'). nu \<le> nu') sched = Some (h, nu)"
proof -
  have "find (\<lambda>(_, nu'). nu \<le> nu') sched \<noteq> None"
    using assms by (auto simp: find_None_iff)
  then obtain k nu0 where f: "find (\<lambda>(_, nu'). nu \<le> nu') sched = Some (k, nu0)" by auto
  have "k \<le> h" using first_at_or_after(3) [OF f assms] by simp
  moreover have "h \<le> k"
    using entries_mono [OF assms first_at_or_after(1) [OF f]] first_at_or_after(2) [OF f] by simp
  ultimately have "k = h" by simp
  then have "nu0 = nu"
    using entries_mono [OF assms first_at_or_after(1) [OF f]]
      entries_mono [OF first_at_or_after(1) [OF f] assms] by auto
  then show ?thesis using f \<open>k = h\<close> by simp
qed

lemma active_iff:
  assumes "last (range_to sched h) = (k, c)"
  shows "nu \<le> c \<longleftrightarrow> (\<exists>k' nu'. find (\<lambda>(_, x). nu \<le> x) sched = Some (k', nu') \<and> k' \<le> h)"
proof
  assume "nu \<le> c"
  then have "find (\<lambda>(_, x). nu \<le> x) sched \<noteq> None"
    using last_range_to(1) [OF assms] by (auto simp: find_None_iff)
  then obtain k' nu' where f: "find (\<lambda>(_, x). nu \<le> x) sched = Some (k', nu')" by auto
  then have "k' \<le> k" using first_at_or_after(3) [OF f last_range_to(1) [OF assms] \<open>nu \<le> c\<close>] by simp
  then show "\<exists>k' nu'. find (\<lambda>(_, x). nu \<le> x) sched = Some (k', nu') \<and> k' \<le> h"
    using f last_range_to(2) [OF assms] by auto
next
  assume "\<exists>k' nu'. find (\<lambda>(_, x). nu \<le> x) sched = Some (k', nu') \<and> k' \<le> h"
  then obtain k' nu' where f: "find (\<lambda>(_, x). nu \<le> x) sched = Some (k', nu')" "k' \<le> h" by blast
  then have "nu' \<le> c" using last_range_to(3) [OF assms first_at_or_after(1) [OF f(1)]] by simp
  then show "nu \<le> c" using first_at_or_after(2) [OF f(1)] by simp
qed

end

definition schedule_ok :: "(height, network_upgrade) btree \<Rightarrow> bool" where
  "schedule_ok m \<longleftrightarrow>
     m \<noteq> [] \<and> hd m = (0, Genesis) \<and> sorted_wrt (<) (map fst m) \<and> sorted_wrt (<) (map snd m)"

lemma schedule_ok_locale: "activation_schedule m \<longleftrightarrow> schedule_ok m"
  by (cases m) (auto simp: activation_schedule_def schedule_ok_def)

lemma activation_list_Mainnet [simp]: "activation_list Mainnet = MAINNET_ACTIVATION_HEIGHTS"
  unfolding activation_list_def
  by (simp add: btree_extend_sorted [of _ "[]", simplified] MAINNET_ACTIVATION_HEIGHTS_def)

lemma schedule_ok_mainnet: "schedule_ok (activation_list Mainnet)"
  by (simp add: schedule_ok_def MAINNET_ACTIVATION_HEIGHTS_def nu_order_defs)

interpretation mainnet_schedule: activation_schedule "activation_list Mainnet"
  using schedule_ok_mainnet by (simp add: schedule_ok_locale)

interpretation testnet_schedule: activation_schedule "btree_collect TESTNET_ACTIVATION_HEIGHTS"
proof -
  have "btree_collect TESTNET_ACTIVATION_HEIGHTS = TESTNET_ACTIVATION_HEIGHTS"
    by (rule btree_extend_sorted [of _ "[]", simplified]) (simp add: TESTNET_ACTIVATION_HEIGHTS_def)
  then show "activation_schedule (btree_collect TESTNET_ACTIVATION_HEIGHTS)"
    by (simp add: schedule_ok_locale schedule_ok_def TESTNET_ACTIVATION_HEIGHTS_def nu_order_defs)
qed

lemma nu_current_schedule:
  assumes "schedule_ok (activation_list net)"
  shows "nu_current net h = Done (snd (last (range_to (activation_list net) h)))"
  using activation_schedule.range_nonempty [of "activation_list net" h] assms
  by (simp add: nu_current_def next_back_def schedule_ok_locale last_map)

lemma current_with_activation_height_schedule:
  assumes "schedule_ok (activation_list net)"
  shows "current_with_activation_height net h =
         Done (prod.swap (last (range_to (activation_list net) h)))"
  using activation_schedule.range_nonempty [of "activation_list net" h] assms
  by (simp add: current_with_activation_height_def next_back_def schedule_ok_locale last_map
      prod.swap_def split_beta)

lemma activation_height_schedule:
  assumes "schedule_ok (activation_list net)"
  shows "activation_height nu net =
         map_option fst (find (\<lambda>(_, nu'). nu \<le> nu') (activation_list net))"
  using assms
proof (induction nu net rule: activation_height.induct)
  case (1 nu net)
  note s = 1(2) [folded schedule_ok_locale]
  show ?case
  proof (cases "find (\<lambda>(_, nu'). nu' = nu) (activation_list net)")
    case None
    then have ne: "\<forall>(_, nu') \<in> set (activation_list net). nu' \<noteq> nu"
      by (auto simp: find_None_iff)
    show ?thesis
    proof (cases "next_upgrade nu")
      case n: None
      have "\<not> nu \<le> nu'" if "(h, nu') \<in> set (activation_list net)" for h nu'
        using next_upgrade_None [OF n, of nu'] ne that by fastforce
      then have "find (\<lambda>(_, nu'). nu \<le> nu') (activation_list net) = None"
        by (auto simp: find_None_iff)
      then show ?thesis using n None by (subst activation_height.simps) simp
    next
      case (Some nx)
      have "(nx \<le> nu') = (nu \<le> nu')" if "(h, nu') \<in> set (activation_list net)" for h nu'
        using next_upgrade_index [OF Some] ne that nu_index_inj [of nu nu']
        by (fastforce simp: nu_order_defs)
      then have "find (\<lambda>(_, nu'). nx \<le> nu') (activation_list net) =
                 find (\<lambda>(_, nu'). nu \<le> nu') (activation_list net)"
        by (intro find_cong) auto
      then show ?thesis using 1(1) [OF None Some 1(2)] Some None
        by (subst activation_height.simps) simp
    qed
  next
    case (Some e)
    then obtain h where e: "e = (h, nu)" "(h, nu) \<in> set (activation_list net)"
      using find_SomeD [OF Some] by (cases e) auto
    then show ?thesis
      using Some activation_schedule.find_upgrade [OF s e(2)]
      by (subst activation_height.simps) simp
  qed
qed

section \<open>The testnet parameters builder\<close>

record configured_activation_heights =
  c_before_overwinter :: "nat option"
  c_overwinter :: "nat option"
  c_sapling :: "nat option"
  c_blossom :: "nat option"
  c_heartwood :: "nat option"
  c_canopy :: "nat option"
  c_nu5 :: "nat option"
  c_nu6 :: "nat option"
  c_nu6_1 :: "nat option"
  c_nu7 :: "nat option"

definition configured_default :: configured_activation_heights where
  "configured_default =
     \<lparr>c_before_overwinter = None, c_overwinter = None, c_sapling = None, c_blossom = None,
      c_heartwood = None, c_canopy = None, c_nu5 = None, c_nu6 = None, c_nu6_1 = None,
      c_nu7 = None\<rparr>"

text \<open>One iteration of the loop in \<open>From<&BTreeMap<Height, NetworkUpgrade>>\<close>.\<close>

fun set_configured_height ::
  "network_upgrade \<Rightarrow> nat \<Rightarrow> configured_activation_heights \<Rightarrow> configured_activation_heights" where
  "set_configured_height Genesis _ c = c"
| "set_configured_height BeforeOverwinter h c = c\<lparr>c_before_overwinter := Some h\<rparr>"
| "set_configured_height Overwinter h c = c\<lparr>c_overwinter := Some h\<rparr>"
| "set_configured_height Sapling h c = c\<lparr>c_sapling := Some h\<rparr>"
| "set_configured_height Blossom h c = c\<lparr>c_blossom := Some h\<rparr>"
| "set_configured_height Heartwood h c = c\<lparr>c_heartwood := Some h\<rparr>"
| "set_configured_height Canopy h c = c\<lparr>c_canopy := Some h\<rparr>"
| "set_configured_height Nu5 h c = c\<lparr>c_nu5 := Some h\<rparr>"
| "set_configured_height Nu6 h c = c\<lparr>c_nu6 := Some h\<rparr>"
| "set_configured_height Nu6_1 h c = c\<lparr>c_nu6_1 := Some h\<rparr>"
| "set_configured_height Nu7 h c = c\<lparr>c_nu7 := Some h\<rparr>"

definition configured_from ::
  "(height, network_upgrade) btree \<Rightarrow> configured_activation_heights" where
  "configured_from m = fold (\<lambda>(h, nu). set_configured_height nu h) m configured_default"

fun or_option :: "'a option \<Rightarrow> 'a option \<Rightarrow> 'a option" where
  "or_option (Some x) _ = Some x"
| "or_option None y = y"

definition for_regtest :: "configured_activation_heights \<Rightarrow> configured_activation_heights" where
  "for_regtest c =
     (let overwinter = or_option (or_option (c_overwinter c) (c_before_overwinter c)) (Some 1);
          sapling = or_option (c_sapling c) overwinter;
          blossom = or_option (c_blossom c) sapling;
          heartwood = or_option (c_heartwood c) blossom;
          canopy = or_option (c_canopy c) heartwood
      in c\<lparr>c_overwinter := overwinter, c_sapling := sapling, c_blossom := blossom,
           c_heartwood := heartwood, c_canopy := canopy\<rparr>)"

record parameters_builder =
  b_network_name :: string
  b_network_magic :: "byte list"
  b_genesis_hash :: block_hash
  b_activation_heights :: "(height, network_upgrade) btree"
  b_slow_start_interval :: height
  b_funding_streams :: "funding_streams list"
  b_should_lock_funding_stream_address_period :: bool
  b_target_difficulty_limit :: expanded_difficulty
  b_disable_pow :: bool
  b_should_allow_unshielded_coinbase_spends :: bool
  b_pre_blossom_halving_interval :: int
  b_post_blossom_halving_interval :: int
  b_lockbox_disbursements :: "(string \<times> amount) list"
  b_checkpoints :: checkpoint_list

datatype parameters_builder_error =
    ReservedNetworkMagic | LockFundingStreams | InvalidActivationHeight | InvalidHeightZero | OutOfOrderUpgrades
  | InvaildDifficultyLimits | HalvingIntervalAfterFundingStreams | FailedToParseDefaultCheckpoint
  | InvalidCustomCheckpoints | CheckpointGenesisMismatch | InsufficientCheckpointCoverage

definition magics_MAINNET :: "byte list" where
  "magics_MAINNET = [0x24, 0xe9, 0x27, 0x64]"

definition magics_TESTNET :: "byte list" where
  "magics_TESTNET = [0xfa, 0x1a, 0xf9, 0xbf]"

definition magics_REGTEST :: "byte list" where
  "magics_REGTEST = [0xaa, 0xe8, 0x3f, 0x5f]"

definition with_network_magic ::
  "parameters_builder \<Rightarrow> byte list \<Rightarrow> parameters_builder_error + parameters_builder" where
  "with_network_magic b magic =
     (if list_ex (\<lambda>reserved. magic = reserved) [magics_MAINNET, magics_REGTEST]
      then Inl ReservedNetworkMagic
      else Inr (b\<lparr>b_network_magic := magic\<rparr>))"

text \<open>The cases of \<open>with_checkpoints\<close> that do not read a file or the embedded testnet list.\<close>

definition with_checkpoints_list ::
  "parameters_builder \<Rightarrow> (height \<times> block_hash) list \<Rightarrow>
   (parameters_builder_error + parameters_builder) outcome" where
  "with_checkpoints_list b items =
     run_bind (from_list items) (\<lambda>r.
       Done (case r of
               Inl _ \<Rightarrow> Inl InvalidCustomCheckpoints
             | Inr cl \<Rightarrow> Inr (b\<lparr>b_checkpoints := cl\<rparr>)))"

definition clear_checkpoints ::
  "parameters_builder \<Rightarrow> (parameters_builder_error + parameters_builder) outcome" where
  "clear_checkpoints b =
     run_bind (from_list [(0, b_genesis_hash b)]) (\<lambda>r.
       Done (case r of
               Inl _ \<Rightarrow> Inl FailedToParseDefaultCheckpoint
             | Inr cl \<Rightarrow> Inr (b\<lparr>b_checkpoints := cl\<rparr>)))"

definition with_lockbox_disbursements ::
  "parameters_builder \<Rightarrow> (string \<times> amount) list \<Rightarrow> parameters_builder" where
  "with_lockbox_disbursements b ds = b\<lparr>b_lockbox_disbursements := ds\<rparr>"

text \<open>The chained iterator over the configured heights, in upgrade order.\<close>

definition configured_entries :: "configured_activation_heights \<Rightarrow> (nat \<times> network_upgrade) list" where
  "configured_entries c =
     List.map_filter (\<lambda>(field, nu). map_option (\<lambda>h. (h, nu)) field)
       [(c_before_overwinter c, BeforeOverwinter), (c_overwinter c, Overwinter),
        (c_sapling c, Sapling), (c_blossom c, Blossom), (c_heartwood c, Heartwood),
        (c_canopy c, Canopy), (c_nu5 c, Nu5), (c_nu6 c, Nu6), (c_nu6_1 c, Nu6_1), (c_nu7 c, Nu7)]"

fun collect_activation_heights ::
  "(nat \<times> network_upgrade) list \<Rightarrow> parameters_builder_error + (height \<times> network_upgrade) list" where
  "collect_activation_heights [] = Inr []"
| "collect_activation_heights ((h, nu) # rest) =
     (case height_try_from_u32 h of
        Inl _ \<Rightarrow> Inl InvalidActivationHeight
      | Inr height \<Rightarrow> map_sum id ((#) (height, nu)) (collect_activation_heights rest))"

text \<open>The order check: \<open>entries\<close> is what is left in \<open>activation_heights_iter\<close>.\<close>

fun check_upgrade_order ::
  "network_upgrade list \<Rightarrow> network_upgrade list \<Rightarrow> (height \<times> network_upgrade) list \<Rightarrow>
   parameters_builder_error option" where
  "check_upgrade_order [] network_upgrades entries = None"
| "check_upgrade_order (expected # rest) network_upgrades entries =
     (if expected \<notin> set network_upgrades then check_upgrade_order rest network_upgrades entries
      else case entries of
             [] \<Rightarrow> check_upgrade_order rest network_upgrades []
           | (h, nu) # entries' \<Rightarrow>
               if h = 0 then Some InvalidHeightZero
               else if nu \<noteq> expected then Some OutOfOrderUpgrades
               else check_upgrade_order rest network_upgrades entries')"

definition with_activation_heights ::
  "parameters_builder \<Rightarrow> configured_activation_heights \<Rightarrow>
   parameters_builder_error + parameters_builder" where
  "with_activation_heights b c =
     (if b_should_lock_funding_stream_address_period b then Inl LockFundingStreams
      else case collect_activation_heights (configured_entries c) of
             Inl e \<Rightarrow> Inl e
           | Inr kvs \<Rightarrow>
               let activation_heights = btree_collect kvs in
               (case check_upgrade_order NetworkUpgrade_iter (map snd activation_heights)
                       activation_heights of
                  Some e \<Rightarrow> Inl e
                | None \<Rightarrow>
                    Inr (b\<lparr>b_activation_heights :=
                             btree_extend (filter (\<lambda>(h, _). h < 1) (b_activation_heights b))
                               activation_heights\<rparr>)))"

definition with_slow_start_interval :: "parameters_builder \<Rightarrow> height \<Rightarrow> parameters_builder" where
  "with_slow_start_interval b h = b\<lparr>b_slow_start_interval := h\<rparr>"

definition clear_funding_streams :: "parameters_builder \<Rightarrow> parameters_builder" where
  "clear_funding_streams b = b\<lparr>b_funding_streams := []\<rparr>"

definition with_disable_pow :: "parameters_builder \<Rightarrow> bool \<Rightarrow> parameters_builder" where
  "with_disable_pow b x = b\<lparr>b_disable_pow := x\<rparr>"

definition with_unshielded_coinbase_spends :: "parameters_builder \<Rightarrow> bool \<Rightarrow> parameters_builder" where
  "with_unshielded_coinbase_spends b x = b\<lparr>b_should_allow_unshielded_coinbase_spends := x\<rparr>"

definition BLOSSOM_POW_TARGET_SPACING_RATIO :: nat where
  "BLOSSOM_POW_TARGET_SPACING_RATIO = 2"

definition with_halving_interval ::
  "parameters_builder \<Rightarrow> int \<Rightarrow> parameters_builder_error + parameters_builder" where
  "with_halving_interval b pre =
     (if b_should_lock_funding_stream_address_period b then Inl HalvingIntervalAfterFundingStreams
      else Inr (b\<lparr>b_pre_blossom_halving_interval := pre,
                  b_post_blossom_halving_interval :=
                    wrap_i64 (pre * int BLOSSOM_POW_TARGET_SPACING_RATIO)\<rparr>))"

definition finish :: "parameters_builder \<Rightarrow> parameters" where
  "finish b =
     \<lparr>p_network_name = b_network_name b,
      p_network_magic = b_network_magic b,
      p_genesis_hash = b_genesis_hash b,
      p_activation_heights = b_activation_heights b,
      p_slow_start_interval = b_slow_start_interval b,
      p_slow_start_shift = b_slow_start_interval b div 2,
      p_funding_streams = b_funding_streams b,
      p_target_difficulty_limit = b_target_difficulty_limit b,
      p_disable_pow = b_disable_pow b,
      p_should_allow_unshielded_coinbase_spends = b_should_allow_unshielded_coinbase_spends b,
      p_pre_blossom_halving_interval = b_pre_blossom_halving_interval b,
      p_post_blossom_halving_interval = b_post_blossom_halving_interval b,
      p_lockbox_disbursements = b_lockbox_disbursements b,
      p_checkpoints = b_checkpoints b\<rparr>"

definition to_network_unchecked :: "parameters_builder \<Rightarrow> network" where
  "to_network_unchecked b = Testnet (finish b)"

subsection \<open>The order check\<close>

lemma check_upgrade_order_None:
  assumes "check_upgrade_order es nus entries = None"
  shows "take (length (filter (\<lambda>e. e \<in> set nus) es)) (map snd entries) =
           take (length entries) (filter (\<lambda>e. e \<in> set nus) es) \<and>
         (\<forall>e \<in> set (take (length (filter (\<lambda>e. e \<in> set nus) es)) entries). fst e \<noteq> 0)"
  using assms
  by (induction es nus entries rule: check_upgrade_order.induct)
    (simp_all split: if_splits list.splits prod.splits)

lemma check_upgrade_order_sorted:
  assumes "map snd entries = filter (\<lambda>e. e \<in> set nus) es" and "\<forall>h \<in> fst ` set entries. h \<noteq> 0"
  shows "check_upgrade_order es nus entries = None"
  using assms
  by (induction es nus entries rule: check_upgrade_order.induct)
    (auto split: if_splits list.splits simp: Cons_eq_map_conv)

lemma collect_activation_heights_ok:
  "collect_activation_heights kvs = Inr r \<longleftrightarrow> r = kvs \<and> (\<forall>(h, _) \<in> set kvs. h \<le> Height_MAX)"
proof (induction kvs arbitrary: r)
  case (Cons e kvs)
  then show ?case
    by (cases e; cases "collect_activation_heights kvs") (auto simp: height_try_from_u32_def)
qed auto

lemma set_NetworkUpgrade_iter [simp]: "nu \<in> set NetworkUpgrade_iter"
  by (cases nu) (simp_all add: NetworkUpgrade_iter_def)

lemma NetworkUpgrade_iter_sorted: "sorted_wrt (<) NetworkUpgrade_iter"
  by (simp add: NetworkUpgrade_iter_def nu_order_defs)

lemma sorted_upgrades_unique:
  assumes "sorted_wrt (<) xs" and "set xs = {e. e \<in> set nus}"
  shows "filter (\<lambda>e. e \<in> set nus) NetworkUpgrade_iter = xs"
proof (rule strict_sorted_equal)
  show "sorted_wrt (<) (filter (\<lambda>e. e \<in> set nus) NetworkUpgrade_iter)"
    by (rule sorted_wrt_filter [OF NetworkUpgrade_iter_sorted])
qed (use assms in auto)

lemma set_present_entries:
  "set (List.map_filter (\<lambda>(field, nu). map_option (\<lambda>h. (h, nu)) field) xs) =
   {(h, nu). (Some h, nu) \<in> set xs}"
  by (induction xs) (auto simp: List.map_filter_simps split: option.splits)

lemma sorted_present_entries:
  "sorted_wrt P (map snd xs) \<Longrightarrow>
   sorted_wrt P (map snd (List.map_filter (\<lambda>(field, nu). map_option (\<lambda>h. (h, nu)) field) xs))"
proof (induction xs)
  case (Cons e xs)
  obtain f nu where e: "e = (f, nu)" by (cases e)
  show ?case using Cons
    by (cases f) (auto simp: e List.map_filter_simps set_present_entries)
qed (simp add: List.map_filter_simps)

lemma configured_entries_sorted: "sorted_wrt (<) (map snd (configured_entries c))"
  unfolding configured_entries_def by (rule sorted_present_entries) (simp add: nu_order_defs)

lemma configured_entries_not_genesis: "(h, nu) \<in> set (configured_entries c) \<Longrightarrow> Genesis < nu"
  unfolding configured_entries_def set_present_entries by (auto simp: nu_order_defs)

lemma set_btree_insert: "set (btree_insert k v m) \<subseteq> insert (k, v) (set m)"
  by (induction k v m rule: btree_insert.induct) auto

lemma values_btree_insert: "snd ` set (btree_insert k v m) \<subseteq> insert v (snd ` set m)"
  using image_mono [OF set_btree_insert [of k v m], of snd] by simp

lemma btree_insert_distinct_values:
  "distinct (map snd m) \<Longrightarrow> v \<notin> snd ` set m \<Longrightarrow> distinct (map snd (btree_insert k v m))"
proof (induction k v m rule: btree_insert.induct)
  case (2 k v k' v' m)
  then show ?case using values_btree_insert [of k v m] by auto
qed simp

lemma btree_extend_distinct_values:
  assumes "distinct (map snd kvs)" and "distinct (map snd m)" and "snd ` set m \<inter> snd ` set kvs = {}"
  shows "distinct (map snd (btree_extend m kvs)) \<and> set (btree_extend m kvs) \<subseteq> set m \<union> set kvs"
  using assms
proof (induction kvs arbitrary: m)
  case Nil
  then show ?case by (simp add: btree_extend_def)
next
  case (Cons e kvs)
  obtain k v where e: "e = (k, v)" by (cases e)
  have i: "distinct (map snd (btree_insert k v m))"
    using Cons.prems e by (intro btree_insert_distinct_values) auto
  have "snd ` set (btree_insert k v m) \<inter> snd ` set kvs \<subseteq> insert v (snd ` set m) \<inter> snd ` set kvs"
    by (rule Int_mono [OF values_btree_insert subset_refl])
  moreover have "insert v (snd ` set m) \<inter> snd ` set kvs = {}" using Cons.prems e by simp
  ultimately have "snd ` set (btree_insert k v m) \<inter> snd ` set kvs = {}" by simp
  then show ?case
    using Cons.IH [of "btree_insert k v m"] Cons.prems i set_btree_insert [of k v m]
    by (auto simp: e btree_extend_Cons)
qed

lemma strict_sorted_distinct: "sorted_wrt (<) (xs :: 'a :: linorder list) \<Longrightarrow> distinct xs"
  by (simp add: strict_sorted_iff)

definition configured_btree :: "configured_activation_heights \<Rightarrow> (height, network_upgrade) btree" where
  "configured_btree c = btree_collect (configured_entries c)"

lemma configured_btree_facts:
  shows "distinct (map snd (configured_btree c))"
    and "set (configured_btree c) \<subseteq> set (configured_entries c)"
    and "fst ` set (configured_btree c) = fst ` set (configured_entries c)"
    and "btree_ok (configured_btree c)"
  using btree_extend_distinct_values
      [OF strict_sorted_distinct [OF configured_entries_sorted], of "[]" c]
    keys_btree_extend [of "[]" "configured_entries c"]
  by (auto simp: configured_btree_def btree_ok_extend)

text \<open>Acceptance in closed form: the collected map is ordered by upgrade and leaves height 0 alone.\<close>

lemma check_configured_order:
  "check_upgrade_order NetworkUpgrade_iter (map snd (configured_btree c)) (configured_btree c) = None \<longleftrightarrow>
   sorted_wrt (<) (map snd (configured_btree c)) \<and> (\<forall>h \<in> fst ` set (configured_btree c). h \<noteq> 0)"
  (is "?check = None \<longleftrightarrow> ?sorted \<and> ?nonzero")
proof
  let ?m = "configured_btree c"
  let ?f = "filter (\<lambda>e. e \<in> set (map snd ?m)) NetworkUpgrade_iter"
  assume "?check = None"
  note ch = check_upgrade_order_None [OF this]
  have "distinct ?f" using strict_sorted_distinct [OF NetworkUpgrade_iter_sorted] by simp
  moreover have "set ?f = set (map snd ?m)" by auto
  ultimately have len: "length ?f = length ?m"
    using configured_btree_facts(1) [of c] by (metis distinct_card length_map)
  then have "map snd ?m = ?f" using ch by simp
  then have ?sorted using sorted_wrt_filter [OF NetworkUpgrade_iter_sorted] by metis
  moreover have ?nonzero using ch len by auto
  ultimately show "?sorted \<and> ?nonzero" by blast
next
  assume "?sorted \<and> ?nonzero"
  then show "?check = None"
    using sorted_upgrades_unique [of "map snd (configured_btree c)" "map snd (configured_btree c)"]
    by (intro check_upgrade_order_sorted) auto
qed

definition builder_ok :: "parameters_builder \<Rightarrow> bool" where
  "builder_ok b \<longleftrightarrow> schedule_ok (b_activation_heights b)"

lemma schedule_below_one:
  assumes "schedule_ok m"
  shows "filter (\<lambda>(h, _). h < (1 :: nat)) m = [(0, Genesis)]"
proof -
  obtain rest where m: "m = (0, Genesis) # rest" using assms by (cases m) (auto simp: schedule_ok_def)
  have "\<forall>(h, _) \<in> set rest. 0 < h" using assms by (auto simp: schedule_ok_def m)
  then have "filter (\<lambda>(h, _). h < (1 :: nat)) rest = []" by (auto simp: filter_empty_conv)
  then show ?thesis by (simp add: m)
qed

lemma with_activation_heights_ok:
  assumes "builder_ok b"
  shows "with_activation_heights b c = Inr b' \<longleftrightarrow>
     \<not> b_should_lock_funding_stream_address_period b \<and>
     (\<forall>(h, _) \<in> set (configured_entries c). 0 < h \<and> h \<le> Height_MAX) \<and>
     sorted_wrt (<) (map snd (configured_btree c)) \<and>
     b' = b\<lparr>b_activation_heights := (0, Genesis) # configured_btree c\<rparr>"
proof -
  let ?m = "configured_btree c"
  have keys: "(\<forall>h \<in> fst ` set ?m. h \<noteq> 0) \<longleftrightarrow> (\<forall>(h, _) \<in> set (configured_entries c). 0 < h)"
    unfolding configured_btree_facts(3) by auto
  have ext: "btree_extend (filter (\<lambda>(h, _). h < 1) (b_activation_heights b)) ?m = (0, Genesis) # ?m"
    if "\<forall>h \<in> fst ` set ?m. h \<noteq> 0"
    unfolding schedule_below_one [OF assms [unfolded builder_ok_def]]
    using that configured_btree_facts(4) [of c] btree_extend_sorted [of ?m "[(0, Genesis)]"]
    by (simp add: btree_ok_def)
  show ?thesis
  proof (cases "collect_activation_heights (configured_entries c)")
    case (Inl e)
    then show ?thesis
      using collect_activation_heights_ok [of "configured_entries c" "configured_entries c"]
      by (auto simp: with_activation_heights_def)
  next
    case (Inr kvs)
    then have kvs: "kvs = configured_entries c" "\<forall>(h, _) \<in> set (configured_entries c). h \<le> Height_MAX"
      by (auto simp: collect_activation_heights_ok)
    show ?thesis
      using check_configured_order [of c] keys ext kvs
      by (auto simp: with_activation_heights_def Inr Let_def configured_btree_def [symmetric]
          split: option.splits)
  qed
qed

lemma schedule_ok_configured:
  assumes "\<forall>(h, _) \<in> set (configured_entries c). 0 < h" and "sorted_wrt (<) (map snd (configured_btree c))"
  shows "schedule_ok ((0, Genesis) # configured_btree c)"
  using assms configured_btree_facts(2,4) [of c] configured_entries_not_genesis [of _ _ c]
  by (fastforce simp: schedule_ok_def btree_ok_def)

lemma activation_list_builder [simp]:
  "activation_list (to_network_unchecked b) = b_activation_heights b"
  by (simp add: to_network_unchecked_def finish_def activation_list_def)

text \<open>A configuration whose heights never decrease in upgrade order: later upgrades replace earlier
  ones at the same height, and the collected map stays ordered.\<close>

lemma btree_insert_max:
  assumes "btree_ok m" and "\<forall>k' \<in> fst ` set m. k' \<le> k"
  shows "btree_insert k v m = filter (\<lambda>(k', _). k' < k) m @ [(k, v)]"
  using assms
proof (induction k v m rule: btree_insert.induct)
  case (2 k v k' v' m)
  then show ?case
  proof (cases "k' = k")
    case True
    then have "m = []" using 2(2,3) by (cases m) auto
    then show ?thesis using True by simp
  next
    case False
    then show ?thesis using 2 by (auto simp: order.strict_iff_order)
  qed
qed simp

lemma btree_collect_weakly_sorted:
  assumes "sorted (map fst (kvs :: (height \<times> network_upgrade) list))"
    and "sorted_wrt (<) (map snd kvs)"
  shows "sorted_wrt (<) (map snd (btree_collect kvs)) \<and>
         (\<forall>(h, nu) \<in> set kvs. \<exists>nu' \<ge> nu. (h, nu') \<in> set (btree_collect kvs)) \<and>
         set (btree_collect kvs) \<subseteq> set kvs"
  using assms
proof (induction kvs rule: rev_induct)
  case Nil
  then show ?case by (simp add: btree_extend_def)
next
  case (snoc e kvs)
  obtain k v where e: "e = (k, v)" by (cases e)
  let ?m = "btree_collect kvs" and ?low = "filter (\<lambda>(k', _). k' < k) (btree_collect kvs)"
  have IH: "sorted_wrt (<) (map snd ?m)" "\<forall>(h, nu) \<in> set kvs. \<exists>nu' \<ge> nu. (h, nu') \<in> set ?m"
    "set ?m \<subseteq> set kvs"
    using snoc by (simp_all add: sorted_append sorted_wrt_append)
  have ins: "btree_collect (kvs @ [e]) = ?low @ [(k, v)]"
    using snoc.prems keys_btree_extend [of "[]" kvs]
    by (simp add: e btree_extend_def fold_append btree_insert_max [of _ k v] btree_ok_extend
        [unfolded btree_extend_def] sorted_append)
  have vs: "\<forall>(h, nu) \<in> set kvs. h \<le> k \<and> nu < v"
    using snoc.prems by (auto simp: e sorted_append sorted_wrt_append)
  have "sorted_wrt (<) (map snd ?low)"
    using IH(1) by (auto simp: sorted_wrt_map intro: sorted_wrt_filter)
  then have "sorted_wrt (<) (map snd (?low @ [(k, v)]))"
    using vs IH(3) by (auto simp: sorted_wrt_append)
  moreover have "\<exists>nu' \<ge> nu. (h, nu') \<in> set (?low @ [(k, v)])" if "(h, nu) \<in> set (kvs @ [e])" for h nu
  proof (cases "h = k")
    case True
    then show ?thesis using that vs e by (intro exI [of _ v]) auto
  next
    case False
    then have "(h, nu) \<in> set kvs" "h < k" using that vs e by auto
    then show ?thesis using IH(2) by fastforce
  qed
  ultimately show ?case unfolding ins using IH(3) e by auto
qed

lemma sorted_pair_lists:
  assumes "sorted (map fst kvs)" and "sorted_wrt (<) (map snd kvs)"
    and "(h, nu) \<in> set kvs" and "(h', nu') \<in> set kvs" and "nu \<le> (nu' :: network_upgrade)"
  shows "h \<le> (h' :: nat)"
proof -
  obtain i j where ij: "i < length kvs" "kvs ! i = (h, nu)" "j < length kvs" "kvs ! j = (h', nu')"
    using assms(3,4) by (metis in_set_conv_nth)
  have "\<not> j < i"
    using sorted_wrt_nth_less [OF assms(2), of j i] ij assms(5) by auto
  then show ?thesis using sorted_nth_mono [OF assms(1), of i j] ij by simp
qed

subsection \<open>Reading a schedule back into a configuration\<close>

fun configured_get :: "network_upgrade \<Rightarrow> configured_activation_heights \<Rightarrow> nat option" where
  "configured_get Genesis c = None"
| "configured_get BeforeOverwinter c = c_before_overwinter c"
| "configured_get Overwinter c = c_overwinter c"
| "configured_get Sapling c = c_sapling c"
| "configured_get Blossom c = c_blossom c"
| "configured_get Heartwood c = c_heartwood c"
| "configured_get Canopy c = c_canopy c"
| "configured_get Nu5 c = c_nu5 c"
| "configured_get Nu6 c = c_nu6 c"
| "configured_get Nu6_1 c = c_nu6_1 c"
| "configured_get Nu7 c = c_nu7 c"

lemma configured_get_set:
  "configured_get nu (set_configured_height nu' h c) =
     (if nu = nu' \<and> nu \<noteq> Genesis then Some h else configured_get nu c)"
  by (cases nu; cases nu') simp_all

lemma configured_get_default [simp]: "configured_get nu configured_default = None"
  by (cases nu) (simp_all add: configured_default_def)

lemma set_configured_entries:
  "(h, nu) \<in> set (configured_entries c) \<longleftrightarrow> configured_get nu c = Some h"
  unfolding configured_entries_def set_present_entries by (cases nu) auto

lemma configured_get_fold:
  assumes "distinct (map snd m)"
  shows "configured_get nu (fold (\<lambda>(h, nu). set_configured_height nu h) m c) = Some h \<longleftrightarrow>
     (if nu \<in> snd ` set m \<and> nu \<noteq> Genesis then (h, nu) \<in> set m else configured_get nu c = Some h)"
  using assms
proof (induction m arbitrary: c)
  case (Cons e m)
  then show ?case by (cases e) (force simp: configured_get_set)
qed simp

lemma sorted_pairs_unique:
  assumes "sorted_wrt (<) (map snd xs)" and "sorted_wrt (<) (map snd ys)" and "set xs = set ys"
  shows "xs = (ys :: ('a \<times> 'b :: linorder) list)"
proof (rule map_inj_on)
  show "map snd xs = map snd ys"
    using assms by (intro strict_sorted_equal) auto
  show "inj_on snd (set xs \<union> set ys)"
    using strict_sorted_distinct [OF assms(1)] assms(3) by (simp add: distinct_map)
qed

lemma configured_entries_from:
  assumes "schedule_ok m"
  shows "configured_entries (configured_from m) = tl m"
proof (rule sorted_pairs_unique [OF configured_entries_sorted])
  obtain rest where m: "m = (0, Genesis) # rest" using assms by (cases m) (auto simp: schedule_ok_def)
  have d: "distinct (map snd m)" and s: "sorted_wrt (<) (map snd m)"
    using assms strict_sorted_distinct by (auto simp: schedule_ok_def)
  show "sorted_wrt (<) (map snd (tl m))" using s by (simp add: m)
  have "(h, nu) \<in> set (configured_entries (configured_from m)) \<longleftrightarrow> (h, nu) \<in> set rest" for h nu
    unfolding set_configured_entries configured_from_def configured_get_fold [OF d]
    using d by (force simp: m)
  then show "set (configured_entries (configured_from m)) = set (tl m)" by (auto simp: m)
qed

section \<open>Properties\<close>

text \<open>C30. Every activation configuration the testnet builder accepts gives a well-formed schedule: it
  starts with Genesis at height 0, heights and upgrades increase together, all configured heights
  are valid and nonzero, and the current upgrade is then defined at every height, so
  \<open>NetworkUpgrade::current\<close> cannot panic on the resulting network.\<close>

theorem accepted_activation_heights_well_formed:
  assumes "builder_ok b" and "with_activation_heights b c = Inr b'"
  shows "builder_ok b' \<and> schedule_ok (activation_list (to_network_unchecked b')) \<and>
         (\<forall>(h, nu) \<in> set (configured_entries c). 0 < h \<and> h \<le> Height_MAX) \<and>
         (\<forall>h. \<exists>nu. nu_current (to_network_unchecked b') h = Done nu)"
proof -
  note ok = assms(2) [unfolded with_activation_heights_ok [OF assms(1)]]
  have "schedule_ok ((0, Genesis) # configured_btree c)"
    using ok by (intro schedule_ok_configured) auto
  then have s: "schedule_ok (activation_list (to_network_unchecked b'))" using ok by simp
  then show ?thesis using ok nu_current_schedule [OF s] by (simp add: builder_ok_def)
qed

definition sample_builder :: parameters_builder where
  "sample_builder =
     \<lparr>b_network_name = ''Sample'', b_network_magic = magics_TESTNET, b_genesis_hash = replicate 32 1,
      b_activation_heights = [(0, Genesis)], b_slow_start_interval = 0, b_funding_streams = [],
      b_should_lock_funding_stream_address_period = False, b_target_difficulty_limit = 1,
      b_disable_pow = False, b_should_allow_unshielded_coinbase_spends = False,
      b_pre_blossom_halving_interval = 144, b_post_blossom_halving_interval = 288,
      b_lockbox_disbursements = [], b_checkpoints = [(0, replicate 32 1)]\<rparr>"

theorem accepted_activation_heights_well_formed_witness:
  "schedule_ok [(0, Genesis), (3, Sapling), (5, Nu5)]"
proof -
  let ?c = "configured_default\<lparr>c_sapling := Some 3, c_nu5 := Some 5\<rparr>"
  have e: "configured_entries ?c = [(3, Sapling), (5, Nu5)]"
    by (simp add: configured_entries_def configured_default_def List.map_filter_simps)
  have m: "configured_btree ?c = [(3, Sapling), (5, Nu5)]"
    by (simp add: configured_btree_def e btree_extend_def)
  have b: "builder_ok sample_builder"
    by (simp add: builder_ok_def sample_builder_def schedule_ok_def)
  then have "with_activation_heights sample_builder ?c =
      Inr (sample_builder\<lparr>b_activation_heights := [(0, Genesis), (3, Sapling), (5, Nu5)]\<rparr>)"
    unfolding with_activation_heights_ok [OF b]
    by (simp add: e m Height_MAX_value nu_order_defs) (simp add: sample_builder_def)
  from accepted_activation_heights_well_formed [OF b this] show ?thesis by simp
qed

text \<open>A configuration whose heights are valid, nonzero and never decrease in upgrade order is always
  accepted, and on the resulting network every configured upgrade activates exactly at its
  configured height, including upgrades that share a height with a later one.\<close>

theorem ordered_activation_heights_accepted:
  assumes "builder_ok b" and "\<not> b_should_lock_funding_stream_address_period b"
    and "\<forall>(h, _) \<in> set (configured_entries c). 0 < h \<and> h \<le> Height_MAX"
    and "sorted (map fst (configured_entries c))"
  shows "\<exists>b'. with_activation_heights b c = Inr b' \<and>
              (\<forall>(h, nu) \<in> set (configured_entries c).
                 activation_height nu (to_network_unchecked b') = Some h)"
proof -
  let ?m = "configured_btree c"
  let ?b = "b\<lparr>b_activation_heights := (0, Genesis) # ?m\<rparr>"
  note w = btree_collect_weakly_sorted [OF assms(4) configured_entries_sorted,
      folded configured_btree_def]
  have acc: "with_activation_heights b c = Inr ?b"
    using assms(2,3) w by (simp add: with_activation_heights_ok [OF assms(1)])
  have s: "schedule_ok ((0, Genesis) # ?m)"
    using assms(3) w by (intro schedule_ok_configured) auto
  have "activation_height nu (to_network_unchecked ?b) = Some h"
    if mem: "(h, nu) \<in> set (configured_entries c)" for h nu
  proof -
    have g: "Genesis < nu" using configured_entries_not_genesis [OF mem] .
    obtain nu' where nu': "nu \<le> nu'" "(h, nu') \<in> set ?m" using w mem by blast
    then have "find (\<lambda>(_, x). nu \<le> x) ?m \<noteq> None" by (auto simp: find_None_iff)
    then obtain k x where f: "find (\<lambda>(_, x). nu \<le> x) ((0, Genesis) # ?m) = Some (k, x)"
      using g by (auto simp: not_le [symmetric])
    note first = activation_schedule.first_at_or_after [OF s [folded schedule_ok_locale] f]
    have "k \<le> h" using first(3) [of h nu'] nu' by simp
    moreover have "(k, x) \<in> set (configured_entries c)" using first(1,2) g w by auto
    then have "h \<le> k"
      using sorted_pair_lists [OF assms(4) configured_entries_sorted mem] first(2) by blast
    ultimately have "k = h" by simp
    moreover have "activation_height nu (to_network_unchecked ?b) = Some k"
      using activation_height_schedule [of "to_network_unchecked ?b" nu] s f by simp
    ultimately show ?thesis by simp
  qed
  then show ?thesis using acc by blast
qed

text \<open>C29. On every network with a well-formed schedule, \<open>current\<close> and \<open>activation_height\<close> agree: at any
  height the current upgrade is defined, and an upgrade is at or before it exactly when its
  activation height (its own, or that of the first configured upgrade after it) exists and has been
  reached; the reported activation height of the current upgrade is at most the height asked
  for.\<close>

theorem current_upgrade_agrees_with_activation_height:
  assumes "schedule_ok (activation_list net)"
  shows "\<exists>c k. nu_current net h = Done c \<and> current_with_activation_height net h = Done (c, k) \<and> k \<le> h \<and>
               activation_height c net = Some k \<and>
               (\<forall>nu. nu \<le> c \<longleftrightarrow> (\<exists>k'. activation_height nu net = Some k' \<and> k' \<le> h))"
proof -
  note s = assms [folded schedule_ok_locale]
  obtain k c where l: "last (range_to (activation_list net) h) = (k, c)" by (cases "last (range_to (activation_list net) h)")
  have "nu \<le> c \<longleftrightarrow> (\<exists>k'. activation_height nu net = Some k' \<and> k' \<le> h)" for nu
    unfolding activation_schedule.active_iff [OF s l] activation_height_schedule [OF assms] by auto
  moreover have "activation_height c net = Some k"
    using activation_schedule.find_upgrade [OF s activation_schedule.last_range_to(1) [OF s l]]
    by (simp add: activation_height_schedule [OF assms])
  ultimately show ?thesis
    using l activation_schedule.last_range_to(2) [OF s l]
    by (simp add: nu_current_schedule [OF assms] current_with_activation_height_schedule [OF assms])
qed

theorem current_upgrade_agrees_with_activation_height_witness:
  "nu_current Mainnet 2000000 = Done Nu5 \<and> activation_height Nu5 Mainnet = Some 1687104"
proof -
  have c: "nu_current Mainnet 2000000 = Done Nu5"
    by (simp add: nu_current_schedule [OF schedule_ok_mainnet] range_to_def MAINNET_ACTIVATION_HEIGHTS_def)
  obtain k where "activation_height Nu5 Mainnet = Some k" "current_with_activation_height Mainnet 2000000 = Done (Nu5, k)"
    using current_upgrade_agrees_with_activation_height [OF schedule_ok_mainnet, of 2000000] c by auto
  then show ?thesis using c
    by (simp add: current_with_activation_height_schedule [OF schedule_ok_mainnet] range_to_def
        MAINNET_ACTIVATION_HEIGHTS_def)
qed

text \<open>Reading the activation heights of a built network back into a configuration and applying it
  again changes nothing: the conversion to \<open>ConfiguredActivationHeights\<close> loses no upgrade.\<close>

theorem activation_heights_roundtrip:
  assumes "builder_ok b" and "\<not> b_should_lock_funding_stream_address_period b"
    and "\<forall>(h, _) \<in> set (b_activation_heights b). h \<le> Height_MAX"
  shows "with_activation_heights b (configured_from (b_activation_heights b)) = Inr b"
proof -
  let ?m = "b_activation_heights b"
  have s: "schedule_ok ?m" using assms(1) by (simp add: builder_ok_def)
  obtain rest where m: "?m = (0, Genesis) # rest" using s by (cases ?m) (auto simp: schedule_ok_def)
  have e: "configured_entries (configured_from ?m) = rest"
    using configured_entries_from [OF s] by (simp add: m)
  have sorted: "sorted_wrt (<) (map fst rest)" "sorted_wrt (<) (map snd rest)" "\<forall>(h, _) \<in> set rest. 0 < h"
    using s by (auto simp: schedule_ok_def m)
  have bt: "configured_btree (configured_from ?m) = rest"
    using sorted(1) by (simp add: configured_btree_def e btree_extend_sorted)
  show ?thesis
    unfolding with_activation_heights_ok [OF assms(1)] e bt
    using assms(2,3) sorted m by auto
qed

theorem activation_heights_roundtrip_witness:
  "with_activation_heights (sample_builder\<lparr>b_activation_heights := TESTNET_ACTIVATION_HEIGHTS\<rparr>)
     (configured_from TESTNET_ACTIVATION_HEIGHTS) =
   Inr (sample_builder\<lparr>b_activation_heights := TESTNET_ACTIVATION_HEIGHTS\<rparr>)"
proof -
  let ?b = "sample_builder\<lparr>b_activation_heights := TESTNET_ACTIVATION_HEIGHTS\<rparr>"
  have "builder_ok ?b" "\<not> b_should_lock_funding_stream_address_period ?b"
    "\<forall>(h, _) \<in> set (b_activation_heights ?b). h \<le> Height_MAX"
    by (simp_all add: builder_ok_def schedule_ok_def sample_builder_def nu_order_defs
        TESTNET_ACTIVATION_HEIGHTS_def Height_MAX_value)
  from activation_heights_roundtrip [OF this] show ?thesis by simp
qed

text \<open>Consensus branch ids are one to one: parsing a 32-bit branch id gives an upgrade exactly when it is
  the branch id of that upgrade, so a transaction's branch id determines its upgrade, and exactly
  Genesis, BeforeOverwinter and Nu7 have none.\<close>

theorem branch_ids_bijective:
  "(\<forall>bid nu. network_upgrade_try_from bid = Inr nu \<longleftrightarrow> branch_id nu = Some bid) \<and>
   (\<forall>nu. branch_id nu = None \<longleftrightarrow> nu \<in> {Genesis, BeforeOverwinter, Nu7})"
proof -
  have "network_upgrade_try_from bid = Inr nu \<longleftrightarrow> branch_id nu = Some bid" for bid nu
    by (cases nu) (auto simp: network_upgrade_try_from_def branch_id_def branch_id_list_def
        CONSENSUS_BRANCH_IDS_def)
  moreover have "branch_id nu = None \<longleftrightarrow> nu \<in> {Genesis, BeforeOverwinter, Nu7}" for nu
    by (cases nu) (simp_all add: branch_id_def branch_id_list_def CONSENSUS_BRANCH_IDS_def)
  ultimately show ?thesis by blast
qed

text \<open>C31. The order check of \<open>with_activation_heights\<close> looks only at upgrades that survive the collection into
  a map, so it accepts Overwinter at height 5 before Sapling at height 3 when Blossom is also
  configured at height 5, and Overwinter is then active from height 3.\<close>

theorem overwritten_upgrade_escapes_order_check:
  "\<exists>b'. with_activation_heights sample_builder
          (configured_default\<lparr>c_overwinter := Some 5, c_sapling := Some 3, c_blossom := Some 5\<rparr>) =
          Inr b' \<and>
        activation_height Overwinter (to_network_unchecked b') = Some 3"
proof -
  let ?c = "configured_default\<lparr>c_overwinter := Some 5, c_sapling := Some 3, c_blossom := Some 5\<rparr>"
  let ?b = "sample_builder\<lparr>b_activation_heights := [(0, Genesis), (3, Sapling), (5, Blossom)]\<rparr>"
  have e: "configured_entries ?c = [(5, Overwinter), (3, Sapling), (5, Blossom)]"
    by (simp add: configured_entries_def configured_default_def List.map_filter_simps)
  have m: "configured_btree ?c = [(3, Sapling), (5, Blossom)]"
    by (simp add: configured_btree_def e btree_extend_def)
  have b: "builder_ok sample_builder"
    by (simp add: builder_ok_def sample_builder_def schedule_ok_def)
  have "with_activation_heights sample_builder ?c = Inr ?b"
    unfolding with_activation_heights_ok [OF b]
    by (simp add: e m Height_MAX_value nu_order_defs) (simp add: sample_builder_def)
  moreover have "activation_height Overwinter (to_network_unchecked ?b) = Some 3"
    by (simp add: activation_height.simps)
  ultimately show ?thesis by blast
qed

end
