(* ===== verification/Subsidies.thy ===== *)
theory Subsidies
  imports Network_Upgrades Founder_Addresses
begin

text \<open>
  Block subsidies, founders' reward and funding streams:
  \<open>zebra-chain/src/parameters/network/subsidy.rs\<close> and its constants, the subsidy accessors of
  \<open>parameters/network/testnet.rs\<close>, and the funding stream addresses of
  \<open>zebra-consensus/src/block/subsidy.rs\<close>.

  \<open>Parameters::default()\<close> embeds a checkpoint file and \<open>new_regtest\<close> is built from it, so the functions
  that compare a network with these two parameter sets take them as the argument \<open>defaults\<close>; mainnet
  results do not depend on it. Parsing an address string is done by the \<open>zcash_address\<close> crate and is the
  argument \<open>parse_address\<close> where it decides the control flow.
\<close>

section \<open>Constants and accessors\<close>

definition MAX_BLOCK_SUBSIDY :: nat where
  "MAX_BLOCK_SUBSIDY = nat ((25 * COIN) div 2)"

definition PRE_BLOSSOM_HALVING_INTERVAL :: int where
  "PRE_BLOSSOM_HALVING_INTERVAL = 840000"

definition POST_BLOSSOM_HALVING_INTERVAL :: int where
  "POST_BLOSSOM_HALVING_INTERVAL =
     PRE_BLOSSOM_HALVING_INTERVAL * int BLOSSOM_POW_TARGET_SPACING_RATIO"

definition FUNDING_STREAM_RECEIVER_DENOMINATOR :: int where
  "FUNDING_STREAM_RECEIVER_DENOMINATOR = 100"

definition POST_NU6_FUNDING_STREAM_NUM_BLOCKS :: nat where
  "POST_NU6_FUNDING_STREAM_NUM_BLOCKS = 420000"

definition SLOW_START_INTERVAL :: height where
  "SLOW_START_INTERVAL = 20000"

definition SLOW_START_SHIFT :: height where
  "SLOW_START_SHIFT = SLOW_START_INTERVAL div 2"

definition mainnet_POST_NU6_FUNDING_STREAM_START_HEIGHT :: nat where
  "mainnet_POST_NU6_FUNDING_STREAM_START_HEIGHT = 2726400"

definition mainnet_FUNDING_STREAMS :: "funding_streams list" where
  "mainnet_FUNDING_STREAMS =
     [\<lparr>height_range = (1046400, 2726400),
       recipients =
         [(Ecc, \<lparr>numerator = 7, addresses = mainnet_FUNDING_STREAM_ECC_ADDRESSES\<rparr>),
          (ZcashFoundation,
           \<lparr>numerator = 5, addresses = replicate 48 ''t3dvVE3SQEi7kqNzwrfNePxZ1d4hUyztBA1''\<rparr>),
          (MajorGrants,
           \<lparr>numerator = 8, addresses = replicate 48 ''t3XyYW8yBFRuMnfvm5KLGFbEVz25kckZXym''\<rparr>)]\<rparr>,
      \<lparr>height_range =
         (mainnet_POST_NU6_FUNDING_STREAM_START_HEIGHT,
          mainnet_POST_NU6_FUNDING_STREAM_START_HEIGHT + POST_NU6_FUNDING_STREAM_NUM_BLOCKS),
       recipients =
         [(Deferred, \<lparr>numerator = 12, addresses = []\<rparr>),
          (MajorGrants,
           \<lparr>numerator = 8, addresses = replicate 12 ''t3cFfPt1Bcvgez9ZbMBFWeZsskxTkPzGCow''\<rparr>)]\<rparr>,
      \<lparr>height_range = (3146400, 4406400),
       recipients =
         [(Deferred, \<lparr>numerator = 12, addresses = []\<rparr>),
          (MajorGrants,
           \<lparr>numerator = 8, addresses = replicate 36 ''t3cFfPt1Bcvgez9ZbMBFWeZsskxTkPzGCow''\<rparr>)]\<rparr>]"

record network_defaults =
  default_testnet :: parameters
  default_regtest :: parameters

definition is_default_testnet :: "network_defaults \<Rightarrow> parameters \<Rightarrow> bool" where
  "is_default_testnet defaults params \<longleftrightarrow> params = default_testnet defaults"

definition is_regtest :: "network_defaults \<Rightarrow> parameters \<Rightarrow> bool" where
  "is_regtest defaults params =
     (if p_network_magic params \<noteq> magics_REGTEST then False
      else let r = default_regtest defaults in
        p_network_name params = p_network_name r \<and>
        p_genesis_hash params = p_genesis_hash r \<and>
        p_slow_start_interval params = p_slow_start_interval r \<and>
        p_slow_start_shift params = p_slow_start_shift r \<and>
        p_target_difficulty_limit params = p_target_difficulty_limit r \<and>
        p_disable_pow params = p_disable_pow r \<and>
        p_should_allow_unshielded_coinbase_spends params =
          p_should_allow_unshielded_coinbase_spends r \<and>
        p_pre_blossom_halving_interval params = p_pre_blossom_halving_interval r \<and>
        p_post_blossom_halving_interval params = p_post_blossom_halving_interval r)"

definition disable_pow :: "network \<Rightarrow> bool" where
  "disable_pow net = (case net of Testnet params \<Rightarrow> p_disable_pow params | Mainnet \<Rightarrow> False)"

definition slow_start_interval :: "network \<Rightarrow> height" where
  "slow_start_interval net =
     (case net of Testnet params \<Rightarrow> p_slow_start_interval params | Mainnet \<Rightarrow> SLOW_START_INTERVAL)"

definition slow_start_shift :: "network \<Rightarrow> height" where
  "slow_start_shift net =
     (case net of Testnet params \<Rightarrow> p_slow_start_shift params | Mainnet \<Rightarrow> SLOW_START_SHIFT)"

definition all_funding_streams :: "network \<Rightarrow> funding_streams list" where
  "all_funding_streams net =
     (case net of Testnet params \<Rightarrow> p_funding_streams params | Mainnet \<Rightarrow> mainnet_FUNDING_STREAMS)"

definition range_contains :: "height \<times> height \<Rightarrow> height \<Rightarrow> bool" where
  "range_contains r h \<longleftrightarrow> fst r \<le> h \<and> h < snd r"

definition network_funding_streams :: "network \<Rightarrow> height \<Rightarrow> funding_streams option" where
  "network_funding_streams net h =
     find (\<lambda>streams. range_contains (height_range streams) h) (all_funding_streams net)"

definition should_allow_unshielded_coinbase_spends :: "network \<Rightarrow> bool" where
  "should_allow_unshielded_coinbase_spends net =
     (case net of
        Testnet params \<Rightarrow> p_should_allow_unshielded_coinbase_spends params
      | Mainnet \<Rightarrow> False)"

definition founder_address_list :: "network \<Rightarrow> string list" where
  "founder_address_list net =
     (case net of
        Mainnet \<Rightarrow> mainnet_FOUNDER_ADDRESS_LIST
      | Testnet _ \<Rightarrow> testnet_FOUNDER_ADDRESS_LIST)"

definition post_blossom_halving_interval :: "network \<Rightarrow> int" where
  "post_blossom_halving_interval net =
     (case net of
        Mainnet \<Rightarrow> POST_BLOSSOM_HALVING_INTERVAL
      | Testnet params \<Rightarrow> p_post_blossom_halving_interval params)"

definition pre_blossom_halving_interval :: "network \<Rightarrow> int" where
  "pre_blossom_halving_interval net =
     (case net of
        Mainnet \<Rightarrow> PRE_BLOSSOM_HALVING_INTERVAL
      | Testnet params \<Rightarrow> p_pre_blossom_halving_interval params)"

text \<open>Checked and panicking \<open>i64\<close> arithmetic.\<close>

definition i64_div :: "int \<Rightarrow> int \<Rightarrow> int outcome" where
  "i64_div a b =
     (if b = 0 \<or> a = - (2 ^ 63) \<and> b = - 1 then Panic else Done (rust_div a b))"

definition option_bind :: "'a option \<Rightarrow> ('a \<Rightarrow> 'b option) \<Rightarrow> 'b option" where
  "option_bind m f = (case m of None \<Rightarrow> None | Some x \<Rightarrow> f x)"

lemma option_bind_simps [simp]: "option_bind (Some x) f = f x" "option_bind None f = None"
  by (simp_all add: option_bind_def)

lemma option_bind_Some_iff: "option_bind m f = Some y \<longleftrightarrow> (\<exists>x. m = Some x \<and> f x = Some y)"
  by (cases m) simp_all

definition funding_stream_address_change_interval :: "network \<Rightarrow> int" where
  "funding_stream_address_change_interval net = rust_div (post_blossom_halving_interval net) 48"

section \<open>Halvings\<close>

definition height_for_halving :: "nat \<Rightarrow> network \<Rightarrow> height option" where
  "height_for_halving halving_ix net =
     (if halving_ix = 0 then Some 0
      else
        let shift = int (slow_start_shift net) in
        option_bind (activation_height Blossom net) (\<lambda>blossom.
        let blossom_height = int blossom in
        option_bind (checked_i64 (int halving_ix * pre_blossom_halving_interval net)) (\<lambda>unscaled_height.
        option_bind (checked_i64 (min unscaled_height blossom_height + shift)) (\<lambda>pre_blossom_height.
        option_bind
          (checked_i64 (max 0 (wrap_i64 (unscaled_height - blossom_height)) *
            int BLOSSOM_POW_TARGET_SPACING_RATIO)) (\<lambda>scaled.
        option_bind (checked_i64 (scaled + shift)) (\<lambda>post_blossom_height.
        option_bind (checked_i64 (pre_blossom_height + post_blossom_height)) (\<lambda>h.
        option_bind (u32_try_from h) (\<lambda>h32.
        res_ok (height_try_from_u32 h32)))))))))"

definition halving :: "height \<Rightarrow> network \<Rightarrow> nat outcome" where
  "halving h net =
     run_bind (expect_some (activation_height Blossom net)) (\<lambda>blossom_height.
     run_bind
       (if h < slow_start_shift net then Done 0
        else if h < blossom_height then
          i64_div (height_diff h (slow_start_shift net)) (pre_blossom_halving_interval net)
        else
          i64_div
            (wrap_i64 (wrap_i64 (height_diff blossom_height (slow_start_shift net) *
                int BLOSSOM_POW_TARGET_SPACING_RATIO) +
              height_diff h blossom_height))
            (post_blossom_halving_interval net)) (\<lambda>halving_index.
     expect_some (u32_try_from halving_index)))"

definition halving_divisor :: "height \<Rightarrow> network \<Rightarrow> nat option outcome" where
  "halving_divisor h net =
     run_bind (halving h net) (\<lambda>n. Done (if n < 64 then Some (2 ^ n) else None))"

datatype subsidy_error =
    NoCoinbase | FundingStreamNotFound | FoundersRewardNotFound
  | OneTimeLockboxDisbursementNotFound | InvalidMinerFees | SubsidyOverflow | SubsidyUnderflow
  | UnsupportedHeight | InvalidAmount amount_error

definition block_subsidy :: "height \<Rightarrow> network \<Rightarrow> (subsidy_error + amount) outcome" where
  "block_subsidy h net =
     run_bind (halving_divisor h net) (\<lambda>divisor.
       case divisor of
         None \<Rightarrow> run_bind (amount_zero NonNegative) (\<lambda>z. Done (Inr z))
       | Some halving_div \<Rightarrow>
           run_bind
             (if h < slow_start_interval net then
                let slow_start_rate = MAX_BLOCK_SUBSIDY div slow_start_interval net in
                if h < slow_start_shift net then Done (slow_start_rate * h mod 2 ^ 64)
                else Done (slow_start_rate * (h + 1) mod 2 ^ 64)
              else
                run_bind (nu_current net h) (\<lambda>nu.
                  let base_subsidy =
                    (if nu < Blossom then MAX_BLOCK_SUBSIDY
                     else MAX_BLOCK_SUBSIDY div BLOSSOM_POW_TARGET_SPACING_RATIO)
                  in Done (base_subsidy div halving_div)))
             (\<lambda>amount. Done (map_err InvalidAmount (amount_try_from_u64 NonNegative (int amount)))))"

section \<open>Founders' reward and funding streams\<close>

definition founders_reward :: "network \<Rightarrow> height \<Rightarrow> amount outcome" where
  "founders_reward net h =
     run_bind (halving h net) (\<lambda>n.
     run_bind (if n < 1 then run_bind (nu_current net h) (\<lambda>nu. Done (nu < Canopy)) else Done False)
       (\<lambda>pays.
         if pays then
           run_bind (block_subsidy h net) (\<lambda>r.
           run_bind (expect_ok r) (\<lambda>subsidy. amount_div_exact subsidy 5))
         else amount_zero NonNegative))"

text \<open>\<open>checked_sub\<close> on \<open>u32\<close>, and \<open>checked_add\<close>.\<close>

definition u32_checked_add :: "nat \<Rightarrow> nat \<Rightarrow> nat option" where
  "u32_checked_add a b = (if a + b < 2 ^ 32 then Some (a + b) else None)"

definition u32_checked_sub :: "nat \<Rightarrow> nat \<Rightarrow> nat option" where
  "u32_checked_sub a b = (if b \<le> a then Some (a - b) else None)"

definition founders_reward_address ::
  "(string \<Rightarrow> 'addr option) \<Rightarrow> network \<Rightarrow> height \<Rightarrow> 'addr option outcome" where
  "founders_reward_address parse_address net h =
     (let founders_address_list = founder_address_list net;
          num_founder_addresses = length founders_address_list
      in case option_bind (u32_try_from (pre_blossom_halving_interval net))
                (u32_checked_add (slow_start_shift net)) of
           None \<Rightarrow> Done None
         | Some interval_sum \<Rightarrow>
             let founder_address_change_interval =
               (interval_sum + num_founder_addresses - 1) div num_founder_addresses
             in
             run_bind (nu_current net h) (\<lambda>nu.
               case (if nu < Blossom then Some h
                     else option_bind (activation_height Blossom net) (\<lambda>blossom.
                       option_bind (u32_checked_sub h blossom) (\<lambda>d.
                         u32_checked_add blossom (d div BLOSSOM_POW_TARGET_SPACING_RATIO)))) of
                 None \<Rightarrow> Done None
               | Some adjusted_height \<Rightarrow>
                   if founder_address_change_interval = 0 then Panic
                   else
                     let founder_address_index = adjusted_height div founder_address_change_interval in
                     Done (if founder_address_index < num_founder_addresses
                           then parse_address (founders_address_list ! founder_address_index)
                           else None)))"

definition is_deferred :: "funding_stream_receiver \<Rightarrow> bool" where
  "is_deferred r \<longleftrightarrow> r = Deferred"

text \<open>The results map has one entry per recipient of the stream, in the order they are visited.\<close>

fun funding_stream_entries ::
  "amount \<Rightarrow> (funding_stream_receiver \<times> funding_stream_recipient) list \<Rightarrow>
   (amount_error + (funding_stream_receiver \<times> amount) list) outcome" where
  "funding_stream_entries subsidy [] = Done (Inr [])"
| "funding_stream_entries subsidy ((receiver, recipient) # rest) =
     try_bind (amount_mul NonNegative subsidy (int (numerator recipient))) (\<lambda>product.
     try_bind (amount_div NonNegative product FUNDING_STREAM_RECEIVER_DENOMINATOR) (\<lambda>amount_value.
     try_bind (funding_stream_entries subsidy rest) (\<lambda>results.
       Done (Inr ((receiver, amount_value) # results)))))"

definition funding_stream_values ::
  "height \<Rightarrow> network \<Rightarrow> amount \<Rightarrow>
   (amount_error + (funding_stream_receiver \<times> amount) list) outcome" where
  "funding_stream_values h net expected_block_subsidy =
     (if amount_is_zero expected_block_subsidy then Done (Inr [])
      else run_bind (nu_current net h) (\<lambda>nu.
        if nu \<ge> Canopy then
          (case network_funding_streams net h of
             Some streams \<Rightarrow> funding_stream_entries expected_block_subsidy (recipients streams)
           | None \<Rightarrow> Done (Inr []))
        else Done (Inr [])))"

definition miner_subsidy :: "height \<Rightarrow> network \<Rightarrow> amount \<Rightarrow> (amount_error + amount) outcome" where
  "miner_subsidy h net expected_block_subsidy =
     run_bind (founders_reward net h) (\<lambda>reward.
     try_bind (funding_stream_values h net expected_block_subsidy) (\<lambda>values.
     try_bind (amount_sum NonNegative (map snd values)) (\<lambda>funding_streams_sum.
     run_bind (amount_sub NonNegative expected_block_subsidy reward) (\<lambda>r.
       amount_result_sub NonNegative r funding_streams_sum))))"

section \<open>Funding stream addresses\<close>

definition height_for_first_halving :: "network_defaults \<Rightarrow> network \<Rightarrow> height outcome" where
  "height_for_first_halving defaults net =
     (case net of
        Mainnet \<Rightarrow> expect_some (activation_height Canopy net)
      | Testnet params \<Rightarrow>
          if is_regtest defaults params then Done 287
          else if is_default_testnet defaults params then Done 1116000
          else expect_some (height_for_halving 1 net))"

definition funding_stream_address_period :: "network_defaults \<Rightarrow> height \<Rightarrow> network \<Rightarrow> nat outcome" where
  "funding_stream_address_period defaults h net =
     run_bind (height_for_first_halving defaults net) (\<lambda>first_halving.
     run_bind
       (i64_div
          (wrap_i64 (height_diff h first_halving + post_blossom_halving_interval net))
          (funding_stream_address_change_interval net)) (\<lambda>address_period.
     expect_some (u32_try_from address_period)))"

definition recipient :: "funding_streams \<Rightarrow> funding_stream_receiver \<Rightarrow> funding_stream_recipient option" where
  "recipient streams receiver = map_of (recipients streams) receiver"

definition funding_stream_address_index ::
  "network_defaults \<Rightarrow> height \<Rightarrow> network \<Rightarrow> funding_stream_receiver \<Rightarrow> nat option outcome" where
  "funding_stream_address_index defaults h net receiver =
     (if receiver = Deferred then Done None
      else case network_funding_streams net h of
        None \<Rightarrow> Done None
      | Some streams \<Rightarrow>
          (case recipient streams receiver of
             None \<Rightarrow> Done None
           | Some recip \<Rightarrow>
               let num_addresses = length (addresses recip) in
               run_bind (funding_stream_address_period defaults h net) (\<lambda>period.
               case u32_checked_add 1 period of
                 None \<Rightarrow> Done None
               | Some p \<Rightarrow>
                   run_bind
                     (funding_stream_address_period defaults (fst (height_range streams)) net)
                     (\<lambda>start_period.
                   case u32_checked_sub p start_period of
                     None \<Rightarrow> Done None
                   | Some index \<Rightarrow>
                       run_bind (assert_that (index > 0 \<and> index \<le> num_addresses)) (\<lambda>_.
                         Done (Some (index - 1)))))))"

definition funding_stream_address ::
  "network_defaults \<Rightarrow> height \<Rightarrow> network \<Rightarrow> funding_stream_receiver \<Rightarrow> string option outcome" where
  "funding_stream_address defaults h net receiver =
     run_bind (funding_stream_address_index defaults h net receiver) (\<lambda>i.
       Done (option_bind i (\<lambda>index.
             option_bind (network_funding_streams net h) (\<lambda>streams.
             option_bind (recipient streams receiver) (\<lambda>recip.
               if index < length (addresses recip) then Some (addresses recip ! index) else None)))))"

definition num_funding_stream_addresses_required_for_height_range ::
  "network_defaults \<Rightarrow> height \<times> height \<Rightarrow> network \<Rightarrow> nat outcome" where
  "num_funding_stream_addresses_required_for_height_range defaults r net =
     run_bind (expect_ok (height_previous (snd r))) (\<lambda>last_height.
     run_bind (funding_stream_address_period defaults last_height net) (\<lambda>last_period.
     run_bind (expect_some (u32_checked_add 1 last_period)) (\<lambda>p.
     run_bind (funding_stream_address_period defaults (fst r) net) (\<lambda>first_period.
       expect_some (u32_checked_sub p first_period)))))"

text \<open>\<open>iter().cycle().take(target_len)\<close>.\<close>

definition extend_addresses :: "nat \<Rightarrow> funding_stream_recipient \<Rightarrow> funding_stream_recipient outcome" where
  "extend_addresses target_len recip =
     run_bind (assert_that (addresses recip \<noteq> [])) (\<lambda>_.
       Done (recip\<lparr>addresses :=
         map (\<lambda>i. addresses recip ! (i mod length (addresses recip))) [0..<target_len]\<rparr>))"

definition extend_recipient_addresses :: "nat \<Rightarrow> funding_streams \<Rightarrow> funding_streams outcome" where
  "extend_recipient_addresses target_len streams =
     run_bind
       (map_outcome_list
          (\<lambda>(receiver, recip).
             if is_deferred receiver then Done (receiver, recip)
             else run_bind (extend_addresses target_len recip) (\<lambda>recip'. Done (receiver, recip')))
          (recipients streams))
       (\<lambda>recips. Done (streams\<lparr>recipients := recips\<rparr>))"

section \<open>Lockbox disbursements\<close>

definition EXPECTED_NU6_1_LOCKBOX_DISBURSEMENTS_TOTAL :: "amount outcome" where
  "EXPECTED_NU6_1_LOCKBOX_DISBURSEMENTS_TOTAL = amount_new_from_zec 78750"

definition lockbox_disbursements_of :: "string \<Rightarrow> (string \<times> amount) list outcome" where
  "lockbox_disbursements_of address =
     run_bind EXPECTED_NU6_1_LOCKBOX_DISBURSEMENTS_TOTAL (\<lambda>disbursement.
     run_bind (amount_div_exact disbursement 10) (\<lambda>chunk. Done (replicate 10 (address, chunk))))"

fun lockbox_reduce :: "amount \<Rightarrow> amount list \<Rightarrow> amount outcome" where
  "lockbox_reduce a [] = Done a"
| "lockbox_reduce a (b # rest) =
     run_bind (amount_add NonNegative a b) (\<lambda>r. run_bind (expect_ok r) (\<lambda>s. lockbox_reduce s rest))"

definition parse_disbursements ::
  "(string \<Rightarrow> 'addr option) \<Rightarrow> (string \<times> amount) list \<Rightarrow> ('addr \<times> amount) list outcome" where
  "parse_disbursements parse_address =
     map_outcome_list (\<lambda>(addr, amount).
       run_bind (expect_some (parse_address addr)) (\<lambda>a. Done (a, amount)))"

definition params_lockbox_disbursement_total_amount ::
  "(string \<Rightarrow> 'addr option) \<Rightarrow> parameters \<Rightarrow> amount outcome" where
  "params_lockbox_disbursement_total_amount parse_address params =
     run_bind (parse_disbursements parse_address (p_lockbox_disbursements params)) (\<lambda>ds.
       case map snd ds of
         [] \<Rightarrow> Done (Amount 0)
       | a # rest \<Rightarrow> lockbox_reduce a rest)"

definition lockbox_disbursement_total_amount ::
  "(string \<Rightarrow> 'addr option) \<Rightarrow> network_defaults \<Rightarrow> network \<Rightarrow> height \<Rightarrow> amount outcome" where
  "lockbox_disbursement_total_amount parse_address defaults net h =
     (if Some h \<noteq> activation_height Nu6_1 net then amount_zero NonNegative
      else case net of
        Mainnet \<Rightarrow> EXPECTED_NU6_1_LOCKBOX_DISBURSEMENTS_TOTAL
      | Testnet params \<Rightarrow>
          if is_default_testnet defaults params then EXPECTED_NU6_1_LOCKBOX_DISBURSEMENTS_TOTAL
          else params_lockbox_disbursement_total_amount parse_address params)"

definition lockbox_disbursements ::
  "(string \<Rightarrow> 'addr option) \<Rightarrow> network_defaults \<Rightarrow> network \<Rightarrow> height \<Rightarrow>
   ('addr \<times> amount) list outcome" where
  "lockbox_disbursements parse_address defaults net h =
     (if Some h \<noteq> activation_height Nu6_1 net then Done []
      else case net of
        Mainnet \<Rightarrow>
          run_bind (lockbox_disbursements_of ''t3ev37Q2uL1sfTsiJQJiWJoFzQpDhmnUwYo'')
            (parse_disbursements parse_address)
      | Testnet params \<Rightarrow>
          if is_default_testnet defaults params then
            run_bind (lockbox_disbursements_of ''t2RnBRiqrN1nW4ecZs1Fj3WWjNdnSs4kiX8'')
              (parse_disbursements parse_address)
          else parse_disbursements parse_address (p_lockbox_disbursements params))"

section \<open>Subsidies of a well-formed network\<close>

text \<open>
  The contract of a network's subsidy parameters: a well-formed schedule with a Blossom height \<open>B\<close>, a
  slow start of \<open>I\<close> blocks whose half \<open>s\<close> ends before Blossom, and a positive halving interval \<open>P\<close> that
  doubles after Blossom. \<open>halving_ix\<close> and \<open>subsidy_value\<close> are \<open>Halving(height)\<close> and
  \<open>BlockSubsidy(height)\<close> of the protocol specification.
\<close>

locale subsidy_network =
  fixes net :: network and B s I P :: nat
  assumes schedule: "schedule_ok (activation_list net)"
    and blossom: "activation_height Blossom net = Some B"
    and shift: "slow_start_shift net = s"
    and interval: "slow_start_interval net = I"
    and half: "s = I div 2"
    and shift_before_blossom: "s \<le> B"
    and pre_interval: "pre_blossom_halving_interval net = int P"
    and post_interval: "post_blossom_halving_interval net = 2 * int P"
    and positive: "0 < P"
    and small: "is_u32 B" "is_u32 I"
begin

definition halving_ix :: "nat \<Rightarrow> nat" where
  "halving_ix h =
     (if h < s then 0
      else if h < B then (h - s) div P
      else (2 * (B - s) + (h - B)) div (2 * P))"

definition subsidy_value :: "nat \<Rightarrow> nat" where
  "subsidy_value h =
     (if 64 \<le> halving_ix h then 0
      else if h < I then MAX_BLOCK_SUBSIDY div I * (if h < s then h else h + 1)
      else (if h < B then MAX_BLOCK_SUBSIDY else MAX_BLOCK_SUBSIDY div 2) div 2 ^ halving_ix h)"

lemma s_small: "s < 2 ^ 32"
  using small(2) by (simp add: half is_u32_def)

lemma i64_div_nat: "0 < b \<Longrightarrow> i64_div (int a) (int b) = Done (int (a div b))"
  by (simp add: i64_div_def rust_div_nonneg zdiv_int)

lemma halving_ix_bound: "is_u32 h \<Longrightarrow> halving_ix h < 2 ^ 32"
proof -
  assume h: "is_u32 h"
  have "(2 * (B - s) + (h - B)) div (2 * P) \<le> (2 * (B - s) + (h - B)) div 2"
    using positive by (intro div_le_mono2) auto
  moreover have "(2 * (B - s) + (h - B)) div 2 < 2 ^ 32"
    using h small(1) by (simp add: is_u32_def)
  moreover have "(h - s) div P < 2 ^ 32"
    using h div_le_dividend [of "h - s" P] unfolding is_u32_def by linarith
  ultimately have "(2 * (B - s) + (h - B)) div (2 * P) < 2 ^ 32" "(h - s) div P < 2 ^ 32" by linarith+
  then show ?thesis unfolding halving_ix_def by (simp only: split: if_split) simp
qed

lemma halving_exact:
  assumes "is_u32 h"
  shows "halving h net = Done (halving_ix h)"
proof -
  have d: "height_diff a b = int (a - b)" if "b \<le> a" "is_u32 a" for a b
    using that by (simp add: height_diff_exact is_u32_def of_nat_diff)
  have u: "expect_some (u32_try_from (int (halving_ix h))) = Done (halving_ix h)"
    using halving_ix_bound [OF assms] by (simp add: u32_try_from_def in_u32_def)
  consider "h < s" | "s \<le> h" "h < B" | "B \<le> h" "s \<le> h" using shift_before_blossom by linarith
  then show ?thesis
  proof cases
    case 1
    then show ?thesis using u by (simp add: halving_def blossom shift halving_ix_def)
  next
    case 2
    then have "i64_div (height_diff h s) (int P) = Done (int (halving_ix h))"
      unfolding d [OF 2(1) assms] i64_div_nat [OF positive] by (simp add: halving_ix_def)
    then show ?thesis using 2 u by (simp add: halving_def blossom shift pre_interval)
  next
    case 3
    have w: "wrap_i64 (height_diff B s * 2) = int (2 * (B - s))"
      using small(1) unfolding d [OF shift_before_blossom small(1)]
      by (subst wrap_i64_id) (simp_all add: is_u32_def in_i64_def)
    have w2: "wrap_i64 (int (2 * (B - s)) + height_diff h B) = int (2 * (B - s) + (h - B))"
      using small(1) assms unfolding d [OF 3(1) assms]
      by (subst wrap_i64_id) (simp_all add: is_u32_def in_i64_def)
    have "i64_div (int (2 * (B - s) + (h - B))) (2 * int P) = Done (int (halving_ix h))"
      using i64_div_nat [of "2 * P" "2 * (B - s) + (h - B)"] positive 3 by (simp add: halving_ix_def)
    then show ?thesis
      using 3 u w w2
      by (simp add: halving_def blossom shift post_interval BLOSSOM_POW_TARGET_SPACING_RATIO_def)
  qed
qed

lemma halving_ix_mono: "h \<le> h' \<Longrightarrow> halving_ix h \<le> halving_ix h'"
proof -
  assume le: "h \<le> h'"
  have dbl: "(2 * a) div (2 * P) = a div P" for a by simp
  have "(h - s) div P \<le> (2 * (B - s) + (h' - B)) div (2 * P)" if "h < B"
  proof -
    have "(h - s) div P = (2 * (h - s)) div (2 * P)" by simp
    also have "\<dots> \<le> (2 * (B - s) + (h' - B)) div (2 * P)"
      using that by (intro div_le_mono) simp
    finally show ?thesis .
  qed
  then show ?thesis using le by (auto simp: halving_ix_def intro!: div_le_mono)
qed

lemma current_blossom: "nu_current net h = Done nu \<Longrightarrow> nu < Blossom \<longleftrightarrow> h < B"
proof -
  assume c: "nu_current net h = Done nu"
  obtain k c' where l: "last (range_to (activation_list net) h) = (k, c')"
    by (cases "last (range_to (activation_list net) h)")
  have "c' = nu" using c l by (simp add: nu_current_schedule [OF schedule])
  then have "Blossom \<le> nu \<longleftrightarrow> (\<exists>k'. activation_height Blossom net = Some k' \<and> k' \<le> h)"
    using activation_schedule.active_iff [OF schedule [folded schedule_ok_locale] l, of Blossom]
    by (auto simp: activation_height_schedule [OF schedule])
  then show ?thesis using blossom by (auto simp: not_le [symmetric])
qed

lemma current_total: "\<exists>nu. nu_current net h = Done nu"
  using nu_current_schedule [OF schedule] by simp

lemma subsidy_value_bound: "subsidy_value h \<le> MAX_BLOCK_SUBSIDY"
proof -
  have "MAX_BLOCK_SUBSIDY div I * k \<le> MAX_BLOCK_SUBSIDY" if "k \<le> I" for k
    using order.trans [OF mult_le_mono2 [OF that, of "MAX_BLOCK_SUBSIDY div I"] div_times_less_eq_dividend] .
  moreover have "a div b \<le> MAX_BLOCK_SUBSIDY" if "a \<le> MAX_BLOCK_SUBSIDY" for a b
    using that div_le_dividend [of a b] by linarith
  ultimately show ?thesis by (simp add: subsidy_value_def)
qed

lemma MAX_BLOCK_SUBSIDY_value: "MAX_BLOCK_SUBSIDY = 1250000000"
  by (simp add: MAX_BLOCK_SUBSIDY_def COIN_def)

lemma block_subsidy_exact:
  assumes "is_u32 h"
  shows "block_subsidy h net = Done (Inr (Amount (int (subsidy_value h))))"
proof -
  obtain nu where nu: "nu_current net h = Done nu" using current_total by blast
  have v: "amount_try_from_u64 NonNegative (int (subsidy_value h)) = Inr (Amount (int (subsidy_value h)))"
    using subsidy_value_bound [of h]
    by (simp add: amount_try_from_u64_def in_i64_def try_from_i64_cases MAX_BLOCK_SUBSIDY_value
        MAX_MONEY_value)
  have small_rate: "MAX_BLOCK_SUBSIDY div I * k mod 2 ^ 64 = MAX_BLOCK_SUBSIDY div I * k" if "k \<le> I" for k
  proof (rule mod_less)
    have "MAX_BLOCK_SUBSIDY div I * k \<le> MAX_BLOCK_SUBSIDY div I * I" using that by simp
    also have "\<dots> \<le> MAX_BLOCK_SUBSIDY" by simp
    finally show "MAX_BLOCK_SUBSIDY div I * k < 2 ^ 64" by (simp add: MAX_BLOCK_SUBSIDY_value)
  qed
  show ?thesis
  proof (cases "64 \<le> halving_ix h")
    case True
    then show ?thesis
      by (simp add: block_subsidy_def halving_divisor_def halving_exact [OF assms]
          constraints.zero_done subsidy_value_def)
  next
    case False
    then show ?thesis
      using v nu current_blossom [OF nu] small_rate [of h] small_rate [of "h + 1"]
      by (simp add: block_subsidy_def halving_divisor_def halving_exact [OF assms] subsidy_value_def
          interval shift BLOSSOM_POW_TARGET_SPACING_RATIO_def Let_def distrib_left split: if_splits)
  qed
qed

lemma subsidy_value_antimono:
  assumes "I \<le> h" and "h \<le> h'"
  shows "subsidy_value h' \<le> subsidy_value h"
proof (cases "64 \<le> halving_ix h'")
  case True
  then show ?thesis by (simp add: subsidy_value_def)
next
  case False
  have m: "halving_ix h \<le> halving_ix h'" by (rule halving_ix_mono [OF assms(2)])
  have "a div 2 ^ halving_ix h' \<le> b div 2 ^ halving_ix h" if "a \<le> (b :: nat)" for a b
  proof -
    have "(2 :: nat) ^ halving_ix h \<le> 2 ^ halving_ix h'" using m by simp
    then have "a div 2 ^ halving_ix h' \<le> a div 2 ^ halving_ix h" by (intro div_le_mono2) simp_all
    also have "\<dots> \<le> b div 2 ^ halving_ix h" using that by (rule div_le_mono)
    finally show ?thesis .
  qed
  then show ?thesis using False m assms by (simp add: subsidy_value_def)
qed

lemma wrap_kP: "in_i64 (int k * int P) \<Longrightarrow> wrap_i64 (int k * int P - int B) = int k * int P - int B"
proof -
  have "in_i64 (a - int B)" if "in_i64 a" "0 \<le> a" for a
    using that small(1) by (simp add: in_i64_def is_u32_def)
  then show "in_i64 (int k * int P) \<Longrightarrow> ?thesis" by (simp add: wrap_i64_id)
qed

text \<open>A halving that comes at or after Blossom starts exactly at \<open>height_for_halving\<close>.\<close>

lemma height_for_halving_iff:
  assumes "B \<le> k * P" and "0 < k" and "is_u32 h"
    and "height_for_halving k net = Some H"
  shows "k \<le> halving_ix h \<longleftrightarrow> H \<le> h"
proof -
  have kP: "int B \<le> int k * int P" using assms(1) by (metis of_nat_le_iff of_nat_mult)
  then have H: "int H = 2 * int (k * P) - int B + 2 * int s"
    using assms(2,4)
    by (auto simp: height_for_halving_def option_bind_Some_iff Let_def
        blossom shift pre_interval u32_try_from_def in_u32_def height_try_from_u32_ok wrap_kP
        BLOSSOM_POW_TARGET_SPACING_RATIO_def min_absorb2 max_absorb2 split: if_splits)
  show ?thesis
  proof (cases "h < B")
    case True
    have "(h - s) div P < k" using True assms(1) positive
      by (intro less_mult_imp_div_less) simp
    moreover have "B \<le> H" using H kP by simp
    ultimately show ?thesis using True assms(2) by (auto simp: halving_ix_def)
  next
    case False
    have "k \<le> (2 * (B - s) + (h - B)) div (2 * P) \<longleftrightarrow> k * (2 * P) \<le> 2 * (B - s) + (h - B)"
      using positive by (simp add: less_eq_div_iff_mult_less_eq)
    moreover have "k * (2 * P) \<le> 2 * (B - s) + (h - B) \<longleftrightarrow> H \<le> h"
    proof -
      obtain q where q: "q = k * P" by blast
      then have "int H = 2 * int q - int B + 2 * int s" "k * (2 * P) = 2 * q" using H by simp_all
      then show ?thesis using False shift_before_blossom by linarith
    qed
    ultimately show ?thesis using False shift_before_blossom unfolding halving_ix_def by simp
  qed
qed

end

definition subsidy_params_ok :: "network \<Rightarrow> bool" where
  "subsidy_params_ok net \<longleftrightarrow>
     schedule_ok (activation_list net) \<and>
     (case activation_height Blossom net of
        None \<Rightarrow> False
      | Some blossom \<Rightarrow> slow_start_shift net \<le> blossom \<and> is_u32 blossom) \<and>
     slow_start_shift net = slow_start_interval net div 2 \<and>
     is_u32 (slow_start_interval net) \<and>
     0 < pre_blossom_halving_interval net \<and>
     post_blossom_halving_interval net = 2 * pre_blossom_halving_interval net"

lemma subsidy_params_network:
  assumes "subsidy_params_ok net"
  obtains blossom where "activation_height Blossom net = Some blossom"
    and "subsidy_network net blossom (slow_start_shift net) (slow_start_interval net)
           (nat (pre_blossom_halving_interval net))"
  using assms
  by (auto simp: subsidy_params_ok_def subsidy_network_def split: option.splits)

lemma mainnet_blossom: "activation_height Blossom Mainnet = Some 653600"
  by (simp add: activation_height.simps MAINNET_ACTIVATION_HEIGHTS_def)

interpretation mainnet_subsidy: subsidy_network Mainnet 653600 10000 20000 840000
  by unfold_locales
    (simp_all only: schedule_ok_mainnet mainnet_blossom,
     simp_all add: slow_start_shift_def SLOW_START_SHIFT_def slow_start_interval_def
       SLOW_START_INTERVAL_def pre_blossom_halving_interval_def PRE_BLOSSOM_HALVING_INTERVAL_def
       post_blossom_halving_interval_def POST_BLOSSOM_HALVING_INTERVAL_def
       BLOSSOM_POW_TARGET_SPACING_RATIO_def is_u32_def)

lemma subsidy_params_ok_mainnet: "subsidy_params_ok Mainnet"
  using mainnet_subsidy.schedule mainnet_subsidy.blossom mainnet_subsidy.shift
    mainnet_subsidy.interval mainnet_subsidy.pre_interval mainnet_subsidy.post_interval
  by (simp add: subsidy_params_ok_def is_u32_def)

section \<open>The coinbase split\<close>

definition streams_ok :: "funding_streams list \<Rightarrow> bool" where
  "streams_ok fs \<longleftrightarrow>
     list_all (\<lambda>streams. sum_list (map (numerator \<circ> snd) (recipients streams)) \<le> 100) fs"

lemma amount_mul_exact:
  assumes "amount_ok NonNegative a" and "zatoshis a * int k \<le> MAX_MONEY" and "k \<le> 100"
  shows "amount_mul NonNegative a (int k) = Done (Inr (Amount (zatoshis a * int k)))"
proof -
  have "0 \<le> zatoshis a * int k" using assms(1) by (simp add: amount_ok_def)
  then show ?thesis
    using assms by (simp add: amount_mul_def amount_try_from_i128_def in_i128_def in_i64_def
        try_from_i64_cases MAX_MONEY_value outcome_simps)
qed

lemma funding_stream_entries_exact:
  assumes "0 \<le> sub" and "sub \<le> int MAX_BLOCK_SUBSIDY" and "list_all (\<lambda>(_, r). numerator r \<le> 100) rs"
  shows "funding_stream_entries (Amount sub) rs =
         Done (Inr (map (\<lambda>(c, r). (c, Amount (sub * int (numerator r) div 100))) rs))"
  using assms(3)
proof (induction rs)
  case (Cons e rs)
  obtain c r where e: "e = (c, r)" by (cases e)
  have le: "numerator r \<le> 100" using Cons.prems by (simp add: e)
  have p: "0 \<le> sub * int (numerator r)" "sub * int (numerator r) \<le> MAX_MONEY"
    using assms(1,2) le mult_mono [of sub "int MAX_BLOCK_SUBSIDY" "int (numerator r)" 100]
    by (simp_all add: mainnet_subsidy.MAX_BLOCK_SUBSIDY_value MAX_MONEY_value)
  have ok: "amount_ok NonNegative (Amount sub)"
    using assms(1,2) by (simp add: mainnet_subsidy.MAX_BLOCK_SUBSIDY_value MAX_MONEY_value)
  have mul: "amount_mul NonNegative (Amount sub) (int (numerator r)) =
             Done (Inr (Amount (sub * int (numerator r))))"
    using amount_mul_exact [OF ok, of "numerator r"] p le by simp
  have div: "amount_div NonNegative (Amount (sub * int (numerator r))) 100 =
             Done (Inr (Amount (sub * int (numerator r) div 100)))"
    using constraints.div_done [of NonNegative "Amount (sub * int (numerator r))" 100] p
    by (simp add: in_u64_def rust_div_nonneg)
  show ?case using Cons mul div
    by (simp add: e FUNDING_STREAM_RECEIVER_DENOMINATOR_def)
qed simp

lemma sum_stream_values:
  assumes "0 \<le> sub" and "sum_list (map (numerator \<circ> snd) rs) \<le> 100"
  shows "sum_list (map (\<lambda>(_, r). sub * int (numerator r) div 100) rs) \<le> sub"
proof -
  have "100 * sum_list (map (\<lambda>(_, r). sub * int (numerator r) div 100) rs) \<le>
        sub * int (sum_list (map (numerator \<circ> snd) rs))"
    by (induction rs) (auto simp: algebra_simps intro: add_mono)
  also have "\<dots> \<le> sub * 100" using assms by (intro mult_left_mono) simp_all
  finally show ?thesis by simp
qed

lemma nonneg_sum_exact:
  assumes "list_all (\<lambda>a. 0 \<le> zatoshis a) xs" and "sum_list (map zatoshis xs) \<le> MAX_MONEY"
  shows "amount_sum NonNegative xs = Done (Inr (Amount (sum_list (map zatoshis xs))))"
proof -
  have "amount_try_fold NonNegative (Amount z) xs = Done (Inr (Amount (z + sum_list (map zatoshis xs))))"
    if "0 \<le> z" "z + sum_list (map zatoshis xs) \<le> MAX_MONEY" for z
    using assms(1) that
  proof (induction xs arbitrary: z)
    case (Cons x xs)
    have nn: "0 \<le> sum_list (map zatoshis xs)" "0 \<le> zatoshis x"
      using Cons.prems(1) by (auto simp: list_all_iff intro!: sum_list_nonneg)
    have "amount_add NonNegative (Amount z) x = Done (Inr (Amount (z + zatoshis x)))"
      using nn Cons.prems constraints.add_done [of NonNegative "Amount z" x]
      by (simp add: try_from_i64_cases amount_ok_def)
    then show ?case using Cons.IH [of "z + zatoshis x"] Cons.prems nn by simp
  qed simp
  from this [of 0] show ?thesis using assms(2) by (simp add: constraints.sum_of_fold)
qed

lemma recipients_bounded:
  assumes "streams_ok fs" and "streams \<in> set fs"
  shows "list_all (\<lambda>(_, r). numerator r \<le> 100) (recipients streams)"
    and "sum_list (map (numerator \<circ> snd) (recipients streams)) \<le> 100"
proof -
  show s: "sum_list (map (numerator \<circ> snd) (recipients streams)) \<le> 100"
    using assms by (auto simp: streams_ok_def list_all_iff)
  show "list_all (\<lambda>(_, r). numerator r \<le> 100) (recipients streams)"
  proof -
    have "numerator r \<le> 100" if "(c, r) \<in> set (recipients streams)" for c r
    proof -
      have m: "numerator r \<in> set (map (numerator \<circ> snd) (recipients streams))" using that by force
      show ?thesis by (rule order.trans [OF member_le_sum_list [OF m] s]) simp
    qed
    then show ?thesis by (auto simp: list_all_iff)
  qed
qed

text \<open>The funding streams never take more than the subsidy.\<close>

lemma funding_stream_values_exact:
  assumes "nu_current net h = Done nu" and "streams_ok (all_funding_streams net)"
    and "0 \<le> sub" and "sub \<le> int MAX_BLOCK_SUBSIDY"
  shows "\<exists>vs. funding_stream_values h net (Amount sub) = Done (Inr vs) \<and>
              amount_sum NonNegative (map snd vs) = Done (Inr (Amount (sum_list (map (zatoshis \<circ> snd) vs)))) \<and>
              list_all (\<lambda>(_, a). 0 \<le> zatoshis a) vs \<and> sum_list (map (zatoshis \<circ> snd) vs) \<le> sub \<and>
              (nu < Canopy \<longrightarrow> vs = [])"
proof (cases "sub = 0 \<or> nu < Canopy \<or> network_funding_streams net h = None")
  case True
  then have "funding_stream_values h net (Amount sub) = Done (Inr [])"
    using assms(1) by (auto simp: funding_stream_values_def amount_is_zero_def not_le [symmetric])
  then show ?thesis using assms(3) nonneg_sum_exact [of "[]"] by (simp add: MAX_MONEY_value)
next
  case False
  then obtain streams where st: "network_funding_streams net h = Some streams" by auto
  then have mem: "streams \<in> set (all_funding_streams net)"
    using find_SomeD by (fastforce simp: network_funding_streams_def)
  let ?vs = "map (\<lambda>(c, r). (c, Amount (sub * int (numerator r) div 100))) (recipients streams)"
  have v: "funding_stream_values h net (Amount sub) = Done (Inr ?vs)"
    using False st assms(1) funding_stream_entries_exact [OF assms(3,4) recipients_bounded(1) [OF assms(2) mem]]
    by (simp add: funding_stream_values_def amount_is_zero_def not_less)
  have nn: "list_all (\<lambda>(_, a). 0 \<le> zatoshis a) ?vs"
    using assms(3) by (auto simp: list_all_iff pos_imp_zdiv_nonneg_iff)
  have eq: "map (zatoshis \<circ> snd) ?vs = map (\<lambda>(_, r). sub * int (numerator r) div 100) (recipients streams)"
    by (simp add: case_prod_unfold)
  have le: "sum_list (map (zatoshis \<circ> snd) ?vs) \<le> sub"
    unfolding eq by (rule sum_stream_values [OF assms(3) recipients_bounded(2) [OF assms(2) mem]])
  have "amount_sum NonNegative (map snd ?vs) = Done (Inr (Amount (sum_list (map zatoshis (map snd ?vs)))))"
  proof (rule nonneg_sum_exact)
    show "list_all (\<lambda>a. 0 \<le> zatoshis a) (map snd ?vs)" using nn by (auto simp: list_all_iff)
    show "sum_list (map zatoshis (map snd ?vs)) \<le> MAX_MONEY"
      using le assms(4) unfolding map_map
      by (simp add: mainnet_subsidy.MAX_BLOCK_SUBSIDY_value MAX_MONEY_value comp_assoc)
  qed
  then have sum: "amount_sum NonNegative (map snd ?vs) =
                  Done (Inr (Amount (sum_list (map (zatoshis \<circ> snd) ?vs))))"
    by (simp only: map_map comp_assoc)
  show ?thesis using v nn le False sum by (intro exI [of _ ?vs]) simp
qed

lemma founders_reward_range:
  assumes "founders_reward net h = Done f" and "block_subsidy h net = Done (Inr (Amount sub))"
    and "0 \<le> sub" and "nu_current net h = Done nu"
  shows "0 \<le> zatoshis f \<and> zatoshis f \<le> sub \<and> (Canopy \<le> nu \<longrightarrow> zatoshis f = 0)"
proof -
  have "rust_div sub 5 = sub div 5" using assms(3) by (simp add: rust_div_nonneg)
  then show ?thesis
    using assms int_div_le_self [of 5 sub]
    by (auto simp: founders_reward_def outcome_simps amount_div_exact_def constraints.zero_done
        not_le [symmetric] split: if_splits)
qed

lemma coinbase_split:
  assumes "block_subsidy h net = Done (Inr (Amount sub))" and "0 \<le> sub" and "sub \<le> int MAX_BLOCK_SUBSIDY"
    and "nu_current net h = Done nu" and "streams_ok (all_funding_streams net)"
    and "founders_reward net h = Done f"
  shows "\<exists>vs m. funding_stream_values h net (Amount sub) = Done (Inr vs) \<and>
                miner_subsidy h net (Amount sub) = Done (Inr m) \<and> 0 \<le> zatoshis m \<and>
                zatoshis m + zatoshis f + sum_list (map (zatoshis \<circ> snd) vs) = sub"
proof -
  obtain vs where vs: "funding_stream_values h net (Amount sub) = Done (Inr vs)"
    "amount_sum NonNegative (map snd vs) = Done (Inr (Amount (sum_list (map (zatoshis \<circ> snd) vs))))"
    "list_all (\<lambda>(_, a). 0 \<le> zatoshis a) vs" "sum_list (map (zatoshis \<circ> snd) vs) \<le> sub"
    "nu < Canopy \<longrightarrow> vs = []"
    using funding_stream_values_exact [OF assms(4,5,2,3)] by blast
  let ?v = "sum_list (map (zatoshis \<circ> snd) vs)"
  note f = founders_reward_range [OF assms(6,1,2,4)]
  have v: "0 \<le> ?v" using vs(3) by (intro sum_list_nonneg) (auto simp: list_all_iff)
  have total: "?v + zatoshis f \<le> sub" using f vs(4,5) by (cases "nu < Canopy") auto
  have money: "sub \<le> MAX_MONEY"
    using assms(3) by (simp add: mainnet_subsidy.MAX_BLOCK_SUBSIDY_value MAX_MONEY_value)
  have "amount_sub NonNegative (Amount sub) f = Done (Inr (Amount (sub - zatoshis f)))"
    using f money assms(2) constraints.sub_done [of NonNegative "Amount sub" f]
    by (simp add: try_from_i64_cases amount_ok_def)
  moreover have "amount_sub NonNegative (Amount (sub - zatoshis f)) (Amount ?v) =
                 Done (Inr (Amount (sub - zatoshis f - ?v)))"
    using f v total money constraints.sub_done [of NonNegative "Amount (sub - zatoshis f)" "Amount ?v"]
    by (simp add: try_from_i64_cases)
  ultimately have "miner_subsidy h net (Amount sub) = Done (Inr (Amount (sub - zatoshis f - ?v)))"
    using assms(6) vs(1,2) by (simp add: miner_subsidy_def amount_result_sub_def)
  then show ?thesis using vs(1) total by auto
qed

section \<open>Mainnet issuance\<close>

lemma mainnet_halving_ix:
  "mainnet_subsidy.halving_ix h = (if h < 653600 then 0 else (h + 633600) div 1680000)"
  by (auto simp: mainnet_subsidy.halving_ix_def)

lemma mainnet_value:
  "mainnet_subsidy.subsidy_value h =
     (if h < 10000 then 62500 * h
      else if h < 20000 then 62500 * (h + 1)
      else if h < 653600 then 1250000000
      else 625000000 div 2 ^ ((h + 633600) div 1680000))"
proof -
  have "625000000 div (2 :: nat) ^ k = 0" if "64 \<le> k" for k
  proof (rule div_less)
    have "(2 :: nat) ^ 64 \<le> 2 ^ k" using that by (intro power_increasing) simp_all
    then show "625000000 < (2 :: nat) ^ k" by simp
  qed
  then show ?thesis
    by (auto simp: mainnet_subsidy.subsidy_value_def mainnet_halving_ix
        mainnet_subsidy.MAX_BLOCK_SUBSIDY_value)
qed

lemma sum_const_range: "(\<And>h. a \<le> h \<Longrightarrow> h < b \<Longrightarrow> f h = c) \<Longrightarrow> (\<Sum>h = a..<b. f h) = (b - a) * (c :: nat)"
  by simp

lemma issuance_first_era: "(\<Sum>h = 0..<1046400. mainnet_subsidy.subsidy_value h) = 1050000000000000"
proof -
  let ?f = mainnet_subsidy.subsidy_value
  have "(\<Sum>h = 0..<10000. ?f h) = (\<Sum>h = 0..<10000. 62500 * h)"
    by (rule sum.cong) (simp_all add: mainnet_value)
  also have "\<dots> = 62500 * \<Sum>{0..<10000}" by (simp only: sum_distrib_left)
  finally have a: "(\<Sum>h = 0..<10000. ?f h) = 62500 * 49995000" by (simp add: Sum_Ico_nat)
  have "(\<Sum>h = 10000..<20000. ?f h) = (\<Sum>h = 10000..<20000. 62500 * h + 62500)"
    by (rule sum.cong) (simp_all add: mainnet_value)
  also have "\<dots> = 62500 * \<Sum>{10000..<20000} + 10000 * 62500"
    by (simp only: sum.distrib sum_distrib_left) simp
  finally have b: "(\<Sum>h = 10000..<20000. ?f h) = 62500 * 149995000 + 625000000"
    by (simp add: Sum_Ico_nat)
  have c: "(\<Sum>h = 20000..<653600. ?f h) = 633600 * 1250000000"
    using sum_const_range [of 20000 653600 ?f 1250000000] by (simp add: mainnet_value)
  have "(h + 633600) div 1680000 = 0" if "h < 1046400" for h :: nat using that by simp
  then have d: "(\<Sum>h = 653600..<1046400. ?f h) = 392800 * 625000000"
    using sum_const_range [of 653600 1046400 ?f 625000000] by (simp add: mainnet_value)
  have "(\<Sum>h = 0..<1046400. ?f h) = (\<Sum>h = 0..<10000. ?f h) + (\<Sum>h = 10000..<20000. ?f h) +
          (\<Sum>h = 20000..<653600. ?f h) + (\<Sum>h = 653600..<1046400. ?f h)"
    by (simp add: sum.atLeastLessThan_concat)
  then show ?thesis by (simp only: a b c d)
qed

lemma issuance_eras:
  "(\<Sum>h = 0..<1046400 + 1680000 * n. mainnet_subsidy.subsidy_value h) =
   1050000000000000 + 1680000 * (\<Sum>k = 1..n. 625000000 div 2 ^ k)"
proof (induction n)
  case 0
  then show ?case using issuance_first_era by simp
next
  case (Suc n)
  let ?f = mainnet_subsidy.subsidy_value
  let ?a = "1046400 + 1680000 * n"
  have "?f h = 625000000 div 2 ^ Suc n" if "?a \<le> h" "h < ?a + 1680000" for h
  proof -
    have "(h + 633600) div 1680000 = Suc n"
      using that by (intro div_nat_eqI) simp_all
    then show ?thesis using that by (simp add: mainnet_value)
  qed
  then have "(\<Sum>h = ?a..<?a + 1680000. ?f h) = 1680000 * (625000000 div 2 ^ Suc n)"
    using sum_const_range [of ?a "?a + 1680000" ?f "625000000 div 2 ^ Suc n"] by simp
  moreover have "(\<Sum>h = 0..<?a + 1680000. ?f h) = (\<Sum>h = 0..<?a. ?f h) + (\<Sum>h = ?a..<?a + 1680000. ?f h)"
    by (simp add: sum.atLeastLessThan_concat)
  moreover have "1046400 + 1680000 * Suc n = ?a + 1680000" by simp
  ultimately show ?case using Suc.IH by (simp del: power_Suc)
qed

lemma halving_sum: "(\<Sum>k = 1..n. x div 2 ^ k) + x div 2 ^ n \<le> (x :: nat)"
proof (induction n)
  case (Suc n)
  have "x div 2 ^ Suc n + x div 2 ^ Suc n \<le> x div 2 ^ n"
    by (simp add: power_Suc2 div_mult2_eq del: power_Suc)
  then show ?case using Suc by simp
qed simp

lemma mainnet_issuance_bound: "(\<Sum>h = 0..<N. mainnet_subsidy.subsidy_value h) \<le> 2100000000000000"
proof -
  have "(\<Sum>h = 0..<N. mainnet_subsidy.subsidy_value h) \<le>
        (\<Sum>h = 0..<1046400 + 1680000 * N. mainnet_subsidy.subsidy_value h)"
    by (rule sum_mono2) auto
  also have "\<dots> = 1050000000000000 + 1680000 * (\<Sum>k = 1..N. 625000000 div 2 ^ k)" by (rule issuance_eras)
  also have "\<dots> \<le> 1050000000000000 + 1680000 * 625000000"
    using halving_sum [of 625000000 N] by linarith
  finally show ?thesis by simp
qed

section \<open>Properties\<close>

text \<open>On every network with well-formed subsidy parameters the block subsidy is defined at every 32-bit height
  without panics, lies between 0 and the maximum block subsidy, and never increases after the slow
  start.\<close>

theorem block_subsidy_total_bounded_decreasing:
  assumes "subsidy_params_ok net" and "is_u32 h" and "is_u32 h'" and "h \<le> h'"
  shows "\<exists>a a'. block_subsidy h net = Done (Inr (Amount a)) \<and> block_subsidy h' net = Done (Inr (Amount a')) \<and>
                0 \<le> a \<and> a \<le> int MAX_BLOCK_SUBSIDY \<and> (slow_start_interval net \<le> h \<longrightarrow> a' \<le> a)"
proof -
  obtain blossom where n: "subsidy_network net blossom (slow_start_shift net) (slow_start_interval net)
      (nat (pre_blossom_halving_interval net))"
    using subsidy_params_network [OF assms(1)] .
  show ?thesis
    using subsidy_network.block_subsidy_exact [OF n assms(2)]
      subsidy_network.block_subsidy_exact [OF n assms(3)]
      subsidy_network.subsidy_value_bound [OF n, of h]
      subsidy_network.subsidy_value_antimono [OF n, of h h'] assms(4)
    by auto
qed

text \<open>C2. The mainnet block subsidies of any number of blocks, computed at their heights, add up to at most
  the money supply limit of 21 million ZEC, and each of them is defined.\<close>

theorem mainnet_issuance_within_max_money:
  assumes "N \<le> 2 ^ 32"
  shows "(\<forall>h < N. \<exists>a. block_subsidy h Mainnet = Done (Inr a)) \<and>
         (\<Sum>h = 0..<N. case block_subsidy h Mainnet of Done (Inr a) \<Rightarrow> zatoshis a | _ \<Rightarrow> 0) \<le> MAX_MONEY"
proof -
  have e: "block_subsidy h Mainnet = Done (Inr (Amount (int (mainnet_subsidy.subsidy_value h))))"
    if "h < N" for h
    using that assms by (intro mainnet_subsidy.block_subsidy_exact) (simp add: is_u32_def)
  have "(\<Sum>h = 0..<N. case block_subsidy h Mainnet of Done (Inr a) \<Rightarrow> zatoshis a | _ \<Rightarrow> 0) =
        (\<Sum>h = 0..<N. int (mainnet_subsidy.subsidy_value h))"
    by (rule sum.cong) (simp_all add: e)
  also have "\<dots> = int (\<Sum>h = 0..<N. mainnet_subsidy.subsidy_value h)" by simp
  also have "\<dots> \<le> int 2100000000000000"
    using mainnet_issuance_bound [of N] by (simp only: of_nat_le_iff)
  finally show ?thesis using e by (auto simp: MAX_MONEY_value)
qed

theorem mainnet_issuance_within_max_money_witness:
  "(\<Sum>h = 0..<(2000000 :: nat). case block_subsidy h Mainnet of Done (Inr a) \<Rightarrow> zatoshis a | _ \<Rightarrow> 0) \<le> MAX_MONEY"
proof -
  have "(2000000 :: nat) \<le> 2 ^ 32" by simp
  from mainnet_issuance_within_max_money [OF this] show ?thesis by blast
qed

text \<open>C4. The block subsidy is split without loss: whenever the numerators of the active funding stream sum to
  at most 100 and the founders' reward is defined, the miner subsidy is defined and nonnegative, and
  the miner subsidy, the founders' reward and the funding stream values add up exactly to the block
  subsidy.\<close>

theorem coinbase_split_conserves_subsidy:
  assumes "subsidy_params_ok net" and "streams_ok (all_funding_streams net)" and "is_u32 h"
    and "founders_reward net h = Done f"
  shows "\<exists>a vs m. block_subsidy h net = Done (Inr a) \<and> funding_stream_values h net a = Done (Inr vs) \<and>
                  miner_subsidy h net a = Done (Inr m) \<and> 0 \<le> zatoshis m \<and>
                  zatoshis m + zatoshis f + sum_list (map (zatoshis \<circ> snd) vs) = zatoshis a"
proof -
  obtain blossom where n: "subsidy_network net blossom (slow_start_shift net) (slow_start_interval net)
      (nat (pre_blossom_halving_interval net))"
    using subsidy_params_network [OF assms(1)] .
  let ?v = "int (subsidy_network.subsidy_value blossom (slow_start_shift net) (slow_start_interval net)
              (nat (pre_blossom_halving_interval net)) h)"
  obtain nu where nu: "nu_current net h = Done nu" using subsidy_network.current_total [OF n] by blast
  have "?v \<le> int MAX_BLOCK_SUBSIDY" using subsidy_network.subsidy_value_bound [OF n, of h] by simp
  note sub = subsidy_network.block_subsidy_exact [OF n assms(3)]
  show ?thesis
    using coinbase_split [OF sub _ \<open>?v \<le> _\<close> nu assms(2,4)] sub by auto
qed

lemma mainnet_founders_reward:
  assumes "is_u32 h"
  shows "\<exists>f. founders_reward Mainnet h = Done f"
proof -
  let ?v = "mainnet_subsidy.subsidy_value h"
  obtain nu where nu: "nu_current Mainnet h = Done nu" using mainnet_subsidy.current_total by blast
  have "?v mod 5 = 0" if "mainnet_subsidy.halving_ix h = 0"
    using that by (auto simp: mainnet_value mainnet_halving_ix mod_mult_left_eq [symmetric] split: if_splits)
  moreover have "?v \<le> 1250000000"
    using mainnet_subsidy.subsidy_value_bound [of h] by (simp add: mainnet_subsidy.MAX_BLOCK_SUBSIDY_value)
  ultimately have "\<exists>f. amount_div_exact (Amount (int ?v)) 5 = Done f" if "mainnet_subsidy.halving_ix h = 0"
    using that zmod_int [of ?v 5] minus_div_mult_eq_mod [of "int ?v" 5]
    by (simp add: amount_div_exact_def rust_div_nonneg in_i64_def mult.commute)
  then show ?thesis
    using nu by (auto simp: founders_reward_def mainnet_subsidy.halving_exact [OF assms]
        mainnet_subsidy.block_subsidy_exact [OF assms] constraints.zero_done)
qed

lemma mainnet_streams_ok: "streams_ok (all_funding_streams Mainnet)"
  by (simp add: streams_ok_def all_funding_streams_def mainnet_FUNDING_STREAMS_def)

theorem coinbase_split_conserves_subsidy_witness:
  "\<exists>a m. block_subsidy 3000000 Mainnet = Done (Inr a) \<and> miner_subsidy 3000000 Mainnet a = Done (Inr m)"
proof -
  have u: "is_u32 3000000" by (simp add: is_u32_def)
  obtain f where "founders_reward Mainnet 3000000 = Done f" using mainnet_founders_reward [OF u] by blast
  from coinbase_split_conserves_subsidy [OF subsidy_params_ok_mainnet mainnet_streams_ok u this]
  show ?thesis by blast
qed

text \<open>\<open>height_for_halving\<close> returns the first height of a halving: when the unscaled halving height is at or
  after Blossom, the halving index has reached the given halving exactly from that height on.\<close>

theorem height_for_halving_is_first_height:
  assumes "subsidy_params_ok net" and "activation_height Blossom net = Some blossom"
    and "0 < k" and "int blossom \<le> int k * pre_blossom_halving_interval net"
    and "height_for_halving k net = Some H" and "is_u32 h"
  shows "\<exists>n. halving h net = Done n \<and> (k \<le> n \<longleftrightarrow> H \<le> h)"
proof -
  obtain b where "activation_height Blossom net = Some b"
    and n: "subsidy_network net b (slow_start_shift net) (slow_start_interval net)
      (nat (pre_blossom_halving_interval net))"
    using subsidy_params_network [OF assms(1)] .
  then have b: "b = blossom" using assms(2) by simp
  have "0 < pre_blossom_halving_interval net" using assms(1) by (simp add: subsidy_params_ok_def)
  then have "blossom \<le> k * nat (pre_blossom_halving_interval net)"
    using assms(4) by (metis int_nat_eq less_imp_le of_nat_le_iff of_nat_mult)
  then show ?thesis
    using subsidy_network.halving_exact [OF n assms(6)]
      subsidy_network.height_for_halving_iff [OF n _ assms(3,6,5)] b by simp
qed

text \<open>C32. When a halving falls before Blossom on a configured testnet, \<open>height_for_halving\<close> adds the slow start
  shift twice and returns a height after the first block of that halving: with a slow start interval of 2 blocks,
  a halving interval of 144 and Blossom at height 1000, it returns 146 although block 145 is already in
  the first halving.\<close>

definition late_halving_network :: network where
  "late_halving_network =
     to_network_unchecked
       (sample_builder\<lparr>b_activation_heights := [(0, Genesis), (1000, Blossom)],
                       b_slow_start_interval := 2\<rparr>)"


lemma mainnet_address_period:
  assumes "1046400 \<le> h" and "h < 4406400"
  shows "funding_stream_address_period defaults h Mainnet = Done ((h + 633600) div 35000)"
proof -
  have first: "height_for_first_halving defaults Mainnet = Done 1046400"
    by (simp add: height_for_first_halving_def activation_height.simps MAINNET_ACTIVATION_HEIGHTS_def)
  have interval: "funding_stream_address_change_interval Mainnet = 35000"
    by (simp add: funding_stream_address_change_interval_def mainnet_subsidy.post_interval rust_div_nonneg)
  have "height_diff h 1046400 = int h - 1046400"
    using assms by (simp add: height_diff_exact is_u32_def)
  moreover have "wrap_i64 (int h - 1046400 + 1680000) = int (h + 633600)"
    using assms by (subst wrap_i64_id) (simp_all add: in_i64_def)
  moreover have "int (h + 633600) div 35000 = int ((h + 633600) div 35000)" by (simp add: zdiv_int)
  moreover have "(h + 633600) div 35000 < 2 ^ 32" using assms by simp
  ultimately show ?thesis
    using mainnet_subsidy.i64_div_nat [of 35000 "h + 633600"]
    by (simp add: funding_stream_address_period_def first interval mainnet_subsidy.post_interval
        u32_try_from_def in_u32_def)
qed

lemma mainnet_stream_cases:
  assumes "network_funding_streams Mainnet h = Some streams" and "recipient streams r = Some recip"
    and "r \<noteq> Deferred"
  shows "fst (height_range streams) \<le> h \<and> h < snd (height_range streams) \<and>
         (fst (height_range streams), snd (height_range streams), length (addresses recip)) \<in>
           {(1046400, 2726400, 48), (2726400, 3146400, 12), (3146400, 4406400, 36)}"
  using assms
  by (cases r) (auto simp: network_funding_streams_def all_funding_streams_def mainnet_FUNDING_STREAMS_def
      range_contains_def recipient_def mainnet_POST_NU6_FUNDING_STREAM_START_HEIGHT_def
      POST_NU6_FUNDING_STREAM_NUM_BLOCKS_def split: if_splits)

text \<open>Every mainnet funding stream has enough addresses: at every height where a stream is active, every
  recipient other than the deferred pool has an address, taken from its list, and the bounds
  assertion on the address index holds.\<close>

theorem mainnet_funding_stream_addresses_defined:
  assumes "network_funding_streams Mainnet h = Some streams" and "recipient streams r = Some recip"
    and "r \<noteq> Deferred"
  shows "\<exists>addr. funding_stream_address defaults h Mainnet r = Done (Some addr) \<and>
                addr \<in> set (addresses recip)"
proof -
  let ?a = "fst (height_range streams)" and ?n = "length (addresses recip)"
  let ?i = "(h + 633600) div 35000 - (?a + 633600) div 35000"
  note c = mainnet_stream_cases [OF assms]
  have i: "(?a + 633600) div 35000 \<le> (h + 633600) div 35000" "?i < ?n" "h < 4406400" "1046400 \<le> ?a" "?a < 4406400"
    using c by auto
  have "(h + 633600) div 35000 < 2 ^ 31" using i(3) by simp
  then have "funding_stream_address_index defaults h Mainnet r = Done (Some ?i)"
    using i c assms mainnet_address_period [of h defaults] mainnet_address_period [of ?a defaults]
    by (simp add: funding_stream_address_index_def u32_checked_add_def u32_checked_sub_def
        assert_that_def Suc_diff_le)
  then show ?thesis using assms i(2) by (simp add: funding_stream_address_def)
qed

end
