(* ===== verification/Transactions.thy ===== *)
theory Transactions
  imports Transparent Subsidies
begin

text \<open>
  Transactions and their accessors: \<open>zebra-chain/src/transaction.rs\<close>, with the shielded data of
  \<open>transaction/joinsplit.rs\<close>, \<open>sprout/joinsplit.rs\<close>, \<open>sapling/shielded_data.rs\<close>,
  \<open>orchard/shielded_data.rs\<close>, and \<open>transaction/lock_time.rs\<close>.

  Curve points, field elements, proofs, signatures, ciphertexts and keys are the byte strings that
  encode them; no operation of these files computes with them except by equality. The two proof systems of
  \<open>JoinSplit\<close> have the same model. An anchor field that a version does not have (\<open>FieldNotPresent\<close>)
  has type \<open>unit\<close>. Version 6 transactions are behind an unstable compiler flag and are not modelled.
  \<open>AtLeastOne\<close> vectors are lists; \<open>transfers_typed\<close> records that they are not empty.
\<close>

section \<open>Sprout\<close>

record joinsplit =
  vpub_old :: amount
  vpub_new :: amount
  js_anchor :: "byte list"
  js_nullifiers :: "byte list \<times> byte list"
  js_commitments :: "byte list \<times> byte list"
  js_ephemeral_key :: "byte list"
  js_random_seed :: "byte list"
  js_vmacs :: "byte list \<times> byte list"
  js_zkproof :: "byte list"
  js_enc_ciphertexts :: "byte list \<times> byte list"

record joinsplit_data =
  js_first :: joinsplit
  js_rest :: "joinsplit list"
  js_pub_key :: "byte list"
  js_sig :: "byte list"

definition pair_list :: "'a \<times> 'a \<Rightarrow> 'a list" where
  "pair_list p = [fst p, snd p]"

definition js_value_balance :: "joinsplit \<Rightarrow> amount outcome" where
  "js_value_balance js =
     run_bind (expect_ok (amount_constrain NegativeAllowed (vpub_new js))) (\<lambda>new_value.
     run_bind (expect_ok (amount_constrain NegativeAllowed (vpub_old js))) (\<lambda>old_value.
     run_bind (amount_sub NegativeAllowed new_value old_value) (\<lambda>r. expect_ok r)))"

definition jsd_joinsplits :: "joinsplit_data \<Rightarrow> joinsplit list" where
  "jsd_joinsplits d = js_first d # js_rest d"

definition jsd_nullifiers :: "joinsplit_data \<Rightarrow> byte list list" where
  "jsd_nullifiers d = concat (map (\<lambda>js. pair_list (js_nullifiers js)) (jsd_joinsplits d))"

definition joinsplit_value_balances :: "joinsplit_data \<Rightarrow> amount outcome list" where
  "joinsplit_value_balances d = map js_value_balance (jsd_joinsplits d)"

definition jsd_note_commitments :: "joinsplit_data \<Rightarrow> byte list list" where
  "jsd_note_commitments d = concat (map (\<lambda>js. pair_list (js_commitments js)) (jsd_joinsplits d))"

section \<open>Sapling\<close>

record 'per_spend sapling_spend =
  spend_cv :: "byte list"
  per_spend_anchor :: 'per_spend
  spend_nullifier :: "byte list"
  spend_rk :: "byte list"
  spend_zkproof :: "byte list"
  spend_auth_sig :: "byte list"

record sapling_output =
  out_cv :: "byte list"
  cm_u :: "byte list"
  out_ephemeral_key :: "byte list"
  out_enc_ciphertext :: "byte list"
  out_out_ciphertext :: "byte list"
  out_zkproof :: "byte list"

datatype ('shared, 'per_spend) transfer_data =
    SpendsAndMaybeOutputs 'shared "'per_spend sapling_spend list" "sapling_output list"
  | JustOutputs "sapling_output list"

record ('shared, 'per_spend) sapling_shielded_data =
  sapling_value :: amount
  transfers :: "('shared, 'per_spend) transfer_data"
  sapling_sig :: "byte list"

type_synonym sapling_v4 = "(unit, byte list) sapling_shielded_data"
type_synonym sapling_v5 = "(byte list, unit) sapling_shielded_data"

fun td_spends :: "('s, 'p) transfer_data \<Rightarrow> 'p sapling_spend list" where
  "td_spends (SpendsAndMaybeOutputs shared_anchor spends maybe_outputs) = spends"
| "td_spends (JustOutputs outputs) = []"

fun td_outputs :: "('s, 'p) transfer_data \<Rightarrow> sapling_output list" where
  "td_outputs (SpendsAndMaybeOutputs shared_anchor spends maybe_outputs) = maybe_outputs"
| "td_outputs (JustOutputs outputs) = outputs"

fun td_shared_anchor :: "('s, 'p) transfer_data \<Rightarrow> 's option" where
  "td_shared_anchor (SpendsAndMaybeOutputs shared_anchor spends maybe_outputs) = Some shared_anchor"
| "td_shared_anchor (JustOutputs outputs) = None"

text \<open>The two conversions to a spend that carries its own anchor.\<close>

definition spend_from_v4 :: "byte list sapling_spend \<Rightarrow> unit \<Rightarrow> byte list sapling_spend" where
  "spend_from_v4 s field_not_present = s"

definition spend_from_v5 :: "unit sapling_spend \<Rightarrow> byte list \<Rightarrow> byte list sapling_spend" where
  "spend_from_v5 s anchor =
     \<lparr>spend_cv = spend_cv s, per_spend_anchor = anchor, spend_nullifier = spend_nullifier s,
      spend_rk = spend_rk s, spend_zkproof = spend_zkproof s, spend_auth_sig = spend_auth_sig s\<rparr>"

definition td_spends_per_anchor ::
  "('p sapling_spend \<Rightarrow> 's \<Rightarrow> byte list sapling_spend) \<Rightarrow> ('s, 'p) transfer_data \<Rightarrow>
   byte list sapling_spend list outcome" where
  "td_spends_per_anchor conv td =
     map_outcome_list
       (\<lambda>s. run_bind (expect_some (td_shared_anchor td)) (\<lambda>anchor. Done (conv s anchor)))
       (td_spends td)"

fun unique :: "'a list \<Rightarrow> 'a list" where
  "unique [] = []"
| "unique (x # xs) = x # filter (\<lambda>y. y \<noteq> x) (unique xs)"

section \<open>Orchard\<close>

record orchard_action =
  action_cv :: "byte list"
  action_nullifier :: "byte list"
  action_rk :: "byte list"
  cm_x :: "byte list"
  action_ephemeral_key :: "byte list"
  action_enc_ciphertext :: "byte list"
  action_out_ciphertext :: "byte list"

record authorized_action =
  action :: orchard_action
  action_auth_sig :: "byte list"

record orchard_shielded_data =
  orchard_data_flags :: byte
  orchard_value :: amount
  orchard_shared_anchor :: "byte list"
  orchard_proof :: "byte list"
  authorized_actions :: "authorized_action list"
  orchard_sig :: "byte list"

text \<open>\<open>bitflags!\<close> generates the set operations on the declared bits.\<close>

definition ENABLE_SPENDS :: byte where
  "ENABLE_SPENDS = 1"

definition ENABLE_OUTPUTS :: byte where
  "ENABLE_OUTPUTS = 2"

definition flags_contains :: "byte \<Rightarrow> byte \<Rightarrow> bool" where
  "flags_contains flags f \<longleftrightarrow> and flags f = f"

definition flags_intersects :: "byte \<Rightarrow> byte \<Rightarrow> bool" where
  "flags_intersects flags f \<longleftrightarrow> and flags f \<noteq> 0"

definition flags_from_bits :: "byte \<Rightarrow> byte option" where
  "flags_from_bits b = (if and b (not (or ENABLE_SPENDS ENABLE_OUTPUTS)) = 0 then Some b else None)"

definition flags_deserialize :: "byte list \<Rightarrow> serialization_error + byte \<times> byte list" where
  "flags_deserialize bs =
     res_bind (read_bytes Io 1 bs) (\<lambda>(x, rest).
     res_bind (ok_or (Parse ''invalid reserved orchard flags'') (flags_from_bits (hd x)))
       (\<lambda>flags. Inr (flags, rest)))"

definition osd_actions :: "orchard_shielded_data \<Rightarrow> orchard_action list" where
  "osd_actions d = map action (authorized_actions d)"

definition osd_nullifiers :: "orchard_shielded_data \<Rightarrow> byte list list" where
  "osd_nullifiers d = map action_nullifier (osd_actions d)"

definition osd_note_commitments :: "orchard_shielded_data \<Rightarrow> byte list list" where
  "osd_note_commitments d = map cm_x (osd_actions d)"

section \<open>Lock times\<close>

datatype lock_time = LockHeight height | LockTime int

definition MIN_TIMESTAMP :: int where
  "MIN_TIMESTAMP = 500000000"

definition unlocked :: lock_time where
  "unlocked = LockHeight 0"

fun lock_is_time :: "lock_time \<Rightarrow> bool" where
  "lock_is_time (LockHeight h) = False"
| "lock_is_time (LockTime t) = True"

fun lock_time_serialize :: "lock_time \<Rightarrow> byte list outcome" where
  "lock_time_serialize (LockHeight n) = Done (write_uint 4 n)"
| "lock_time_serialize (LockTime t) =
     run_bind (expect_some (u32_try_from t)) (\<lambda>n. Done (write_uint 4 n))"

definition lock_time_deserialize :: "byte list \<Rightarrow> serialization_error + lock_time \<times> byte list" where
  "lock_time_deserialize bs =
     res_bind (read_uint 4 bs) (\<lambda>(n, rest).
       if int n < MIN_TIMESTAMP then Inr (LockHeight n, rest) else Inr (LockTime (int n), rest))"

section \<open>Transactions\<close>

datatype transaction =
    V1 "transparent_input list" "transparent_output list" lock_time
  | V2 "transparent_input list" "transparent_output list" lock_time "joinsplit_data option"
  | V3 "transparent_input list" "transparent_output list" lock_time height "joinsplit_data option"
  | V4 "transparent_input list" "transparent_output list" lock_time height "joinsplit_data option"
      "sapling_v4 option"
  | V5 network_upgrade lock_time height "transparent_input list" "transparent_output list"
      "sapling_v5 option" "orchard_shielded_data option"

fun tx_inputs :: "transaction \<Rightarrow> transparent_input list" where
  "tx_inputs (V1 ins outs lock) = ins"
| "tx_inputs (V2 ins outs lock js) = ins"
| "tx_inputs (V3 ins outs lock expiry js) = ins"
| "tx_inputs (V4 ins outs lock expiry js sapling_data) = ins"
| "tx_inputs (V5 nu lock expiry ins outs sapling_data orchard_data) = ins"

fun tx_outputs :: "transaction \<Rightarrow> transparent_output list" where
  "tx_outputs (V1 ins outs lock) = outs"
| "tx_outputs (V2 ins outs lock js) = outs"
| "tx_outputs (V3 ins outs lock expiry js) = outs"
| "tx_outputs (V4 ins outs lock expiry js sapling_data) = outs"
| "tx_outputs (V5 nu lock expiry ins outs sapling_data orchard_data) = outs"

fun tx_version :: "transaction \<Rightarrow> nat" where
  "tx_version (V1 ins outs lock) = 1"
| "tx_version (V2 ins outs lock js) = 2"
| "tx_version (V3 ins outs lock expiry js) = 3"
| "tx_version (V4 ins outs lock expiry js sapling_data) = 4"
| "tx_version (V5 nu lock expiry ins outs sapling_data orchard_data) = 5"

fun is_overwintered :: "transaction \<Rightarrow> bool" where
  "is_overwintered (V1 ins outs lock) = False"
| "is_overwintered (V2 ins outs lock js) = False"
| "is_overwintered _ = True"

fun tx_lock :: "transaction \<Rightarrow> lock_time" where
  "tx_lock (V1 ins outs lock) = lock"
| "tx_lock (V2 ins outs lock js) = lock"
| "tx_lock (V3 ins outs lock expiry js) = lock"
| "tx_lock (V4 ins outs lock expiry js sapling_data) = lock"
| "tx_lock (V5 nu lock expiry ins outs sapling_data orchard_data) = lock"

definition tx_lock_time :: "transaction \<Rightarrow> lock_time option" where
  "tx_lock_time tx =
     (if tx_lock tx = unlocked then None
      else if list_ex (\<lambda>sequence_number. sequence_number \<noteq> 2 ^ 32 - 1) (map input_sequence (tx_inputs tx))
      then Some (tx_lock tx) else None)"

definition raw_lock_time :: "transaction \<Rightarrow> nat outcome" where
  "raw_lock_time tx =
     run_bind (lock_time_serialize (tx_lock tx)) (\<lambda>bs.
     run_bind (assert_that (length bs = 4)) (\<lambda>_. Done (le_nat bs)))"

definition lock_time_is_time :: "transaction \<Rightarrow> bool" where
  "lock_time_is_time tx = (case tx_lock_time tx of Some lock \<Rightarrow> lock_is_time lock | None \<Rightarrow> False)"

definition nonzero_expiry :: "height \<Rightarrow> height option" where
  "nonzero_expiry h = (if h = 0 then None else Some h)"

fun tx_expiry_height :: "transaction \<Rightarrow> height option" where
  "tx_expiry_height (V1 ins outs lock) = None"
| "tx_expiry_height (V2 ins outs lock js) = None"
| "tx_expiry_height (V3 ins outs lock expiry js) = nonzero_expiry expiry"
| "tx_expiry_height (V4 ins outs lock expiry js sapling_data) = nonzero_expiry expiry"
| "tx_expiry_height (V5 nu lock expiry ins outs sapling_data orchard_data) = nonzero_expiry expiry"

fun tx_network_upgrade :: "transaction \<Rightarrow> network_upgrade option" where
  "tx_network_upgrade (V5 nu lock expiry ins outs sapling_data orchard_data) = Some nu"
| "tx_network_upgrade _ = None"

fun tx_joinsplit_data :: "transaction \<Rightarrow> joinsplit_data option" where
  "tx_joinsplit_data (V2 ins outs lock js) = js"
| "tx_joinsplit_data (V3 ins outs lock expiry js) = js"
| "tx_joinsplit_data (V4 ins outs lock expiry js sapling_data) = js"
| "tx_joinsplit_data _ = None"

fun tx_orchard_shielded_data :: "transaction \<Rightarrow> orchard_shielded_data option" where
  "tx_orchard_shielded_data (V5 nu lock expiry ins outs sapling_data orchard_data) = orchard_data"
| "tx_orchard_shielded_data _ = None"

text \<open>Accessors of the shielded data: a version without the data has nothing to iterate over.\<close>

fun sprout_groth16_joinsplits :: "transaction \<Rightarrow> joinsplit list" where
  "sprout_groth16_joinsplits (V4 ins outs lock expiry (Some js) sapling_data) = jsd_joinsplits js"
| "sprout_groth16_joinsplits _ = []"

definition over_joinsplit_data :: "(joinsplit_data \<Rightarrow> 'a list) \<Rightarrow> transaction \<Rightarrow> 'a list" where
  "over_joinsplit_data f tx = (case tx_joinsplit_data tx of Some d \<Rightarrow> f d | None \<Rightarrow> [])"

definition sprout_joinsplits :: "transaction \<Rightarrow> joinsplit list" where
  "sprout_joinsplits tx = over_joinsplit_data jsd_joinsplits tx"

definition joinsplit_count :: "transaction \<Rightarrow> nat" where
  "joinsplit_count tx = length (over_joinsplit_data jsd_joinsplits tx)"

definition sprout_nullifiers :: "transaction \<Rightarrow> byte list list" where
  "sprout_nullifiers tx = over_joinsplit_data jsd_nullifiers tx"

definition sprout_joinsplit_pub_key :: "transaction \<Rightarrow> byte list option" where
  "sprout_joinsplit_pub_key tx = map_option js_pub_key (tx_joinsplit_data tx)"

definition joinsplit_sig :: "transaction \<Rightarrow> byte list option" where
  "joinsplit_sig tx = map_option js_sig (tx_joinsplit_data tx)"

definition has_sprout_joinsplit_data :: "transaction \<Rightarrow> bool" where
  "has_sprout_joinsplit_data tx \<longleftrightarrow> tx_joinsplit_data tx \<noteq> None"

definition sprout_note_commitments :: "transaction \<Rightarrow> byte list list" where
  "sprout_note_commitments tx = over_joinsplit_data jsd_note_commitments tx"

fun sapling_spends_per_anchor :: "transaction \<Rightarrow> byte list sapling_spend list outcome" where
  "sapling_spends_per_anchor (V4 ins outs lock expiry js (Some d)) =
     td_spends_per_anchor spend_from_v4 (transfers d)"
| "sapling_spends_per_anchor (V5 nu lock expiry ins outs (Some d) orchard_data) =
     td_spends_per_anchor spend_from_v5 (transfers d)"
| "sapling_spends_per_anchor _ = Done []"

definition sapling_anchors :: "transaction \<Rightarrow> byte list list outcome" where
  "sapling_anchors tx =
     run_bind (sapling_spends_per_anchor tx) (\<lambda>spends. Done (unique (map per_spend_anchor spends)))"

fun sapling_outputs :: "transaction \<Rightarrow> sapling_output list" where
  "sapling_outputs (V4 ins outs lock expiry js (Some d)) = td_outputs (transfers d)"
| "sapling_outputs (V5 nu lock expiry ins outs (Some d) orchard_data) = td_outputs (transfers d)"
| "sapling_outputs _ = []"

fun sapling_nullifiers :: "transaction \<Rightarrow> byte list list" where
  "sapling_nullifiers (V4 ins outs lock expiry js (Some d)) = map spend_nullifier (td_spends (transfers d))"
| "sapling_nullifiers (V5 nu lock expiry ins outs (Some d) orchard_data) =
     map spend_nullifier (td_spends (transfers d))"
| "sapling_nullifiers _ = []"

definition sapling_note_commitments :: "transaction \<Rightarrow> byte list list" where
  "sapling_note_commitments tx = map cm_u (sapling_outputs tx)"

fun has_sapling_shielded_data :: "transaction \<Rightarrow> bool" where
  "has_sapling_shielded_data (V4 ins outs lock expiry js sapling_data) = (sapling_data \<noteq> None)"
| "has_sapling_shielded_data (V5 nu lock expiry ins outs sapling_data orchard_data) =
     (sapling_data \<noteq> None)"
| "has_sapling_shielded_data _ = False"

fun sapling_binding_sig :: "transaction \<Rightarrow> byte list option" where
  "sapling_binding_sig (V4 ins outs lock expiry js (Some d)) = Some (sapling_sig d)"
| "sapling_binding_sig (V5 nu lock expiry ins outs (Some d) orchard_data) = Some (sapling_sig d)"
| "sapling_binding_sig _ = None"

definition over_orchard_data :: "(orchard_shielded_data \<Rightarrow> 'a list) \<Rightarrow> transaction \<Rightarrow> 'a list" where
  "over_orchard_data f tx = (case tx_orchard_shielded_data tx of Some d \<Rightarrow> f d | None \<Rightarrow> [])"

definition orchard_actions :: "transaction \<Rightarrow> orchard_action list" where
  "orchard_actions tx = over_orchard_data osd_actions tx"

definition orchard_nullifiers :: "transaction \<Rightarrow> byte list list" where
  "orchard_nullifiers tx = over_orchard_data osd_nullifiers tx"

definition orchard_note_commitments :: "transaction \<Rightarrow> byte list list" where
  "orchard_note_commitments tx = over_orchard_data osd_note_commitments tx"

definition orchard_flags :: "transaction \<Rightarrow> byte option" where
  "orchard_flags tx = map_option orchard_data_flags (tx_orchard_shielded_data tx)"

definition has_orchard_shielded_data :: "transaction \<Rightarrow> bool" where
  "has_orchard_shielded_data tx \<longleftrightarrow> tx_orchard_shielded_data tx \<noteq> None"

definition spent_outpoints :: "transaction \<Rightarrow> outpoint list" where
  "spent_outpoints tx = List.map_filter input_outpoint (tx_inputs tx)"

fun is_coinbase_input :: "transparent_input \<Rightarrow> bool" where
  "is_coinbase_input (Coinbase h data sequence) = True"
| "is_coinbase_input (PrevOut outpoint unlock_script sequence) = False"

definition is_coinbase :: "transaction \<Rightarrow> bool" where
  "is_coinbase tx \<longleftrightarrow>
     length (tx_inputs tx) = 1 \<and>
     (case tx_inputs tx of i # _ \<Rightarrow> is_coinbase_input i | [] \<Rightarrow> False)"

definition is_valid_non_coinbase :: "transaction \<Rightarrow> bool" where
  "is_valid_non_coinbase tx \<longleftrightarrow> list_all (\<lambda>i. \<not> is_coinbase_input i) (tx_inputs tx)"

section \<open>Other properties\<close>

definition unwrap_flags :: "byte option \<Rightarrow> byte" where
  "unwrap_flags f = (case f of Some flags \<Rightarrow> flags | None \<Rightarrow> 0)"

definition has_transparent_inputs :: "transaction \<Rightarrow> bool" where
  "has_transparent_inputs tx \<longleftrightarrow> tx_inputs tx \<noteq> []"

definition has_transparent_outputs :: "transaction \<Rightarrow> bool" where
  "has_transparent_outputs tx \<longleftrightarrow> tx_outputs tx \<noteq> []"

definition has_transparent_inputs_or_outputs :: "transaction \<Rightarrow> bool" where
  "has_transparent_inputs_or_outputs tx \<longleftrightarrow> has_transparent_inputs tx \<or> has_transparent_outputs tx"

text \<open>Counting the Sapling spends evaluates them, so a missing shared anchor would be a panic.\<close>

definition has_shielded_inputs :: "transaction \<Rightarrow> bool outcome" where
  "has_shielded_inputs tx =
     (if joinsplit_count tx > 0 then Done True
      else run_bind (sapling_spends_per_anchor tx) (\<lambda>spends.
        Done (length spends > 0 \<or>
          (length (orchard_actions tx) > 0 \<and>
           flags_contains (unwrap_flags (orchard_flags tx)) ENABLE_SPENDS))))"

definition has_transparent_or_shielded_inputs :: "transaction \<Rightarrow> bool outcome" where
  "has_transparent_or_shielded_inputs tx =
     (if has_transparent_inputs tx then Done True else has_shielded_inputs tx)"

definition has_shielded_outputs :: "transaction \<Rightarrow> bool" where
  "has_shielded_outputs tx \<longleftrightarrow>
     joinsplit_count tx > 0 \<or> length (sapling_outputs tx) > 0 \<or>
     (length (orchard_actions tx) > 0 \<and>
      flags_contains (unwrap_flags (orchard_flags tx)) ENABLE_OUTPUTS)"

definition has_transparent_or_shielded_outputs :: "transaction \<Rightarrow> bool" where
  "has_transparent_or_shielded_outputs tx \<longleftrightarrow> has_transparent_outputs tx \<or> has_shielded_outputs tx"

definition has_shielded_data :: "transaction \<Rightarrow> bool outcome" where
  "has_shielded_data tx =
     run_bind (has_shielded_inputs tx) (\<lambda>b. Done (b \<or> has_shielded_outputs tx))"

definition has_enough_orchard_flags :: "transaction \<Rightarrow> bool" where
  "has_enough_orchard_flags tx \<longleftrightarrow>
     tx_version tx < 5 \<or> length (orchard_actions tx) = 0 \<or>
     flags_intersects (unwrap_flags (orchard_flags tx)) (or ENABLE_SPENDS ENABLE_OUTPUTS)"

datatype coinbase_spend_restriction = DisallowCoinbaseSpend | CheckCoinbaseMaturity height

definition tx_coinbase_spend_restriction ::
  "transaction \<Rightarrow> network \<Rightarrow> height \<Rightarrow> coinbase_spend_restriction" where
  "tx_coinbase_spend_restriction tx net spend_height =
     (if tx_outputs tx = [] \<or> should_allow_unshielded_coinbase_spends net
      then CheckCoinbaseMaturity spend_height else DisallowCoinbaseSpend)"

definition OVERWINTER_VERSION_GROUP_ID :: nat where
  "OVERWINTER_VERSION_GROUP_ID = 0x03C48270"

definition SAPLING_VERSION_GROUP_ID :: nat where
  "SAPLING_VERSION_GROUP_ID = 0x892F2085"

definition TX_V5_VERSION_GROUP_ID :: nat where
  "TX_V5_VERSION_GROUP_ID = 0x26A7270A"

fun version_group_id :: "transaction \<Rightarrow> nat option" where
  "version_group_id (V3 ins outs lock expiry js) = Some OVERWINTER_VERSION_GROUP_ID"
| "version_group_id (V4 ins outs lock expiry js sapling_data) = Some SAPLING_VERSION_GROUP_ID"
| "version_group_id (V5 nu lock expiry ins outs sapling_data orchard_data) = Some TX_V5_VERSION_GROUP_ID"
| "version_group_id _ = None"

section \<open>Value balances\<close>

text \<open>A sum over a lazy iterator: an item is computed only when the fold reaches it.\<close>

fun amount_try_fold_lazy ::
  "amount_constraint \<Rightarrow> amount \<Rightarrow> amount outcome list \<Rightarrow> ((amount_error \<times> nat) + amount) outcome" where
  "amount_try_fold_lazy c acc [] = Done (Inr acc)"
| "amount_try_fold_lazy c acc (m # ms) =
     run_bind m (\<lambda>x. run_bind (amount_add c acc x)
       (\<lambda>r. case r of Inl e \<Rightarrow> Done (Inl (e, length ms)) | Inr acc' \<Rightarrow> amount_try_fold_lazy c acc' ms))"

definition amount_sum_lazy ::
  "amount_constraint \<Rightarrow> amount outcome list \<Rightarrow> (amount_error + amount) outcome" where
  "amount_sum_lazy c ms =
     run_bind (amount_zero c) (\<lambda>z. run_bind (amount_try_fold_lazy c z ms)
       (\<lambda>r. case r of
              Inr s \<Rightarrow> Done (Inr s)
            | Inl (Constraint v lo hi, remaining) \<Rightarrow> Done (Inl (SumOverflow v remaining))
            | Inl (_, remaining) \<Rightarrow> Panic))"

definition transparent_value_balance_from_outputs ::
  "transaction \<Rightarrow> (outpoint \<rightharpoonup> transparent_output) \<Rightarrow> (value_balance_error + value_balance) outcome" where
  "transparent_value_balance_from_outputs tx outputs =
     try_bind (lift_err TransparentErr
       (amount_sum_lazy NonNegative (map (\<lambda>i. value_from_outputs i outputs) (tx_inputs tx)))) (\<lambda>in_sum.
     run_bind (expect_ok (amount_constrain NegativeAllowed in_sum)) (\<lambda>input_value.
     try_bind (lift_err TransparentErr
       (amount_sum NonNegative (map output_value (tx_outputs tx)))) (\<lambda>out_sum.
     run_bind (expect_ok (amount_constrain NegativeAllowed out_sum)) (\<lambda>output_sum.
     try_bind (lift_err TransparentErr (amount_sub NegativeAllowed input_value output_sum)) (\<lambda>d.
     run_bind (from_transparent_amount NegativeAllowed d) (\<lambda>v. Done (Inr v)))))))"

definition output_values_to_sprout :: "transaction \<Rightarrow> amount list" where
  "output_values_to_sprout tx = over_joinsplit_data (\<lambda>d. map vpub_old (jsd_joinsplits d)) tx"

definition input_values_from_sprout :: "transaction \<Rightarrow> amount list" where
  "input_values_from_sprout tx = over_joinsplit_data (\<lambda>d. map vpub_new (jsd_joinsplits d)) tx"

definition sprout_joinsplit_value_balances :: "transaction \<Rightarrow> value_balance outcome list" where
  "sprout_joinsplit_value_balances tx =
     map (\<lambda>m. run_bind m (from_sprout_amount NegativeAllowed))
       (over_joinsplit_data joinsplit_value_balances tx)"

fun vb_try_fold_lazy ::
  "amount_constraint \<Rightarrow> value_balance \<Rightarrow> value_balance outcome list \<Rightarrow>
   (value_balance_error + value_balance) outcome" where
  "vb_try_fold_lazy c acc [] = Done (Inr acc)"
| "vb_try_fold_lazy c acc (m # ms) =
     run_bind m (\<lambda>x. try_bind (vb_add c acc x) (\<lambda>acc'. vb_try_fold_lazy c acc' ms))"

definition sprout_value_balance :: "transaction \<Rightarrow> (value_balance_error + value_balance) outcome" where
  "sprout_value_balance tx =
     run_bind (vb_zero NegativeAllowed) (\<lambda>z.
       vb_try_fold_lazy NegativeAllowed z (sprout_joinsplit_value_balances tx))"

fun tx_sapling_value :: "transaction \<Rightarrow> amount outcome" where
  "tx_sapling_value (V4 ins outs lock expiry js (Some d)) = Done (sapling_value d)"
| "tx_sapling_value (V5 nu lock expiry ins outs (Some d) orchard_data) = Done (sapling_value d)"
| "tx_sapling_value _ = amount_zero NegativeAllowed"

definition sapling_value_balance :: "transaction \<Rightarrow> value_balance outcome" where
  "sapling_value_balance tx = run_bind (tx_sapling_value tx) (from_sapling_amount NegativeAllowed)"

definition orchard_value_balance :: "transaction \<Rightarrow> value_balance outcome" where
  "orchard_value_balance tx =
     run_bind (case tx_orchard_shielded_data tx of
                 Some d \<Rightarrow> Done (orchard_value d) | None \<Rightarrow> amount_zero NegativeAllowed)
       (from_orchard_amount NegativeAllowed)"

definition value_balance_from_outputs ::
  "transaction \<Rightarrow> (outpoint \<rightharpoonup> transparent_output) \<Rightarrow> (value_balance_error + value_balance) outcome" where
  "value_balance_from_outputs tx outputs =
     try_bind (transparent_value_balance_from_outputs tx outputs) (\<lambda>t.
     try_bind (sprout_value_balance tx) (\<lambda>sp.
     run_bind (vb_add NegativeAllowed t sp) (\<lambda>r1.
     run_bind (sapling_value_balance tx) (\<lambda>sa.
     run_bind (vb_result_add NegativeAllowed r1 sa) (\<lambda>r2.
     run_bind (orchard_value_balance tx) (\<lambda>orc.
       vb_result_add NegativeAllowed r2 orc))))))"

section \<open>Blocks\<close>

text \<open>\<open>Block::chain_value_pool_change\<close>. \<open>flat_map\<close> over a \<open>Result\<close> keeps the values and skips the errors.\<close>

fun tx_value_balances ::
  "(outpoint \<rightharpoonup> transparent_output) \<Rightarrow> transaction list \<Rightarrow> value_balance list outcome" where
  "tx_value_balances outputs [] = Done []"
| "tx_value_balances outputs (tx # txs) =
     run_bind (value_balance_from_outputs tx outputs) (\<lambda>r.
     run_bind (tx_value_balances outputs txs) (\<lambda>vs.
       Done (case r of Inr v \<Rightarrow> v # vs | Inl e \<Rightarrow> vs)))"

definition chain_value_pool_change ::
  "transaction list \<Rightarrow> (outpoint \<rightharpoonup> transparent_output) \<Rightarrow> deferred_pool_balance_change option \<Rightarrow>
   (value_balance_error + value_balance) outcome" where
  "chain_value_pool_change txs outputs deferred_change =
     run_bind (tx_value_balances outputs txs) (\<lambda>vs.
     try_bind (vb_sum NegativeAllowed vs) (\<lambda>total_balance.
     run_bind (vb_neg total_balance) (\<lambda>v.
     run_bind (case deferred_change of
                 Some c \<Rightarrow> Done (deferred_value c) | None \<Rightarrow> amount_zero NegativeAllowed) (\<lambda>d.
       Done (Inr (set_deferred_amount v d))))))"

section \<open>Lemmas\<close>

lemma amount_fold_nonneg:
  assumes "0 \<le> a" and "list_all (amount_ok NonNegative) xs"
  shows "if a + sum_list (map zatoshis xs) \<le> MAX_MONEY
         then amount_try_fold NonNegative (Amount a) xs = Done (Inr (Amount (a + sum_list (map zatoshis xs))))
         else a \<le> MAX_MONEY \<longrightarrow>
           (\<exists>v lo hi n. amount_try_fold NonNegative (Amount a) xs = Done (Inl (Constraint v lo hi, n)))"
  using assms
proof (induction xs arbitrary: a)
  case (Cons x xs)
  have x: "0 \<le> zatoshis x" "zatoshis x \<le> MAX_MONEY" using Cons.prems(2) by (cases x; simp)+
  have rest: "list_all (amount_ok NonNegative) xs" using Cons.prems(2) by simp
  have nonneg: "0 \<le> sum_list (map zatoshis xs)"
    using rest by (induction xs) (auto simp: amount_ok_def)
  show ?case
  proof (cases "a \<le> MAX_MONEY")
    case True
    have ok: "amount_ok NonNegative (Amount a)" using True Cons.prems(1) by simp
    have step: "amount_add NonNegative (Amount a) x =
        Done (if a + zatoshis x \<le> MAX_MONEY then Inr (Amount (a + zatoshis x))
              else Inl (Constraint (a + zatoshis x) 0 MAX_MONEY))"
      using constraints.add_done [OF ok, of x] Cons.prems x by (simp add: try_from_i64_cases)
    show ?thesis
    proof (cases "a + zatoshis x \<le> MAX_MONEY")
      case True
      then show ?thesis
        using Cons.IH [of "a + zatoshis x"] Cons.prems x rest step by (simp add: add.assoc)
    next
      case False
      then show ?thesis using step nonneg by simp
    qed
  next
    case False
    then show ?thesis using nonneg x by simp
  qed
qed simp

lemma amount_sum_nonneg:
  assumes "list_all (amount_ok NonNegative) xs"
  shows "if sum_list (map zatoshis xs) \<le> MAX_MONEY
         then amount_sum NonNegative xs = Done (Inr (Amount (sum_list (map zatoshis xs))))
         else (\<exists>e. amount_sum NonNegative xs = Done (Inl e))"
  using amount_fold_nonneg [of 0 xs] assms
  by (auto simp: constraints.sum_of_fold MAX_MONEY_value)

lemma amount_fold_lazy_Done:
  "amount_try_fold_lazy c a (map Done xs) = amount_try_fold c a xs"
  by (induction xs arbitrary: a) (auto split: sum.splits intro!: arg_cong [where f = "run_bind _"] ext)

lemma amount_sum_lazy_Done: "amount_sum_lazy c (map Done xs) = amount_sum c xs"
  by (simp add: amount_sum_lazy_def amount_sum_def amount_fold_lazy_Done)

text \<open>What the types of the amounts guarantee, and the integers the pools should have.\<close>

definition tx_values_ok :: "transaction \<Rightarrow> bool" where
  "tx_values_ok tx \<longleftrightarrow>
     list_all (\<lambda>out. amount_ok NonNegative (output_value out)) (tx_outputs tx) \<and>
     list_all (\<lambda>js. amount_ok NonNegative (vpub_old js) \<and> amount_ok NonNegative (vpub_new js))
       (sprout_joinsplits tx) \<and>
     (\<forall>a. tx_sapling_value tx = Done a \<longrightarrow> amount_ok NegativeAllowed a) \<and>
     (\<forall>d. tx_orchard_shielded_data tx = Some d \<longrightarrow> amount_ok NegativeAllowed (orchard_value d))"

definition inputs_known :: "transaction \<Rightarrow> (outpoint \<rightharpoonup> transparent_output) \<Rightarrow> bool" where
  "inputs_known tx outputs \<longleftrightarrow>
     list_all (\<lambda>op. \<exists>out. outputs op = Some out \<and> amount_ok NonNegative (output_value out))
       (spent_outpoints tx)"

definition input_zatoshis :: "(outpoint \<rightharpoonup> transparent_output) \<Rightarrow> transparent_input \<Rightarrow> int" where
  "input_zatoshis outputs i =
     (case input_outpoint i of
        None \<Rightarrow> 0
      | Some op \<Rightarrow> (case outputs op of None \<Rightarrow> 0 | Some out \<Rightarrow> zatoshis (output_value out)))"

definition total_in :: "(outpoint \<rightharpoonup> transparent_output) \<Rightarrow> transaction \<Rightarrow> int" where
  "total_in outputs tx = sum_list (map (input_zatoshis outputs) (tx_inputs tx))"

definition total_out :: "transaction \<Rightarrow> int" where
  "total_out tx = sum_list (map (\<lambda>out. zatoshis (output_value out)) (tx_outputs tx))"

definition sprout_changes :: "transaction \<Rightarrow> int list" where
  "sprout_changes tx = map (\<lambda>js. zatoshis (vpub_new js) - zatoshis (vpub_old js)) (sprout_joinsplits tx)"

definition sapling_change :: "transaction \<Rightarrow> int" where
  "sapling_change tx = (case tx_sapling_value tx of Done a \<Rightarrow> zatoshis a | Panic \<Rightarrow> 0)"

definition orchard_change :: "transaction \<Rightarrow> int" where
  "orchard_change tx =
     (case tx_orchard_shielded_data tx of Some d \<Rightarrow> zatoshis (orchard_value d) | None \<Rightarrow> 0)"

definition pools_of :: "int \<Rightarrow> int \<Rightarrow> int \<Rightarrow> int \<Rightarrow> value_balance" where
  "pools_of t sp sa orc =
     \<lparr>transparent = Amount t, sprout = Amount sp, sapling = Amount sa, orchard = Amount orc,
      deferred = Amount 0\<rparr>"

definition prefixes_in_range :: "int list \<Rightarrow> bool" where
  "prefixes_in_range xs \<longleftrightarrow> (\<forall>i \<le> length xs. \<bar>sum_list (take i xs)\<bar> \<le> MAX_MONEY)"

lemma vb_zero_pools: "vb_zero c = Done (pools_of 0 0 0 0)"
  by (simp add: vb_zero_def constraints.zero_done pools_of_def)

lemma from_amount_pools:
  "from_transparent_amount c (Amount x) = Done (pools_of x 0 0 0)"
  "from_sprout_amount c (Amount x) = Done (pools_of 0 x 0 0)"
  "from_sapling_amount c (Amount x) = Done (pools_of 0 0 x 0)"
  "from_orchard_amount c (Amount x) = Done (pools_of 0 0 0 x)"
  by (simp_all add: from_transparent_amount_def from_sprout_amount_def from_sapling_amount_def
      from_orchard_amount_def vb_zero_pools) (simp_all add: pools_of_def)

lemma vb_ok_pools_of:
  "vb_ok NegativeAllowed (pools_of t sp sa orc) \<longleftrightarrow>
   \<bar>t\<bar> \<le> MAX_MONEY \<and> \<bar>sp\<bar> \<le> MAX_MONEY \<and> \<bar>sa\<bar> \<le> MAX_MONEY \<and> \<bar>orc\<bar> \<le> MAX_MONEY"
  by (auto simp: vb_ok_iff pools_of_def MAX_MONEY_value)

lemma vb_plus_pools:
  "vb_plus (pools_of t sp sa orc) (pools_of t' sp' sa' orc') =
   pools_of (t + t') (sp + sp') (sa + sa') (orc + orc')"
  by (simp add: vb_plus_def pools_of_def amount_plus_def)

lemma vb_add_pools:
  assumes "vb_ok NegativeAllowed (pools_of t sp sa orc)" and "vb_ok NegativeAllowed (pools_of t' sp' sa' orc')"
  shows "if vb_ok NegativeAllowed (pools_of (t + t') (sp + sp') (sa + sa') (orc + orc'))
         then vb_add NegativeAllowed (pools_of t sp sa orc) (pools_of t' sp' sa' orc') =
              Done (Inr (pools_of (t + t') (sp + sp') (sa + sa') (orc + orc')))
         else \<exists>e. vb_add NegativeAllowed (pools_of t sp sa orc) (pools_of t' sp' sa' orc') = Done (Inl e)"
  using vb_add_done [OF assms] by (simp only: vb_plus_pools)

lemma all_le_Suc2: "(\<forall>i \<le> Suc n. P i) \<longleftrightarrow> P 0 \<and> (\<forall>i \<le> n. P (Suc i))"
  using All_less_Suc2 [of "Suc n" P] by (simp add: less_Suc_eq_le)

lemma sprout_fold:
  assumes "\<bar>a\<bar> \<le> MAX_MONEY" and "\<forall>x \<in> set xs. \<bar>x\<bar> \<le> MAX_MONEY"
  shows "if \<forall>i \<le> length xs. \<bar>a + sum_list (take i xs)\<bar> \<le> MAX_MONEY
         then vb_try_fold_lazy NegativeAllowed (pools_of 0 a 0 0) (map (\<lambda>x. Done (pools_of 0 x 0 0)) xs) =
              Done (Inr (pools_of 0 (a + sum_list xs) 0 0))
         else \<exists>e. vb_try_fold_lazy NegativeAllowed (pools_of 0 a 0 0)
                (map (\<lambda>x. Done (pools_of 0 x 0 0)) xs) = Done (Inl e)"
  using assms
proof (induction xs arbitrary: a)
  case (Cons x xs)
  have ok: "vb_ok NegativeAllowed (pools_of 0 a 0 0)" "vb_ok NegativeAllowed (pools_of 0 x 0 0)"
    using Cons.prems by (auto simp: vb_ok_pools_of MAX_MONEY_value)
  note add = vb_add_pools [OF ok]
  show ?case
  proof (cases "\<bar>a + x\<bar> \<le> MAX_MONEY")
    case True
    then have step: "vb_add NegativeAllowed (pools_of 0 a 0 0) (pools_of 0 x 0 0) =
        Done (Inr (pools_of 0 (a + x) 0 0))"
      using add by (simp add: vb_ok_pools_of MAX_MONEY_value)
    have "(\<forall>i \<le> length (x # xs). \<bar>a + sum_list (take i (x # xs))\<bar> \<le> MAX_MONEY) \<longleftrightarrow>
        (\<forall>i \<le> length xs. \<bar>a + x + sum_list (take i xs)\<bar> \<le> MAX_MONEY)"
      using Cons.prems(1) by (simp add: all_le_Suc2 add.assoc)
    then show ?thesis using Cons.IH [of "a + x"] True Cons.prems(2) step by (simp add: add.assoc)
  next
    case False
    then obtain e where "vb_add NegativeAllowed (pools_of 0 a 0 0) (pools_of 0 x 0 0) = Done (Inl e)"
      using add by (auto simp: vb_ok_pools_of)
    moreover have "\<not> (\<forall>i \<le> length (x # xs). \<bar>a + sum_list (take i (x # xs))\<bar> \<le> MAX_MONEY)"
      using False by (auto intro!: exI [of _ 1])
    ultimately show ?thesis by auto
  qed
qed simp

lemma map_value_from_outputs:
  assumes "inputs_known tx outputs"
  shows "\<exists>xs. map (\<lambda>i. value_from_outputs i outputs) (tx_inputs tx) = map Done xs \<and>
     list_all (amount_ok NonNegative) xs \<and> sum_list (map zatoshis xs) = total_in outputs tx"
proof -
  have "\<exists>xs. map (\<lambda>i. value_from_outputs i outputs) is = map Done xs \<and>
     list_all (amount_ok NonNegative) xs \<and> sum_list (map zatoshis xs) = sum_list (map (input_zatoshis outputs) is)"
    if "list_all (\<lambda>op. \<exists>out. outputs op = Some out \<and> amount_ok NonNegative (output_value out))
       (List.map_filter input_outpoint is)" for "is"
    using that
  proof (induction "is")
    case (Cons i "is")
    have "\<exists>x. value_from_outputs i outputs = Done x \<and> amount_ok NonNegative x \<and> zatoshis x = input_zatoshis outputs i"
      using Cons.prems
      by (cases i) (auto simp: List.map_filter_simps input_zatoshis_def constraints.zero_done MAX_MONEY_value)
    moreover have "list_all (\<lambda>op. \<exists>out. outputs op = Some out \<and> amount_ok NonNegative (output_value out))
       (List.map_filter input_outpoint is)"
      using Cons.prems by (cases "input_outpoint i") (auto simp: List.map_filter_simps)
    ultimately show ?case using Cons.IH by (metis list.pred_inject(2) list.simps(9) sum_list.Cons)
  qed simp
  then show ?thesis using assms by (simp add: inputs_known_def spent_outpoints_def total_in_def)
qed

lemma transparent_balance_cases:
  assumes "tx_values_ok tx" and "inputs_known tx outputs"
  shows "if total_in outputs tx \<le> MAX_MONEY \<and> total_out tx \<le> MAX_MONEY
         then transparent_value_balance_from_outputs tx outputs =
              Done (Inr (pools_of (total_in outputs tx - total_out tx) 0 0 0)) \<and>
              \<bar>total_in outputs tx - total_out tx\<bar> \<le> MAX_MONEY
         else \<exists>e. transparent_value_balance_from_outputs tx outputs = Done (Inl e)"
proof -
  obtain xs where xs: "map (\<lambda>i. value_from_outputs i outputs) (tx_inputs tx) = map Done xs"
    "list_all (amount_ok NonNegative) xs" "sum_list (map zatoshis xs) = total_in outputs tx"
    using map_value_from_outputs [OF assms(2)] by blast
  define ys where "ys = map output_value (tx_outputs tx)"
  have ys: "list_all (amount_ok NonNegative) ys" "sum_list (map zatoshis ys) = total_out tx"
    using assms(1) by (simp_all add: ys_def tx_values_ok_def total_out_def list.pred_map comp_def)
  have pos: "0 \<le> sum_list (map zatoshis zs)" if "list_all (amount_ok NonNegative) zs" for zs
    using that by (induction zs) (auto simp: amount_ok_def)
  note ins = amount_sum_nonneg [OF xs(2), unfolded xs(3)]
  note outs = amount_sum_nonneg [OF ys(1), unfolded ys(2)]
  have nonneg: "0 \<le> total_in outputs tx" "0 \<le> total_out tx"
    using pos [OF xs(2)] pos [OF ys(1)] xs(3) ys(2) by simp_all
  show ?thesis
  proof (cases "total_in outputs tx \<le> MAX_MONEY \<and> total_out tx \<le> MAX_MONEY")
    case True
    then have i: "amount_sum NonNegative xs = Done (Inr (Amount (total_in outputs tx)))"
      and out: "amount_sum NonNegative ys = Done (Inr (Amount (total_out tx)))" using ins outs by simp_all
    have ok: "amount_ok NegativeAllowed (Amount (total_in outputs tx))"
      "amount_ok NegativeAllowed (Amount (total_out tx))" using True nonneg by (simp_all add: MAX_MONEY_value)
    have bound: "\<bar>total_in outputs tx - total_out tx\<bar> \<le> MAX_MONEY" using True nonneg by linarith
    then show ?thesis
      using True i out ok constraints.sub_done [OF ok]
      by (simp add: transparent_value_balance_from_outputs_def xs(1) amount_sum_lazy_Done lift_err_def
          amount_constrain_ok try_from_i64_cases from_amount_pools abs_le_iff flip: ys_def)
  next
    case False
    show ?thesis
    proof (cases "total_in outputs tx \<le> MAX_MONEY")
      case True
      with False ins outs obtain e where "amount_sum NonNegative xs = Done (Inr (Amount (total_in outputs tx)))"
        "amount_sum NonNegative ys = Done (Inl e)" by auto
      then show ?thesis
        using False True nonneg
        by (simp add: transparent_value_balance_from_outputs_def xs(1) amount_sum_lazy_Done lift_err_def
            amount_constrain_ok flip: ys_def)
    next
      case False
      with ins obtain e where "amount_sum NonNegative xs = Done (Inl e)" by auto
      then show ?thesis
        using False by (simp add: transparent_value_balance_from_outputs_def xs(1) amount_sum_lazy_Done lift_err_def)
    qed
  qed
qed

lemma js_value_balance_Done:
  assumes "amount_ok NonNegative (vpub_old js)" and "amount_ok NonNegative (vpub_new js)"
  shows "js_value_balance js = Done (Amount (zatoshis (vpub_new js) - zatoshis (vpub_old js)))"
    and "\<bar>zatoshis (vpub_new js) - zatoshis (vpub_old js)\<bar> \<le> MAX_MONEY"
proof -
  have wide: "amount_ok NegativeAllowed (vpub_old js)" "amount_ok NegativeAllowed (vpub_new js)"
    using assms by (simp_all add: amount_ok_widen)
  show bound: "\<bar>zatoshis (vpub_new js) - zatoshis (vpub_old js)\<bar> \<le> MAX_MONEY"
    using assms by (cases "vpub_new js"; cases "vpub_old js") auto
  then show "js_value_balance js = Done (Amount (zatoshis (vpub_new js) - zatoshis (vpub_old js)))"
    using wide constraints.sub_done [OF wide(2,1)]
    by (simp add: js_value_balance_def amount_constrain_ok try_from_i64_cases abs_le_iff)
qed

lemma sprout_balance_cases:
  assumes "tx_values_ok tx"
  shows "if prefixes_in_range (sprout_changes tx)
         then sprout_value_balance tx = Done (Inr (pools_of 0 (sum_list (sprout_changes tx)) 0 0))
         else \<exists>e. sprout_value_balance tx = Done (Inl e)"
proof -
  have ok: "list_all (\<lambda>js. amount_ok NonNegative (vpub_old js) \<and> amount_ok NonNegative (vpub_new js))
       (sprout_joinsplits tx)" using assms by (simp add: tx_values_ok_def)
  then have "map js_value_balance (sprout_joinsplits tx) = map (\<lambda>x. Done (Amount x)) (sprout_changes tx)"
    by (auto simp: sprout_changes_def list_all_iff js_value_balance_Done)
  then have "sprout_joinsplit_value_balances tx = map (\<lambda>x. Done (pools_of 0 x 0 0)) (sprout_changes tx)"
    unfolding sprout_joinsplit_value_balances_def sprout_joinsplits_def over_joinsplit_data_def
      joinsplit_value_balances_def
    by (auto simp: from_amount_pools comp_def map_eq_conv split: option.splits
        dest!: arg_cong [where f = "map (\<lambda>m. run_bind m (from_sprout_amount NegativeAllowed))"])
  moreover have "\<forall>x \<in> set (sprout_changes tx). \<bar>x\<bar> \<le> MAX_MONEY"
    using ok by (auto simp: sprout_changes_def list_all_iff js_value_balance_Done)
  ultimately show ?thesis
    using sprout_fold [of 0 "sprout_changes tx"]
    by (simp add: sprout_value_balance_def vb_zero_pools prefixes_in_range_def MAX_MONEY_value)
qed

lemma shielded_balance_pools:
  assumes "tx_values_ok tx"
  shows "sapling_value_balance tx = Done (pools_of 0 0 (sapling_change tx) 0)"
    and "orchard_value_balance tx = Done (pools_of 0 0 0 (orchard_change tx))"
    and "\<bar>sapling_change tx\<bar> \<le> MAX_MONEY" and "\<bar>orchard_change tx\<bar> \<le> MAX_MONEY"
proof -
  obtain a where a: "tx_sapling_value tx = Done (Amount a)"
  proof (cases "tx_sapling_value tx")
    case (Done x)
    then show ?thesis using that by (cases x) auto
  next
    case Panic
    then have False by (cases tx rule: tx_sapling_value.cases) (auto simp: constraints.zero_done)
    then show ?thesis ..
  qed
  then have "amount_ok NegativeAllowed (Amount a)" using assms by (simp add: tx_values_ok_def)
  with a show "sapling_value_balance tx = Done (pools_of 0 0 (sapling_change tx) 0)"
    and "\<bar>sapling_change tx\<bar> \<le> MAX_MONEY"
    by (simp_all add: sapling_value_balance_def sapling_change_def from_amount_pools abs_le_iff)
  show "orchard_value_balance tx = Done (pools_of 0 0 0 (orchard_change tx))"
    and "\<bar>orchard_change tx\<bar> \<le> MAX_MONEY"
    using assms
    by (auto simp: orchard_value_balance_def orchard_change_def tx_values_ok_def constraints.zero_done
        from_amount_pools MAX_MONEY_value amount_ok_def abs_le_iff split: option.splits)
      (metis from_amount_pools(4) amount.collapse)
qed

definition balance_in_range :: "(outpoint \<rightharpoonup> transparent_output) \<Rightarrow> transaction \<Rightarrow> bool" where
  "balance_in_range outputs tx \<longleftrightarrow>
     total_in outputs tx \<le> MAX_MONEY \<and> total_out tx \<le> MAX_MONEY \<and> prefixes_in_range (sprout_changes tx)"

definition tx_pools :: "(outpoint \<rightharpoonup> transparent_output) \<Rightarrow> transaction \<Rightarrow> value_balance" where
  "tx_pools outputs tx =
     pools_of (total_in outputs tx - total_out tx) (sum_list (sprout_changes tx))
       (sapling_change tx) (orchard_change tx)"

lemma value_balance_cases:
  assumes "tx_values_ok tx" and "inputs_known tx outputs"
  shows "if balance_in_range outputs tx
         then value_balance_from_outputs tx outputs = Done (Inr (tx_pools outputs tx))
         else \<exists>e. value_balance_from_outputs tx outputs = Done (Inl e)"
proof -
  note t = transparent_balance_cases [OF assms]
  note sp = sprout_balance_cases [OF assms(1)]
  note sh = shielded_balance_pools [OF assms(1)]
  show ?thesis
  proof (cases "balance_in_range outputs tx")
    case True
    let ?t = "total_in outputs tx - total_out tx" and ?s = "sum_list (sprout_changes tx)"
    have bounds: "\<bar>?t\<bar> \<le> MAX_MONEY" "\<bar>?s\<bar> \<le> MAX_MONEY"
      using True t by (auto simp: balance_in_range_def prefixes_in_range_def dest: spec [of _ "length (sprout_changes tx)"])
    have m: "0 \<le> MAX_MONEY" by (simp add: MAX_MONEY_value)
    have add: "vb_add NegativeAllowed (pools_of ?t 0 0 0) (pools_of 0 ?s 0 0) = Done (Inr (pools_of ?t ?s 0 0))"
      "vb_add NegativeAllowed (pools_of ?t ?s 0 0) (pools_of 0 0 (sapling_change tx) 0) =
         Done (Inr (pools_of ?t ?s (sapling_change tx) 0))"
      "vb_add NegativeAllowed (pools_of ?t ?s (sapling_change tx) 0) (pools_of 0 0 0 (orchard_change tx)) =
         Done (Inr (tx_pools outputs tx))"
      using bounds sh(3,4) m
        vb_add_pools [of ?t 0 0 0 0 ?s 0 0] vb_add_pools [of ?t ?s 0 0 0 0 "sapling_change tx" 0]
        vb_add_pools [of ?t ?s "sapling_change tx" 0 0 0 0 "orchard_change tx"]
      by (simp_all add: vb_ok_pools_of tx_pools_def)
    then show ?thesis
      using True t sp sh(1,2)
      by (simp add: value_balance_from_outputs_def balance_in_range_def vb_result_add_def)
  next
    case False
    then show ?thesis
      using t sp by (auto simp: value_balance_from_outputs_def balance_in_range_def split: if_splits)
  qed
qed

section \<open>Properties\<close>

text \<open>C5. The value balance of a transaction whose spent outputs are known never panics. It is, exactly, the
  spent minus the created transparent value, the value leaving minus the value entering the Sprout
  pool, and the declared Sapling and Orchard balances, whenever the transparent totals and the
  running Sprout total stay within the maximum money; otherwise it is an error.\<close>

theorem transaction_value_balance_exact:
  assumes "tx_values_ok tx" and "inputs_known tx outputs"
  shows "value_balance_from_outputs tx outputs \<noteq> Panic \<and>
    (\<forall>v. value_balance_from_outputs tx outputs = Done (Inr v) \<longleftrightarrow>
       total_in outputs tx \<le> MAX_MONEY \<and> total_out tx \<le> MAX_MONEY \<and> prefixes_in_range (sprout_changes tx) \<and>
       v = pools_of (total_in outputs tx - total_out tx) (sum_list (sprout_changes tx))
             (sapling_change tx) (orchard_change tx))"
  using value_balance_cases [OF assms]
  by (auto simp: balance_in_range_def tx_pools_def split: if_splits)

definition sample_output :: "int \<Rightarrow> transparent_output" where
  "sample_output v = \<lparr>output_value = Amount v, lock_script = []\<rparr>"

definition sample_spend_tx :: transaction where
  "sample_spend_tx =
     V1 [PrevOut (OutPoint [1] 0) [] 0] [sample_output 30, sample_output 60] unlocked"

theorem transaction_value_balance_exact_witness:
  "value_balance_from_outputs sample_spend_tx [OutPoint [1] 0 \<mapsto> sample_output 100] =
   Done (Inr (pools_of 10 0 0 0))"
proof -
  let ?outs = "[OutPoint [1] 0 \<mapsto> sample_output 100]"
  have "tx_values_ok sample_spend_tx" "inputs_known sample_spend_tx ?outs"
    by (simp_all add: tx_values_ok_def sample_spend_tx_def sample_output_def inputs_known_def
        spent_outpoints_def List.map_filter_simps sprout_joinsplits_def over_joinsplit_data_def
        constraints.zero_done MAX_MONEY_value)
  from transaction_value_balance_exact [OF this] show ?thesis
    by (simp add: sample_spend_tx_def sample_output_def total_in_def total_out_def input_zatoshis_def
        sprout_changes_def sprout_joinsplits_def over_joinsplit_data_def sapling_change_def orchard_change_def
        prefixes_in_range_def constraints.zero_done MAX_MONEY_value)
qed

text \<open>C33. A transaction whose value balance is an error is left out of the block's chain value pool change,
  which is then the change of the remaining transactions: the error is not reported.\<close>

theorem pool_change_skips_failed_transaction:
  assumes "value_balance_from_outputs tx outputs = Done (Inl e)"
  shows "chain_value_pool_change (txs @ tx # txs') outputs d = chain_value_pool_change (txs @ txs') outputs d"
proof -
  have "tx_value_balances outputs (txs @ tx # txs') = tx_value_balances outputs (txs @ txs')"
  proof (induction txs)
    case Nil
    then show ?case using assms by (cases "tx_value_balances outputs txs'") auto
  next
    case (Cons t txs)
    then show ?case by simp
  qed
  then show ?thesis by (simp add: chain_value_pool_change_def)
qed

theorem pool_change_skips_failed_transaction_witness:
  "(\<exists>e. value_balance_from_outputs (V1 [] [sample_output MAX_MONEY, sample_output 1] unlocked) Map.empty =
      Done (Inl e)) \<and>
   chain_value_pool_change [V1 [] [sample_output MAX_MONEY, sample_output 1] unlocked] Map.empty None =
   chain_value_pool_change [] Map.empty None"
proof -
  let ?tx = "V1 [] [sample_output MAX_MONEY, sample_output 1] unlocked"
  have "tx_values_ok ?tx" "inputs_known ?tx Map.empty"
    by (simp_all add: tx_values_ok_def sample_output_def inputs_known_def
        spent_outpoints_def List.map_filter_simps sprout_joinsplits_def over_joinsplit_data_def
        constraints.zero_done MAX_MONEY_value)
  from value_balance_cases [OF this] obtain e where
    e: "value_balance_from_outputs ?tx Map.empty = Done (Inl e)"
    by (auto simp: balance_in_range_def total_out_def sample_output_def split: if_splits)
  with pool_change_skips_failed_transaction [OF e, of "[]" "[]" None] show ?thesis by simp
qed

end
