(* ===== verification/Block_Headers.thy ===== *)
theory Block_Headers
  imports Serialization Difficulties
begin

text \<open>
  Block headers and blocks on the wire: \<open>zebra-chain/src/block/header.rs\<close>, \<open>block/serialize.rs\<close> and the
  solution part of \<open>work/equihash.rs\<close>.

  Times are whole seconds since the epoch, the resolution of the wire format. The functions
  \<open>chrono\<close> provides are total on the 32-bit timestamps and the clock readings the code passes to them. Every
  \<open>io::Error\<close> is the one value \<open>()\<close>: a serializer that writes to a vector fails only where the
  code itself raises an error. The transaction format is an argument of the block functions.
\<close>

section \<open>Equihash solutions\<close>

definition SOLUTION_SIZE :: nat where
  "SOLUTION_SIZE = 1344"

definition REGTEST_SOLUTION_SIZE :: nat where
  "REGTEST_SOLUTION_SIZE = 36"

datatype equihash_solution = Common "byte list" | Regtest "byte list"

fun solution_value :: "equihash_solution \<Rightarrow> byte list" where
  "solution_value (Common solution) = solution"
| "solution_value (Regtest solution) = solution"

definition INPUT_LENGTH :: nat where
  "INPUT_LENGTH = 4 + 32 * 3 + 4 * 2"

definition solution_from_bytes :: "byte list \<Rightarrow> serialization_error + equihash_solution" where
  "solution_from_bytes solution =
     (if length solution = SOLUTION_SIZE then Inr (Common solution)
      else if length solution = REGTEST_SOLUTION_SIZE then Inr (Regtest solution)
      else Inl (Parse ''incorrect equihash solution size''))"

definition solution_for_proposal :: equihash_solution where
  "solution_for_proposal = Common (replicate SOLUTION_SIZE 0)"

definition solution_serialize :: "equihash_solution \<Rightarrow> (unit + byte list) outcome" where
  "solution_serialize s = zcash_serialize_bytes (solution_value s)"

definition solution_deserialize ::
  "byte list \<Rightarrow> serialization_error + equihash_solution \<times> byte list" where
  "solution_deserialize bs =
     res_bind (compact_size_message_deserialize bs) (\<lambda>(len, rest).
       if len > SOLUTION_SIZE then Inl (Parse ''incorrect equihash solution size'')
       else res_bind (zcash_deserialize_bytes_external_count len rest) (\<lambda>(solution, rest').
            res_bind (solution_from_bytes solution) (\<lambda>s. Inr (s, rest'))))"

section \<open>Headers\<close>

definition ZCASH_BLOCK_VERSION :: "32 word" where
  "ZCASH_BLOCK_VERSION = 4"

record header =
  version :: "32 word"
  previous_block_hash :: block_hash
  merkle_root :: "byte list"
  commitment_bytes :: "byte list"
  header_time :: int
  difficulty_threshold :: compact_difficulty
  nonce :: "byte list"
  solution :: equihash_solution

definition check_version :: "32 word \<Rightarrow> string + unit" where
  "check_version v =
     (if drop_bit 31 v \<noteq> 0 then Inl ''high bit was set in version field''
      else if v < ZCASH_BLOCK_VERSION then Inl ''version must be at least 4''
      else Inr ())"

text \<open>\<open>Header::zcash_serialize\<close>: a header with a bad version is an I/O error, a time that is no
  unsigned 32-bit number of seconds is a panic.\<close>

definition header_serialize :: "header \<Rightarrow> (unit + byte list) outcome" where
  "header_serialize h =
     (case check_version (version h) of
        Inl _ \<Rightarrow> Done (Inl ())
      | Inr _ \<Rightarrow>
          run_bind (assert_that (0 \<le> header_time h \<and> header_time h < 2 ^ 32)) (\<lambda>_.
          run_bind (solution_serialize (solution h)) (\<lambda>r.
            Done (res_bind r (\<lambda>solution_bytes. Inr (
              write_uint 4 (unat (version h)) @ hash_zcash_serialize (previous_block_hash h) @
              merkle_root h @ commitment_bytes h @ write_uint 4 (nat (header_time h)) @
              write_uint 4 (unat (compact_bits (difficulty_threshold h))) @ nonce h @ solution_bytes))))))"

definition header_deserialize :: "byte list \<Rightarrow> serialization_error + header \<times> byte list" where
  "header_deserialize bs =
     res_bind (read_uint 4 bs) (\<lambda>(v, r1).
     res_bind (map_err Parse (check_version (of_nat v))) (\<lambda>_.
     res_bind (hash_zcash_deserialize r1) (\<lambda>(prev, r2).
     res_bind (read_bytes Io 32 r2) (\<lambda>(root, r3).
     res_bind (read_bytes Io 32 r3) (\<lambda>(commitment, r4).
     res_bind (read_uint 4 r4) (\<lambda>(t, r5).
     res_bind (read_uint 4 r5) (\<lambda>(bits, r6).
     res_bind (read_bytes Io 32 r6) (\<lambda>(n, r7).
     res_bind (solution_deserialize r7) (\<lambda>(s, r8).
       Inr (\<lparr>version = of_nat v, previous_block_hash = prev, merkle_root = root,
             commitment_bytes = commitment, header_time = int t,
             difficulty_threshold = CompactDifficulty (of_nat bits), nonce = n, solution = s\<rparr>, r8))))))))))"

definition counted_header_serialize :: "header \<Rightarrow> (unit + byte list) outcome" where
  "counted_header_serialize h =
     run_bind (header_serialize h) (\<lambda>r.
     run_bind (expect_ok (compact_size_message_try_from 0)) (\<lambda>transaction_count.
     run_bind (compact_size_message_serialize transaction_count) (\<lambda>count_bytes.
       Done (res_bind r (\<lambda>header_bytes. Inr (header_bytes @ count_bytes))))))"

definition counted_header_deserialize :: "byte list \<Rightarrow> serialization_error + header \<times> byte list" where
  "counted_header_deserialize bs =
     res_bind (header_deserialize bs) (\<lambda>(h, r1).
     res_bind (compact_size_message_deserialize r1) (\<lambda>(_, r2). Inr (h, r2)))"

datatype block_time_error = InvalidBlockTime int height block_hash int

definition header_time_is_valid_at ::
  "header \<Rightarrow> int \<Rightarrow> height \<Rightarrow> block_hash \<Rightarrow> block_time_error + unit" where
  "header_time_is_valid_at h now height hash =
     (let two_hours_in_the_future = now + 2 * 60 * 60
      in if header_time h \<le> two_hours_in_the_future then Inr ()
         else Inl (InvalidBlockTime (header_time h) height hash two_hours_in_the_future))"

definition BLOCK_HEADER_LENGTH :: nat where
  "BLOCK_HEADER_LENGTH = INPUT_LENGTH + 32 + 3 + SOLUTION_SIZE"

definition MIN_COUNTED_HEADER_LEN :: nat where
  "MIN_COUNTED_HEADER_LEN = BLOCK_HEADER_LENGTH + 1"

section \<open>Blocks\<close>

definition MAX_BLOCK_BYTES :: nat where
  "MAX_BLOCK_BYTES = 2000000"

definition MIN_TRANSPARENT_INPUT_SIZE :: nat where
  "MIN_TRANSPARENT_INPUT_SIZE = 32 + 4 + 4 + 1"

definition MIN_TRANSPARENT_OUTPUT_SIZE :: nat where
  "MIN_TRANSPARENT_OUTPUT_SIZE = 8 + 1"

definition MIN_TRANSPARENT_TX_SIZE :: nat where
  "MIN_TRANSPARENT_TX_SIZE = MIN_TRANSPARENT_INPUT_SIZE + 4 + MIN_TRANSPARENT_OUTPUT_SIZE"

definition transaction_max_allocation :: nat where
  "transaction_max_allocation = MAX_BLOCK_BYTES div MIN_TRANSPARENT_TX_SIZE"

record 'tx block =
  block_header :: header
  transactions :: "'tx list"

definition block_serialize :: "('tx \<Rightarrow> byte list) \<Rightarrow> 'tx block \<Rightarrow> (unit + byte list) outcome" where
  "block_serialize tx_serialize b =
     run_bind (header_serialize (block_header b)) (\<lambda>r.
       case r of
         Inl e \<Rightarrow> Done (Inl e)
       | Inr header_bytes \<Rightarrow>
           run_bind (vec_zcash_serialize tx_serialize (transactions b)) (\<lambda>tx_bytes.
             Done (Inr (header_bytes @ tx_bytes))))"

definition block_deserialize ::
  "(byte list \<Rightarrow> serialization_error + 'tx \<times> byte list) \<Rightarrow> byte list \<Rightarrow>
   serialization_error + 'tx block \<times> byte list" where
  "block_deserialize tx_deserialize bs =
     (let limited_reader = take MAX_BLOCK_BYTES bs
      in res_bind (header_deserialize limited_reader) (\<lambda>(h, r1).
         res_bind (vec_zcash_deserialize tx_deserialize transaction_max_allocation r1) (\<lambda>(txs, r2).
           Inr (\<lparr>block_header = h, transactions = txs\<rparr>, r2 @ drop MAX_BLOCK_BYTES bs))))"

section \<open>Lemmas\<close>

text \<open>What the Rust types of a header's fields guarantee.\<close>

fun solution_typed :: "equihash_solution \<Rightarrow> bool" where
  "solution_typed (Common s) = (length s = SOLUTION_SIZE)"
| "solution_typed (Regtest s) = (length s = REGTEST_SOLUTION_SIZE)"

definition header_typed :: "header \<Rightarrow> bool" where
  "header_typed h \<longleftrightarrow>
     length (previous_block_hash h) = 32 \<and> length (merkle_root h) = 32 \<and>
     length (commitment_bytes h) = 32 \<and> length (nonce h) = 32 \<and> solution_typed (solution h)"

lemmas solution_sizes = SOLUTION_SIZE_def REGTEST_SOLUTION_SIZE_def

lemma solution_from_bytes_Inr:
  "solution_from_bytes bs = Inr s \<longleftrightarrow> solution_typed s \<and> bs = solution_value s"
  by (cases s) (auto simp: solution_from_bytes_def solution_sizes)

lemma solution_typed_length: "solution_typed s \<Longrightarrow> length (solution_value s) \<le> SOLUTION_SIZE"
  by (cases s) (auto simp: solution_sizes)

lemma solution_serialize_Inr:
  assumes "solution_typed s"
  shows "solution_serialize s =
    Done (Inr (compact_size64_serialize (length (solution_value s)) @ solution_value s))"
  unfolding solution_serialize_def zcash_serialize_bytes_iff
  using solution_typed_length [OF assms] by (simp add: MAX_PROTOCOL_MESSAGE_LEN_def solution_sizes)

lemma solution_deserialize_iff:
  "solution_deserialize bs = Inr (s, rest) \<longleftrightarrow>
   solution_typed s \<and> bs = compact_size64_serialize (length (solution_value s)) @ solution_value s @ rest"
    (is "?lhs \<longleftrightarrow> ?rhs")
proof
  assume ?lhs
  then show ?rhs
    by (auto simp: solution_deserialize_def res_bind_Inr_iff zcash_deserialize_bytes_external_count_def
        compact_size_message_iff read_bytes_Inr solution_from_bytes_Inr split: if_splits)
next
  assume r: ?rhs
  then have len: "length (solution_value s) \<le> SOLUTION_SIZE" by (simp add: solution_typed_length)
  then have "compact_size_message_deserialize bs = Inr (length (solution_value s), solution_value s @ rest)"
    using r by (simp add: compact_size_message_iff MAX_PROTOCOL_MESSAGE_LEN_def solution_sizes)
  moreover have "solution_from_bytes (solution_value s) = Inr s"
    using r by (simp add: solution_from_bytes_Inr)
  ultimately show ?lhs
    using len by (simp add: solution_deserialize_def zcash_deserialize_bytes_external_count_def
        codec_simps MAX_U8_ALLOCATION_def MAX_PROTOCOL_MESSAGE_LEN_def solution_sizes)
qed

lemma high_bit: "drop_bit 31 v = 0 \<longleftrightarrow> \<not> bit v 31" for v :: "32 word"
proof -
  have b: "bit (drop_bit 31 v) n \<longleftrightarrow> n = 0 \<and> bit v 31" for n
    using bit_imp_le_length [of v "31 + n"] by (cases n) (auto simp: bit_drop_bit_eq)
  show ?thesis
  proof
    assume "drop_bit 31 v = 0"
    with b [of 0] show "\<not> bit v 31" by simp
  next
    assume "\<not> bit v 31"
    then show "drop_bit 31 v = 0" by (intro bit_eqI) (simp add: b)
  qed
qed

lemma check_version_cases:
  "check_version v = Inr () \<longleftrightarrow> drop_bit 31 v = 0 \<and> 4 \<le> v"
  by (auto simp: check_version_def ZCASH_BLOCK_VERSION_def)

text \<open>A header is serialized if and only if its version is acceptable and its time fits in 32 bits.\<close>

definition header_ok :: "header \<Rightarrow> bool" where
  "header_ok h \<longleftrightarrow> header_typed h \<and> check_version (version h) = Inr () \<and>
     0 \<le> header_time h \<and> header_time h < 2 ^ 32"

definition header_layout :: "header \<Rightarrow> byte list" where
  "header_layout h =
     write_uint 4 (unat (version h)) @ previous_block_hash h @ merkle_root h @ commitment_bytes h @
     write_uint 4 (nat (header_time h)) @ write_uint 4 (unat (compact_bits (difficulty_threshold h))) @
     nonce h @ compact_size64_serialize (length (solution_value (solution h))) @
     solution_value (solution h)"

lemma header_serialize_layout:
  assumes "header_typed h"
  shows "header_serialize h = Done (Inr p) \<longleftrightarrow> header_ok h \<and> p = header_layout h"
proof (cases "check_version (version h)")
  case (Inr u)
  have "solution_typed (solution h)" using assms by (simp add: header_typed_def)
  then show ?thesis
    using Inr assms
    by (auto simp: header_serialize_def header_ok_def header_layout_def solution_serialize_Inr
        hash_zcash_serialize_def assert_that_def)
qed (auto simp: header_serialize_def header_ok_def)

lemma header_deserialize_layout:
  assumes "header_ok h"
  shows "header_deserialize (header_layout h @ rest) = Inr (h, rest)"
proof -
  have u32: "read_uint 4 (write_uint 4 (unat w) @ r) = Inr (unat w, r)" for w :: "32 word" and r
    using unsigned_less [of w, where ?'a = nat] by (simp add: read_uint_iff)
  have t: "read_uint 4 (write_uint 4 (nat (header_time h)) @ r) = Inr (nat (header_time h), r)" for r
    using assms by (auto simp: read_uint_iff header_ok_def nat_less_iff)
  have s: "solution_deserialize (compact_size64_serialize (length (solution_value (solution h))) @
      solution_value (solution h) @ rest) = Inr (solution h, rest)"
    using assms by (simp add: solution_deserialize_iff header_ok_def header_typed_def)
  have b: "read_bytes Io 32 (xs @ r) = Inr (xs, r)" if "length xs = 32" for xs r
    using that by (simp add: read_bytes_append)
  have d: "map_err Parse (check_version (version h)) = Inr ()"
    using assms by (simp add: header_ok_def)
  show ?thesis
    using assms
    by (simp add: header_deserialize_def header_layout_def hash_zcash_deserialize_def u32 t s b d
        header_ok_def header_typed_def)
qed

lemma header_deserialize_canonical:
  assumes "header_deserialize bs = Inr (h, rest)"
  shows "header_ok h \<and> bs = header_layout h @ rest"
proof -
  from assms obtain v r1 u prev r2 root r3 c r4 t r5 bits r6 n r7 s where
    steps: "read_uint 4 bs = Inr (v, r1)" "map_err Parse (check_version (of_nat v)) = Inr u"
      "hash_zcash_deserialize r1 = Inr (prev, r2)" "read_bytes Io 32 r2 = Inr (root, r3)"
      "read_bytes Io 32 r3 = Inr (c, r4)" "read_uint 4 r4 = Inr (t, r5)"
      "read_uint 4 r5 = Inr (bits, r6)" "read_bytes Io 32 r6 = Inr (n, r7)"
      "solution_deserialize r7 = Inr (s, rest)"
    and h: "h = \<lparr>version = of_nat v, previous_block_hash = prev, merkle_root = root,
             commitment_bytes = c, header_time = int t,
             difficulty_threshold = CompactDifficulty (of_nat bits), nonce = n, solution = s\<rparr>"
    by (auto simp: header_deserialize_def res_bind_Inr_iff)
  have word: "unat (of_nat k :: 32 word) = k" if "k < 256 ^ 4" for k
    using that by (simp add: unsigned_of_nat take_bit_nat_eq_self)
  have "check_version (of_nat v) = Inr ()" using steps(2) by (simp add: map_err_def split: sum.splits)
  with steps h show ?thesis
    by (simp add: header_ok_def header_typed_def header_layout_def read_uint_iff read_bytes_Inr
        hash_zcash_deserialize_def solution_deserialize_iff word)
qed

interpretation header_wire: wire_codec header_layout header_deserialize header_ok
  by unfold_locales (rule header_deserialize_layout, assumption, rule header_deserialize_canonical, assumption)

lemma header_wire_iff:
  "header_deserialize bs = Inr (h, rest) \<longleftrightarrow>
   header_typed h \<and> (\<exists>p. header_serialize h = Done (Inr p) \<and> bs = p @ rest)"
proof -
  have "header_deserialize bs = Inr (h, rest) \<longleftrightarrow> header_ok h \<and> bs = header_layout h @ rest"
    by (rule header_wire.read_iff)
  then show ?thesis
    by (metis header_ok_def header_serialize_layout)
qed

lemma block_serialize_Inr:
  "block_serialize tx_enc b = Done (Inr p) \<longleftrightarrow>
   (\<exists>hp tp. header_serialize (block_header b) = Done (Inr hp) \<and>
            vec_zcash_serialize tx_enc (transactions b) = Done tp \<and> p = hp @ tp)"
  by (cases "header_serialize (block_header b)";
      cases "vec_zcash_serialize tx_enc (transactions b)")
    (auto simp: block_serialize_def split: sum.splits)

lemma take_prefix_iff:
  "(\<exists>r2. take n bs = p @ r2 \<and> rest = r2 @ drop n bs) \<longleftrightarrow> length p \<le> n \<and> bs = p @ rest"
proof
  assume "\<exists>r2. take n bs = p @ r2 \<and> rest = r2 @ drop n bs"
  then obtain r2 where r2: "take n bs = p @ r2" "rest = r2 @ drop n bs" by blast
  have "length p \<le> length (take n bs)" using r2(1) by simp
  then have "length p \<le> n" by simp
  moreover have "bs = p @ rest" using r2 append_take_drop_id [of n bs] by simp
  ultimately show "length p \<le> n \<and> bs = p @ rest" by blast
qed (auto intro!: exI [of _ "take (n - length p) rest"])

context wire_codec
begin

lemma block_iff:
  "block_deserialize dec bs = Inr (b, rest) \<longleftrightarrow>
   header_typed (block_header b) \<and> list_all ok (transactions b) \<and>
   length (transactions b) \<le> transaction_max_allocation \<and>
   (\<exists>p. block_serialize enc b = Done (Inr p) \<and> length p \<le> MAX_BLOCK_BYTES \<and> bs = p @ rest)"
proof -
  define limited where "limited = take MAX_BLOCK_BYTES bs"
  have "block_deserialize dec bs = Inr (b, rest) \<longleftrightarrow>
      (\<exists>r1 r2. header_deserialize limited = Inr (block_header b, r1) \<and>
        vec_zcash_deserialize dec transaction_max_allocation r1 = Inr (transactions b, r2) \<and>
        rest = r2 @ drop MAX_BLOCK_BYTES bs)"
    by (cases b) (auto simp: block_deserialize_def Let_def res_bind_Inr_iff limited_def)
  also have "\<dots> \<longleftrightarrow> header_typed (block_header b) \<and> list_all ok (transactions b) \<and>
      length (transactions b) \<le> transaction_max_allocation \<and>
      (\<exists>p. block_serialize enc b = Done (Inr p) \<and>
           (\<exists>r2. limited = p @ r2 \<and> rest = r2 @ drop MAX_BLOCK_BYTES bs))"
    unfolding header_wire_iff vec_iff block_serialize_Inr by (auto; metis append.assoc)
  also have "\<dots> \<longleftrightarrow> header_typed (block_header b) \<and> list_all ok (transactions b) \<and>
      length (transactions b) \<le> transaction_max_allocation \<and>
      (\<exists>p. block_serialize enc b = Done (Inr p) \<and> length p \<le> MAX_BLOCK_BYTES \<and> bs = p @ rest)"
    unfolding limited_def take_prefix_iff by blast
  finally show ?thesis .
qed

end

section \<open>Properties\<close>

text \<open>The header decoder accepts exactly what the header encoder writes: it returns a header and the
  rest of the input if and only if the header's fields have their array sizes, the encoder
  succeeds on it (acceptable version, time in 32 bits) and the input is that encoding followed by the
  rest. So a header has one encoding and re-encoding a received header reproduces its bytes.\<close>

theorem header_decodes_exactly_serialized:
  "header_deserialize bs = Inr (h, rest) \<longleftrightarrow>
   header_typed h \<and> (\<exists>p. header_serialize h = Done (Inr p) \<and> bs = p @ rest)"
  by (rule header_wire_iff)

text \<open>C28. For a transaction format that decodes exactly from its encoding, the block decoder accepts
  exactly the encodings of blocks of at most two million bytes, whose transactions are valid and no
  more than the preallocation limit, and leaves the rest of the input.\<close>

theorem block_decodes_exactly_serialized:
  assumes "\<And>x bs rest. tx_deserialize bs = Inr (x, rest) \<longleftrightarrow> tx_ok x \<and> bs = tx_serialize x @ rest"
  shows "block_deserialize tx_deserialize bs = Inr (b, rest) \<longleftrightarrow>
    header_typed (block_header b) \<and> list_all tx_ok (transactions b) \<and>
    length (transactions b) \<le> transaction_max_allocation \<and>
    (\<exists>p. block_serialize tx_serialize b = Done (Inr p) \<and> length p \<le> MAX_BLOCK_BYTES \<and> bs = p @ rest)"
proof -
  have "wire_codec tx_serialize tx_deserialize tx_ok" by unfold_locales (simp_all add: assms)
  then show ?thesis by (rule wire_codec.block_iff)
qed

definition sample_header :: header where
  "sample_header = \<lparr>version = 4, previous_block_hash = replicate 32 1, merkle_root = replicate 32 2,
     commitment_bytes = replicate 32 3, header_time = 1477641360,
     difficulty_threshold = CompactDifficulty 0x1f07ffff, nonce = replicate 32 4,
     solution = solution_for_proposal\<rparr>"

lemma sample_header_typed: "header_typed sample_header"
  by (simp add: header_typed_def sample_header_def solution_for_proposal_def)

lemma sample_header_serialize: "header_serialize sample_header = Done (Inr (header_layout sample_header))"
  using sample_header_typed
  by (simp add: header_serialize_layout header_ok_def sample_header_def check_version_cases)

theorem block_decodes_exactly_serialized_witness:
  "block_deserialize hash_zcash_deserialize
     (header_layout sample_header @ write_uint 1 2 @ replicate 32 5 @ replicate 32 7 @ [9]) =
   Inr (\<lparr>block_header = sample_header, transactions = [replicate 32 5, replicate 32 7]\<rparr>, [9])"
proof -
  let ?b = "\<lparr>block_header = sample_header, transactions = [replicate 32 5, replicate 32 7]\<rparr>"
  let ?p = "header_layout sample_header @ write_uint 1 2 @ replicate 32 5 @ replicate 32 7"
  have "vec_zcash_serialize hash_zcash_serialize [replicate 32 5, replicate 32 7] =
        Done (write_uint 1 2 @ replicate 32 5 @ replicate 32 7)"
    by (simp add: vec_zcash_serialize_Done_iff MAX_PROTOCOL_MESSAGE_LEN_def compact_size64_serialize_def
        hash_zcash_serialize_def numeral_2_eq_2)
  then have p: "block_serialize hash_zcash_serialize ?b = Done (Inr ?p)"
    using sample_header_serialize by (auto simp: block_serialize_Inr)
  moreover have "length ?p \<le> MAX_BLOCK_BYTES"
    by (simp add: header_layout_def sample_header_def solution_for_proposal_def SOLUTION_SIZE_def
        compact_size64_serialize_def MAX_BLOCK_BYTES_def)
  ultimately show ?thesis
    unfolding block_decodes_exactly_serialized [OF hash_wire.read_iff]
    using sample_header_typed
    by (auto simp: transaction_max_allocation_def MAX_BLOCK_BYTES_def MIN_TRANSPARENT_TX_SIZE_def
        MIN_TRANSPARENT_INPUT_SIZE_def MIN_TRANSPARENT_OUTPUT_SIZE_def)
qed

text \<open>The version check accepts exactly the versions that are at least 4 as signed 32-bit numbers.\<close>

theorem check_version_is_signed_bound:
  "check_version v = Inr () \<longleftrightarrow> 4 \<le> sint v"
proof (cases "bit v 31")
  case True
  then have "drop_bit 31 v \<noteq> 0" by (simp add: high_bit)
  moreover have "sint v < 0" using True by (simp add: sint_uint bit_unsigned_iff flip: not_le)
  ultimately show ?thesis by (simp add: check_version_cases)
next
  case False
  then have "drop_bit 31 v = 0" by (simp only: high_bit) simp
  then have "uint (drop_bit 31 v) = 0" by (simp only: unsigned_0)
  then have "uint v div 2 ^ 31 = 0"
    by (simp add: drop_bit_eq_div uint_div)
  then have "uint v < 2 ^ 31" using unsigned_greater_eq [of v, where ?'a = int] by simp
  then have "sint v = uint v"
    using False by (simp add: sint_uint bit_unsigned_iff signed_take_bit_eq_if_positive take_bit_int_eq_self)
  with False show ?thesis by (simp add: check_version_cases high_bit word_le_def)
qed

text \<open>The part of an encoded header that Equihash takes as its input has the fixed length the
  verifier slices off, and it is the same for any other nonce and solution; the whole header is as long
  as the header length constant on Mainnet and Testnet.\<close>

theorem equihash_input_excludes_nonce_and_solution:
  assumes "header_typed h" and "header_typed (h\<lparr>nonce := n, solution := s\<rparr>)"
    and "header_serialize h = Done (Inr p)"
  shows "\<exists>q. header_serialize (h\<lparr>nonce := n, solution := s\<rparr>) = Done (Inr q) \<and>
      take INPUT_LENGTH q = take INPUT_LENGTH p \<and> length (take INPUT_LENGTH p) = INPUT_LENGTH \<and>
      (\<forall>bytes. solution h = Common bytes \<longrightarrow> length p = BLOCK_HEADER_LENGTH)"
proof -
  let ?h = "h\<lparr>nonce := n, solution := s\<rparr>"
  have ok: "header_ok h" and p: "p = header_layout h"
    using assms(1,3) by (simp_all add: header_serialize_layout)
  have "header_ok ?h" using ok assms(2) by (simp add: header_ok_def)
  then have "header_serialize ?h = Done (Inr (header_layout ?h))"
    using assms(2) by (simp add: header_serialize_layout)
  moreover have "take INPUT_LENGTH (header_layout ?h) = take INPUT_LENGTH (header_layout h)"
    and "INPUT_LENGTH \<le> length (header_layout h)"
    using assms(1) by (simp_all add: header_layout_def header_typed_def INPUT_LENGTH_def)
  moreover have "length (header_layout h) = BLOCK_HEADER_LENGTH" if "solution h = Common bytes" for bytes
    using assms(1) that
    by (simp add: header_layout_def header_typed_def BLOCK_HEADER_LENGTH_def INPUT_LENGTH_def
        SOLUTION_SIZE_def compact_size64_serialize_def)
  ultimately show ?thesis using p by auto
qed

theorem equihash_input_excludes_nonce_and_solution_witness:
  "\<exists>q. header_serialize (sample_header\<lparr>nonce := replicate 32 6, solution := Regtest (replicate 36 8)\<rparr>) =
       Done (Inr q) \<and> take INPUT_LENGTH q = take INPUT_LENGTH (header_layout sample_header)"
proof -
  have "header_typed (sample_header\<lparr>nonce := replicate 32 6, solution := Regtest (replicate 36 8)\<rparr>)"
    by (simp add: header_typed_def sample_header_def REGTEST_SOLUTION_SIZE_def)
  from equihash_input_excludes_nonce_and_solution [OF sample_header_typed this sample_header_serialize]
  show ?thesis by blast
qed

end
