(* ===== verification/Blocks.thy ===== *)
theory Blocks
  imports Transactions Block_Headers
begin

text \<open>
  Blocks with their transactions: \<open>zebra-chain/src/block.rs\<close>, the commitments of
  \<open>zebra-chain/src/block/commitment.rs\<close>, and the unspent output index of
  \<open>zebra-chain/src/transparent/utxo.rs\<close>.

  The hash functions are arguments on byte strings; the parser of a Sapling root, which belongs to the
  curve library, is a predicate on 32 bytes.
\<close>

type_synonym hash_fn = "byte list \<Rightarrow> byte list"

section \<open>Accessors\<close>

definition coinbase_height :: "transaction block \<Rightarrow> height option" where
  "coinbase_height b =
     (case transactions b of
        [] \<Rightarrow> None
      | tx # _ \<Rightarrow>
          (case tx_inputs tx of
             Coinbase h data sequence # _ \<Rightarrow> Some h
           | _ \<Rightarrow> None))"

definition header_hash :: "hash_fn \<Rightarrow> header \<Rightarrow> block_hash outcome" where
  "header_hash sha256d h =
     run_bind (header_serialize h) (\<lambda>r. run_bind (expect_ok r) (\<lambda>bytes. Done (sha256d bytes)))"

definition block_hash_of :: "hash_fn \<Rightarrow> transaction block \<Rightarrow> block_hash outcome" where
  "block_hash_of sha256d b = header_hash sha256d (block_header b)"

datatype chain_block_error = BranchIdMismatch

definition check_transaction_network_upgrade_consistency ::
  "network \<Rightarrow> transaction block \<Rightarrow> (chain_block_error + unit) outcome" where
  "check_transaction_network_upgrade_consistency net b =
     run_bind (expect_some (coinbase_height b)) (\<lambda>h.
     run_bind (nu_current net h) (\<lambda>block_nu.
       if list_ex (\<lambda>trans_nu. trans_nu \<noteq> block_nu) (List.map_filter tx_network_upgrade (transactions b))
       then Done (Inl BranchIdMismatch)
       else Done (Inr ())))"

definition block_sprout_nullifiers :: "transaction block \<Rightarrow> byte list list" where
  "block_sprout_nullifiers b = concat (map sprout_nullifiers (transactions b))"

definition block_sapling_nullifiers :: "transaction block \<Rightarrow> byte list list" where
  "block_sapling_nullifiers b = concat (map sapling_nullifiers (transactions b))"

definition block_orchard_nullifiers :: "transaction block \<Rightarrow> byte list list" where
  "block_orchard_nullifiers b = concat (map orchard_nullifiers (transactions b))"

definition block_sprout_note_commitments :: "transaction block \<Rightarrow> byte list list" where
  "block_sprout_note_commitments b = concat (map sprout_note_commitments (transactions b))"

definition block_sapling_note_commitments :: "transaction block \<Rightarrow> byte list list" where
  "block_sapling_note_commitments b = concat (map sapling_note_commitments (transactions b))"

definition block_orchard_note_commitments :: "transaction block \<Rightarrow> byte list list" where
  "block_orchard_note_commitments b = concat (map orchard_note_commitments (transactions b))"

definition sapling_transactions_count :: "transaction block \<Rightarrow> nat outcome" where
  "sapling_transactions_count b =
     (let n = length (filter has_sapling_shielded_data (transactions b))
      in run_bind (assert_that (n < 2 ^ 64)) (\<lambda>_. Done n))"

definition orchard_transactions_count :: "transaction block \<Rightarrow> nat outcome" where
  "orchard_transactions_count b =
     (let n = length (filter has_orchard_shielded_data (transactions b))
      in run_bind (assert_that (n < 2 ^ 64)) (\<lambda>_. Done n))"

section \<open>Commitments\<close>

datatype commitment =
    PreSaplingReserved "byte list"
  | FinalSaplingRoot "byte list"
  | ChainHistoryActivationReserved
  | ChainHistoryRoot "byte list"
  | ChainHistoryBlockTxAuthCommitment "byte list"

datatype commitment_error =
    InvalidFinalSaplingRoot "byte list" "byte list"
  | InvalidChainHistoryActivationReserved "byte list"
  | InvalidChainHistoryRoot "byte list" "byte list"
  | InvalidChainHistoryBlockTxAuthCommitment "byte list" "byte list"
  | MissingBlockHeight block_hash
  | InvalidSapingRootBytes

definition CHAIN_HISTORY_ACTIVATION_RESERVED :: "byte list" where
  "CHAIN_HISTORY_ACTIVATION_RESERVED = replicate 32 0"

definition commitment_from_bytes ::
  "(byte list \<Rightarrow> bool) \<Rightarrow> byte list \<Rightarrow> network \<Rightarrow> height \<Rightarrow> (commitment_error + commitment) outcome" where
  "commitment_from_bytes sapling_root_ok bytes net h =
     run_bind (current_with_activation_height net h) (\<lambda>(nu, activation).
       let reserved =
         (if bytes = CHAIN_HISTORY_ACTIVATION_RESERVED then Inr ChainHistoryActivationReserved
          else Inl (InvalidChainHistoryActivationReserved bytes))
       in Done (
         if nu = Genesis \<or> nu = BeforeOverwinter \<or> nu = Overwinter then Inr (PreSaplingReserved bytes)
         else if nu = Sapling \<or> nu = Blossom then
           (if sapling_root_ok bytes then Inr (FinalSaplingRoot bytes) else Inl InvalidSapingRootBytes)
         else if nu = Heartwood \<and> h = activation then reserved
         else if nu = Canopy \<and> Some h = activation_height Heartwood net then reserved
         else if nu = Heartwood \<or> nu = Canopy then Inr (ChainHistoryRoot bytes)
         else Inr (ChainHistoryBlockTxAuthCommitment bytes)))"

definition block_commitment ::
  "hash_fn \<Rightarrow> (byte list \<Rightarrow> bool) \<Rightarrow> transaction block \<Rightarrow> network \<Rightarrow>
   (commitment_error + commitment) outcome" where
  "block_commitment sha256d sapling_root_ok b net =
     (case coinbase_height b of
        None \<Rightarrow> run_bind (block_hash_of sha256d b) (\<lambda>hash. Done (Inl (MissingBlockHeight hash)))
      | Some h \<Rightarrow> commitment_from_bytes sapling_root_ok (commitment_bytes (block_header b)) net h)"

definition from_commitments :: "(string \<Rightarrow> hash_fn) \<Rightarrow> byte list \<Rightarrow> byte list \<Rightarrow> byte list" where
  "from_commitments blake2b history_tree_root auth_data_root =
     blake2b ''ZcashBlockCommit'' (history_tree_root @ auth_data_root @ replicate 32 0)"

section \<open>Unspent outputs\<close>

record utxo =
  utxo_output :: transparent_output
  utxo_height :: height
  from_coinbase :: bool

record ordered_utxo =
  ou_utxo :: utxo
  tx_index_in_block :: nat

definition utxo_new :: "transparent_output \<Rightarrow> height \<Rightarrow> bool \<Rightarrow> utxo" where
  "utxo_new output h coinbase = \<lparr>utxo_output = output, utxo_height = h, from_coinbase = coinbase\<rparr>"

definition utxo_from_location :: "transparent_output \<Rightarrow> height \<Rightarrow> nat \<Rightarrow> utxo" where
  "utxo_from_location output h tx_index = utxo_new output h (tx_index = 0)"

definition ordered_utxo_new :: "transparent_output \<Rightarrow> height \<Rightarrow> nat \<Rightarrow> ordered_utxo" where
  "ordered_utxo_new output h tx_index =
     \<lparr>ou_utxo = utxo_new output h (tx_index = 0), tx_index_in_block = tx_index\<rparr>"

definition utxos_from_ordered_utxos :: "(outpoint \<rightharpoonup> ordered_utxo) \<Rightarrow> (outpoint \<rightharpoonup> utxo)" where
  "utxos_from_ordered_utxos m = (\<lambda>p. map_option ou_utxo (m p))"

definition outputs_from_utxos :: "(outpoint \<rightharpoonup> utxo) \<Rightarrow> (outpoint \<rightharpoonup> transparent_output)" where
  "outputs_from_utxos m = (\<lambda>p. map_option utxo_output (m p))"

fun insert_outputs ::
  "transaction_hash \<Rightarrow> nat \<Rightarrow> height \<Rightarrow> nat \<Rightarrow> transparent_output list \<Rightarrow> (outpoint \<rightharpoonup> ordered_utxo) \<Rightarrow>
   (outpoint \<rightharpoonup> ordered_utxo) outcome" where
  "insert_outputs hash tx_index h i [] m = Done m"
| "insert_outputs hash tx_index h i (output # rest) m =
     run_bind (assert_that (i < 2 ^ 32)) (\<lambda>_.
       insert_outputs hash tx_index h (Suc i) rest
         (m(OutPoint hash i \<mapsto> ordered_utxo_new output h tx_index)))"

definition new_transaction_ordered_outputs ::
  "transaction \<Rightarrow> transaction_hash \<Rightarrow> nat \<Rightarrow> height \<Rightarrow> (outpoint \<rightharpoonup> ordered_utxo) outcome" where
  "new_transaction_ordered_outputs tx hash tx_index h =
     insert_outputs hash tx_index h 0 (tx_outputs tx) Map.empty"

fun extend_ordered_outputs ::
  "height \<Rightarrow> nat \<Rightarrow> (transaction \<times> transaction_hash) list \<Rightarrow> (outpoint \<rightharpoonup> ordered_utxo) \<Rightarrow>
   (outpoint \<rightharpoonup> ordered_utxo) outcome" where
  "extend_ordered_outputs h tx_index [] m = Done m"
| "extend_ordered_outputs h tx_index ((tx, hash) # rest) m =
     run_bind (new_transaction_ordered_outputs tx hash tx_index h) (\<lambda>new.
       extend_ordered_outputs h (Suc tx_index) rest (m ++ new))"

definition new_ordered_outputs_with_height ::
  "transaction block \<Rightarrow> height \<Rightarrow> transaction_hash list \<Rightarrow> (outpoint \<rightharpoonup> ordered_utxo) outcome" where
  "new_ordered_outputs_with_height b h hashes =
     extend_ordered_outputs h 0 (zip (transactions b) hashes) Map.empty"

definition new_ordered_outputs ::
  "transaction block \<Rightarrow> transaction_hash list \<Rightarrow> (outpoint \<rightharpoonup> ordered_utxo) outcome" where
  "new_ordered_outputs b hashes =
     run_bind (expect_some (coinbase_height b)) (\<lambda>h. new_ordered_outputs_with_height b h hashes)"

definition new_outputs ::
  "transaction block \<Rightarrow> transaction_hash list \<Rightarrow> (outpoint \<rightharpoonup> utxo) outcome" where
  "new_outputs b hashes =
     run_bind (new_ordered_outputs b hashes) (\<lambda>m. Done (utxos_from_ordered_utxos m))"

definition tx_value_balance ::
  "transaction \<Rightarrow> (outpoint \<rightharpoonup> utxo) \<Rightarrow> (value_balance_error + value_balance) outcome" where
  "tx_value_balance tx utxos = value_balance_from_outputs tx (outputs_from_utxos utxos)"

section \<open>Lemmas\<close>

lemma insert_outputs_lookup:
  "i + length outs \<le> 2 ^ 32 \<Longrightarrow>
   \<exists>m'. insert_outputs hash tx_index h i outs m = Done m' \<and>
     (\<forall>p. m' p = (if outpoint_hash p = hash \<and> i \<le> outpoint_index p \<and> outpoint_index p < i + length outs
                  then Some (ordered_utxo_new (outs ! (outpoint_index p - i)) h tx_index)
                  else m p))"
proof (induction outs arbitrary: i m)
  case (Cons x outs)
  let ?m = "m(OutPoint hash i \<mapsto> ordered_utxo_new x h tx_index)"
  have "Suc i + length outs \<le> 2 ^ 32" using Cons.prems by simp
  from Cons.IH [OF this, of ?m] obtain m' where m':
    "insert_outputs hash tx_index h (Suc i) outs ?m = Done m'"
    "\<forall>p. m' p = (if outpoint_hash p = hash \<and> Suc i \<le> outpoint_index p \<and> outpoint_index p < Suc i + length outs
                  then Some (ordered_utxo_new (outs ! (outpoint_index p - Suc i)) h tx_index)
                  else ?m p)"
    by blast
  have "m' p = (if outpoint_hash p = hash \<and> i \<le> outpoint_index p \<and> outpoint_index p < i + length (x # outs)
                then Some (ordered_utxo_new ((x # outs) ! (outpoint_index p - i)) h tx_index)
                else m p)" for p
  proof (cases p)
    case (OutPoint hash' j)
    then show ?thesis
      using m'(2) by (cases "j = i") (auto simp: nth_Cons')
  qed
  then show ?case using m'(1) Cons.prems by auto
qed auto

lemma new_transaction_ordered_outputs_lookup:
  assumes "length (tx_outputs tx) \<le> 2 ^ 32"
  shows "new_transaction_ordered_outputs tx hash tx_index h =
    Done (\<lambda>p. if outpoint_hash p = hash \<and> outpoint_index p < length (tx_outputs tx)
              then Some (ordered_utxo_new (tx_outputs tx ! outpoint_index p) h tx_index) else None)"
  using insert_outputs_lookup [of 0 "tx_outputs tx" hash tx_index h Map.empty] assms
  by (auto simp: new_transaction_ordered_outputs_def fun_eq_iff)

text \<open>With distinct hashes, the index of a block has exactly the outputs of its transactions.\<close>

lemma extend_ordered_outputs_lookup:
  assumes "distinct (map snd txs)" and "\<forall>(tx, hash) \<in> set txs. length (tx_outputs tx) \<le> 2 ^ 32"
  shows "\<exists>m'. extend_ordered_outputs h k txs m = Done m' \<and>
    (\<forall>p u. m' p = Some u \<longleftrightarrow>
       (\<exists>i < length txs. outpoint_hash p = snd (txs ! i) \<and> outpoint_index p < length (tx_outputs (fst (txs ! i))) \<and>
          u = ordered_utxo_new (tx_outputs (fst (txs ! i)) ! outpoint_index p) h (k + i)) \<or>
       (\<not> (\<exists>i < length txs. outpoint_hash p = snd (txs ! i) \<and>
              outpoint_index p < length (tx_outputs (fst (txs ! i)))) \<and> m p = Some u))"
  using assms
proof (induction txs arbitrary: k m)
  case (Cons t txs)
  obtain tx hash where t: "t = (tx, hash)" by (cases t)
  let ?new = "\<lambda>p. if outpoint_hash p = hash \<and> outpoint_index p < length (tx_outputs tx)
              then Some (ordered_utxo_new (tx_outputs tx ! outpoint_index p) h k) else None"
  have new: "new_transaction_ordered_outputs tx hash k h = Done ?new"
    using Cons.prems t by (intro new_transaction_ordered_outputs_lookup) auto
  have "distinct (map snd txs)" "\<forall>(tx, hash) \<in> set txs. length (tx_outputs tx) \<le> 2 ^ 32"
    using Cons.prems by auto
  from Cons.IH [OF this, of "Suc k" "m ++ ?new"] obtain m' where m':
    "extend_ordered_outputs h (Suc k) txs (m ++ ?new) = Done m'"
    "\<forall>p u. m' p = Some u \<longleftrightarrow>
       (\<exists>i < length txs. outpoint_hash p = snd (txs ! i) \<and> outpoint_index p < length (tx_outputs (fst (txs ! i))) \<and>
          u = ordered_utxo_new (tx_outputs (fst (txs ! i)) ! outpoint_index p) h (Suc k + i)) \<or>
       (\<not> (\<exists>i < length txs. outpoint_hash p = snd (txs ! i) \<and>
              outpoint_index p < length (tx_outputs (fst (txs ! i)))) \<and> (m ++ ?new) p = Some u)"
    by blast
  have fresh: "snd (txs ! i) \<noteq> hash" if "i < length txs" for i
    using Cons.prems(1) that t by (auto simp: in_set_conv_nth) (metis nth_mem snd_conv image_eqI)
  have "m' p = Some u \<longleftrightarrow>
       (\<exists>i < length (t # txs). outpoint_hash p = snd ((t # txs) ! i) \<and>
          outpoint_index p < length (tx_outputs (fst ((t # txs) ! i))) \<and>
          u = ordered_utxo_new (tx_outputs (fst ((t # txs) ! i)) ! outpoint_index p) h (k + i)) \<or>
       (\<not> (\<exists>i < length (t # txs). outpoint_hash p = snd ((t # txs) ! i) \<and>
              outpoint_index p < length (tx_outputs (fst ((t # txs) ! i)))) \<and> m p = Some u)" for p u
  proof (cases "outpoint_hash p = hash")
    case True
    then have none: "(\<exists>i < length txs. outpoint_hash p = snd (txs ! i) \<and> P i) \<longleftrightarrow> False" for P
      using fresh by metis
    show ?thesis
      using m'(2) [rule_format, of p u] True unfolding none
      by (auto simp: Ex_less_Suc2 t map_add_def none [unfolded True])
  next
    case False
    then show ?thesis
      using m'(2) [rule_format, of p u] by (simp add: Ex_less_Suc2 t map_add_def)
  qed
  then show ?case using m'(1) new by (auto simp: t)
qed simp

lemma new_ordered_outputs_lookup:
  assumes "distinct hashes" and "length hashes = length (transactions b)"
    and "\<forall>tx \<in> set (transactions b). length (tx_outputs tx) \<le> 2 ^ 32"
  shows "\<exists>m. new_ordered_outputs_with_height b h hashes = Done m \<and>
    (\<forall>p u. m p = Some u \<longleftrightarrow>
       (\<exists>i < length hashes. outpoint_hash p = hashes ! i \<and>
          outpoint_index p < length (tx_outputs (transactions b ! i)) \<and>
          u = ordered_utxo_new (tx_outputs (transactions b ! i) ! outpoint_index p) h i))"
proof -
  have "\<forall>(tx, hash) \<in> set (zip (transactions b) hashes). length (tx_outputs tx) \<le> 2 ^ 32"
    using assms(3) by (auto dest: set_zip_leftD)
  then show ?thesis
    using extend_ordered_outputs_lookup [of "zip (transactions b) hashes" h 0 Map.empty] assms(1,2)
    by (simp add: new_ordered_outputs_with_height_def cong: conj_cong)
qed

end
