(* ===== verification/Merkle_Trees.thy ===== *)
theory Merkle_Trees
  imports Blocks
begin

text \<open>
  The transaction and authorizing data Merkle trees: \<open>zebra-chain/src/block/merkle.rs\<close>.

  The hash functions SHA-256d and personalized BLAKE2b-256 are arguments: functions on byte strings.
  The only fact about them that the theorems use is that they return 32 bytes. The binding
  property is stated without any assumption of collision resistance: two different accepted
  transaction lists with the same root and depth contain a collision among the inputs that the two
  computations hash.
\<close>

section \<open>Roots\<close>

definition merkle_hash :: "hash_fn \<Rightarrow> byte list \<Rightarrow> byte list \<Rightarrow> byte list" where
  "merkle_hash sha256d h1 h2 = sha256d (h1 @ h2)"

definition auth_data_hash :: "(string \<Rightarrow> hash_fn) \<Rightarrow> byte list \<Rightarrow> byte list \<Rightarrow> byte list" where
  "auth_data_hash blake2b h1 h2 = blake2b ''ZcashAuthDatHash'' (h1 @ h2)"

fun merkle_layer :: "('h \<Rightarrow> 'h \<Rightarrow> 'h) \<Rightarrow> 'h list \<Rightarrow> 'h list" where
  "merkle_layer f (h1 # h2 # hs) = f h1 h2 # merkle_layer f hs"
| "merkle_layer f [h1] = [f h1 h1]"
| "merkle_layer f [] = []"

lemma length_merkle_layer [simp]: "length (merkle_layer f hs) = (length hs + 1) div 2"
  by (induction f hs rule: merkle_layer.induct) auto

function merkle_loop :: "('h \<Rightarrow> 'h \<Rightarrow> 'h) \<Rightarrow> 'h list \<Rightarrow> 'h list" where
  "merkle_loop f hs = (if length hs > 1 then merkle_loop f (merkle_layer f hs) else hs)"
  by pat_completeness auto

termination merkle_loop
  by (relation "measure (\<lambda>(f, hs). length hs)") auto

declare merkle_loop.simps [simp del]

definition merkle_root_of :: "hash_fn \<Rightarrow> transaction_hash list \<Rightarrow> byte list outcome" where
  "merkle_root_of sha256d hashes =
     (case merkle_loop (merkle_hash sha256d) hashes of h # _ \<Rightarrow> Done h | [] \<Rightarrow> Panic)"

definition AUTH_DIGEST_PLACEHOLDER :: "byte list" where
  "AUTH_DIGEST_PLACEHOLDER = replicate 32 0xFF"

fun tx_auth_digest :: "(transaction \<Rightarrow> byte list) \<Rightarrow> transaction \<Rightarrow> byte list option" where
  "tx_auth_digest digest (V5 nu lock expiry ins outs sapling_data orchard_data) =
     Some (digest (V5 nu lock expiry ins outs sapling_data orchard_data))"
| "tx_auth_digest digest _ = None"

function next_power_of_two_from :: "nat \<Rightarrow> nat \<Rightarrow> nat" where
  "next_power_of_two_from p n = (if 0 < p \<and> p < n then next_power_of_two_from (2 * p) n else p)"
  by pat_completeness auto

termination next_power_of_two_from
  by (relation "measure (\<lambda>(p, n). n - p)") auto

declare next_power_of_two_from.simps [simp del]

definition next_power_of_two :: "nat \<Rightarrow> nat" where
  "next_power_of_two n = next_power_of_two_from 1 n"

text \<open>The authorizing data tree is padded to a full tree, so an odd layer is unreachable.\<close>

fun auth_data_layer :: "('h \<Rightarrow> 'h \<Rightarrow> 'h) \<Rightarrow> 'h list \<Rightarrow> 'h list outcome" where
  "auth_data_layer f (h1 # h2 # hs) = run_bind (auth_data_layer f hs) (\<lambda>rest. Done (f h1 h2 # rest))"
| "auth_data_layer f [h1] = Panic"
| "auth_data_layer f [] = Done []"

lemma length_auth_data_layer: "auth_data_layer f hs = Done hs' \<Longrightarrow> length hs = 2 * length hs'"
  by (induction f hs arbitrary: hs' rule: auth_data_layer.induct) (auto simp: run_bind_Done_iff)

function auth_data_loop :: "('h \<Rightarrow> 'h \<Rightarrow> 'h) \<Rightarrow> 'h list \<Rightarrow> 'h list outcome" where
  "auth_data_loop f hs =
     (if length hs > 1 then
        (case auth_data_layer f hs of Panic \<Rightarrow> Panic | Done hs' \<Rightarrow> auth_data_loop f hs')
      else Done hs)"
  by pat_completeness auto

termination auth_data_loop
  by (relation "measure (\<lambda>(f, hs). length hs)") (auto dest!: length_auth_data_layer)

declare auth_data_loop.simps [simp del]

definition auth_data_root_of :: "(string \<Rightarrow> hash_fn) \<Rightarrow> byte list list \<Rightarrow> byte list outcome" where
  "auth_data_root_of blake2b digests =
     (let pad_count = next_power_of_two (length digests) - length digests;
          hashes = digests @ replicate pad_count (replicate 32 0)
      in run_bind (assert_that (\<exists>k\<le>length hashes. length hashes = 2 ^ k)) (\<lambda>_.
         run_bind (auth_data_loop (auth_data_hash blake2b) hashes) (\<lambda>hs.
           case hs of h # _ \<Rightarrow> Done h | [] \<Rightarrow> Panic)))"

definition auth_data_root ::
  "(string \<Rightarrow> hash_fn) \<Rightarrow> (transaction \<Rightarrow> byte list) \<Rightarrow> transaction list \<Rightarrow> byte list outcome" where
  "auth_data_root blake2b digest txs =
     auth_data_root_of blake2b
       (map (\<lambda>tx. case tx_auth_digest digest tx of Some d \<Rightarrow> d | None \<Rightarrow> AUTH_DIGEST_PLACEHOLDER) txs)"

section \<open>Lemmas\<close>

text \<open>The number of rounds of the loop is the depth of the tree.\<close>

function merkle_depth :: "nat \<Rightarrow> nat" where
  "merkle_depth n = (if n > 1 then Suc (merkle_depth ((n + 1) div 2)) else 0)"
  by pat_completeness auto

termination merkle_depth
  by (relation "measure id") auto

declare merkle_depth.simps [simp del]

lemma length_merkle_loop: "length (merkle_loop f hs) = min 1 (length hs)"
  by (induction f hs rule: merkle_loop.induct) (subst merkle_loop.simps, auto)

lemma merkle_loop_Nil_iff [simp]: "merkle_loop f hs = [] \<longleftrightarrow> hs = []"
  using length_merkle_loop [of f hs] by (cases hs; cases "merkle_loop f hs") auto

lemma merkle_loop_single: "\<exists>h. merkle_loop f (x # hs) = [h]"
  using length_merkle_loop [of f "x # hs"] by (cases "merkle_loop f (x # hs)") auto

lemma merkle_loop_pair: "merkle_loop f [a, b] = [f a b]"
  by (subst merkle_loop.simps, subst merkle_loop.simps) simp

lemma merkle_root_of_iff:
  "merkle_root_of sha256d hashes = Done root \<longleftrightarrow> merkle_loop (merkle_hash sha256d) hashes = [root]"
proof (cases hashes)
  case (Cons x xs)
  then show ?thesis
    using merkle_loop_single [of "merkle_hash sha256d" x xs] by (auto simp: merkle_root_of_def)
qed (simp add: merkle_root_of_def merkle_loop.simps)

lemma merkle_root_total: "merkle_root_of sha256d hashes = Panic \<longleftrightarrow> hashes = []"
proof (cases hashes)
  case (Cons x xs)
  then show ?thesis
    using merkle_loop_single [of "merkle_hash sha256d" x xs] by (auto simp: merkle_root_of_def)
qed (simp add: merkle_root_of_def merkle_loop.simps)

text \<open>The pairs that one round hashes, and the pairs that a whole computation hashes.\<close>

fun merkle_pairs :: "'h list \<Rightarrow> ('h \<times> 'h) list" where
  "merkle_pairs (h1 # h2 # hs) = (h1, h2) # merkle_pairs hs"
| "merkle_pairs [h1] = [(h1, h1)]"
| "merkle_pairs [] = []"

function merkle_evals :: "('h \<Rightarrow> 'h \<Rightarrow> 'h) \<Rightarrow> 'h list \<Rightarrow> ('h \<times> 'h) set" where
  "merkle_evals f hs =
     (if length hs > 1 then set (merkle_pairs hs) \<union> merkle_evals f (merkle_layer f hs) else {})"
  by pat_completeness auto

termination merkle_evals
  by (relation "measure (\<lambda>(f, hs). length hs)") auto

declare merkle_evals.simps [simp del]

lemma merkle_layer_map: "merkle_layer f hs = map (case_prod f) (merkle_pairs hs)"
  by (induction f hs rule: merkle_layer.induct) auto

lemma merkle_pairs_mem: "(a, b) \<in> set (merkle_pairs hs) \<Longrightarrow> a \<in> set hs \<and> b \<in> set hs"
  by (induction hs rule: merkle_pairs.induct) auto

lemma merkle_pairs_distinct: "distinct hs \<Longrightarrow> distinct (merkle_pairs hs)"
  by (induction hs rule: merkle_pairs.induct) (auto dest: merkle_pairs_mem)

text \<open>Without repeated hashes the pairs determine the list: the repeated last hash cannot be a real pair.\<close>

lemma merkle_pairs_inj:
  assumes "distinct xs" and "distinct ys" and "merkle_pairs xs = merkle_pairs ys"
  shows "xs = ys"
  using assms
proof (induction xs arbitrary: ys rule: merkle_pairs.induct)
  case (1 h1 h2 hs)
  then show ?case by (cases ys rule: merkle_pairs.cases) auto
next
  case (2 h1)
  then show ?case by (cases ys rule: merkle_pairs.cases) auto
next
  case 3
  then show ?case by (cases ys rule: merkle_pairs.cases) auto
qed

lemma merkle_layer_distinct:
  assumes "distinct xs" and "inj_on (case_prod f) (set (merkle_pairs xs))"
  shows "distinct (merkle_layer f xs)"
  using assms by (simp add: merkle_layer_map distinct_map merkle_pairs_distinct)

lemma merkle_depth_layer:
  "1 < length hs \<Longrightarrow> merkle_depth (length hs) = Suc (merkle_depth (length (merkle_layer f hs)))"
  by (subst merkle_depth.simps) simp

lemma merkle_depth_0_iff: "merkle_depth n = 0 \<longleftrightarrow> n \<le> 1"
  by (subst merkle_depth.simps) simp

text \<open>The loop is injective on lists of one depth without repetitions, as long as no hashed pairs collide.\<close>

lemma merkle_loop_inj:
  assumes "distinct xs" and "distinct ys" and "merkle_depth (length xs) = merkle_depth (length ys)"
    and "inj_on (case_prod f) (merkle_evals f xs \<union> merkle_evals f ys)"
    and "merkle_loop f xs = merkle_loop f ys"
  shows "xs = ys"
  using assms
proof (induction f xs arbitrary: ys rule: merkle_loop.induct)
  case (1 f xs)
  show ?case
  proof (cases "1 < length xs")
    case True
    then have ys: "1 < length ys"
      using 1(4) merkle_depth_0_iff [of "length xs"] merkle_depth_0_iff [of "length ys"] by auto
    have evals: "merkle_evals f zs = set (merkle_pairs zs) \<union> merkle_evals f (merkle_layer f zs)"
      if "1 < length zs" for zs
      using that by (subst merkle_evals.simps) simp
    have inj: "inj_on (case_prod f) (set (merkle_pairs xs) \<union> set (merkle_pairs ys))"
      using 1(5) evals [OF True] evals [OF ys] by (auto intro: inj_on_subset)
    have "merkle_layer f xs = merkle_layer f ys"
    proof (rule 1(1) [OF True])
      show "distinct (merkle_layer f xs)" "distinct (merkle_layer f ys)"
        using 1(2,3) inj by (auto intro!: merkle_layer_distinct intro: inj_on_subset)
      show "merkle_depth (length (merkle_layer f xs)) = merkle_depth (length (merkle_layer f ys))"
        using 1(4) merkle_depth_layer [OF True] merkle_depth_layer [OF ys] by simp
      show "inj_on (case_prod f) (merkle_evals f (merkle_layer f xs) \<union> merkle_evals f (merkle_layer f ys))"
        using 1(5) evals [OF True] evals [OF ys] by (auto intro: inj_on_subset)
      show "merkle_loop f (merkle_layer f xs) = merkle_loop f (merkle_layer f ys)"
        using 1(6) True ys merkle_loop.simps [of f xs] merkle_loop.simps [of f ys] by simp
    qed
    then have "merkle_pairs xs = merkle_pairs ys"
      using inj by (auto simp: merkle_layer_map inj_on_map_eq_map Un_commute)
    then show ?thesis using 1(2,3) merkle_pairs_inj by blast
  next
    case False
    then have "\<not> 1 < length ys"
      using 1(4) merkle_depth_0_iff [of "length xs"] merkle_depth_0_iff [of "length ys"] by auto
    then show ?thesis
      using False 1(6) merkle_loop.simps [of f xs] merkle_loop.simps [of f ys] by simp
  qed
qed

lemma merkle_evals_length:
  assumes "\<And>x y. length (f x y) = n" and "\<forall>h \<in> set hs. length h = n" and "(a, b) \<in> merkle_evals f hs"
  shows "length a = n \<and> length b = n"
  using assms
proof (induction f hs rule: merkle_evals.induct)
  case (1 f hs)
  have layer: "\<forall>h \<in> set (merkle_layer f hs). length h = n"
    using 1(2) by (auto simp: merkle_layer_map)
  have "1 < length hs" and "(a, b) \<in> set (merkle_pairs hs) \<or> (a, b) \<in> merkle_evals f (merkle_layer f hs)"
    using 1(4) merkle_evals.simps [of f hs] by (auto split: if_splits)
  then show ?case using 1(1) [OF _ 1(2) layer] 1(3) merkle_pairs_mem [of a b hs] by auto
qed

text \<open>The byte strings that the computation of a root passes to SHA-256d.\<close>

definition merkle_inputs :: "hash_fn \<Rightarrow> transaction_hash list \<Rightarrow> byte list set" where
  "merkle_inputs sha256d hashes = (\<lambda>(a, b). a @ b) ` merkle_evals (merkle_hash sha256d) hashes"

lemma merkle_root_binding:
  assumes "\<And>x. length (sha256d x) = 32"
    and "\<forall>h \<in> set xs \<union> set ys. length h = 32"
    and "distinct xs" and "distinct ys" and "merkle_depth (length xs) = merkle_depth (length ys)"
    and "merkle_root_of sha256d xs = Done root" and "merkle_root_of sha256d ys = Done root"
    and "inj_on sha256d (merkle_inputs sha256d xs \<union> merkle_inputs sha256d ys)"
  shows "xs = ys"
proof (rule merkle_loop_inj [OF assms(3,4,5)])
  let ?f = "merkle_hash sha256d"
  let ?E = "merkle_evals ?f xs \<union> merkle_evals ?f ys"
  have len: "length (fst p) = 32" if "p \<in> ?E" for p
    using that merkle_evals_length [of ?f 32 xs "fst p" "snd p"]
      merkle_evals_length [of ?f 32 ys "fst p" "snd p"] assms(1,2)
    by (auto simp: merkle_hash_def)
  have "inj_on (\<lambda>(a, b). a @ b) ?E"
  proof (rule inj_onI)
    fix p q assume "p \<in> ?E" "q \<in> ?E" "(case p of (a, b) \<Rightarrow> a @ b) = (case q of (a, b) \<Rightarrow> a @ b)"
    then show "p = q" using len [of p] len [of q] by (cases p; cases q) simp
  qed
  moreover have "inj_on sha256d ((\<lambda>(a, b). a @ b) ` ?E)"
    using assms(8) by (simp add: merkle_inputs_def image_Un)
  ultimately have "inj_on (sha256d \<circ> (\<lambda>(a, b). a @ b)) ?E" by (rule comp_inj_on)
  moreover have "sha256d \<circ> (\<lambda>(a, b). a @ b) = case_prod ?f"
    by (auto simp: merkle_hash_def fun_eq_iff)
  ultimately show "inj_on (case_prod ?f) ?E" by simp
  show "merkle_loop ?f xs = merkle_loop ?f ys"
    using assms(6,7) by (simp add: merkle_root_of_iff)
qed

text \<open>
  The malleability that the check for duplicates closes: repeating the last transactions of an odd
  list keeps the root.
\<close>

lemma merkle_root_malleable:
  "merkle_root_of sha256d [a, b, c] = merkle_root_of sha256d [a, b, c, c]"
proof -
  have "merkle_loop f [a, b, c] = merkle_loop f [a, b, c, c]" for f :: "byte list \<Rightarrow> byte list \<Rightarrow> byte list"
    by (subst (1 2) merkle_loop.simps) simp
  then show ?thesis by (simp add: merkle_root_of_def)
qed

section \<open>The authorizing data tree is full\<close>

lemma next_power_of_two_from_power:
  assumes "p = 2 ^ j" and "j = 0 \<or> 2 ^ (j - 1) < n"
  shows "\<exists>k. next_power_of_two_from p n = 2 ^ k \<and> n \<le> 2 ^ k \<and> (k = 0 \<or> 2 ^ (k - 1) < n)"
  using assms
proof (induction p n arbitrary: j rule: next_power_of_two_from.induct)
  case (1 p n)
  show ?case
  proof (cases "p < n")
    case True
    then show ?thesis
      using 1(1) [of "Suc j"] 1(2) by (subst (1) next_power_of_two_from.simps) auto
  next
    case False
    then show ?thesis
      using 1(2,3) by (subst (1) next_power_of_two_from.simps) auto
  qed
qed

lemma next_power_of_two_power:
  "\<exists>k. next_power_of_two n = 2 ^ k \<and> n \<le> 2 ^ k \<and> (k = 0 \<or> 2 ^ (k - 1) < n)"
  using next_power_of_two_from_power [of 1 0 n] by (simp add: next_power_of_two_def)

lemma auth_data_layer_even:
  "even (length hs) \<Longrightarrow> auth_data_layer f hs = Done (merkle_layer f hs)"
  by (induction f hs rule: auth_data_layer.induct) auto

lemma auth_data_loop_full:
  "length hs = 2 ^ k \<Longrightarrow> auth_data_loop f hs = Done (merkle_loop f hs)"
proof (induction k arbitrary: hs)
  case 0
  then show ?case by (subst auth_data_loop.simps, subst merkle_loop.simps) simp
next
  case (Suc k)
  then have len: "length hs > 1" and "even (length hs)"
    using Suc.prems one_less_power [of "2::nat" "Suc k"] by simp_all
  then have layer: "auth_data_layer f hs = Done (merkle_layer f hs)"
    by (simp add: auth_data_layer_even)
  have "length (merkle_layer f hs) = 2 ^ k" using Suc.prems by simp
  then show ?case
    using Suc.IH len layer by (subst auth_data_loop.simps, subst merkle_loop.simps) simp
qed

text \<open>
  The reference: the hash of the node at position \<open>j\<close> of level \<open>k\<close> of a full binary tree with the
  leaves \<open>leaf 0, leaf 1, ...\<close>.
\<close>

primrec tree_node :: "('h \<Rightarrow> 'h \<Rightarrow> 'h) \<Rightarrow> (nat \<Rightarrow> 'h) \<Rightarrow> nat \<Rightarrow> nat \<Rightarrow> 'h" where
  "tree_node f leaf 0 j = leaf j"
| "tree_node f leaf (Suc k) j = f (tree_node f leaf k (2 * j)) (tree_node f leaf k (2 * j + 1))"

lemma tree_node_layer:
  "tree_node f (\<lambda>i. f (leaf (2 * i)) (leaf (2 * i + 1))) k j = tree_node f leaf (Suc k) j"
  by (induction k arbitrary: j) simp_all

lemma tree_node_cong:
  assumes "\<And>i. j * 2 ^ k \<le> i \<Longrightarrow> i < (j + 1) * 2 ^ k \<Longrightarrow> leaf i = leaf' i"
  shows "tree_node f leaf k j = tree_node f leaf' k j"
  using assms
proof (induction k arbitrary: j)
  case (Suc k)
  have "tree_node f leaf k (2 * j) = tree_node f leaf' k (2 * j)"
    by (rule Suc.IH) (rule Suc.prems; simp add: algebra_simps)
  moreover have "tree_node f leaf k (2 * j + 1) = tree_node f leaf' k (2 * j + 1)"
    by (rule Suc.IH) (rule Suc.prems; simp add: algebra_simps)
  ultimately show ?case by simp
qed simp

lemma merkle_layer_nth:
  "2 * i + 1 < length hs \<Longrightarrow> merkle_layer f hs ! i = f (hs ! (2 * i)) (hs ! (2 * i + 1))"
proof (induction f hs arbitrary: i rule: merkle_layer.induct)
  case (1 f h1 h2 hs)
  then show ?case by (cases i) auto
qed auto

lemma merkle_loop_full:
  "length hs = 2 ^ k \<Longrightarrow> merkle_loop f hs = [tree_node f ((!) hs) k 0]"
proof (induction k arbitrary: hs)
  case 0
  then show ?case by (subst merkle_loop.simps) (cases hs; simp)
next
  case (Suc k)
  have len: "length (merkle_layer f hs) = 2 ^ k" using Suc.prems by simp
  have "tree_node f ((!) (merkle_layer f hs)) k 0 =
        tree_node f (\<lambda>i. f (hs ! (2 * i)) (hs ! (2 * i + 1))) k 0"
    by (rule tree_node_cong) (simp add: merkle_layer_nth Suc.prems)
  then have "tree_node f ((!) (merkle_layer f hs)) k 0 = tree_node f ((!) hs) (Suc k) 0"
    by (simp only: tree_node_layer)
  moreover have "1 < length hs"
    using Suc.prems one_less_power [of "2::nat" "Suc k"] by simp
  ultimately show ?case
    using Suc.IH [OF len] by (subst merkle_loop.simps) simp
qed

definition auth_leaf :: "(transaction \<Rightarrow> byte list) \<Rightarrow> transaction list \<Rightarrow> nat \<Rightarrow> byte list" where
  "auth_leaf digest txs i =
     (if i < length txs then
        (if tx_version (txs ! i) = 5 then digest (txs ! i) else replicate 32 0xFF)
      else replicate 32 0)"

lemma auth_digest_leaf:
  "(case tx_auth_digest digest tx of Some d \<Rightarrow> d | None \<Rightarrow> AUTH_DIGEST_PLACEHOLDER) =
   (if tx_version tx = 5 then digest tx else replicate 32 0xFF)"
  by (cases tx) (simp_all add: AUTH_DIGEST_PLACEHOLDER_def)

section \<open>Properties\<close>

text \<open>The authorizing data root never reaches the \<open>assert!\<close> or the \<open>unreachable!\<close> of the code, and
  equals the root of the smallest full binary tree that holds the transactions: its leaves are the
  digests of the version 5 transactions, 32 bytes of 0xFF for older ones, and zeros for the padding.\<close>

theorem auth_data_root_is_full_tree:
  "\<exists>k. length txs \<le> 2 ^ k \<and> (k = 0 \<or> 2 ^ (k - 1) < length txs) \<and>
       auth_data_root blake2b digest txs =
       Done (tree_node (auth_data_hash blake2b) (auth_leaf digest txs) k 0)"
proof -
  obtain k where k: "next_power_of_two (length txs) = 2 ^ k" "length txs \<le> 2 ^ k"
    "k = 0 \<or> 2 ^ (k - 1) < length txs"
    using next_power_of_two_power by blast
  let ?leaf = "\<lambda>tx. case tx_auth_digest digest tx of Some d \<Rightarrow> d | None \<Rightarrow> AUTH_DIGEST_PLACEHOLDER"
  let ?hs = "map ?leaf txs @ replicate (2 ^ k - length txs) (replicate 32 0)"
  let ?f = "auth_data_hash blake2b"
  have len: "length ?hs = 2 ^ k" using k(2) by simp
  have "k \<le> 2 ^ k" by (rule less_imp_le) (rule less_exp)
  then have "\<exists>j\<le>length ?hs. length ?hs = 2 ^ j" using len by auto
  moreover have "tree_node ?f ((!) ?hs) k 0 = tree_node ?f (auth_leaf digest txs) k 0"
    using k(2) by (intro tree_node_cong) (auto simp: auth_leaf_def nth_append auth_digest_leaf)
  ultimately have "auth_data_root blake2b digest txs =
      Done (tree_node ?f (auth_leaf digest txs) k 0)"
    using k(1) auth_data_loop_full [OF len, of ?f] merkle_loop_full [OF len, of ?f]
    by (simp add: auth_data_root_def auth_data_root_of_def)
  then show ?thesis using k(2,3) by blast
qed

end
