(* ===== verification/Context_Errors.thy ===== *)
theory Context_Errors
  imports Merkle_Trees
begin

text \<open>
  The interface of the state: the blocks that requests carry, of \<open>zebra-state/src/request.rs\<close>, and the
  errors of contextual validation, \<open>ValidateContextError\<close> of \<open>zebra-state/src/error.rs\<close>. The errors of
  the note commitment and history trees come from the tree libraries and carry no data here.
\<close>

record semantically_verified_block =
  sv_block :: "transaction block"
  sv_hash :: block_hash
  sv_height :: height
  sv_new_outputs :: "outpoint \<rightharpoonup> ordered_utxo"
  sv_transaction_hashes :: "transaction_hash list"
  sv_deferred_pool_balance_change :: "deferred_pool_balance_change option"

record contextually_verified_block =
  cv_block :: "transaction block"
  cv_hash :: block_hash
  cv_height :: height
  cv_new_outputs :: "outpoint \<rightharpoonup> ordered_utxo"
  cv_spent_outputs :: "outpoint \<rightharpoonup> ordered_utxo"
  cv_transaction_hashes :: "transaction_hash list"
  cv_chain_value_pool_change :: value_balance

datatype validate_context_error =
    BlockPreviouslyInvalidated block_hash
  | NotReadyToBeCommitted
  | OrphanedBlock height height
  | NonSequentialBlock height height
  | TimeTooEarly int int
  | TimeTooLate int int
  | InvalidDifficultyThreshold compact_difficulty compact_difficulty
  | DuplicateTransparentSpend outpoint string
  | MissingTransparentOutput outpoint string
  | EarlyTransparentSpend outpoint
  | UnshieldedTransparentCoinbaseSpend outpoint
  | ImmatureTransparentCoinbaseSpend outpoint height height height
  | DuplicateSproutNullifier "byte list" bool
  | DuplicateSaplingNullifier "byte list" bool
  | DuplicateOrchardNullifier "byte list" bool
  | NegativeRemainingTransactionValue amount_error height nat transaction_hash
  | CalculateRemainingTransactionValue amount_error height nat transaction_hash
  | CalculateTransactionValueBalances value_balance_error height nat transaction_hash
  | CalculateBlockChainValueChange value_balance_error height block_hash nat nat
  | AddValuePool value_balance_error value_balance value_balance "height option"
  | NoteCommitmentTreeError
  | HistoryTreeError
  | InvalidBlockCommitment commitment_error
  | UnknownSproutAnchor "byte list" "height option" "nat option" transaction_hash
  | UnknownSaplingAnchor "byte list" "height option" "nat option" transaction_hash
  | UnknownOrchardAnchor "byte list" "height option" "nat option" transaction_hash

end
