(* ===== verification/Transaction_Checks.thy ===== *)
theory Transaction_Checks
  imports Context_Errors
begin

text \<open>
  The checks on single transactions: \<open>zebra-consensus/src/transaction/check.rs\<close>, with the errors of
  \<open>zebra-consensus/src/error.rs\<close> that they and the block checks return, and the coinbase maturity check
  \<open>transparent_coinbase_spend\<close> of \<open>zebra-state/src/service/check/utxo.rs\<close> that they share with the state.

  The transaction identifier and the note decryption come from the transaction library: they are
  arguments.
\<close>

section \<open>Errors\<close>

datatype transaction_error =
    CoinbasePosition
  | CoinbaseAfterFirst
  | CoinbaseHasJoinSplit
  | CoinbaseHasSpend
  | CoinbaseHasEnableSpendsOrchard
  | CoinbaseOutputsNotDecryptable
  | NotCoinbase
  | LockedUntilAfterBlockHeight height
  | LockedUntilAfterBlockTime int
  | CoinbaseExpiryBlockHeight "height option" height transaction_hash
  | MaximumExpiryHeight height bool height transaction_hash
  | ExpiredTransaction height height transaction_hash
  | TxSubsidy subsidy_error
  | NoInputs
  | NoOutputs
  | BothVPubsNonZero
  | DisabledAddToSproutPool
  | TxDuplicateTransparentSpend outpoint
  | TxDuplicateSproutNullifier "byte list"
  | TxDuplicateSaplingNullifier "byte list"
  | TxDuplicateOrchardNullifier "byte list"
  | NotEnoughFlags
  | TxValidateContextError validate_context_error
  | WrongConsensusBranchId
  | MissingConsensusBranchId

section \<open>Checks\<close>

definition lock_time_has_passed ::
  "transaction \<Rightarrow> height \<Rightarrow> int option \<Rightarrow> (transaction_error + unit) outcome" where
  "lock_time_has_passed tx block_height block_time =
     (case tx_lock_time tx of
        Some (LockHeight unlock_height) \<Rightarrow>
          Done (if block_height > unlock_height then Inr ()
                else Inl (LockedUntilAfterBlockHeight unlock_height))
      | Some (LockTime unlock_time) \<Rightarrow>
          run_bind (expect_some block_time) (\<lambda>t.
            Done (if t > unlock_time then Inr () else Inl (LockedUntilAfterBlockTime unlock_time)))
      | None \<Rightarrow> Done (Inr ()))"

definition has_inputs_and_outputs :: "transaction \<Rightarrow> (transaction_error + unit) outcome" where
  "has_inputs_and_outputs tx =
     run_bind (has_transparent_or_shielded_inputs tx) (\<lambda>inputs.
       Done (if \<not> inputs then Inl NoInputs
             else if \<not> has_transparent_or_shielded_outputs tx then Inl NoOutputs
             else Inr ()))"

definition check_has_enough_orchard_flags :: "transaction \<Rightarrow> transaction_error + unit" where
  "check_has_enough_orchard_flags tx =
     (if \<not> has_enough_orchard_flags tx then Inl NotEnoughFlags else Inr ())"

definition coinbase_tx_no_prevout_joinsplit_spend ::
  "transaction \<Rightarrow> (transaction_error + unit) outcome" where
  "coinbase_tx_no_prevout_joinsplit_spend tx =
     (if is_coinbase tx then
        if joinsplit_count tx > 0 then Done (Inl CoinbaseHasJoinSplit)
        else run_bind (sapling_spends_per_anchor tx) (\<lambda>spends.
          if length spends > 0 then Done (Inl CoinbaseHasSpend)
          else case tx_orchard_shielded_data tx of
                 Some d \<Rightarrow>
                   if flags_contains (orchard_data_flags d) ENABLE_SPENDS then Done (Inl CoinbaseHasEnableSpendsOrchard)
                   else Done (Inr ())
               | None \<Rightarrow> Done (Inr ()))
      else Done (Inr ()))"

definition joinsplit_has_vpub_zero :: "transaction \<Rightarrow> (transaction_error + unit) outcome" where
  "joinsplit_has_vpub_zero tx =
     run_bind (amount_zero NonNegative) (\<lambda>zero.
       Done (if list_ex (\<lambda>(old, new). old \<noteq> zero \<and> new \<noteq> zero)
                 (zip (output_values_to_sprout tx) (input_values_from_sprout tx))
             then Inl BothVPubsNonZero else Inr ()))"

definition disabled_add_to_sprout_pool ::
  "transaction \<Rightarrow> height \<Rightarrow> network \<Rightarrow> (transaction_error + unit) outcome" where
  "disabled_add_to_sprout_pool tx h net =
     run_bind (expect_some (activation_height Canopy net)) (\<lambda>canopy_activation_height.
       if h \<ge> canopy_activation_height then
         run_bind (amount_zero NonNegative) (\<lambda>zero.
           Done (if list_ex (\<lambda>old. old \<noteq> zero) (output_values_to_sprout tx)
                 then Inl DisabledAddToSproutPool else Inr ()))
       else Done (Inr ()))"

text \<open>\<open>HashSet::replace\<close> returns the element that was already there.\<close>

fun check_for_duplicates_from :: "'a set \<Rightarrow> ('a \<Rightarrow> transaction_error) \<Rightarrow> 'a list \<Rightarrow> transaction_error + unit" where
  "check_for_duplicates_from seen error_wrapper [] = Inr ()"
| "check_for_duplicates_from seen error_wrapper (item # items) =
     (if item \<in> seen then Inl (error_wrapper item)
      else check_for_duplicates_from (insert item seen) error_wrapper items)"

definition check_for_duplicates :: "'a list \<Rightarrow> ('a \<Rightarrow> transaction_error) \<Rightarrow> transaction_error + unit" where
  "check_for_duplicates items error_wrapper = check_for_duplicates_from {} error_wrapper items"

definition spend_conflicts :: "transaction \<Rightarrow> transaction_error + unit" where
  "spend_conflicts tx =
     res_bind (check_for_duplicates (spent_outpoints tx) TxDuplicateTransparentSpend) (\<lambda>_.
     res_bind (check_for_duplicates (sprout_nullifiers tx) TxDuplicateSproutNullifier) (\<lambda>_.
     res_bind (check_for_duplicates (sapling_nullifiers tx) TxDuplicateSaplingNullifier) (\<lambda>_.
       check_for_duplicates (orchard_nullifiers tx) TxDuplicateOrchardNullifier)))"

definition coinbase_outputs_are_decryptable ::
  "(transaction \<Rightarrow> network \<Rightarrow> height \<Rightarrow> bool) \<Rightarrow> transaction \<Rightarrow> network \<Rightarrow> height \<Rightarrow>
   (transaction_error + unit) outcome" where
  "coinbase_outputs_are_decryptable decrypts_successfully tx net h =
     (if \<not> has_shielded_outputs tx then Done (Inr ())
      else run_bind (expect_some (activation_height Heartwood net)) (\<lambda>heartwood.
        Done (if h < heartwood then Inr ()
              else if \<not> is_coinbase tx then Inl NotCoinbase
              else if \<not> decrypts_successfully tx net h then Inl CoinbaseOutputsNotDecryptable
              else Inr ())))"

definition validate_expiry_height_max ::
  "(transaction \<Rightarrow> transaction_hash) \<Rightarrow> height option \<Rightarrow> bool \<Rightarrow> height \<Rightarrow> transaction \<Rightarrow>
   transaction_error + unit" where
  "validate_expiry_height_max tx_hash expiry coinbase block_height tx =
     (case expiry of
        Some e \<Rightarrow>
          if e > MAX_EXPIRY_HEIGHT then Inl (MaximumExpiryHeight e coinbase block_height (tx_hash tx))
          else Inr ()
      | None \<Rightarrow> Inr ())"

definition validate_expiry_height_mined ::
  "(transaction \<Rightarrow> transaction_hash) \<Rightarrow> height option \<Rightarrow> height \<Rightarrow> transaction \<Rightarrow>
   transaction_error + unit" where
  "validate_expiry_height_mined tx_hash expiry block_height tx =
     (case expiry of
        Some e \<Rightarrow>
          if block_height > e then Inl (ExpiredTransaction e block_height (tx_hash tx)) else Inr ()
      | None \<Rightarrow> Inr ())"

definition coinbase_expiry_height ::
  "(transaction \<Rightarrow> transaction_hash) \<Rightarrow> height \<Rightarrow> transaction \<Rightarrow> network \<Rightarrow>
   transaction_error + unit" where
  "coinbase_expiry_height tx_hash block_height coinbase net =
     (let expiry = tx_expiry_height coinbase;
          max_check = validate_expiry_height_max tx_hash expiry True block_height coinbase
      in case activation_height Nu5 net of
           Some nu5_activation_height \<Rightarrow>
             if block_height \<ge> nu5_activation_height then
               (if expiry \<noteq> Some block_height
                then Inl (CoinbaseExpiryBlockHeight expiry block_height (tx_hash coinbase))
                else Inr ())
             else max_check
         | None \<Rightarrow> max_check)"

definition non_coinbase_expiry_height ::
  "(transaction \<Rightarrow> transaction_hash) \<Rightarrow> height \<Rightarrow> transaction \<Rightarrow> transaction_error + unit" where
  "non_coinbase_expiry_height tx_hash block_height tx =
     (if is_overwintered tx then
        let expiry = tx_expiry_height tx in
        res_bind (validate_expiry_height_max tx_hash expiry False block_height tx) (\<lambda>_.
          validate_expiry_height_mined tx_hash expiry block_height tx)
      else Inr ())"

text \<open>\<open>transparent_coinbase_spend\<close> of the state's checks.\<close>

definition transparent_coinbase_spend ::
  "outpoint \<Rightarrow> coinbase_spend_restriction \<Rightarrow> utxo \<Rightarrow> (validate_context_error + unit) outcome" where
  "transparent_coinbase_spend op restriction u =
     (if \<not> from_coinbase u then Done (Inr ())
      else case restriction of
        CheckCoinbaseMaturity spend_height \<Rightarrow>
          run_bind (expect_some (height_add (utxo_height u) (int MIN_TRANSPARENT_COINBASE_MATURITY)))
            (\<lambda>min_spend_height.
              Done (if spend_height \<ge> min_spend_height then Inr ()
                    else Inl (ImmatureTransparentCoinbaseSpend op spend_height min_spend_height
                                (utxo_height u))))
      | DisallowCoinbaseSpend \<Rightarrow> Done (Inl (UnshieldedTransparentCoinbaseSpend op)))"

fun coinbase_spends_maturity ::
  "network \<Rightarrow> transaction \<Rightarrow> height \<Rightarrow> (outpoint \<rightharpoonup> ordered_utxo) \<Rightarrow> (outpoint \<rightharpoonup> utxo) \<Rightarrow> outpoint list \<Rightarrow>
   (transaction_error + unit) outcome" where
  "coinbase_spends_maturity net tx h block_new_outputs spent_utxos [] = Done (Inr ())"
| "coinbase_spends_maturity net tx h block_new_outputs spent_utxos (spend # spends) =
     run_bind (expect_some (case block_new_outputs spend of
                              Some ou \<Rightarrow> Some (ou_utxo ou)
                            | None \<Rightarrow> spent_utxos spend)) (\<lambda>u.
     run_bind (transparent_coinbase_spend spend (tx_coinbase_spend_restriction tx net h) u) (\<lambda>r.
     try_bind (Done (map_err TxValidateContextError r)) (\<lambda>_.
       coinbase_spends_maturity net tx h block_new_outputs spent_utxos spends)))"

definition tx_transparent_coinbase_spends_maturity ::
  "network \<Rightarrow> transaction \<Rightarrow> height \<Rightarrow> (outpoint \<rightharpoonup> ordered_utxo) \<Rightarrow> (outpoint \<rightharpoonup> utxo) \<Rightarrow>
   (transaction_error + unit) outcome" where
  "tx_transparent_coinbase_spends_maturity net tx h block_new_outputs spent_utxos =
     coinbase_spends_maturity net tx h block_new_outputs spent_utxos (spent_outpoints tx)"

definition check_consensus_branch_id ::
  "transaction \<Rightarrow> height \<Rightarrow> network \<Rightarrow> (transaction_error + unit) outcome" where
  "check_consensus_branch_id tx h net =
     run_bind (nu_current net h) (\<lambda>current_nu.
       Done (if current_nu < Nu5 \<or> tx_version tx < 5 then Inr ()
             else case tx_network_upgrade tx of
                    None \<Rightarrow> Inl MissingConsensusBranchId
                  | Some tx_nu \<Rightarrow>
                      if tx_nu \<noteq> current_nu then Inl WrongConsensusBranchId else Inr ()))"

section \<open>Lemmas\<close>

lemma map_outcome_list_total: "(\<And>x. x \<in> set xs \<Longrightarrow> f x \<noteq> Panic) \<Longrightarrow> map_outcome_list f xs \<noteq> Panic"
  by (induction xs) (auto simp: run_bind_Panic_iff not_Panic_iff)

text \<open>A spend always finds the shared anchor of its transfer data.\<close>

lemma td_spends_per_anchor_total: "td_spends_per_anchor conv td \<noteq> Panic"
  by (cases td) (simp_all add: td_spends_per_anchor_def map_outcome_list_total)

lemma sapling_spends_total: "sapling_spends_per_anchor tx \<noteq> Panic"
  by (induction tx rule: sapling_spends_per_anchor.induct) (simp_all add: td_spends_per_anchor_total)

lemma has_inputs_and_outputs_iff:
  "has_inputs_and_outputs tx = Done (Inr ()) \<longleftrightarrow>
     has_transparent_or_shielded_inputs tx = Done True \<and> has_transparent_or_shielded_outputs tx"
  by (auto simp: has_inputs_and_outputs_def run_bind_Done_iff split: if_splits)

lemma check_for_duplicates_from_iff:
  "check_for_duplicates_from seen wrap xs = Inr () \<longleftrightarrow> distinct xs \<and> set xs \<inter> seen = {}"
  by (induction seen wrap xs rule: check_for_duplicates_from.induct) auto

lemma check_for_duplicates_from_Inl:
  "check_for_duplicates_from seen wrap xs = Inl e \<Longrightarrow>
   \<exists>ys x zs. xs = ys @ x # zs \<and> (x \<in> seen \<or> x \<in> set ys) \<and> e = wrap x"
proof (induction seen wrap xs rule: check_for_duplicates_from.induct)
  case (2 seen wrap item items)
  show ?case
  proof (cases "item \<in> seen")
    case True
    then show ?thesis using 2(2) by (intro exI [of _ "[]"]) auto
  next
    case False
    then obtain ys x zs where "items = ys @ x # zs" "x \<in> insert item seen \<or> x \<in> set ys" "e = wrap x"
      using 2 by auto
    then show ?thesis by (intro exI [of _ "item # ys"] exI [of _ x] exI [of _ zs]) auto
  qed
qed simp

lemma check_for_duplicates_iff: "check_for_duplicates xs wrap = Inr () \<longleftrightarrow> distinct xs"
  by (simp add: check_for_duplicates_def check_for_duplicates_from_iff)

text \<open>The first repeated item is the one that is reported.\<close>

lemma check_for_duplicates_Inl:
  "check_for_duplicates xs wrap = Inl e \<Longrightarrow> \<exists>ys x zs. xs = ys @ x # zs \<and> x \<in> set ys \<and> e = wrap x"
  using check_for_duplicates_from_Inl [of "{}" wrap xs e] by (simp add: check_for_duplicates_def)

lemma transparent_coinbase_spend_iff:
  assumes "utxo_height u \<le> Height_MAX - 100"
  shows "transparent_coinbase_spend op restriction u = Done (Inr ()) \<longleftrightarrow>
    (from_coinbase u \<longrightarrow>
      (case restriction of
         CheckCoinbaseMaturity spend_height \<Rightarrow> utxo_height u + 100 \<le> spend_height
       | DisallowCoinbaseSpend \<Rightarrow> False))"
proof -
  have "height_add (utxo_height u) 100 = Some (utxo_height u + 100)"
    using assms height_add_exact [of "utxo_height u" 100 "utxo_height u + 100"]
    by (simp add: is_u32_def in_i64_def Height_MAX_value)
  then show ?thesis
    by (auto simp: transparent_coinbase_spend_def MIN_TRANSPARENT_COINBASE_MATURITY_def
        split: coinbase_spend_restriction.splits)
qed

lemma transparent_coinbase_spend_total:
  assumes "utxo_height u \<le> Height_MAX - 100"
  shows "transparent_coinbase_spend op restriction u \<noteq> Panic"
  using assms height_add_exact [of "utxo_height u" 100 "utxo_height u + 100"]
  by (auto simp: transparent_coinbase_spend_def MIN_TRANSPARENT_COINBASE_MATURITY_def is_u32_def in_i64_def
      Height_MAX_value split: coinbase_spend_restriction.splits)

definition spent_utxo_of ::
  "(outpoint \<rightharpoonup> ordered_utxo) \<Rightarrow> (outpoint \<rightharpoonup> utxo) \<Rightarrow> outpoint \<Rightarrow> utxo option" where
  "spent_utxo_of block_new_outputs spent_utxos p =
     (case block_new_outputs p of Some ou \<Rightarrow> Some (ou_utxo ou) | None \<Rightarrow> spent_utxos p)"

text \<open>The coinbase rule: the output is 100 blocks old, and the spend has no transparent outputs.\<close>

definition coinbase_rule :: "network \<Rightarrow> transaction \<Rightarrow> height \<Rightarrow> utxo \<Rightarrow> bool" where
  "coinbase_rule net tx h u \<longleftrightarrow>
     (from_coinbase u \<longrightarrow>
        utxo_height u + 100 \<le> h \<and> (tx_outputs tx = [] \<or> should_allow_unshielded_coinbase_spends net))"

lemma coinbase_spend_rule:
  assumes "utxo_height u \<le> Height_MAX - 100"
  shows "transparent_coinbase_spend op (tx_coinbase_spend_restriction tx net h) u = Done (Inr ()) \<longleftrightarrow>
    coinbase_rule net tx h u"
  by (auto simp: transparent_coinbase_spend_iff [OF assms] tx_coinbase_spend_restriction_def coinbase_rule_def)

lemma coinbase_spends_maturity_iff:
  assumes "\<forall>p \<in> set ps. \<exists>u. spent_utxo_of new spent p = Some u \<and> utxo_height u \<le> Height_MAX - 100"
  shows "coinbase_spends_maturity net tx h new spent ps \<noteq> Panic \<and>
    (coinbase_spends_maturity net tx h new spent ps = Done (Inr ()) \<longleftrightarrow>
     (\<forall>p \<in> set ps. coinbase_rule net tx h (the (spent_utxo_of new spent p))))"
  using assms
proof (induction ps)
  case (Cons p ps)
  then obtain u where u: "spent_utxo_of new spent p = Some u" "utxo_height u \<le> Height_MAX - 100" by auto
  then have e: "expect_some (case new p of Some ou \<Rightarrow> Some (ou_utxo ou) | None \<Rightarrow> spent p) = Done u"
    by (simp add: spent_utxo_of_def)
  obtain r where r: "transparent_coinbase_spend p (tx_coinbase_spend_restriction tx net h) u = Done r"
    using transparent_coinbase_spend_total [OF u(2), of p "tx_coinbase_spend_restriction tx net h"]
    by (cases "transparent_coinbase_spend p (tx_coinbase_spend_restriction tx net h) u") simp_all
  have "r = Inr () \<longleftrightarrow> coinbase_rule net tx h u"
    using coinbase_spend_rule [OF u(2), of p tx net h] r by simp
  then show ?case
    using Cons e r u(1) by (cases r) auto
qed simp

section \<open>Properties\<close>

text \<open>C9. \<open>spend_conflicts\<close> accepts exactly the transactions that spend no outpoint twice and reveal no
  Sprout, Sapling or Orchard nullifier twice, each pool on its own. A rejection names an item that
  occurs twice in the transaction.\<close>

theorem spend_conflicts_exact:
  "(spend_conflicts tx = Inr () \<longleftrightarrow>
      distinct (spent_outpoints tx) \<and> distinct (sprout_nullifiers tx) \<and>
      distinct (sapling_nullifiers tx) \<and> distinct (orchard_nullifiers tx)) \<and>
   (\<forall>p. spend_conflicts tx = Inl (TxDuplicateTransparentSpend p) \<longrightarrow>
      (\<exists>ys zs. spent_outpoints tx = ys @ p # zs \<and> p \<in> set ys))"
proof -
  have "\<exists>ys zs. spent_outpoints tx = ys @ p # zs \<and> p \<in> set ys"
    if "spend_conflicts tx = Inl (TxDuplicateTransparentSpend p)" for p
  proof -
    have "check_for_duplicates (spent_outpoints tx) TxDuplicateTransparentSpend =
        Inl (TxDuplicateTransparentSpend p)"
    proof (cases "check_for_duplicates (spent_outpoints tx) TxDuplicateTransparentSpend")
      case (Inr _)
      then have "check_for_duplicates (sprout_nullifiers tx) TxDuplicateSproutNullifier =
            Inl (TxDuplicateTransparentSpend p) \<or>
          check_for_duplicates (sapling_nullifiers tx) TxDuplicateSaplingNullifier =
            Inl (TxDuplicateTransparentSpend p) \<or>
          check_for_duplicates (orchard_nullifiers tx) TxDuplicateOrchardNullifier =
            Inl (TxDuplicateTransparentSpend p)"
        using that by (auto simp: spend_conflicts_def res_bind_def split: sum.splits)
      then show ?thesis by (auto dest!: check_for_duplicates_Inl)
    qed (use that in \<open>simp add: spend_conflicts_def\<close>)
    then show ?thesis using check_for_duplicates_Inl by blast
  qed
  then show ?thesis
    by (auto simp: spend_conflicts_def res_bind_Inr_iff check_for_duplicates_iff)
qed

theorem spend_conflicts_exact_witness:
  "spend_conflicts (V1 [PrevOut (OutPoint [1] 0) [] 0, PrevOut (OutPoint [1] 0) [] 0] [] unlocked) \<noteq> Inr ()"
  using spend_conflicts_exact
    [of "V1 [PrevOut (OutPoint [1] 0) [] 0, PrevOut (OutPoint [1] 0) [] 0] [] unlocked", THEN conjunct1]
  by (simp add: spent_outpoints_def List.map_filter_simps)

text \<open>C8. With every spent output known and created far below the maximum height, the coinbase check of a
  transaction never panics and accepts it exactly when every coinbase output it spends is at least 100
  blocks old and the transaction has no transparent outputs, or its network allows them.\<close>

theorem coinbase_maturity_exact:
  assumes "\<forall>p \<in> set (spent_outpoints tx).
      \<exists>u. spent_utxo_of new spent p = Some u \<and> utxo_height u \<le> Height_MAX - 100"
  shows "tx_transparent_coinbase_spends_maturity net tx h new spent \<noteq> Panic \<and>
    (tx_transparent_coinbase_spends_maturity net tx h new spent = Done (Inr ()) \<longleftrightarrow>
     (\<forall>p \<in> set (spent_outpoints tx). coinbase_rule net tx h (the (spent_utxo_of new spent p))))"
  using coinbase_spends_maturity_iff [OF assms]
  by (simp add: tx_transparent_coinbase_spends_maturity_def)

theorem coinbase_maturity_exact_witness:
  "tx_transparent_coinbase_spends_maturity Mainnet (V1 [PrevOut (OutPoint [1] 0) [] 0] [] unlocked) 199
     Map.empty [OutPoint [1] 0 \<mapsto> utxo_new (sample_output 5) 100 True] \<noteq> Done (Inr ())"
  using coinbase_maturity_exact [of "V1 [PrevOut (OutPoint [1] 0) [] 0] [] unlocked" Map.empty
      "[OutPoint [1] 0 \<mapsto> utxo_new (sample_output 5) 100 True]" Mainnet 199]
  by (simp add: spent_outpoints_def List.map_filter_simps spent_utxo_of_def utxo_new_def coinbase_rule_def
      Height_MAX_value)

end
