(* ===== verification/Addresses.thy ===== *)
theory Addresses
  imports Transparent
begin

text \<open>
  Transparent addresses: \<open>zebra-chain/src/transparent/address.rs\<close>, the opcodes of
  \<open>zebra-chain/src/transparent/opcodes.rs\<close> and the address prefixes of a network kind in
  \<open>zebra-chain/src/parameters/network.rs\<close>. The Base58Check prefixes are constants of the protocol crate:
  they are fields of an argument, and the theorems only use their documented values or that they
  differ.
\<close>

datatype network_kind = MainnetKind | TestnetKind | RegtestKind

datatype transparent_address =
    PayToScriptHash network_kind "byte list"
  | PayToPublicKeyHash network_kind "byte list"
  | Tex network_kind "byte list"

record b58_prefixes =
  mainnet_pubkey :: "byte list"
  mainnet_script :: "byte list"
  testnet_pubkey :: "byte list"
  testnet_script :: "byte list"

fun b58_pubkey_address_prefix :: "b58_prefixes \<Rightarrow> network_kind \<Rightarrow> byte list" where
  "b58_pubkey_address_prefix ps MainnetKind = mainnet_pubkey ps"
| "b58_pubkey_address_prefix ps _ = testnet_pubkey ps"

fun b58_script_address_prefix :: "b58_prefixes \<Rightarrow> network_kind \<Rightarrow> byte list" where
  "b58_script_address_prefix ps MainnetKind = mainnet_script ps"
| "b58_script_address_prefix ps _ = testnet_script ps"

fun tex_address_prefix :: "network_kind \<Rightarrow> byte list" where
  "tex_address_prefix MainnetKind = [0x1c, 0xb8]"
| "tex_address_prefix _ = [0x1d, 0x25]"

fun address_serialize :: "b58_prefixes \<Rightarrow> transparent_address \<Rightarrow> byte list" where
  "address_serialize ps (PayToScriptHash kind script_hash) = b58_script_address_prefix ps kind @ script_hash"
| "address_serialize ps (PayToPublicKeyHash kind pub_key_hash) =
     b58_pubkey_address_prefix ps kind @ pub_key_hash"
| "address_serialize ps (Tex kind validating_key_hash) = tex_address_prefix kind @ validating_key_hash"

definition address_deserialize ::
  "b58_prefixes \<Rightarrow> byte list \<Rightarrow> serialization_error + transparent_address \<times> byte list" where
  "address_deserialize ps bs =
     res_bind (read_bytes Io 2 bs) (\<lambda>(version_bytes, r1).
     res_bind (read_bytes Io 20 r1) (\<lambda>(hash_bytes, r2).
       if version_bytes = mainnet_script ps then Inr (PayToScriptHash MainnetKind hash_bytes, r2)
       else if version_bytes = testnet_script ps then Inr (PayToScriptHash TestnetKind hash_bytes, r2)
       else if version_bytes = mainnet_pubkey ps then Inr (PayToPublicKeyHash MainnetKind hash_bytes, r2)
       else if version_bytes = testnet_pubkey ps then Inr (PayToPublicKeyHash TestnetKind hash_bytes, r2)
       else Inl (Parse ''bad t-addr version/type'')))"

fun address_network_kind :: "transparent_address \<Rightarrow> network_kind" where
  "address_network_kind (PayToScriptHash kind _) = kind"
| "address_network_kind (PayToPublicKeyHash kind _) = kind"
| "address_network_kind (Tex kind _) = kind"

fun is_script_hash :: "transparent_address \<Rightarrow> bool" where
  "is_script_hash (PayToScriptHash _ _) = True"
| "is_script_hash _ = False"

fun address_hash_bytes :: "transparent_address \<Rightarrow> byte list" where
  "address_hash_bytes (PayToScriptHash _ script_hash) = script_hash"
| "address_hash_bytes (PayToPublicKeyHash _ pub_key_hash) = pub_key_hash"
| "address_hash_bytes (Tex _ validating_key_hash) = validating_key_hash"

definition OpCode_Equal :: byte where
  "OpCode_Equal = 0x87"

definition OpCode_Hash160 :: byte where
  "OpCode_Hash160 = 0xa9"

definition OpCode_Push20Bytes :: byte where
  "OpCode_Push20Bytes = 0x14"

definition OpCode_Dup :: byte where
  "OpCode_Dup = 0x76"

definition OpCode_EqualVerify :: byte where
  "OpCode_EqualVerify = 0x88"

definition OpCode_CheckSig :: byte where
  "OpCode_CheckSig = 0xac"

fun address_script :: "transparent_address \<Rightarrow> script" where
  "address_script (PayToScriptHash kind h) = [OpCode_Hash160, OpCode_Push20Bytes] @ h @ [OpCode_Equal]"
| "address_script (PayToPublicKeyHash kind h) =
     [OpCode_Dup, OpCode_Hash160, OpCode_Push20Bytes] @ h @ [OpCode_EqualVerify, OpCode_CheckSig]"
| "address_script (Tex kind h) = []"

lemmas opcode_defs = OpCode_Equal_def OpCode_Hash160_def OpCode_Push20Bytes_def OpCode_Dup_def
  OpCode_EqualVerify_def OpCode_CheckSig_def

lemma script_hash_script_inj:
  "is_script_hash a \<Longrightarrow> address_script a = address_script b \<Longrightarrow>
   is_script_hash b \<and> address_hash_bytes a = address_hash_bytes b"
  by (cases a; cases b) (auto simp: opcode_defs)

definition prefixes_ok :: "b58_prefixes \<Rightarrow> bool" where
  "prefixes_ok ps \<longleftrightarrow>
     distinct [mainnet_script ps, testnet_script ps, mainnet_pubkey ps, testnet_pubkey ps] \<and>
     list_all (\<lambda>p. length p = 2) [mainnet_script ps, testnet_script ps, mainnet_pubkey ps, testnet_pubkey ps]"

text \<open>The values that the protocol crate documents.\<close>

definition protocol_prefixes :: b58_prefixes where
  "protocol_prefixes =
     \<lparr>mainnet_pubkey = [0x1c, 0xb8], mainnet_script = [0x1c, 0xbd],
      testnet_pubkey = [0x1d, 0x25], testnet_script = [0x1c, 0xba]\<rparr>"

lemma protocol_prefixes_ok: "prefixes_ok protocol_prefixes"
  by (simp add: prefixes_ok_def protocol_prefixes_def)

fun wire_kind :: "network_kind \<Rightarrow> network_kind" where
  "wire_kind MainnetKind = MainnetKind"
| "wire_kind _ = TestnetKind"

lemma address_deserialize_prefix:
  assumes "length p = 2" and "length h = 20"
  shows "address_deserialize ps (p @ h @ rest) =
    (if p = mainnet_script ps then Inr (PayToScriptHash MainnetKind h, rest)
     else if p = testnet_script ps then Inr (PayToScriptHash TestnetKind h, rest)
     else if p = mainnet_pubkey ps then Inr (PayToPublicKeyHash MainnetKind h, rest)
     else if p = testnet_pubkey ps then Inr (PayToPublicKeyHash TestnetKind h, rest)
     else Inl (Parse ''bad t-addr version/type''))"
proof -
  have "read_bytes Io 2 (p @ h @ rest) = Inr (p, h @ rest)"
    using read_bytes_append [of p 2 Io "h @ rest"] assms(1) by simp
  moreover have "read_bytes Io 20 (h @ rest) = Inr (h, rest)"
    using read_bytes_append [of h 20 Io rest] assms(2) by simp
  ultimately show ?thesis unfolding address_deserialize_def by (simp only: res_bind_simps prod.case)
qed

lemma address_roundtrip:
  assumes "prefixes_ok ps" and "length h = 20"
  shows "address_deserialize ps (address_serialize ps (PayToScriptHash k h) @ rest) =
           Inr (PayToScriptHash (wire_kind k) h, rest)"
    and "address_deserialize ps (address_serialize ps (PayToPublicKeyHash k h) @ rest) =
           Inr (PayToPublicKeyHash (wire_kind k) h, rest)"
  using assms
  by (cases k; auto simp: address_deserialize_prefix prefixes_ok_def)+

text \<open>C34. A TEX address does not survive its own encoding: the bytes that \<open>zcash_serialize\<close> writes for it,
  which \<open>Display\<close> puts into Base58Check, are those of a pay-to-public-key-hash address, and they are read
  back as one.\<close>

theorem tex_address_reads_back_as_pubkey_hash:
  assumes "mainnet_pubkey ps = [0x1c, 0xb8]" and "testnet_pubkey ps = [0x1d, 0x25]"
    and "prefixes_ok ps" and "length h = 20"
  shows "address_serialize ps (Tex k h) = address_serialize ps (PayToPublicKeyHash k h) \<and>
    address_deserialize ps (address_serialize ps (Tex k h) @ rest) =
      Inr (PayToPublicKeyHash (wire_kind k) h, rest)"
proof -
  have "address_serialize ps (Tex k h) = address_serialize ps (PayToPublicKeyHash k h)"
    using assms(1,2) by (cases k) simp_all
  then show ?thesis using address_roundtrip(2) [OF assms(3,4)] by metis
qed

theorem tex_address_reads_back_as_pubkey_hash_witness:
  "address_deserialize protocol_prefixes
     (address_serialize protocol_prefixes (Tex MainnetKind (replicate 20 7))) =
   Inr (PayToPublicKeyHash MainnetKind (replicate 20 7), [])"
  using tex_address_reads_back_as_pubkey_hash
    [OF _ _ protocol_prefixes_ok, of "replicate 20 7" MainnetKind "[]"]
  by (simp add: protocol_prefixes_def)

end
