(* ===== verification/Adjusted_Difficulties.thy ===== *)
theory Adjusted_Difficulties
  imports Context_Errors
begin

text \<open>
  Difficulty adjustment and the contextual header checks:
  \<open>zebra-state/src/service/check/difficulty.rs\<close> and \<open>zebra-state/src/service/check.rs\<close>, and the target
  difficulty limit of a network in \<open>zebra-chain/src/work/difficulty.rs\<close>.

  Times and durations are whole seconds. All durations that the code divides by 100 are multiples of 75
  seconds times 17, so the divisions by 100 are exact; the division by the damping factor truncates
  towards zero.
\<close>

section \<open>The target difficulty limit\<close>

definition target_difficulty_limit :: "network \<Rightarrow> expanded_difficulty outcome" where
  "target_difficulty_limit net =
     (case net of
        Mainnet \<Rightarrow>
          run_bind (to_compact (2 ^ 243 - 1)) (\<lambda>c.
          run_bind (to_expanded c) expect_some)
      | Testnet params \<Rightarrow> Done (p_target_difficulty_limit params))"

definition with_target_difficulty_limit ::
  "parameters_builder \<Rightarrow> expanded_difficulty \<Rightarrow>
   (parameters_builder_error + parameters_builder) outcome" where
  "with_target_difficulty_limit b limit =
     run_bind (to_compact limit) (\<lambda>c.
     run_bind (to_expanded c) (\<lambda>r.
       Done (case r of
               None \<Rightarrow> Inl InvaildDifficultyLimits
             | Some expanded \<Rightarrow> Inr (b\<lparr>b_target_difficulty_limit := expanded\<rparr>))))"

section \<open>Adjusted difficulty\<close>

definition POW_MEDIAN_BLOCK_SPAN :: nat where
  "POW_MEDIAN_BLOCK_SPAN = 11"

definition POW_ADJUSTMENT_BLOCK_SPAN :: nat where
  "POW_ADJUSTMENT_BLOCK_SPAN = POW_AVERAGING_WINDOW + POW_MEDIAN_BLOCK_SPAN"

definition POW_DAMPING_FACTOR :: int where
  "POW_DAMPING_FACTOR = 4"

definition POW_MAX_ADJUST_UP_PERCENT :: int where
  "POW_MAX_ADJUST_UP_PERCENT = 16"

definition POW_MAX_ADJUST_DOWN_PERCENT :: int where
  "POW_MAX_ADJUST_DOWN_PERCENT = 32"

definition BLOCK_MAX_TIME_SINCE_MEDIAN :: int where
  "BLOCK_MAX_TIME_SINCE_MEDIAN = 90 * 60"

record adjusted_difficulty =
  candidate_time :: int
  candidate_height :: height
  ad_network :: network
  relevant_difficulty_thresholds :: "compact_difficulty list"
  relevant_times :: "int list"

text \<open>\<open>BoundedVec\<close> with lower bound 1 and upper bound \<open>POW_ADJUSTMENT_BLOCK_SPAN\<close>.\<close>

definition bounded_vec :: "'a list \<Rightarrow> 'a list outcome" where
  "bounded_vec xs =
     (if 1 \<le> length xs \<and> length xs \<le> POW_ADJUSTMENT_BLOCK_SPAN then Done xs else Panic)"

definition new_from_header_time ::
  "int \<Rightarrow> height \<Rightarrow> network \<Rightarrow> (compact_difficulty \<times> int) list \<Rightarrow> adjusted_difficulty outcome" where
  "new_from_header_time candidate_header_time previous_block_height net context =
     run_bind (expect_some (height_add previous_block_height 1)) (\<lambda>candidate_h.
     let recent = take POW_ADJUSTMENT_BLOCK_SPAN context in
     run_bind (bounded_vec (map fst recent)) (\<lambda>thresholds.
     run_bind (bounded_vec (map snd recent)) (\<lambda>block_times.
       Done \<lparr>candidate_time = candidate_header_time, candidate_height = candidate_h,
             ad_network = net, relevant_difficulty_thresholds = thresholds,
             relevant_times = block_times\<rparr>)))"

definition new_from_block ::
  "height option \<Rightarrow> int \<Rightarrow> network \<Rightarrow> (compact_difficulty \<times> int) list \<Rightarrow> adjusted_difficulty outcome" where
  "new_from_block block_coinbase_height block_header_time net context =
     run_bind (expect_some block_coinbase_height) (\<lambda>candidate_block_height.
     run_bind (expect_some (height_sub candidate_block_height 1)) (\<lambda>previous_block_height.
       new_from_header_time block_header_time previous_block_height net context))"

definition median_time :: "int list \<Rightarrow> int outcome" where
  "median_time block_times =
     (let sorted_times = sort block_times;
          median_idx = length sorted_times div 2
      in if median_idx < length sorted_times then Done (sorted_times ! median_idx) else Panic)"

definition median_time_past :: "adjusted_difficulty \<Rightarrow> int outcome" where
  "median_time_past ad = median_time (take POW_MEDIAN_BLOCK_SPAN (relevant_times ad))"

definition median_timespan :: "adjusted_difficulty \<Rightarrow> int outcome" where
  "median_timespan ad =
     run_bind (median_time_past ad) (\<lambda>newer_median.
     run_bind
       (if length (relevant_times ad) > POW_AVERAGING_WINDOW
        then median_time (take POW_MEDIAN_BLOCK_SPAN (drop POW_AVERAGING_WINDOW (relevant_times ad)))
        else if relevant_times ad = [] then Panic else Done (last (relevant_times ad)))
       (\<lambda>older_median. Done (newer_median - older_median)))"

definition median_timespan_bounded :: "adjusted_difficulty \<Rightarrow> int outcome" where
  "median_timespan_bounded ad =
     run_bind (averaging_window_timespan_for_height (ad_network ad) (candidate_height ad)) (\<lambda>window.
     run_bind (median_timespan ad) (\<lambda>actual.
     let damped_variance = rust_div (actual - window) POW_DAMPING_FACTOR;
         median_timespan_damped = window + damped_variance;
         min_median_timespan = rust_div (window * (100 - POW_MAX_ADJUST_UP_PERCENT)) 100;
         max_median_timespan = rust_div (window * (100 + POW_MAX_ADJUST_DOWN_PERCENT)) 100
     in Done (max min_median_timespan (min max_median_timespan median_timespan_damped))))"

definition expanded_threshold :: "compact_difficulty \<Rightarrow> expanded_difficulty outcome" where
  "expanded_threshold c = run_bind (to_expanded c) expect_some"

definition mean_target_difficulty :: "adjusted_difficulty \<Rightarrow> expanded_difficulty outcome" where
  "mean_target_difficulty ad =
     (if length (relevant_difficulty_thresholds ad) \<ge> POW_AVERAGING_WINDOW then
        run_bind
          (map_outcome_list expanded_threshold
             (take POW_AVERAGING_WINDOW (relevant_difficulty_thresholds ad))) (\<lambda>targets.
        run_bind (expanded_sum 0 targets) (\<lambda>total_target.
          expanded_div total_target POW_AVERAGING_WINDOW))
      else target_difficulty_limit (ad_network ad))"

text \<open>Converting an \<open>i64\<close> into a \<open>U256\<close> panics for negative values.\<close>

definition u256_from_i64 :: "int \<Rightarrow> nat outcome" where
  "u256_from_i64 x = (if x < 0 then Panic else Done (nat x))"

definition threshold_bits :: "adjusted_difficulty \<Rightarrow> compact_difficulty outcome" where
  "threshold_bits ad =
     run_bind (averaging_window_timespan_for_height (ad_network ad) (candidate_height ad)) (\<lambda>window.
     run_bind (mean_target_difficulty ad) (\<lambda>mean.
     run_bind (u256_from_i64 window) (\<lambda>w.
     run_bind (expanded_div mean w) (\<lambda>quotient.
     run_bind (median_timespan_bounded ad) (\<lambda>timespan.
     run_bind (u256_from_i64 timespan) (\<lambda>t.
     run_bind (expanded_mul quotient t) (\<lambda>threshold.
     run_bind (target_difficulty_limit (ad_network ad)) (\<lambda>limit.
       to_compact (min limit threshold)))))))))"

definition expected_difficulty_threshold :: "adjusted_difficulty \<Rightarrow> compact_difficulty outcome" where
  "expected_difficulty_threshold ad =
     run_bind (if relevant_times ad = [] then Panic else Done (hd (relevant_times ad))) (\<lambda>previous_time.
     run_bind (is_testnet_min_difficulty_block (ad_network ad) (candidate_height ad)
                 (candidate_time ad) previous_time) (\<lambda>min_difficulty.
     if min_difficulty then
       run_bind (assert_that (is_a_test_network (ad_network ad))) (\<lambda>_.
       run_bind (target_difficulty_limit (ad_network ad)) to_compact)
     else threshold_bits ad))"

section \<open>Contextual header checks\<close>

definition block_is_not_orphaned :: "height \<Rightarrow> height \<Rightarrow> validate_context_error + unit" where
  "block_is_not_orphaned finalized_tip_height candidate_h =
     (if candidate_h \<le> finalized_tip_height then Inl (OrphanedBlock candidate_h finalized_tip_height)
      else Inr ())"

definition height_one_more_than_parent_height ::
  "height \<Rightarrow> height \<Rightarrow> validate_context_error + unit" where
  "height_one_more_than_parent_height parent_height candidate_h =
     (if height_add parent_height 1 \<noteq> Some candidate_h
      then Inl (NonSequentialBlock candidate_h parent_height)
      else Inr ())"

definition difficulty_threshold_and_time_are_valid ::
  "compact_difficulty \<Rightarrow> adjusted_difficulty \<Rightarrow> (validate_context_error + unit) outcome" where
  "difficulty_threshold_and_time_are_valid block_difficulty_threshold ad =
     run_bind (median_time_past ad) (\<lambda>mtp.
     let block_time_max = mtp + BLOCK_MAX_TIME_SINCE_MEDIAN in
     run_bind (expect_some (activation_height Genesis (ad_network ad))) (\<lambda>genesis_height.
     if candidate_time ad \<le> mtp \<and> candidate_height ad \<noteq> genesis_height
     then Done (Inl (TimeTooEarly (candidate_time ad) mtp))
     else if is_max_block_time_enforced (ad_network ad) (candidate_height ad) \<and>
             candidate_time ad > block_time_max
     then Done (Inl (TimeTooLate (candidate_time ad) block_time_max))
     else run_bind (expected_difficulty_threshold ad) (\<lambda>expected_difficulty.
       if block_difficulty_threshold \<noteq> expected_difficulty
       then Done (Inl (InvalidDifficultyThreshold block_difficulty_threshold expected_difficulty))
       else Done (Inr ()))))"

abbreviation block_time :: "transaction block \<Rightarrow> int" where
  "block_time b \<equiv> header_time (block_header b)"

abbreviation block_threshold :: "transaction block \<Rightarrow> compact_difficulty" where
  "block_threshold b \<equiv> difficulty_threshold (block_header b)"

definition block_is_valid_for_recent_chain ::
  "height \<Rightarrow> transaction block \<Rightarrow> network \<Rightarrow> height option \<Rightarrow> transaction block list \<Rightarrow>
   (validate_context_error + unit) outcome" where
  "block_is_valid_for_recent_chain semantically_verified_height blk net finalized_tip_height chain =
     run_bind (expect_some finalized_tip_height) (\<lambda>tip.
     try_bind (Done (block_is_not_orphaned tip semantically_verified_height)) (\<lambda>_.
     let relevant_chain = take POW_ADJUSTMENT_BLOCK_SPAN chain in
     case relevant_chain of
       [] \<Rightarrow> Done (Inl NotReadyToBeCommitted)
     | parent_block # _ \<Rightarrow>
         run_bind (expect_some (coinbase_height parent_block)) (\<lambda>parent_height.
         try_bind
           (Done (height_one_more_than_parent_height parent_height semantically_verified_height)) (\<lambda>_.
         run_bind
           (new_from_block (coinbase_height blk) (block_time blk) net
              (map (\<lambda>b. (block_threshold b, block_time b)) relevant_chain)) (\<lambda>ad.
           difficulty_threshold_and_time_are_valid (block_threshold blk) ad)))))"

section \<open>Lemmas\<close>

lemma timespan_cases: "averaging_window_timespan nu = (if nu < Blossom then 2550 else 1275)"
  by (cases nu)
    (simp_all add: averaging_window_timespan_def POW_AVERAGING_WINDOW_def nu_order_defs
      PRE_BLOSSOM_POW_TARGET_SPACING_def POST_BLOSSOM_POW_TARGET_SPACING_def)

lemma median_time_done: "xs \<noteq> [] \<Longrightarrow> median_time xs = Done (sort xs ! (length xs div 2))"
  by (simp add: median_time_def Let_def)

lemma median_timespan_total:
  assumes "relevant_times ad \<noteq> []"
  shows "\<exists>t. median_timespan ad = Done t"
proof -
  have "take POW_MEDIAN_BLOCK_SPAN (relevant_times ad) \<noteq> []"
    using assms by (simp add: POW_MEDIAN_BLOCK_SPAN_def)
  moreover have "take POW_MEDIAN_BLOCK_SPAN (drop POW_AVERAGING_WINDOW (relevant_times ad)) \<noteq> []"
    if "length (relevant_times ad) > POW_AVERAGING_WINDOW"
    using that by (simp add: POW_MEDIAN_BLOCK_SPAN_def)
  ultimately show ?thesis
    using assms by (auto simp: median_timespan_def median_time_past_def median_time_done)
qed

lemma bounded_timespan:
  assumes "schedule_ok (activation_list (ad_network ad))" and "relevant_times ad \<noteq> []"
  shows "\<exists>w b. averaging_window_timespan_for_height (ad_network ad) (candidate_height ad) = Done w \<and>
               median_timespan_bounded ad = Done b \<and> w \<in> {2550, 1275} \<and>
               84 * w \<le> 100 * b \<and> 100 * b \<le> 132 * w"
proof -
  obtain nu where nu: "nu_current (ad_network ad) (candidate_height ad) = Done nu"
    using nu_current_schedule [OF assms(1)] by blast
  then have w: "averaging_window_timespan_for_height (ad_network ad) (candidate_height ad) =
                Done (if nu < Blossom then 2550 else 1275)"
    by (simp add: averaging_window_timespan_for_height_def timespan_cases)
  obtain t where t: "median_timespan ad = Done t" using median_timespan_total [OF assms(2)] by blast
  show ?thesis
    using w t
    by (auto simp: median_timespan_bounded_def POW_MAX_ADJUST_UP_PERCENT_def
        POW_MAX_ADJUST_DOWN_PERCENT_def rust_div_nonneg)
qed

text \<open>Thresholds of earlier blocks: valid, and between the averaging window length and the limit.\<close>

definition threshold_in :: "nat \<Rightarrow> compact_difficulty \<Rightarrow> bool" where
  "threshold_in limit c =
     (case to_expanded c of Done (Some t) \<Rightarrow> 2550 \<le> t \<and> t \<le> limit | _ \<Rightarrow> False)"

lemma threshold_in_iff:
  "threshold_in limit c \<longleftrightarrow> (\<exists>t. to_expanded c = Done (Some t) \<and> 2550 \<le> t \<and> t \<le> limit)"
  by (auto simp: threshold_in_def split: outcome.splits option.splits)

lemma expanded_sum_exact:
  "acc + sum_list ts < 2 ^ 256 \<Longrightarrow> expanded_sum acc ts = Done (acc + sum_list ts)"
  by (induction ts arbitrary: acc) (simp_all add: u256_add_def u256_checked_def)

lemma sum_list_range:
  "list_all (\<lambda>t. lo \<le> t \<and> t \<le> hi) ts \<Longrightarrow>
   length ts * lo \<le> sum_list ts \<and> sum_list ts \<le> length ts * (hi :: nat)"
  by (induction ts) auto

lemma expanded_thresholds:
  "list_all (threshold_in limit) cs \<Longrightarrow>
   \<exists>ts. map_outcome_list expanded_threshold cs = Done ts \<and> length ts = length cs \<and>
        list_all (\<lambda>t. 2550 \<le> t \<and> t \<le> limit) ts"
proof (induction cs)
  case (Cons c cs)
  then obtain t ts where "to_expanded c = Done (Some t)" "2550 \<le> t" "t \<le> limit"
    "map_outcome_list expanded_threshold cs = Done ts" "length ts = length cs"
    "list_all (\<lambda>t. 2550 \<le> t \<and> t \<le> limit) ts"
    by (auto simp: threshold_in_iff)
  moreover from this have "expanded_threshold c = Done t" by (simp add: expanded_threshold_def)
  ultimately show ?case by simp
qed simp

lemma mean_target_range:
  assumes "target_difficulty_limit (ad_network ad) = Done limit" and "2550 \<le> limit" and "17 * limit < 2 ^ 256"
    and "list_all (threshold_in limit) (relevant_difficulty_thresholds ad)"
  shows "\<exists>mean. mean_target_difficulty ad = Done mean \<and> 2550 \<le> mean \<and> mean \<le> limit"
proof (cases "17 \<le> length (relevant_difficulty_thresholds ad)")
  case True
  let ?cs = "take 17 (relevant_difficulty_thresholds ad)"
  have "list_all (threshold_in limit) ?cs" using assms(4) by (auto simp: list_all_iff dest: in_set_takeD)
  then obtain ts where ts: "map_outcome_list expanded_threshold ?cs = Done ts" "length ts = 17"
    "list_all (\<lambda>t. 2550 \<le> t \<and> t \<le> limit) ts"
    using expanded_thresholds [of limit ?cs] True by auto
  have r: "17 * 2550 \<le> sum_list ts" "sum_list ts \<le> 17 * limit"
    using sum_list_range [OF ts(3)] ts(2) by simp_all
  then have "expanded_sum 0 ts = Done (sum_list ts)"
    using expanded_sum_exact [of 0 ts] assms(3) by simp
  then show ?thesis
    using True ts(1) r
    by (auto simp: mean_target_difficulty_def POW_AVERAGING_WINDOW_def expanded_div_def u256_div_def
        less_eq_div_iff_mult_less_eq div_le_mono [of "sum_list ts" "17 * limit" 17, simplified])
next
  case False
  then show ?thesis using assms(1,2) by (simp add: mean_target_difficulty_def POW_AVERAGING_WINDOW_def)
qed

lemma adjustment_bounds:
  fixes mean w b :: nat
  assumes "w \<le> 2550" and "0 < w" and "84 * w \<le> 100 * b" and "100 * b \<le> 132 * w"
  shows "100 * (mean div w * b) \<le> 132 * mean" and "84 * (mean - 2550) \<le> 100 * (mean div w * b)"
proof -
  have "mean div w * (100 * b) \<le> mean div w * (132 * w)" using assms(4) by simp
  also have "\<dots> = 132 * (mean div w * w)" by (simp add: ac_simps)
  also have "\<dots> \<le> 132 * mean" by simp
  finally show "100 * (mean div w * b) \<le> 132 * mean" by (simp add: ac_simps)
  have "mean - w \<le> mean div w * w"
    using mod_less_divisor [OF assms(2), of mean] div_mult_mod_eq [of mean w] by linarith
  then have "84 * (mean - 2550) \<le> 84 * (mean div w * w)" using assms(1) by simp
  also have "\<dots> = mean div w * (84 * w)" by (simp add: ac_simps)
  also have "\<dots> \<le> mean div w * (100 * b)" using assms(3) by simp
  finally show "84 * (mean - 2550) \<le> 100 * (mean div w * b)" by (simp add: ac_simps)
qed

lemma compact_of_positive:
  assumes "0 < x" and "is_u256 x"
  shows "\<exists>c y. to_compact x = Done c \<and> to_expanded c = Done (Some y) \<and> 0 < y \<and> y \<le> x"
proof -
  have "to_expanded (compact_of (compact_mantissa x) (compact_size x)) = Done (valid_target (compact_round x))"
    using to_expanded_compact_of [of "compact_mantissa x" "compact_size x"]
      compact_mantissa_range [OF assms(1)] u256_size [OF assms(2)]
    by (simp add: compact_round_target)
  moreover have "valid_target (compact_round x) = Some (compact_round x)"
    using compact_round_same(3) [OF assms(1)] compact_round_le [of x] assms(2)
    by (auto simp: valid_target_def is_u256_def)
  ultimately show ?thesis
    using to_compact_exact [OF assms] compact_round_same(3) [OF assms(1)] compact_round_le [of x] by auto
qed

lemma compact_expanded:
  assumes "0 < x" and "is_u256 x"
  shows "run_bind (to_compact x) to_expanded = Done (valid_target (compact_round x))"
  using to_expanded_compact_of [of "compact_mantissa x" "compact_size x"] to_compact_exact [OF assms]
    compact_mantissa_range [OF assms(1)] u256_size [OF assms(2)]
  by (simp add: compact_round_target)

lemma mainnet_limit: "target_difficulty_limit Mainnet = Done (0x7ffff * 256 ^ 28)"
proof -
  obtain x :: nat where x: "x = 2 ^ 243 - 1" by blast
  have pos: "0 < x" "is_u256 x" "\<not> x < 2 ^ 23" by (simp_all add: is_u256_def x)
  have "u256_bits x = Suc 242" by (rule u256_bits_eqI) (simp_all add: x)
  then have "compact_size x = 31" by (simp add: compact_size_def)
  then have "compact_round x = x div 256 ^ 28 * 256 ^ 28" using pos(3) by (simp add: compact_round_def)
  then have r: "compact_round x = 0x7ffff * 256 ^ 28" by (simp add: x)
  have "valid_target (0x7ffff * 256 ^ 28) = Some (0x7ffff * 256 ^ 28)" by (simp add: valid_target_def)
  then have "run_bind (to_compact x) to_expanded = Done (Some (0x7ffff * 256 ^ 28))"
    unfolding compact_expanded [OF pos(1,2)] r by simp
  then show ?thesis
    unfolding target_difficulty_limit_def network.case x [symmetric] by (cases "to_compact x") simp_all
qed

lemma genesis_activation: "schedule_ok (activation_list net) \<Longrightarrow> activation_height Genesis net = Some 0"
  by (cases "activation_list net")
    (auto simp: activation_height_schedule schedule_ok_def nu_order_defs)

lemma header_checks_ok:
  assumes "schedule_ok (activation_list (ad_network ad))"
  shows "difficulty_threshold_and_time_are_valid c ad = Done (Inr ()) \<longleftrightarrow>
         (\<exists>mtp. median_time_past ad = Done mtp \<and>
                (mtp < candidate_time ad \<or> candidate_height ad = 0) \<and>
                (is_max_block_time_enforced (ad_network ad) (candidate_height ad) \<longrightarrow>
                   candidate_time ad \<le> mtp + 90 * 60) \<and>
                expected_difficulty_threshold ad = Done c)"
  using genesis_activation [OF assms]
  by (cases "median_time_past ad"; cases "expected_difficulty_threshold ad")
    (auto simp: difficulty_threshold_and_time_are_valid_def BLOCK_MAX_TIME_SINCE_MEDIAN_def Let_def)

lemma adjusted_threshold_total:
  assumes "schedule_ok (activation_list (ad_network ad))" and "relevant_times ad \<noteq> []"
    and "target_difficulty_limit (ad_network ad) = Done limit"
    and "2550 \<le> limit" and "17 * limit < 2 ^ 256"
    and "list_all (threshold_in limit) (relevant_difficulty_thresholds ad)"
  shows "\<exists>mean thr c y. mean_target_difficulty ad = Done mean \<and> threshold_bits ad = Done c \<and>
           to_compact thr = Done c \<and> to_expanded c = Done (Some y) \<and>
           0 < y \<and> y \<le> thr \<and> thr \<le> limit \<and> 100 * thr \<le> 132 * mean \<and>
           (thr = limit \<or> 84 * (mean - 2550) \<le> 100 * thr)"
proof -
  obtain w b where wb: "averaging_window_timespan_for_height (ad_network ad) (candidate_height ad) = Done w"
    "median_timespan_bounded ad = Done b" "w \<in> {2550, 1275}" "84 * w \<le> 100 * b" "100 * b \<le> 132 * w"
    using bounded_timespan [OF assms(1,2)] by blast
  obtain mean where mean: "mean_target_difficulty ad = Done mean" "2550 \<le> mean" "mean \<le> limit"
    using mean_target_range [OF assms(3-6)] by blast
  have n: "nat w \<le> 2550" "0 < nat w" "84 * nat w \<le> 100 * nat b" "100 * nat b \<le> 132 * nat w" "0 < nat b"
    using wb(3-5) by auto
  let ?thr = "mean div nat w * nat b"
  note bounds = adjustment_bounds [OF n(1-4), of mean]
  have "1 \<le> mean div nat w" using mean(2) n(1,2) by (simp add: Suc_le_eq div_greater_zero_iff)
  then have pos: "0 < ?thr" using n(5) by simp
  have fits: "?thr < 2 ^ 256" using bounds(1) mean(3) assms(5) by linarith
  have u: "is_u256 (min limit ?thr)" "0 < min limit ?thr" using fits pos assms(4) by (auto simp: is_u256_def)
  obtain c y where c: "to_compact (min limit ?thr) = Done c" "to_expanded c = Done (Some y)" "0 < y"
    "y \<le> min limit ?thr"
    using compact_of_positive [OF u(2,1)] by blast
  have "threshold_bits ad = Done c"
    using wb(1,2,3) mean(1) assms(3) c(1) fits n
    by (auto simp: threshold_bits_def u256_from_i64_def expanded_div_def u256_div_def expanded_mul_def
        u256_mul_def u256_checked_def)
  moreover have "100 * min limit ?thr \<le> 132 * mean" using bounds(1) by linarith
  moreover have "min limit ?thr = limit \<or> 84 * (mean - 2550) \<le> 100 * min limit ?thr"
    using bounds(2) by linarith
  ultimately show ?thesis
    using mean(1) c by (intro exI [of _ mean] exI [of _ "min limit ?thr"] exI [of _ c] exI [of _ y]) simp
qed

section \<open>Properties\<close>

text \<open>C27. The adjusted difficulty threshold is total and stays within the protocol's bounds: when the thresholds of the
  preceding blocks are valid, not below the window length and at most the limit of a network whose
  limit times 17 fits in 256 bits, the threshold is computed without panics from a target that is at
  most 132 percent of the mean target and at least 84 percent of it up to one window length, unless
  it is capped at the limit, and it expands to a positive target of at most the limit, so it is
  itself a valid threshold for later blocks.\<close>

theorem adjusted_threshold_within_bounds:
  assumes "schedule_ok (activation_list (ad_network ad))" and "relevant_times ad \<noteq> []"
    and "target_difficulty_limit (ad_network ad) = Done limit"
    and "2550 \<le> limit" and "17 * limit < 2 ^ 256"
    and "list_all (threshold_in limit) (relevant_difficulty_thresholds ad)"
  shows "\<exists>mean thr c y. mean_target_difficulty ad = Done mean \<and> threshold_bits ad = Done c \<and>
           to_compact thr = Done c \<and> to_expanded c = Done (Some y) \<and>
           0 < y \<and> y \<le> thr \<and> thr \<le> limit \<and> 100 * thr \<le> 132 * mean \<and>
           (thr = limit \<or> 84 * (mean - 2550) \<le> 100 * thr)"
  using assms by (rule adjusted_threshold_total)

definition sample_adjustment :: adjusted_difficulty where
  "sample_adjustment =
     \<lparr>candidate_time = 3000, candidate_height = 2000000, ad_network = Mainnet,
      relevant_difficulty_thresholds = replicate 28 (CompactDifficulty 0x1f07ffff),
      relevant_times = replicate 28 1000\<rparr>"

theorem adjusted_threshold_within_bounds_witness:
  "\<exists>c y. threshold_bits sample_adjustment = Done c \<and> to_expanded c = Done (Some y) \<and> 0 < y"
proof -
  have "to_expanded (CompactDifficulty 0x1f07ffff) = Done (Some (0x7ffff * 256 ^ 28))"
    by (simp add: to_expanded_target compact_target_def valid_target_def bit_iff_odd)
  then have "list_all (threshold_in (0x7ffff * 256 ^ 28)) (relevant_difficulty_thresholds sample_adjustment)"
    by (simp add: sample_adjustment_def threshold_in_def list_all_iff)
  moreover have "schedule_ok (activation_list (ad_network sample_adjustment))" "relevant_times sample_adjustment \<noteq> []"
    "target_difficulty_limit (ad_network sample_adjustment) = Done (0x7ffff * 256 ^ 28)"
    using schedule_ok_mainnet mainnet_limit by (simp_all add: sample_adjustment_def)
  moreover have "2550 \<le> (0x7ffff * 256 ^ 28 :: nat)" "17 * (0x7ffff * 256 ^ 28) < (2 ^ 256 :: nat)" by simp_all
  ultimately show ?thesis using adjusted_threshold_within_bounds [of sample_adjustment "0x7ffff * 256 ^ 28"] by blast
qed


definition sample_chain_block :: "height \<Rightarrow> int \<Rightarrow> compact_difficulty \<Rightarrow> transaction block" where
  "sample_chain_block h t c =
     \<lparr>block_header = sample_header\<lparr>difficulty_threshold := c, header_time := t\<rparr>,
      transactions = [V1 [Coinbase h [] 0] [] unlocked]\<rparr>"


end
