(* ===== verification/Block_Checks.thy ===== *)
theory Block_Checks
  imports Transaction_Checks Addresses Adjusted_Difficulties "HOL-Library.Multiset"
begin

text \<open>
  Semantic verification of blocks: the checks of \<open>zebra-consensus/src/block/check.rs\<close> and their
  composition in \<open>SemanticBlockVerifier::call\<close> of \<open>zebra-consensus/src/block.rs\<close>.

  The address parser, the Equihash verifier, the transaction verifier and the hash functions are
  arguments, as is the order in which the transaction verifier answers.
\<close>

section \<open>Errors\<close>

datatype block_error =
    BlockTransactionError transaction_error
  | NoTransactions
  | BadMerkleRoot "byte list" "byte list"
  | DuplicateTransaction
  | AlreadyInChain block_hash
  | MissingHeight block_hash
  | MaxHeight height block_hash height
  | InvalidDifficulty height block_hash
  | TargetDifficultyLimit height block_hash expanded_difficulty network expanded_difficulty
  | DifficultyFilter height block_hash expanded_difficulty network
  | WrongTransactionConsensusBranchId
  | TooManyTransparentSignatureOperations height block_hash nat
  | SummingMinerFees height block_hash amount_error
  | OtherBlockError string

definition from_subsidy_error :: "subsidy_error \<Rightarrow> block_error" where
  "from_subsidy_error e = BlockTransactionError (TxSubsidy e)"

definition block_from_amount_error :: "amount_error \<Rightarrow> block_error" where
  "block_from_amount_error e = from_subsidy_error (InvalidAmount e)"

fun is_duplicate_request :: "block_error \<Rightarrow> bool" where
  "is_duplicate_request (AlreadyInChain _) = True"
| "is_duplicate_request _ = False"

fun misbehavior_score :: "block_error \<Rightarrow> nat" where
  "misbehavior_score (MissingHeight _) = 100"
| "misbehavior_score (MaxHeight _ _ _) = 100"
| "misbehavior_score (InvalidDifficulty _ _) = 100"
| "misbehavior_score (TargetDifficultyLimit _ _ _ _ _) = 100"
| "misbehavior_score (DifficultyFilter _ _ _ _) = 100"
| "misbehavior_score _ = 0"

section \<open>Structure and proof of work\<close>

definition coinbase_is_first :: "transaction block \<Rightarrow> block_error + transaction" where
  "coinbase_is_first b =
     (case transactions b of
        [] \<Rightarrow> Inl NoTransactions
      | first # rest \<Rightarrow>
          if \<not> is_coinbase first then Inl (BlockTransactionError CoinbasePosition)
          else if \<not> list_all is_valid_non_coinbase rest then Inl (BlockTransactionError CoinbaseAfterFirst)
          else Inr first)"

definition difficulty_threshold_is_valid ::
  "header \<Rightarrow> network \<Rightarrow> height \<Rightarrow> block_hash \<Rightarrow> (block_error + expanded_difficulty) outcome" where
  "difficulty_threshold_is_valid h net height_of_block hash =
     run_bind (to_expanded (difficulty_threshold h)) (\<lambda>e.
       case e of
         None \<Rightarrow> Done (Inl (InvalidDifficulty height_of_block hash))
       | Some threshold \<Rightarrow>
           run_bind (target_difficulty_limit net) (\<lambda>limit.
             Done (if threshold > limit
                   then Inl (TargetDifficultyLimit height_of_block hash threshold net limit)
                   else Inr threshold)))"

definition difficulty_is_valid ::
  "header \<Rightarrow> network \<Rightarrow> height \<Rightarrow> block_hash \<Rightarrow> (block_error + unit) outcome" where
  "difficulty_is_valid h net height_of_block hash =
     try_bind (difficulty_threshold_is_valid h net height_of_block hash) (\<lambda>threshold.
       Done (if hash_greater_than hash threshold
             then Inl (DifficultyFilter height_of_block hash threshold net) else Inr ()))"

definition merkle_root_validity ::
  "hash_fn \<Rightarrow> network \<Rightarrow> transaction block \<Rightarrow> transaction_hash list \<Rightarrow> (block_error + unit) outcome" where
  "merkle_root_validity sha256d net b transaction_hashes =
     run_bind (check_transaction_network_upgrade_consistency net b) (\<lambda>r.
     try_bind (Done (map_err (\<lambda>_. WrongTransactionConsensusBranchId) r)) (\<lambda>_.
     run_bind (merkle_root_of sha256d transaction_hashes) (\<lambda>root.
       if merkle_root (block_header b) \<noteq> root
       then Done (Inl (BadMerkleRoot root (merkle_root (block_header b))))
       else if length transaction_hashes \<noteq> card (set transaction_hashes)
       then Done (Inl DuplicateTransaction)
       else Done (Inr ()))))"

section \<open>Subsidy and fees\<close>

text \<open>
  The coinbase outputs are a multiset from which the check removes each output that it requires;
  \<open>None\<close> says that the output is not there.
\<close>

definition has_amount ::
  "transparent_address \<Rightarrow> amount \<Rightarrow> transparent_output list \<Rightarrow> transparent_output list option outcome" where
  "has_amount addr amount coinbase_outputs =
     run_bind (assert_that (is_script_hash addr)) (\<lambda>_.
       let out = \<lparr>output_value = amount, lock_script = address_script addr\<rparr> in
       Done (if out \<in> set coinbase_outputs then Some (remove1 out coinbase_outputs) else None))"

fun check_disbursements ::
  "(transparent_address \<times> amount) list \<Rightarrow> amount \<Rightarrow> transparent_output list \<Rightarrow>
   (block_error + amount \<times> transparent_output list) outcome" where
  "check_disbursements [] balance outs = Done (Inr (balance, outs))"
| "check_disbursements ((addr, expected_amount) # rest) balance outs =
     run_bind (has_amount addr expected_amount outs) (\<lambda>r.
       case r of
         None \<Rightarrow> Done (Inl (from_subsidy_error OneTimeLockboxDisbursementNotFound))
       | Some outs' \<Rightarrow>
           (case amount_checked_sub balance expected_amount of
              None \<Rightarrow> Done (Inl (from_subsidy_error SubsidyUnderflow))
            | Some balance' \<Rightarrow> check_disbursements rest balance' outs'))"

fun check_funding_streams ::
  "(string \<Rightarrow> transparent_address option) \<Rightarrow> network_defaults \<Rightarrow> height \<Rightarrow> network \<Rightarrow>
   (funding_stream_receiver \<times> amount) list \<Rightarrow> transparent_output list \<Rightarrow> (block_error + unit) outcome" where
  "check_funding_streams parse_address defaults h net [] outs = Done (Inr ())"
| "check_funding_streams parse_address defaults h net ((receiver, expected_amount) # rest) outs =
     run_bind (funding_stream_address defaults h net receiver) (\<lambda>a.
       case a of
         None \<Rightarrow>
           Done (Inl (OtherBlockError ''A funding stream other than the deferred pool must have an address''))
       | Some text_addr \<Rightarrow>
           run_bind (expect_some (parse_address text_addr)) (\<lambda>addr.
           run_bind (has_amount addr expected_amount outs) (\<lambda>r.
             case r of
               None \<Rightarrow> Done (Inl (from_subsidy_error FundingStreamNotFound))
             | Some outs' \<Rightarrow> check_funding_streams parse_address defaults h net rest outs')))"

definition founders_reward_is_valid ::
  "(string \<Rightarrow> transparent_address option) \<Rightarrow> network_defaults \<Rightarrow> height \<Rightarrow> network \<Rightarrow>
   transparent_output list \<Rightarrow> (block_error + deferred_pool_balance_change) outcome" where
  "founders_reward_is_valid parse_address defaults h net outs =
     run_bind (if Height_MIN < h
               then run_bind (height_for_first_halving defaults net) (\<lambda>first_halving. Done (h < first_halving))
               else Done False) (\<lambda>pays.
       if pays then
         run_bind (founders_reward_address parse_address net h) (\<lambda>a.
           case a of
             None \<Rightarrow> Done (Inl (OtherBlockError ''founders reward address must be defined for height''))
           | Some addr \<Rightarrow>
               run_bind (founders_reward net h) (\<lambda>reward.
               run_bind (has_amount addr reward outs) (\<lambda>r.
                 case r of
                   None \<Rightarrow> Done (Inl (from_subsidy_error FoundersRewardNotFound))
                 | Some _ \<Rightarrow> run_bind deferred_zero (\<lambda>z. Done (Inr z)))))
       else run_bind deferred_zero (\<lambda>z. Done (Inr z)))"

definition stream_outputs_are_valid ::
  "(string \<Rightarrow> transparent_address option) \<Rightarrow> network_defaults \<Rightarrow> height \<Rightarrow> network \<Rightarrow> amount \<Rightarrow>
   transparent_output list \<Rightarrow> (block_error + deferred_pool_balance_change) outcome" where
  "stream_outputs_are_valid parse_address defaults h net expected_block_subsidy outs =
     run_bind (funding_stream_values h net expected_block_subsidy) (\<lambda>r.
     try_bind (Done (map_err block_from_amount_error r)) (\<lambda>funding_streams.
     run_bind (case map_of funding_streams Deferred of
                 Some d \<Rightarrow> Done d | None \<Rightarrow> amount_zero NonNegative) (\<lambda>deferred.
     try_bind (Done (map_err block_from_amount_error (amount_constrain NegativeAllowed deferred))) (\<lambda>deferred_change.
     try_bind
       (if Some h = activation_height Nu6_1 net then
          run_bind (lockbox_disbursements parse_address defaults net h) (\<lambda>ds.
            if ds = []
            then Done (Inl (OtherBlockError ''missing lockbox disbursements for NU6.1 activation block''))
            else check_disbursements ds deferred_change outs)
        else Done (Inr (deferred_change, outs))) (\<lambda>(change, outs').
     try_bind
       (check_funding_streams parse_address defaults h net
          (filter (\<lambda>(receiver, _). receiver \<noteq> Deferred) funding_streams) outs') (\<lambda>_.
       Done (Inr (DeferredPoolBalanceChange change))))))))"

definition subsidy_is_valid ::
  "(string \<Rightarrow> transparent_address option) \<Rightarrow> network_defaults \<Rightarrow> transaction block \<Rightarrow> network \<Rightarrow> amount \<Rightarrow>
   (block_error + deferred_pool_balance_change) outcome" where
  "subsidy_is_valid parse_address defaults b net expected_block_subsidy =
     (if amount_is_zero expected_block_subsidy then run_bind deferred_zero (\<lambda>z. Done (Inr z))
      else
        try_bind (Done (ok_or (from_subsidy_error NoCoinbase) (coinbase_height b))) (\<lambda>h.
        case transactions b of
          [] \<Rightarrow> Done (Inl (from_subsidy_error NoCoinbase))
        | first # _ \<Rightarrow>
            run_bind (nu_current net h) (\<lambda>nu.
              if nu < Canopy then founders_reward_is_valid parse_address defaults h net (tx_outputs first)
              else stream_outputs_are_valid parse_address defaults h net expected_block_subsidy
                     (tx_outputs first))))"

definition miner_fees_are_valid ::
  "transaction \<Rightarrow> height \<Rightarrow> amount \<Rightarrow> amount \<Rightarrow> deferred_pool_balance_change \<Rightarrow> network \<Rightarrow>
   (block_error + unit) outcome" where
  "miner_fees_are_valid coinbase_tx h block_miner_fees expected_block_subsidy deferred_change net =
     run_bind (amount_sum NonNegative (map output_value (tx_outputs coinbase_tx))) (\<lambda>r.
     try_bind (Done (map_err (\<lambda>_. from_subsidy_error SubsidyOverflow) r)) (\<lambda>sum.
     try_bind (Done (map_err (\<lambda>_. OtherBlockError ''invalid transparent value balance'')
                       (amount_constrain NegativeAllowed sum))) (\<lambda>transparent_value_balance.
     run_bind (sapling_value_balance coinbase_tx) (\<lambda>sapling_vb.
     run_bind (orchard_value_balance coinbase_tx) (\<lambda>orchard_vb.
     run_bind (amount_zero NegativeAllowed) (\<lambda>zip233_amount.
     run_bind (amount_sub NegativeAllowed transparent_value_balance (sapling sapling_vb)) (\<lambda>r1.
     run_bind (amount_result_sub NegativeAllowed r1 (orchard orchard_vb)) (\<lambda>r2.
     run_bind (amount_result_add NegativeAllowed r2 (deferred_value deferred_change)) (\<lambda>r3.
     run_bind (amount_result_add NegativeAllowed r3 zip233_amount) (\<lambda>r4.
     try_bind (Done (map_err (\<lambda>_. from_subsidy_error SubsidyOverflow) r4)) (\<lambda>total_output_value.
     run_bind (amount_add NonNegative expected_block_subsidy block_miner_fees) (\<lambda>r5.
     try_bind (Done (map_err (\<lambda>_. from_subsidy_error SubsidyOverflow) r5)) (\<lambda>total_input_value.
     run_bind (nu_current net h) (\<lambda>nu.
       Done (if (if nu < Nu6 then zatoshis total_output_value > zatoshis total_input_value
                 else zatoshis total_output_value \<noteq> zatoshis total_input_value)
             then Inl (from_subsidy_error InvalidMinerFees) else Inr ())))))))))))))))"

section \<open>The verifier\<close>

definition MAX_BLOCK_SIGOPS :: nat where
  "MAX_BLOCK_SIGOPS = 20000"

record tx_response =
  response_sigops :: nat
  response_miner_fee :: "amount option"

datatype verify_block_error =
    VerifyBlock block_error
  | VerifyEquihash
  | VerifyTime block_time_error
  | VerifyTransaction transaction_error
  | VerifySubsidy subsidy_error

text \<open>The totals of the answers, in the order they arrive. The signature operation counter is a \<open>u32\<close>.\<close>

fun sum_responses ::
  "(transaction_error + tx_response) list \<Rightarrow> nat \<Rightarrow> amount_error + amount \<Rightarrow>
   (verify_block_error + nat \<times> (amount_error + amount)) outcome" where
  "sum_responses [] sigops fees = Done (Inr (sigops, fees))"
| "sum_responses (r # rs) sigops fees =
     (case r of
        Inl e \<Rightarrow> Done (Inl (VerifyTransaction e))
      | Inr response \<Rightarrow>
          run_bind (case response_miner_fee response of
                      Some fee \<Rightarrow> amount_add_assign NonNegative fees fee
                    | None \<Rightarrow> Done fees) (\<lambda>fees'.
            sum_responses rs ((sigops + response_sigops response) mod 2 ^ 32) fees'))"

record verifier_env =
  env_sha256d :: hash_fn
  env_tx_hash :: "transaction \<Rightarrow> transaction_hash"
  env_known_block :: "block_hash \<Rightarrow> bool"
  env_equihash_ok :: "header \<Rightarrow> bool"
  env_parse_address :: "string \<Rightarrow> transparent_address option"
  env_defaults :: network_defaults
  env_decrypts :: "transaction \<Rightarrow> network \<Rightarrow> height \<Rightarrow> bool"
  env_tx_verify :: "transaction_hash \<Rightarrow> transaction \<Rightarrow> (outpoint \<rightharpoonup> ordered_utxo) \<Rightarrow> height \<Rightarrow> int \<Rightarrow>
                    transaction_error + tx_response"
  env_schedule :: "(transaction_error + tx_response) list \<Rightarrow> (transaction_error + tx_response) list"

definition check_proof_of_work ::
  "verifier_env \<Rightarrow> bool \<Rightarrow> network \<Rightarrow> header \<Rightarrow> height \<Rightarrow> block_hash \<Rightarrow> (verify_block_error + unit) outcome" where
  "check_proof_of_work env is_proposal net hdr h hash =
     (if is_proposal \<or> disable_pow net then
        run_bind (difficulty_threshold_is_valid hdr net h hash) (\<lambda>r.
          Done (map_err VerifyBlock (map_sum id (\<lambda>_. ()) r)))
      else
        run_bind (difficulty_is_valid hdr net h hash) (\<lambda>r.
        try_bind (Done (map_err VerifyBlock r)) (\<lambda>_.
          Done (if env_equihash_ok env hdr then Inr () else Inl VerifyEquihash))))"

definition semantic_verify ::
  "verifier_env \<Rightarrow> network \<Rightarrow> int \<Rightarrow> bool \<Rightarrow> transaction block \<Rightarrow>
   (verify_block_error + semantically_verified_block) outcome" where
  "semantic_verify env net now is_proposal b =
     run_bind (block_hash_of (env_sha256d env) b) (\<lambda>hash.
     if env_known_block env hash then Done (Inl (VerifyBlock (AlreadyInChain hash)))
     else
     try_bind (Done (ok_or (VerifyBlock (MissingHeight hash)) (coinbase_height b))) (\<lambda>h.
     if h > Height_MAX then Done (Inl (VerifyBlock (MaxHeight h hash Height_MAX)))
     else
     try_bind (check_proof_of_work env is_proposal net (block_header b) h hash) (\<lambda>_.
     let transaction_hashes = map (env_tx_hash env) (transactions b) in
     run_bind (merkle_root_validity (env_sha256d env) net b transaction_hashes) (\<lambda>r.
     try_bind (Done (map_err VerifyBlock r)) (\<lambda>_.
     try_bind (Done (map_err VerifyTime (header_time_is_valid_at (block_header b) now h hash))) (\<lambda>_.
     try_bind (Done (map_err VerifyBlock (coinbase_is_first b))) (\<lambda>coinbase_tx.
     run_bind (block_subsidy h net) (\<lambda>r.
     try_bind (Done (map_err VerifySubsidy r)) (\<lambda>expected_block_subsidy.
     run_bind (subsidy_is_valid (env_parse_address env) (env_defaults env) b net expected_block_subsidy) (\<lambda>r.
     try_bind (Done (map_err VerifyBlock r)) (\<lambda>deferred_change.
     run_bind (coinbase_outputs_are_decryptable (env_decrypts env) coinbase_tx net h) (\<lambda>r.
     try_bind (Done (map_err VerifyTransaction r)) (\<lambda>_.
     run_bind (new_ordered_outputs b transaction_hashes) (\<lambda>known_utxos.
     let responses = env_schedule env
       (map (\<lambda>(hash, tx). env_tx_verify env hash tx known_utxos h (header_time (block_header b)))
          (zip transaction_hashes (transactions b))) in
     run_bind (amount_zero NonNegative) (\<lambda>zero.
     try_bind (sum_responses responses 0 (Inr zero)) (\<lambda>(sigops, fees).
     if sigops > MAX_BLOCK_SIGOPS
     then Done (Inl (VerifyBlock (TooManyTransparentSignatureOperations h hash sigops)))
     else
     try_bind (Done (map_err (\<lambda>e. VerifyBlock (SummingMinerFees h hash e)) fees)) (\<lambda>block_miner_fees.
     run_bind (miner_fees_are_valid coinbase_tx h block_miner_fees expected_block_subsidy deferred_change net) (\<lambda>r.
     try_bind (Done (map_err VerifyBlock r)) (\<lambda>_.
       Done (Inr \<lparr>sv_block = b, sv_hash = hash, sv_height = h, sv_new_outputs = known_utxos,
                  sv_transaction_hashes = transaction_hashes,
                  sv_deferred_pool_balance_change = Some deferred_change\<rparr>))))))))))))))))))))"

section \<open>Lemmas\<close>

lemma merkle_root_validity_iff:
  "merkle_root_validity sha256d net b hashes = Done (Inr ()) \<longleftrightarrow>
     check_transaction_network_upgrade_consistency net b = Done (Inr ()) \<and>
     merkle_root_of sha256d hashes = Done (merkle_root (block_header b)) \<and> distinct hashes"
proof -
  have "length hashes = card (set hashes) \<longleftrightarrow> distinct hashes"
    using card_distinct [of hashes] distinct_card [of hashes] by auto
  then show ?thesis
    by (auto simp: merkle_root_validity_def try_bind_Inr_iff run_bind_Done_iff)
qed

text \<open>Output \<open>out\<close> pays \<open>amount\<close> to the script of the pay-to-script-hash address \<open>addr\<close>.\<close>

definition pays_to :: "transparent_address \<Rightarrow> amount \<Rightarrow> transparent_output \<Rightarrow> bool" where
  "pays_to addr amount out \<longleftrightarrow>
     is_script_hash addr \<and> out = \<lparr>output_value = amount, lock_script = address_script addr\<rparr>"

lemma has_amount_SomeD:
  assumes "has_amount addr amount outs = Done (Some outs')"
  shows "\<exists>out. pays_to addr amount out \<and> mset outs = add_mset out (mset outs')"
  using assms
  by (auto simp: has_amount_def Let_def pays_to_def run_bind_Done_iff split: if_splits)

lemma check_disbursements_ok:
  assumes "check_disbursements ds balance outs = Done (Inr (balance', outs'))"
  shows "\<exists>paid. list_all2 (\<lambda>(addr, amount) out. pays_to addr amount out) ds paid \<and>
    mset outs = mset paid + mset outs' \<and>
    zatoshis balance' = zatoshis balance - sum_list (map (zatoshis \<circ> snd) ds)"
  using assms
proof (induction ds arbitrary: balance outs)
  case (Cons d rest)
  obtain addr amount where d: "d = (addr, amount)" by (cases d)
  from Cons.prems d obtain outs1 balance1 where s: "has_amount addr amount outs = Done (Some outs1)"
    "amount_checked_sub balance amount = Some balance1"
    "check_disbursements rest balance1 outs1 = Done (Inr (balance', outs'))"
    by (auto simp: run_bind_Done_iff split: option.splits)
  from Cons.IH [OF s(3)] obtain paid where paid:
    "list_all2 (\<lambda>(addr, amount) out. pays_to addr amount out) rest paid"
    "mset outs1 = mset paid + mset outs'"
    "zatoshis balance' = zatoshis balance1 - sum_list (map (zatoshis \<circ> snd) rest)" by blast
  from has_amount_SomeD [OF s(1)] obtain out where out: "pays_to addr amount out"
    "mset outs = add_mset out (mset outs1)" by blast
  have "zatoshis balance1 = zatoshis balance - zatoshis amount"
    using s(2) by (auto simp: amount_checked_sub_def try_from_i64_ok split: option.splits)
  then show ?case
    using paid out d by (intro exI [of _ "out # paid"]) (simp add: comp_def)
qed auto

definition pays_stream ::
  "(string \<Rightarrow> transparent_address option) \<Rightarrow> network_defaults \<Rightarrow> height \<Rightarrow> network \<Rightarrow>
   funding_stream_receiver \<times> amount \<Rightarrow> transparent_output \<Rightarrow> bool" where
  "pays_stream parse_address defaults h net stream out \<longleftrightarrow>
     (\<exists>a addr. funding_stream_address defaults h net (fst stream) = Done (Some a) \<and>
               parse_address a = Some addr \<and> pays_to addr (snd stream) out)"

lemma check_funding_streams_Cons:
  assumes "check_funding_streams parse_address defaults h net (stream # rest) outs = Done (Inr ())"
  shows "\<exists>a addr outs1. funding_stream_address defaults h net (fst stream) = Done (Some a) \<and>
    parse_address a = Some addr \<and> has_amount addr (snd stream) outs = Done (Some outs1) \<and>
    check_funding_streams parse_address defaults h net rest outs1 = Done (Inr ())"
proof (cases "funding_stream_address defaults h net (fst stream)")
  case (Done r)
  then obtain a where a: "r = Some a" using assms by (cases r; cases stream) simp_all
  then obtain addr where addr: "parse_address a = Some addr"
    using assms Done by (cases "parse_address a"; cases stream) simp_all
  then obtain r2 where r2: "has_amount addr (snd stream) outs = Done r2"
    using assms Done a by (cases "has_amount addr (snd stream) outs"; cases stream) simp_all
  then obtain outs1 where "r2 = Some outs1"
    using assms Done a addr by (cases r2; cases stream) simp_all
  then show ?thesis using assms Done a addr r2 by (cases stream) simp
qed (use assms in \<open>cases stream; simp\<close>)

lemma check_funding_streams_ok:
  assumes "check_funding_streams parse_address defaults h net streams outs = Done (Inr ())"
  shows "\<exists>paid. list_all2 (pays_stream parse_address defaults h net) streams paid \<and> mset paid \<subseteq># mset outs"
  using assms
proof (induction streams arbitrary: outs)
  case (Cons stream rest)
  from check_funding_streams_Cons [OF Cons.prems] obtain a addr outs1 where s:
    "funding_stream_address defaults h net (fst stream) = Done (Some a)" "parse_address a = Some addr"
    "has_amount addr (snd stream) outs = Done (Some outs1)"
    "check_funding_streams parse_address defaults h net rest outs1 = Done (Inr ())" by blast
  from Cons.IH [OF s(4)] obtain paid where paid:
    "list_all2 (pays_stream parse_address defaults h net) rest paid" "mset paid \<subseteq># mset outs1" by blast
  from has_amount_SomeD [OF s(3)] obtain out where
    "pays_to addr (snd stream) out" "mset outs = add_mset out (mset outs1)" by blast
  moreover from this have "pays_stream parse_address defaults h net stream out"
    using s(1,2) by (auto simp: pays_stream_def)
  ultimately show ?case
    using paid by (intro exI [of _ "out # paid"]) auto
qed simp

text \<open>The outputs that the streams require are there, beside those of the disbursements.\<close>

lemma stream_outputs_ok:
  assumes "stream_outputs_are_valid parse_address defaults h net subsidy outs = Done (Inr change)"
  shows "\<exists>streams ds paid_ds paid_streams.
    funding_stream_values h net subsidy = Done (Inr streams) \<and>
    (if Some h = activation_height Nu6_1 net
     then lockbox_disbursements parse_address defaults net h = Done ds \<and> ds \<noteq> [] else ds = []) \<and>
    list_all2 (\<lambda>(addr, amount) out. pays_to addr amount out) ds paid_ds \<and>
    list_all2 (pays_stream parse_address defaults h net)
      (filter (\<lambda>(receiver, _). receiver \<noteq> Deferred) streams) paid_streams \<and>
    mset paid_ds + mset paid_streams \<subseteq># mset outs \<and>
    zatoshis (deferred_value change) =
      (case map_of streams Deferred of Some d \<Rightarrow> zatoshis d | None \<Rightarrow> 0) - sum_list (map (zatoshis \<circ> snd) ds)"
proof -
  let ?rest = "\<lambda>streams. filter (\<lambda>(receiver, _). receiver \<noteq> Deferred) streams"
  from assms obtain streams d dc bal outs1 where s:
    "funding_stream_values h net subsidy = Done (Inr streams)"
    "(case map_of streams Deferred of Some d \<Rightarrow> Done d | None \<Rightarrow> amount_zero NonNegative) = Done d"
    "amount_constrain NegativeAllowed d = Inr dc"
    "(if Some h = activation_height Nu6_1 net then
        run_bind (lockbox_disbursements parse_address defaults net h) (\<lambda>ds.
          if ds = []
          then Done (Inl (OtherBlockError ''missing lockbox disbursements for NU6.1 activation block''))
          else check_disbursements ds dc outs)
      else Done (Inr (dc, outs))) = Done (Inr (bal, outs1))"
    "check_funding_streams parse_address defaults h net (?rest streams) outs1 = Done (Inr ())"
    "change = DeferredPoolBalanceChange bal"
    unfolding stream_outputs_are_valid_def
    by (auto simp only: run_bind_Done_iff try_bind_Inr_iff map_err_simps outcome.inject sum.inject split_beta
        prod.collapse fst_conv snd_conv)
  have dc: "zatoshis dc = (case map_of streams Deferred of Some d \<Rightarrow> zatoshis d | None \<Rightarrow> 0)"
    using s(2,3) by (auto simp: amount_constrain_def try_from_i64_ok constraints.zero_done split: option.splits)
  obtain ds paid_ds where ds:
    "if Some h = activation_height Nu6_1 net
     then lockbox_disbursements parse_address defaults net h = Done ds \<and> ds \<noteq> [] else ds = []"
    "list_all2 (\<lambda>(addr, amount) out. pays_to addr amount out) ds paid_ds"
    "mset outs = mset paid_ds + mset outs1"
    "zatoshis bal = zatoshis dc - sum_list (map (zatoshis \<circ> snd) ds)"
  proof (cases "Some h = activation_height Nu6_1 net")
    case True
    then obtain ds where d: "lockbox_disbursements parse_address defaults net h = Done ds" "ds \<noteq> []"
      "check_disbursements ds dc outs = Done (Inr (bal, outs1))"
      using s(4) by (auto simp: run_bind_Done_iff split: if_splits)
    from check_disbursements_ok [OF d(3)] show ?thesis using that [of ds] d(1,2) True by auto
  next
    case False
    then show ?thesis using s(4) that [of "[]" "[]"] by simp
  qed
  from check_funding_streams_ok [OF s(5)] obtain paid_streams where ps:
    "list_all2 (pays_stream parse_address defaults h net) (?rest streams) paid_streams"
    "mset paid_streams \<subseteq># mset outs1" by blast
  have "zatoshis (deferred_value change) =
      (case map_of streams Deferred of Some d \<Rightarrow> zatoshis d | None \<Rightarrow> 0) - sum_list (map (zatoshis \<circ> snd) ds)"
    using ds(4) dc s(6) by simp
  moreover have "mset paid_ds + mset paid_streams \<subseteq># mset outs" using ds(3) ps(2) by simp
  ultimately show ?thesis using s(1) ds(1,2) ps(1) by blast
qed

text \<open>A successful operation on amounts is exact.\<close>

lemma amount_add_value: "amount_add c a b = Done (Inr s) \<Longrightarrow> zatoshis s = zatoshis a + zatoshis b"
  by (auto simp: amount_add_def try_from_i64_ok run_bind_Done_iff)

lemma amount_sub_value: "amount_sub c a b = Done (Inr s) \<Longrightarrow> zatoshis s = zatoshis a - zatoshis b"
  by (auto simp: amount_sub_def try_from_i64_ok run_bind_Done_iff)

lemma amount_try_fold_value:
  "amount_try_fold c acc xs = Done (Inr s) \<Longrightarrow> zatoshis s = zatoshis acc + sum_list (map zatoshis xs)"
proof (induction xs arbitrary: acc)
  case (Cons x xs)
  then obtain r where r: "amount_add c acc x = Done r"
    "(case r of Inl e \<Rightarrow> Done (Inl (e, length xs)) | Inr acc' \<Rightarrow> amount_try_fold c acc' xs) = Done (Inr s)"
    by (auto simp: run_bind_Done_iff)
  then obtain acc' where "amount_add c acc x = Done (Inr acc')" "amount_try_fold c acc' xs = Done (Inr s)"
    by (cases r) auto
  then show ?case using Cons.IH [of acc'] amount_add_value [of c acc x acc'] by simp
qed simp

lemma amount_sum_value:
  assumes "amount_sum c xs = Done (Inr s)"
  shows "zatoshis s = sum_list (map zatoshis xs)"
proof -
  obtain r where r: "amount_try_fold c (Amount 0) xs = Done r"
    using assms by (auto simp: amount_sum_def constraints.zero_done run_bind_Done_iff)
  then have "r = Inr s"
    using assms by (auto simp: amount_sum_def constraints.zero_done split: sum.splits amount_error.splits)
  with r show ?thesis using amount_try_fold_value by fastforce
qed

lemma amount_constrain_value: "amount_constrain c a = Inr b \<Longrightarrow> zatoshis b = zatoshis a"
  by (auto simp: amount_constrain_def try_from_i64_ok)

lemma shielded_amounts:
  "sapling_value_balance tx = Done v \<Longrightarrow> zatoshis (sapling v) = sapling_change tx"
  "orchard_value_balance tx = Done w \<Longrightarrow> zatoshis (orchard w) = orchard_change tx"
  by (auto simp: sapling_value_balance_def sapling_change_def from_sapling_amount_def vb_zero_pools pools_of_def
      orchard_value_balance_def orchard_change_def from_orchard_amount_def run_bind_Done_iff constraints.zero_done
      split: option.splits)

text \<open>The total output value of a coinbase transaction: \<open>total_out\<close>, the net value that goes into the shielded
  pools, and the change of the deferred pool.\<close>

definition coinbase_total :: "transaction \<Rightarrow> deferred_pool_balance_change \<Rightarrow> int" where
  "coinbase_total tx change =
     total_out tx - sapling_change tx - orchard_change tx + zatoshis (deferred_value change)"

lemma miner_fees_ok:
  assumes "miner_fees_are_valid cb h fees subsidy change net = Done (Inr ())"
  shows "\<exists>nu. nu_current net h = Done nu \<and>
    (if nu < Nu6 then coinbase_total cb change \<le> zatoshis subsidy + zatoshis fees
     else coinbase_total cb change = zatoshis subsidy + zatoshis fees)"
proof -
  from assms obtain osum t sv ov z a1 a2 a3 a4 inp nu where s:
    "amount_sum NonNegative (map output_value (tx_outputs cb)) = Done (Inr osum)"
    "amount_constrain NegativeAllowed osum = Inr t"
    "sapling_value_balance cb = Done sv" "orchard_value_balance cb = Done ov"
    "amount_zero NegativeAllowed = Done z"
    "amount_sub NegativeAllowed t (sapling sv) = Done (Inr a1)"
    "amount_sub NegativeAllowed a1 (orchard ov) = Done (Inr a2)"
    "amount_add NegativeAllowed a2 (deferred_value change) = Done (Inr a3)"
    "amount_add NegativeAllowed a3 z = Done (Inr a4)"
    "amount_add NonNegative subsidy fees = Done (Inr inp)"
    "nu_current net h = Done nu"
    "\<not> (if nu < Nu6 then zatoshis a4 > zatoshis inp else zatoshis a4 \<noteq> zatoshis inp)"
    unfolding miner_fees_are_valid_def amount_result_sub_def amount_result_add_def
    by (auto simp: run_bind_Done_iff try_bind_Inr_iff split: sum.splits if_splits)
  have "zatoshis a4 = coinbase_total cb change"
    using amount_sum_value [OF s(1)] amount_constrain_value [OF s(2)] shielded_amounts(1) [OF s(3)]
      shielded_amounts(2) [OF s(4)] s(5) amount_sub_value [OF s(6)] amount_sub_value [OF s(7)]
      amount_add_value [OF s(8)] amount_add_value [OF s(9)]
    by (auto simp: coinbase_total_def total_out_def constraints.zero_done comp_def)
  then show ?thesis using s(11,12) amount_add_value [OF s(10)] by (auto split: if_splits)
qed

fun response_fee :: "transaction_error + tx_response \<Rightarrow> int" where
  "response_fee (Inr r) = (case response_miner_fee r of Some fee \<Rightarrow> zatoshis fee | None \<Rightarrow> 0)"
| "response_fee (Inl e) = 0"

lemma sum_responses_Inl_fees:
  "sum_responses rs n (Inl e) = Done (Inr (sigops, fees)) \<Longrightarrow> fees = Inl e"
  by (induction rs arbitrary: n)
    (auto simp: amount_add_assign_def run_bind_Done_iff split: sum.splits option.splits)

lemma sum_responses_all:
  "sum_responses rs n acc = Done (Inr r) \<Longrightarrow> list_all (\<lambda>r. \<exists>response. r = Inr response) rs"
  by (induction rs arbitrary: n acc) (auto simp: run_bind_Done_iff split: sum.splits)

lemma sum_responses_fees:
  "sum_responses rs n (Inr acc) = Done (Inr (sigops, Inr total_fees)) \<Longrightarrow>
   zatoshis total_fees = zatoshis acc + sum_list (map response_fee rs)"
proof (induction rs arbitrary: n acc)
  case (Cons r rs)
  then obtain response where r: "r = Inr response" by (cases r) auto
  with Cons.prems obtain fees' where f:
    "(case response_miner_fee response of Some fee \<Rightarrow> amount_add NonNegative acc fee | None \<Rightarrow> Done (Inr acc)) =
       Done fees'"
    "sum_responses rs ((n + response_sigops response) mod 2 ^ 32) fees' = Done (Inr (sigops, Inr total_fees))"
    by (auto simp: run_bind_Done_iff amount_add_assign_def split: option.splits)
  then obtain acc' where acc': "fees' = Inr acc'"
    using sum_responses_Inl_fees by (cases fees') fastforce+
  then have "zatoshis acc' = zatoshis acc + response_fee r"
    using f(1) r by (auto simp: amount_add_value split: option.splits)
  then show ?case using Cons.IH f(2) acc' by simp
qed simp

text \<open>The answers of the transaction verifier for the transactions of a verified block.\<close>

definition block_responses ::
  "verifier_env \<Rightarrow> transaction block \<Rightarrow> semantically_verified_block \<Rightarrow> (transaction_error + tx_response) list" where
  "block_responses env b sv =
     map (\<lambda>(hash, tx). env_tx_verify env hash tx (sv_new_outputs sv) (sv_height sv) (header_time (block_header b)))
       (zip (sv_transaction_hashes sv) (transactions b))"

lemma semantic_verify_ok:
  assumes "semantic_verify env net now is_proposal b = Done (Inr sv)"
  shows "\<exists>cb subsidy change fees.
    block_hash_of (env_sha256d env) b = Done (sv_hash sv) \<and> coinbase_height b = Some (sv_height sv) \<and>
    sv_height sv \<le> Height_MAX \<and> sv_transaction_hashes sv = map (env_tx_hash env) (transactions b) \<and>
    check_proof_of_work env is_proposal net (block_header b) (sv_height sv) (sv_hash sv) = Done (Inr ()) \<and>
    merkle_root_validity (env_sha256d env) net b (sv_transaction_hashes sv) = Done (Inr ()) \<and>
    header_time_is_valid_at (block_header b) now (sv_height sv) (sv_hash sv) = Inr () \<and>
    coinbase_is_first b = Inr cb \<and> block_subsidy (sv_height sv) net = Done (Inr subsidy) \<and>
    subsidy_is_valid (env_parse_address env) (env_defaults env) b net subsidy = Done (Inr change) \<and>
    sv_deferred_pool_balance_change sv = Some change \<and> sv_block sv = b \<and>
    new_ordered_outputs b (sv_transaction_hashes sv) = Done (sv_new_outputs sv) \<and>
    list_all (\<lambda>r. \<exists>response. r = Inr response) (env_schedule env (block_responses env b sv)) \<and>
    zatoshis fees = sum_list (map response_fee (env_schedule env (block_responses env b sv))) \<and>
    miner_fees_are_valid cb (sv_height sv) fees subsidy change net = Done (Inr ())"
  using assms unfolding semantic_verify_def
  by (force simp: run_bind_Done_iff try_bind_Inr_iff Let_def block_responses_def constraints.zero_done
      split: if_splits dest: sum_responses_fees sum_responses_all)

section \<open>Properties\<close>


definition sample_coinbase_block :: "transaction block" where
  "sample_coinbase_block =
     \<lparr>block_header = sample_header, transactions = [V1 [Coinbase 1 [] 0] [] unlocked]\<rparr>"


text \<open>A configured network with one funding stream that is paid in the coinbase transaction and one that is
  deferred, and a block at its second height.\<close>

definition stream_params :: parameters where
  "stream_params =
     \<lparr>p_network_name = ''streams'', p_network_magic = [0, 0, 0, 0], p_genesis_hash = replicate 32 0,
      p_activation_heights = [(0, Genesis), (1, Canopy)],
      p_slow_start_interval = 0, p_slow_start_shift = 0,
      p_funding_streams =
        [\<lparr>height_range = (1, 100),
          recipients = [(MajorGrants, \<lparr>numerator = 8, addresses = [''t'']\<rparr>),
                        (Deferred, \<lparr>numerator = 12, addresses = []\<rparr>)]\<rparr>],
      p_target_difficulty_limit = 2 ^ 252, p_disable_pow = True,
      p_should_allow_unshielded_coinbase_spends = False,
      p_pre_blossom_halving_interval = 144, p_post_blossom_halving_interval = 288,
      p_lockbox_disbursements = [], p_checkpoints = []\<rparr>"

definition stream_network :: network where
  "stream_network = Testnet stream_params"

definition stream_defaults :: network_defaults where
  "stream_defaults = \<lparr>default_testnet = stream_params\<lparr>p_network_name := []\<rparr>, default_regtest = stream_params\<rparr>"

definition stream_recipient :: transparent_address where
  "stream_recipient = PayToScriptHash TestnetKind (replicate 20 7)"

definition stream_coinbase :: transaction where
  "stream_coinbase =
     V1 [Coinbase 2 [] 0]
       [sample_output 500000000, \<lparr>output_value = Amount 50000000, lock_script = address_script stream_recipient\<rparr>]
       unlocked"

definition stream_block :: "transaction block" where
  "stream_block = \<lparr>block_header = sample_header, transactions = [stream_coinbase]\<rparr>"

definition stream_env :: verifier_env where
  "stream_env =
     \<lparr>env_sha256d = (\<lambda>_. replicate 32 2), env_tx_hash = (\<lambda>_. replicate 32 2), env_known_block = (\<lambda>_. False),
      env_equihash_ok = (\<lambda>_. True), env_parse_address = (\<lambda>_. Some stream_recipient),
      env_defaults = stream_defaults, env_decrypts = (\<lambda>_ _ _. True),
      env_tx_verify = (\<lambda>_ _ _ _ _. Inr \<lparr>response_sigops = 1, response_miner_fee = None\<rparr>),
      env_schedule = (\<lambda>rs. rs)\<rparr>"

lemma stream_network_parameters:
  "nu_current stream_network 2 = Done Canopy" "activation_height Blossom stream_network = Some 1"
  "activation_height Nu6_1 stream_network = None"
  "slow_start_shift stream_network = 0" "slow_start_interval stream_network = 0"
  "pre_blossom_halving_interval stream_network = 144" "post_blossom_halving_interval stream_network = 288"
  "network_funding_streams stream_network 2 = Some (hd (p_funding_streams stream_params))"
  by (simp_all add: nu_current_def next_back_def range_to_def activation_list_def stream_network_def stream_params_def
      activation_height.simps slow_start_shift_def slow_start_interval_def pre_blossom_halving_interval_def
      post_blossom_halving_interval_def network_funding_streams_def all_funding_streams_def range_contains_def)

lemmas i64_evaluation = height_diff_exact is_u32_def i64_div_def rust_div_nonneg u32_try_from_def in_u32_def
  wrap_i64_id in_i64_def BLOSSOM_POW_TARGET_SPACING_RATIO_def nu_order_defs

lemma stream_block_subsidy: "block_subsidy 2 stream_network = Done (Inr (Amount 625000000))"
  by (simp add: block_subsidy_def halving_divisor_def halving_def stream_network_parameters i64_evaluation
      MAX_BLOCK_SUBSIDY_def COIN_def amount_try_from_u64_def try_from_i64_cases amount_ok_def MAX_MONEY_value)

lemma stream_block_height: "coinbase_height stream_block = Some 2"
  by (simp add: coinbase_height_def stream_block_def stream_coinbase_def)

lemma stream_address_period:
  "funding_stream_address_period stream_defaults 2 stream_network = Done 0"
  "funding_stream_address_period stream_defaults 1 stream_network = Done 0"
proof -
  have "height_for_halving 1 stream_network = Some 287"
    by (simp add: height_for_halving_def stream_network_parameters i64_evaluation height_try_from_u32_def
        Height_MAX_value)
  moreover have "\<not> is_regtest stream_defaults stream_params" "\<not> is_default_testnet stream_defaults stream_params"
    by (simp_all add: is_regtest_def is_default_testnet_def stream_defaults_def stream_params_def magics_REGTEST_def)
  ultimately have "height_for_first_halving stream_defaults stream_network = Done 287"
    by (simp add: height_for_first_halving_def stream_network_def)
  then show "funding_stream_address_period stream_defaults 2 stream_network = Done 0"
    "funding_stream_address_period stream_defaults 1 stream_network = Done 0"
    by (simp_all add: funding_stream_address_period_def funding_stream_address_change_interval_def
        stream_network_parameters i64_evaluation)
qed

lemma stream_block_address: "funding_stream_address stream_defaults 2 stream_network MajorGrants = Done (Some ''t'')"
  by (simp add: funding_stream_address_def funding_stream_address_index_def stream_network_parameters recipient_def
      stream_params_def stream_address_period [simplified] u32_checked_add_def u32_checked_sub_def)

lemma stream_block_values:
  "funding_stream_values 2 stream_network (Amount 625000000) =
   Done (Inr [(MajorGrants, Amount 50000000), (Deferred, Amount 75000000)])"
  by (simp add: funding_stream_values_def stream_network_parameters stream_params_def amount_is_zero_def
      nu_order_defs amount_mul_def amount_div_def FUNDING_STREAM_RECEIVER_DENOMINATOR_def try_from_i64_cases
      amount_ok_def MAX_MONEY_value in_i128_def rust_div_nonneg amount_try_from_i128_def checked_i64_def in_i64_def)

lemma stream_block_subsidy_valid:
  "subsidy_is_valid (\<lambda>_. Some stream_recipient) stream_defaults stream_block stream_network (Amount 625000000) =
   Done (Inr (DeferredPoolBalanceChange (Amount 75000000)))"
proof -
  have "stream_outputs_are_valid (\<lambda>_. Some stream_recipient) stream_defaults 2 stream_network (Amount 625000000)
     (tx_outputs stream_coinbase) = Done (Inr (DeferredPoolBalanceChange (Amount 75000000)))"
    by (simp add: stream_outputs_are_valid_def stream_block_values stream_network_parameters amount_constrain_def
        try_from_i64_cases amount_ok_def MAX_MONEY_value stream_block_address has_amount_def Let_def stream_coinbase_def
        stream_recipient_def)
  then show ?thesis
    by (simp add: subsidy_is_valid_def stream_block_height amount_is_zero_def)
      (simp add: stream_block_def stream_network_parameters nu_order_defs)
qed

text \<open>C6. A coinbase transaction that \<open>subsidy_is_valid\<close> accepts from Canopy on pays everybody: it
  contains pairwise distinct occurrences of the outputs that pay each funding stream value to the
  address of the stream and, in the NU6.1 activation block, of the outputs that pay each lockbox
  disbursement, and the deferred pool changes by the value of the deferred stream minus the
  disbursements.\<close>

theorem accepted_coinbase_pays_streams:
  assumes "subsidy_is_valid parse_address defaults b net subsidy = Done (Inr change)"
    and "zatoshis subsidy \<noteq> 0" and "coinbase_height b = Some h" and "nu_current net h = Done nu" and "Canopy \<le> nu"
  shows "\<exists>streams ds paid_ds paid_streams.
    funding_stream_values h net subsidy = Done (Inr streams) \<and>
    (if Some h = activation_height Nu6_1 net
     then lockbox_disbursements parse_address defaults net h = Done ds \<and> ds \<noteq> [] else ds = []) \<and>
    list_all2 (\<lambda>(addr, amount) out. pays_to addr amount out) ds paid_ds \<and>
    list_all2 (pays_stream parse_address defaults h net)
      (filter (\<lambda>(receiver, _). receiver \<noteq> Deferred) streams) paid_streams \<and>
    mset paid_ds + mset paid_streams \<subseteq># mset (tx_outputs (hd (transactions b))) \<and>
    zatoshis (deferred_value change) =
      (case map_of streams Deferred of Some d \<Rightarrow> zatoshis d | None \<Rightarrow> 0) - sum_list (map (zatoshis \<circ> snd) ds)"
proof (rule stream_outputs_ok)
  show "stream_outputs_are_valid parse_address defaults h net subsidy (tx_outputs (hd (transactions b))) =
        Done (Inr change)"
    using assms by (cases "transactions b") (auto simp: subsidy_is_valid_def amount_is_zero_def nu_order_defs)
qed

theorem accepted_coinbase_pays_streams_witness:
  "\<exists>out \<in> set (tx_outputs stream_coinbase).
     pays_stream (\<lambda>_. Some stream_recipient) stream_defaults 2 stream_network (MajorGrants, Amount 50000000) out"
proof -
  have "zatoshis (Amount 625000000) \<noteq> 0" "Canopy \<le> Canopy" by simp_all
  from accepted_coinbase_pays_streams [OF stream_block_subsidy_valid this(1) stream_block_height
      stream_network_parameters(1) this(2)]
  obtain paid where "list_all2 (pays_stream (\<lambda>_. Some stream_recipient) stream_defaults 2 stream_network)
      [(MajorGrants, Amount 50000000)] paid" "mset paid \<subseteq># mset (tx_outputs stream_coinbase)"
    by (auto simp: stream_block_values stream_network_parameters stream_block_def)
  then show ?thesis
    by (auto simp: list_all2_Cons1 dest: mset_subset_eq_insertD)
qed

lemma stream_block_verifies:
  "\<exists>sv. semantic_verify stream_env stream_network 1477641360 False stream_block = Done (Inr sv)"
proof -
  have hash: "block_hash_of (env_sha256d stream_env) stream_block = Done (replicate 32 2)"
    by (simp add: block_hash_of_def header_hash_def stream_env_def stream_block_def sample_header_serialize)
  have threshold: "to_expanded (CompactDifficulty 0x1f07ffff) = Done (Some (0x7ffff * 256 ^ 28))"
    by (simp add: to_expanded_target compact_target_def valid_target_def bit_iff_odd)
  have pow: "check_proof_of_work stream_env False stream_network sample_header 2 (replicate 32 2) = Done (Inr ())"
    by (simp add: check_proof_of_work_def difficulty_threshold_is_valid_def disable_pow_def stream_network_def
        stream_params_def sample_header_def threshold target_difficulty_limit_def)
  have merkle: "merkle_root_validity (env_sha256d stream_env) stream_network stream_block [replicate 32 2] = Done (Inr ())"
    using merkle_loop_full [of "[replicate 32 2]" 0]
    by (simp add: merkle_root_validity_iff merkle_root_of_iff check_transaction_network_upgrade_consistency_def
        stream_block_height stream_network_parameters)
      (simp add: stream_block_def stream_coinbase_def sample_header_def List.map_filter_simps)
  have fees: "miner_fees_are_valid stream_coinbase 2 (Amount 0) (Amount 625000000)
      (DeferredPoolBalanceChange (Amount 75000000)) stream_network = Done (Inr ())"
    by (simp add: miner_fees_are_valid_def stream_coinbase_def sample_output_def constraints.sum_of_fold
        constraints.zero_done constraints.add_done constraints.sub_done try_from_i64_cases amount_ok_def
        MAX_MONEY_value amount_constrain_def sapling_value_balance_def orchard_value_balance_def
        from_sapling_amount_def from_orchard_amount_def vb_zero_def amount_result_add_def amount_result_sub_def
        stream_network_parameters nu_order_defs)
  have env: "\<not> env_known_block stream_env hash" "env_tx_hash stream_env = (\<lambda>_. replicate 32 2)"
    "env_parse_address stream_env = (\<lambda>_. Some stream_recipient)" "env_defaults stream_env = stream_defaults"
    "env_tx_verify stream_env = (\<lambda>_ _ _ _ _. Inr \<lparr>response_sigops = 1, response_miner_fee = None\<rparr>)"
    "env_schedule stream_env = (\<lambda>rs. rs)" "transactions stream_block = [stream_coinbase]"
    "block_header stream_block = sample_header" "header_time sample_header = 1477641360" for hash
    by (simp_all add: stream_env_def stream_block_def sample_header_def)
  have first: "coinbase_is_first stream_block = Inr stream_coinbase"
    "coinbase_outputs_are_decryptable (env_decrypts stream_env) stream_coinbase stream_network 2 = Done (Inr ())"
    by (simp_all add: coinbase_is_first_def env coinbase_outputs_are_decryptable_def)
      (simp_all add: stream_coinbase_def is_coinbase_def has_shielded_outputs_def joinsplit_count_def orchard_actions_def
        over_joinsplit_data_def over_orchard_data_def)
  obtain outs where outputs: "new_ordered_outputs stream_block [replicate 32 2] = Done outs"
    by (auto simp: new_ordered_outputs_def stream_block_height new_ordered_outputs_with_height_def env
        new_transaction_ordered_outputs_def stream_coinbase_def)
  show ?thesis
    using hash pow merkle fees stream_block_subsidy_valid first outputs
    by (simp add: semantic_verify_def stream_block_height stream_block_subsidy env Height_MAX_value Let_def
        header_time_is_valid_at_def constraints.zero_done MAX_BLOCK_SIGOPS_def)
qed

text \<open>C1. No block that the block verifier accepts creates money: when the transaction verifier answers
  for every transaction, in whatever order the answers arrive, the block's coinbase transaction has its first place
  and the block's other transactions are not coinbase transactions, every answer is positive, and the transparent
  outputs of the coinbase transaction, the value it moves into the shielded pools and the change of the
  deferred pool sum to at most the block subsidy plus the fees of all transactions, and
  to exactly that from NU6 on.\<close>

theorem accepted_block_creates_no_money:
  assumes "semantic_verify env net now is_proposal b = Done (Inr sv)"
    and "\<And>rs. mset (env_schedule env rs) = mset rs"
  shows "\<exists>cb rest subsidy change nu.
    transactions b = cb # rest \<and> is_coinbase cb \<and> (\<forall>tx \<in> set rest. is_valid_non_coinbase tx) \<and>
    coinbase_height b = Some (sv_height sv) \<and> block_subsidy (sv_height sv) net = Done (Inr subsidy) \<and>
    sv_deferred_pool_balance_change sv = Some change \<and> nu_current net (sv_height sv) = Done nu \<and>
    list_all (\<lambda>r. \<exists>response. r = Inr response) (block_responses env b sv) \<and>
    (let spendable = zatoshis subsidy + sum_list (map response_fee (block_responses env b sv))
     in if nu < Nu6 then coinbase_total cb change \<le> spendable else coinbase_total cb change = spendable)"
proof -
  from semantic_verify_ok [OF assms(1)] obtain cb subsidy change fees where s:
    "coinbase_height b = Some (sv_height sv)" "coinbase_is_first b = Inr cb"
    "block_subsidy (sv_height sv) net = Done (Inr subsidy)" "sv_deferred_pool_balance_change sv = Some change"
    "list_all (\<lambda>r. \<exists>response. r = Inr response) (env_schedule env (block_responses env b sv))"
    "zatoshis fees = sum_list (map response_fee (env_schedule env (block_responses env b sv)))"
    "miner_fees_are_valid cb (sv_height sv) fees subsidy change net = Done (Inr ())" by blast
  have "sum_list (map response_fee (env_schedule env rs)) = sum_list (map response_fee rs)" for rs
    using assms(2) by (metis mset_map sum_mset_sum_list)
  moreover have "set (env_schedule env rs) = set rs" for rs
    using assms(2) by (metis set_mset_mset)
  moreover have "transactions b = cb # tl (transactions b)" "is_coinbase cb"
    "\<forall>tx \<in> set (tl (transactions b)). is_valid_non_coinbase tx"
    using s(2) by (auto simp: coinbase_is_first_def list_all_iff split: list.splits if_splits)
  ultimately show ?thesis
    using s(1,3-6) miner_fees_ok [OF s(7)]
    by (intro exI [of _ cb] exI [of _ "tl (transactions b)"]) (auto simp: list_all_iff Let_def)
qed

theorem accepted_block_creates_no_money_witness:
  "\<exists>sv. semantic_verify stream_env stream_network 1477641360 False stream_block = Done (Inr sv) \<and>
        (\<exists>subsidy. block_subsidy (sv_height sv) stream_network = Done (Inr subsidy))"
proof -
  obtain sv where "semantic_verify stream_env stream_network 1477641360 False stream_block = Done (Inr sv)"
    using stream_block_verifies ..
  moreover have "mset (env_schedule stream_env rs) = mset rs" for rs by (simp add: stream_env_def)
  ultimately show ?thesis using accepted_block_creates_no_money by blast
qed

end
