(* ===== verification/Checked_Updates.thy ===== *)
theory Checked_Updates
  imports Zebra_Prelude "HOL-Library.Multiset"
begin

text \<open>
  Collections with checked insertions and removals, as the non-finalized chain uses them: an insertion
  asserts that the key is new, a removal asserts that the key is there. The locale \<open>update_with\<close> is the
  contract of the trait \<open>UpdateWith\<close> of \<open>zebra-state/src/service/non_finalized_state/chain.rs\<close>: each update
  has an inverse, and updates of different items commute, so that a sequence of updates is undone by
  reverting the same items in any order.
\<close>

section \<open>Checked maps\<close>

definition insert_new :: "'k \<Rightarrow> 'v \<Rightarrow> ('k \<rightharpoonup> 'v) \<Rightarrow> ('k \<rightharpoonup> 'v) outcome" where
  "insert_new k v m = (if m k = None then Done (m(k \<mapsto> v)) else Panic)"

definition remove_old :: "'k \<Rightarrow> ('k \<rightharpoonup> 'v) \<Rightarrow> ('k \<rightharpoonup> 'v) outcome" where
  "remove_old k m = (if m k = None then Panic else Done (m(k := None)))"

lemma insert_new_Done_iff: "insert_new k v m = Done m' \<longleftrightarrow> m k = None \<and> m' = m(k \<mapsto> v)"
  by (auto simp: insert_new_def)

lemma remove_old_Done_iff: "remove_old k m = Done m' \<longleftrightarrow> m k \<noteq> None \<and> m' = m(k := None)"
  by (auto simp: remove_old_def)

definition btree_remove :: "'k \<Rightarrow> ('k, 'v) btree \<Rightarrow> ('k, 'v) btree" where
  "btree_remove k m = filter (\<lambda>(k', _). k' \<noteq> k) m"

definition btree_insert_new :: "'k :: linorder \<Rightarrow> 'v \<Rightarrow> ('k, 'v) btree \<Rightarrow> ('k, 'v) btree outcome" where
  "btree_insert_new k v m = (if map_of m k = None then Done (btree_insert k v m) else Panic)"

lemma btree_insert_new_Done_iff:
  "btree_insert_new k v m = Done m' \<longleftrightarrow> map_of m k = None \<and> m' = btree_insert k v m"
  by (auto simp: btree_insert_new_def)

lemma btree_remove_absent: "map_of m k = None \<Longrightarrow> btree_remove k m = m"
  by (induction m) (auto simp: btree_remove_def split: if_splits)

lemma btree_remove_Cons [simp]:
  "btree_remove k ((k', v') # m) = (if k' = k then btree_remove k m else (k', v') # btree_remove k m)"
  "btree_remove k [] = []"
  by (simp_all add: btree_remove_def)

lemma btree_remove_insert: "map_of m k = None \<Longrightarrow> btree_remove k (btree_insert k v m) = m"
  by (induction k v m rule: btree_insert.induct) (auto simp: btree_remove_absent split: if_splits)

lemma map_of_btree_insert_same: "map_of (btree_insert k v m) k = Some v"
  by (induction k v m rule: btree_insert.induct) auto

lemma map_of_btree_remove: "map_of (btree_remove k m) = (map_of m)(k := None)"
  by (induction m) (auto simp: btree_remove_def)

lemma btree_ok_remove: "btree_ok m \<Longrightarrow> btree_ok (btree_remove k m)"
  unfolding btree_ok_def btree_remove_def
  by (induction m) (auto split: prod.splits)

lemma btree_eqI:
  assumes "btree_ok m" and "btree_ok m'" and "map_of m = map_of m'"
  shows "m = m'"
proof -
  have d: "distinct (map fst m)" "distinct (map fst m')"
    using assms(1,2) by (simp_all add: btree_ok_distinct)
  then have "set m = set m'" using assms(3) by (simp add: map_of_inject_set)
  moreover have "sorted (map fst m)" "sorted (map fst m')"
    using assms(1,2) by (simp_all add: btree_ok_def strict_sorted_iff)
  moreover have "inj_on fst (set m)" using d by (simp add: distinct_map)
  ultimately show ?thesis using d map_sorted_distinct_set_unique [of fst m m'] by simp
qed

lemma btree_insert_commute:
  assumes "btree_ok m" and "k \<noteq> k'"
  shows "btree_insert k v (btree_insert k' v' m) = btree_insert k' v' (btree_insert k v m)"
  using assms by (intro btree_eqI) (auto simp: btree_ok_insert map_of_btree_insert fun_upd_twist)

section \<open>Sequences of updates\<close>

primrec updates :: "('t \<Rightarrow> 's \<Rightarrow> 's outcome) \<Rightarrow> 't list \<Rightarrow> 's \<Rightarrow> 's outcome" where
  "updates f [] s = Done s"
| "updates f (t # ts) s = run_bind (f t s) (updates f ts)"

lemma updates_append: "updates f (ts @ us) s = run_bind (updates f ts s) (updates f us)"
proof (induction ts arbitrary: s)
  case (Cons t ts)
  then show ?case by (cases "f t s") simp_all
qed simp

text \<open>
  \<open>ok\<close> is a precondition on a state and the items that are still to be added to it.
\<close>

locale update_with =
  fixes update :: "'t \<Rightarrow> 's \<Rightarrow> 's outcome"
    and revert :: "'t \<Rightarrow> 's \<Rightarrow> 's outcome"
    and ok :: "'t multiset \<Rightarrow> 's \<Rightarrow> bool"
  assumes inverse: "ok (add_mset t T) s \<Longrightarrow> update t s = Done s' \<Longrightarrow> revert t s' = Done s"
    and commute: "ok (add_mset t (add_mset u T)) s \<Longrightarrow> update t s = Done s1 \<Longrightarrow> update u s1 = Done s2 \<Longrightarrow>
          \<exists>s'. update u s = Done s' \<and> update t s' = Done s2"
    and keeps: "ok (add_mset t T) s \<Longrightarrow> update t s = Done s' \<Longrightarrow> ok T s'"
    and fewer: "ok (add_mset t T) s \<Longrightarrow> ok T s"
begin

lemma fewer_list: "ok (T + mset us) s \<Longrightarrow> ok T s"
  by (induction us) (auto dest: fewer)

lemma update_moves_last:
  assumes "ok (add_mset t (mset us)) s" and "update t s = Done s1" and "updates update us s1 = Done s2"
  shows "\<exists>s'. updates update us s = Done s' \<and> update t s' = Done s2 \<and> ok {#t#} s'"
  using assms
proof (induction us arbitrary: s s1)
  case (Cons u us)
  then obtain s1u where s1u: "update u s1 = Done s1u" "updates update us s1u = Done s2"
    by (auto simp: run_bind_Done_iff)
  have ok: "ok (add_mset t (add_mset u (mset us))) s" using Cons.prems(1) by simp
  from commute [OF ok Cons.prems(2) s1u(1)] obtain su where su: "update u s = Done su" "update t su = Done s1u"
    by blast
  have "ok (add_mset t (mset us)) su"
    using keeps [of u "add_mset t (mset us)" s su] su(1) ok by (simp add: add_mset_commute)
  from Cons.IH [OF this su(2) s1u(2)] su(1) show ?case by auto
qed auto

lemma restores:
  assumes "ok (mset ts) s" and "updates update ts s = Done s'"
  shows "updates revert ts s' = Done s"
  using assms
proof (induction ts arbitrary: s s')
  case (Cons t ts)
  then obtain s1 where s1: "update t s = Done s1" "updates update ts s1 = Done s'"
    by (auto simp: run_bind_Done_iff)
  have ok: "ok (add_mset t (mset ts)) s" using Cons.prems(1) by simp
  from update_moves_last [OF ok s1] obtain s2 where s2:
    "updates update ts s = Done s2" "update t s2 = Done s'" "ok {#t#} s2" by blast
  have "revert t s' = Done s2" using inverse [of t "{#}" s2 s'] s2 by simp
  moreover have "updates revert ts s2 = Done s" using Cons.IH [OF fewer [OF ok] s2(1)] .
  ultimately show ?case by simp
qed simp

lemma update_moves_first:
  assumes "ok (mset (us @ [t])) s" and "updates update (us @ [t]) s = Done s2"
  shows "updates update (t # us) s = Done s2"
  using assms
proof (induction us arbitrary: s)
  case (Cons u us)
  then obtain s1 where s1: "update u s = Done s1" "updates update (us @ [t]) s1 = Done s2"
    by (auto simp: run_bind_Done_iff)
  have "ok (mset (us @ [t])) s1" using keeps [of u "mset (us @ [t])" s s1] Cons.prems(1) s1(1) by simp
  then obtain s3 where s3: "update t s1 = Done s3" "updates update us s3 = Done s2"
    using Cons.IH [of s1] s1(2) by (auto simp: run_bind_Done_iff)
  have "ok (add_mset u (add_mset t (mset us))) s" using Cons.prems(1) by simp
  from commute [OF this s1(1) s3(1)] s3(2) show ?case by auto
qed simp

lemma updates_permute:
  assumes "mset ts = mset us" and "ok (mset ts) s" and "updates update ts s = Done s'"
  shows "updates update us s = Done s'"
  using assms
proof (induction us arbitrary: ts s)
  case (Cons u us)
  then have "u \<in> set ts" by (metis list.set_intros(1) mset_eq_setD)
  then obtain pre post where ts: "ts = pre @ u # post" by (auto simp: in_set_conv_decomp)
  then obtain sp where sp: "updates update (pre @ [u]) s = Done sp" "updates update post sp = Done s'"
    using Cons.prems(3) by (auto simp: updates_append run_bind_Done_iff)
  have "ok (mset (pre @ [u]) + mset post) s" using Cons.prems(2) ts by simp
  then have "ok (mset (pre @ [u])) s" by (rule fewer_list)
  from update_moves_first [OF this sp(1)] sp(2) have "updates update (u # pre @ post) s = Done s'"
    by (auto simp: updates_append run_bind_Done_iff)
  then obtain s1 where s1: "update u s = Done s1" "updates update (pre @ post) s1 = Done s'"
    by (auto simp: run_bind_Done_iff)
  have "ok (mset (pre @ post)) s1" using keeps [of u "mset (pre @ post)" s s1] s1(1) Cons.prems(2) ts by simp
  from Cons.IH [OF _ this s1(2)] Cons.prems(1) ts s1(1) show ?case by simp
qed simp

text \<open>A sequence of updates is undone by reverting its items, in any order.\<close>

lemma restores_permuted:
  assumes "mset ts = mset us" and "ok (mset ts) s" and "updates update ts s = Done s'"
  shows "updates revert us s' = Done s"
  using restores [of us s s'] updates_permute [OF assms] assms(1,2) by simp

end

end
