(* ===== verification/Transparent_Indexes.thy ===== *)
theory Transparent_Indexes
  imports Context_Errors Addresses Checked_Updates "HOL-Library.Product_Lexorder"
begin

text \<open>
  The transparent address index of a non-finalized chain:
  \<open>zebra-state/src/service/non_finalized_state/chain/index.rs\<close>, with the transaction and output locations
  of \<open>zebra-state/src/service/finalized_state/disk_format\<close>. A location is the pair of its parts,
  ordered like the derived order of the struct. The updates always return \<open>Ok\<close>, so they are
  modelled by their new state; their \<open>expect\<close> calls and assertions are panics.
\<close>

section \<open>Locations\<close>

type_synonym transaction_location = "height \<times> nat"

type_synonym output_location = "transaction_location \<times> nat"

definition transaction_location_from_usize :: "height \<Rightarrow> nat \<Rightarrow> transaction_location outcome" where
  "transaction_location_from_usize h transaction_index =
     (if transaction_index < 2 ^ 16 then Done (h, transaction_index) else Panic)"

definition output_location_from_outpoint :: "transaction_location \<Rightarrow> outpoint \<Rightarrow> output_location" where
  "output_location_from_outpoint loc op = (loc, outpoint_index op)"

definition transaction_location :: "ordered_utxo \<Rightarrow> transaction_location outcome" where
  "transaction_location u = transaction_location_from_usize (utxo_height (ou_utxo u)) (tx_index_in_block u)"

section \<open>Transfers of one address\<close>

record transparent_transfers =
  tt_balance :: amount
  tt_tx_ids :: "transaction_hash multiset"
  tt_created_utxos :: "(output_location, transparent_output) btree"
  tt_spent_utxos :: "output_location set"

definition transfers_default :: transparent_transfers where
  "transfers_default = \<lparr>tt_balance = Amount 0, tt_tx_ids = {#}, tt_created_utxos = [], tt_spent_utxos = {}\<rparr>"

definition transfers_is_empty :: "transparent_transfers \<Rightarrow> bool" where
  "transfers_is_empty t \<longleftrightarrow>
     tt_balance t = Amount 0 \<and> tt_tx_ids t = {#} \<and> tt_created_utxos t = [] \<and> tt_spent_utxos t = {}"

definition transfers_received :: "transparent_transfers \<Rightarrow> nat" where
  "transfers_received t =
     sum_list (map (\<lambda>(_, out). nat (zatoshis (output_value out))) (tt_created_utxos t)) mod 2 ^ 64"

definition constrained_value :: "ordered_utxo \<Rightarrow> amount outcome" where
  "constrained_value u = expect_ok (amount_constrain NegativeAllowed (output_value (utxo_output (ou_utxo u))))"

definition transfers_add_created ::
  "outpoint \<Rightarrow> ordered_utxo \<Rightarrow> transparent_transfers \<Rightarrow> transparent_transfers outcome" where
  "transfers_add_created op u t =
     run_bind (constrained_value u) (\<lambda>v.
     run_bind (amount_add NegativeAllowed (tt_balance t) v) (\<lambda>r.
     run_bind (expect_ok r) (\<lambda>new_balance.
     run_bind (transaction_location u) (\<lambda>loc.
     run_bind (btree_insert_new (output_location_from_outpoint loc op) (utxo_output (ou_utxo u))
                 (tt_created_utxos t)) (\<lambda>created.
       Done (t\<lparr>tt_balance := new_balance, tt_created_utxos := created,
               tt_tx_ids := add_mset (outpoint_hash op) (tt_tx_ids t)\<rparr>))))))"

definition transfers_revert_created ::
  "outpoint \<Rightarrow> ordered_utxo \<Rightarrow> transparent_transfers \<Rightarrow> transparent_transfers outcome" where
  "transfers_revert_created op u t =
     run_bind (constrained_value u) (\<lambda>v.
     run_bind (amount_sub NegativeAllowed (tt_balance t) v) (\<lambda>r.
     run_bind (expect_ok r) (\<lambda>new_balance.
     run_bind (transaction_location u) (\<lambda>loc.
     let out_loc = output_location_from_outpoint loc op in
     run_bind (assert_that (map_of (tt_created_utxos t) out_loc \<noteq> None)) (\<lambda>_.
     run_bind (assert_that (outpoint_hash op \<in># tt_tx_ids t)) (\<lambda>_.
       Done (t\<lparr>tt_balance := new_balance, tt_created_utxos := btree_remove out_loc (tt_created_utxos t),
               tt_tx_ids := tt_tx_ids t - {#outpoint_hash op#}\<rparr>)))))))"

definition transfers_add_spent ::
  "transparent_input \<Rightarrow> transaction_hash \<Rightarrow> ordered_utxo \<Rightarrow> transparent_transfers \<Rightarrow>
   transparent_transfers outcome" where
  "transfers_add_spent spending_input spending_tx_hash u t =
     run_bind (constrained_value u) (\<lambda>v.
     run_bind (amount_sub NegativeAllowed (tt_balance t) v) (\<lambda>r.
     run_bind (expect_ok r) (\<lambda>new_balance.
     run_bind (expect_some (input_outpoint spending_input)) (\<lambda>spent_outpoint.
     run_bind (transaction_location u) (\<lambda>loc.
     let out_loc = output_location_from_outpoint loc spent_outpoint in
     run_bind (assert_that (out_loc \<notin> tt_spent_utxos t)) (\<lambda>_.
       Done (t\<lparr>tt_balance := new_balance, tt_spent_utxos := insert out_loc (tt_spent_utxos t),
               tt_tx_ids := add_mset spending_tx_hash (tt_tx_ids t)\<rparr>)))))))"

definition transfers_revert_spent ::
  "transparent_input \<Rightarrow> transaction_hash \<Rightarrow> ordered_utxo \<Rightarrow> transparent_transfers \<Rightarrow>
   transparent_transfers outcome" where
  "transfers_revert_spent spending_input spending_tx_hash u t =
     run_bind (constrained_value u) (\<lambda>v.
     run_bind (amount_add NegativeAllowed (tt_balance t) v) (\<lambda>r.
     run_bind (expect_ok r) (\<lambda>new_balance.
     run_bind (expect_some (input_outpoint spending_input)) (\<lambda>spent_outpoint.
     run_bind (transaction_location u) (\<lambda>loc.
     let out_loc = output_location_from_outpoint loc spent_outpoint in
     run_bind (assert_that (out_loc \<in> tt_spent_utxos t)) (\<lambda>_.
     run_bind (assert_that (spending_tx_hash \<in># tt_tx_ids t)) (\<lambda>_.
       Done (t\<lparr>tt_balance := new_balance, tt_spent_utxos := tt_spent_utxos t - {out_loc},
               tt_tx_ids := tt_tx_ids t - {#spending_tx_hash#}\<rparr>))))))))"

section \<open>The index\<close>

text \<open>
  \<open>entry(address).or_default()\<close> followed by an update, and \<open>get_mut(&address).expect(..)\<close> followed by a
  revert that drops an empty entry.
\<close>

type_synonym address_index = "transparent_address \<rightharpoonup> transparent_transfers"

definition index_update ::
  "(transparent_transfers \<Rightarrow> transparent_transfers outcome) \<Rightarrow> transparent_address \<Rightarrow> address_index \<Rightarrow>
   address_index outcome" where
  "index_update f addr m =
     run_bind (f (case m addr of Some t \<Rightarrow> t | None \<Rightarrow> transfers_default)) (\<lambda>t. Done (m(addr \<mapsto> t)))"

definition index_revert ::
  "(transparent_transfers \<Rightarrow> transparent_transfers outcome) \<Rightarrow> transparent_address \<Rightarrow> address_index \<Rightarrow>
   address_index outcome" where
  "index_revert f addr m =
     run_bind (expect_some (m addr)) (\<lambda>t.
     run_bind (f t) (\<lambda>t'. Done (if transfers_is_empty t' then m(addr := None) else m(addr \<mapsto> t'))))"

section \<open>Lemmas\<close>

text \<open>One transfer, with the address it belongs to.\<close>

datatype transfer =
    Received outpoint ordered_utxo
  | Spent transparent_input transaction_hash ordered_utxo

fun transfer_update :: "transfer \<Rightarrow> transparent_transfers \<Rightarrow> transparent_transfers outcome" where
  "transfer_update (Received op u) = transfers_add_created op u"
| "transfer_update (Spent i hash u) = transfers_add_spent i hash u"

fun transfer_revert :: "transfer \<Rightarrow> transparent_transfers \<Rightarrow> transparent_transfers outcome" where
  "transfer_revert (Received op u) = transfers_revert_created op u"
| "transfer_revert (Spent i hash u) = transfers_revert_spent i hash u"

abbreviation utxo_zatoshis :: "ordered_utxo \<Rightarrow> int" where
  "utxo_zatoshis u \<equiv> zatoshis (output_value (utxo_output (ou_utxo u)))"

fun transfer_value :: "transfer \<Rightarrow> int" where
  "transfer_value (Received op u) = utxo_zatoshis u"
| "transfer_value (Spent i hash u) = - utxo_zatoshis u"

fun transfer_outpoint :: "transfer \<Rightarrow> outpoint option" where
  "transfer_outpoint (Received op u) = Some op"
| "transfer_outpoint (Spent i hash u) = input_outpoint i"

fun transfer_utxo :: "transfer \<Rightarrow> ordered_utxo" where
  "transfer_utxo (Received op u) = u"
| "transfer_utxo (Spent i hash u) = u"

fun transfer_hash :: "transfer \<Rightarrow> transaction_hash" where
  "transfer_hash (Received op u) = outpoint_hash op"
| "transfer_hash (Spent i hash u) = hash"

definition transfer_location :: "transfer \<Rightarrow> output_location" where
  "transfer_location e =
     ((utxo_height (ou_utxo (transfer_utxo e)), tx_index_in_block (transfer_utxo e)),
      outpoint_index (the (transfer_outpoint e)))"

definition transfer_typed :: "transfer \<Rightarrow> bool" where
  "transfer_typed e \<longleftrightarrow> \<bar>transfer_value e\<bar> \<le> MAX_MONEY \<and> transfer_outpoint e \<noteq> None \<and>
     tx_index_in_block (transfer_utxo e) < 2 ^ 16"

fun transfer_new :: "transfer \<Rightarrow> transparent_transfers \<Rightarrow> bool" where
  "transfer_new (Received op u) t = (map_of (tt_created_utxos t) (transfer_location (Received op u)) = None)"
| "transfer_new (Spent i hash u) t = (transfer_location (Spent i hash u) \<notin> tt_spent_utxos t)"

fun transfer_added :: "transfer \<Rightarrow> transparent_transfers \<Rightarrow> transparent_transfers" where
  "transfer_added (Received op u) t =
     t\<lparr>tt_balance := Amount (zatoshis (tt_balance t) + utxo_zatoshis u),
       tt_created_utxos := btree_insert (transfer_location (Received op u)) (utxo_output (ou_utxo u))
         (tt_created_utxos t),
       tt_tx_ids := add_mset (outpoint_hash op) (tt_tx_ids t)\<rparr>"
| "transfer_added (Spent i hash u) t =
     t\<lparr>tt_balance := Amount (zatoshis (tt_balance t) - utxo_zatoshis u),
       tt_spent_utxos := insert (transfer_location (Spent i hash u)) (tt_spent_utxos t),
       tt_tx_ids := add_mset hash (tt_tx_ids t)\<rparr>"

lemma constrained_value_Done_iff:
  "constrained_value u = Done v \<longleftrightarrow> \<bar>utxo_zatoshis u\<bar> \<le> MAX_MONEY \<and> v = output_value (utxo_output (ou_utxo u))"
  by (auto simp: constrained_value_def amount_constrain_def try_from_i64_cases amount_ok_def)

lemma amount_step:
  assumes "\<bar>zatoshis b\<bar> \<le> MAX_MONEY" and "\<bar>zatoshis a\<bar> \<le> MAX_MONEY"
  shows "run_bind (amount_add NegativeAllowed b a) (\<lambda>r. run_bind (expect_ok r) f) =
           (if \<bar>zatoshis b + zatoshis a\<bar> \<le> MAX_MONEY then f (Amount (zatoshis b + zatoshis a)) else Panic)"
    and "run_bind (amount_sub NegativeAllowed b a) (\<lambda>r. run_bind (expect_ok r) f) =
           (if \<bar>zatoshis b - zatoshis a\<bar> \<le> MAX_MONEY then f (Amount (zatoshis b - zatoshis a)) else Panic)"
  using assms
  by (auto simp: constraints.add_done constraints.sub_done try_from_i64_cases amount_ok_def abs_le_iff)

lemma transfer_update_Done_iff:
  assumes "\<bar>zatoshis (tt_balance t)\<bar> \<le> MAX_MONEY"
  shows "transfer_update e t = Done t' \<longleftrightarrow>
    transfer_typed e \<and> \<bar>zatoshis (tt_balance t) + transfer_value e\<bar> \<le> MAX_MONEY \<and> transfer_new e t \<and>
    t' = transfer_added e t"
proof (cases e)
  case (Received op u)
  show ?thesis
  proof (cases "\<bar>utxo_zatoshis u\<bar> \<le> MAX_MONEY")
    case True
    then have v: "constrained_value u = Done (output_value (utxo_output (ou_utxo u)))" by (simp add: constrained_value_Done_iff)
    show ?thesis
      using Received True assms
      by (auto simp: transfers_add_created_def v amount_step transfer_typed_def transaction_location_def
          transaction_location_from_usize_def btree_insert_new_Done_iff run_bind_Done_iff transfer_location_def
          output_location_from_outpoint_def)
  next
    case False
    then show ?thesis
      using Received
      by (auto simp: transfers_add_created_def run_bind_Done_iff constrained_value_Done_iff transfer_typed_def)
  qed
next
  case (Spent i hash u)
  show ?thesis
  proof (cases "\<bar>utxo_zatoshis u\<bar> \<le> MAX_MONEY")
    case True
    then have v: "constrained_value u = Done (output_value (utxo_output (ou_utxo u)))" by (simp add: constrained_value_Done_iff)
    show ?thesis
      using Spent True assms
      by (cases "input_outpoint i")
        (auto simp: transfers_add_spent_def v amount_step transfer_typed_def transaction_location_def
          transaction_location_from_usize_def run_bind_Done_iff transfer_location_def
          output_location_from_outpoint_def Let_def assert_that_def)
  next
    case False
    then show ?thesis
      using Spent
      by (auto simp: transfers_add_spent_def run_bind_Done_iff constrained_value_Done_iff transfer_typed_def)
  qed
qed

lemma transfer_revert_added:
  assumes "\<bar>zatoshis (tt_balance t)\<bar> \<le> MAX_MONEY" and "transfer_typed e" and "transfer_new e t"
    and "\<bar>zatoshis (tt_balance t) + transfer_value e\<bar> \<le> MAX_MONEY"
  shows "transfer_revert e (transfer_added e t) = Done t"
proof (cases e)
  case (Received op u)
  then have v: "constrained_value u = Done (output_value (utxo_output (ou_utxo u)))"
    using assms(2) by (simp add: constrained_value_Done_iff transfer_typed_def)
  show ?thesis
    using Received assms
    by (simp add: transfers_revert_created_def v amount_step transfer_typed_def transaction_location_def
        transaction_location_from_usize_def transfer_location_def output_location_from_outpoint_def Let_def
        assert_that_def btree_remove_insert map_of_btree_insert_same)
next
  case (Spent i hash u)
  then have v: "constrained_value u = Done (output_value (utxo_output (ou_utxo u)))"
    using assms(2) by (simp add: constrained_value_Done_iff transfer_typed_def)
  show ?thesis
    using Spent assms
    by (auto simp: transfers_revert_spent_def v amount_step transfer_typed_def transaction_location_def
        transaction_location_from_usize_def transfer_location_def output_location_from_outpoint_def Let_def
        assert_that_def)
qed

lemma transfer_added_facts:
  "zatoshis (tt_balance (transfer_added e t)) = zatoshis (tt_balance t) + transfer_value e"
  "tt_tx_ids (transfer_added e t) = add_mset (transfer_hash e) (tt_tx_ids t)"
  "btree_ok (tt_created_utxos t) \<Longrightarrow> btree_ok (tt_created_utxos (transfer_added e t))"
  "\<not> transfers_is_empty (transfer_added e t)"
  by (cases e; simp add: btree_ok_insert transfers_is_empty_def)+

lemma transfer_added_commute:
  assumes "btree_ok (tt_created_utxos t)" and "transfer_new e t" and "transfer_new f (transfer_added e t)"
  shows "transfer_new f t \<and> transfer_new e (transfer_added f t) \<and>
         transfer_added e (transfer_added f t) = transfer_added f (transfer_added e t)"
  using assms
  by (cases e; cases f)
    (auto simp: map_of_btree_insert btree_insert_commute add_mset_commute insert_commute split: if_splits)

abbreviation index_view :: "address_index \<Rightarrow> transparent_address \<Rightarrow> transparent_transfers" where
  "index_view m a \<equiv> (case m a of Some t \<Rightarrow> t | None \<Rightarrow> transfers_default)"

definition index_apply :: "transparent_address \<times> transfer \<Rightarrow> address_index \<Rightarrow> address_index outcome" where
  "index_apply ae = index_update (transfer_update (snd ae)) (fst ae)"

definition index_undo :: "transparent_address \<times> transfer \<Rightarrow> address_index \<Rightarrow> address_index outcome" where
  "index_undo ae = index_revert (transfer_revert (snd ae)) (fst ae)"

text \<open>The value that a collection of transfers moves to and from one address, without signs.\<close>

definition moved_value :: "transparent_address \<Rightarrow> (transparent_address \<times> transfer) multiset \<Rightarrow> int" where
  "moved_value a T = (\<Sum>(b, e) \<in># T. if b = a then \<bar>transfer_value e\<bar> else 0)"

definition index_ok :: "(transparent_address \<times> transfer) multiset \<Rightarrow> address_index \<Rightarrow> bool" where
  "index_ok T m \<longleftrightarrow>
     (\<forall>a t. m a = Some t \<longrightarrow> \<not> transfers_is_empty t \<and> btree_ok (tt_created_utxos t)) \<and>
     (\<forall>a. \<bar>zatoshis (tt_balance (index_view m a))\<bar> + moved_value a T \<le> MAX_MONEY)"

lemma moved_value_add [simp]:
  "moved_value a (add_mset (b, e) T) = (if b = a then \<bar>transfer_value e\<bar> else 0) + moved_value a T"
  by (simp add: moved_value_def)

lemma moved_value_nonneg: "0 \<le> moved_value a T"
  by (induction T) (auto simp: moved_value_def)

lemma index_okD:
  assumes "index_ok T m"
  shows "btree_ok (tt_created_utxos (index_view m a))"
    and "\<bar>zatoshis (tt_balance (index_view m a))\<bar> \<le> MAX_MONEY"
    and "\<bar>zatoshis (tt_balance (index_view m a))\<bar> + moved_value a T \<le> MAX_MONEY"
  using assms moved_value_nonneg [of a T]
  by (auto simp: index_ok_def transfers_default_def dest: spec [of _ a] split: option.splits)

lemma index_apply_Done_iff:
  assumes "index_ok T m"
  shows "index_apply (a, e) m = Done m' \<longleftrightarrow>
    transfer_typed e \<and> \<bar>zatoshis (tt_balance (index_view m a)) + transfer_value e\<bar> \<le> MAX_MONEY \<and>
    transfer_new e (index_view m a) \<and> m' = m(a \<mapsto> transfer_added e (index_view m a))"
  using index_okD(2) [OF assms, of a]
  by (auto simp: index_apply_def index_update_def run_bind_Done_iff transfer_update_Done_iff)

lemma index_ok_apply:
  assumes "index_ok (add_mset (a, e) T) m" and "index_apply (a, e) m = Done m'"
  shows "index_ok T m'"
proof -
  have m': "m' = m(a \<mapsto> transfer_added e (index_view m a))"
    using index_apply_Done_iff [OF assms(1)] assms(2) by simp
  have "\<bar>zatoshis (tt_balance (index_view m' b))\<bar> + moved_value b T \<le> MAX_MONEY" for b
    using index_okD(3) [OF assms(1), of b] m' by (cases "b = a") (auto simp: transfer_added_facts)
  then show ?thesis
    using assms(1) index_okD(1) [OF assms(1)] m' by (auto simp: index_ok_def transfer_added_facts)
qed

lemma index_ok_fewer: "index_ok (add_mset ae T) m \<Longrightarrow> index_ok T m"
proof -
  assume ok: "index_ok (add_mset ae T) m"
  have "\<bar>zatoshis (tt_balance (index_view m a))\<bar> + moved_value a T \<le> MAX_MONEY" for a
    using index_okD(3) [OF ok, of a] by (cases ae) (simp split: if_splits)
  then show "index_ok T m" using ok by (simp add: index_ok_def)
qed

lemma index_undo_apply:
  assumes "index_ok T m" and "index_apply (a, e) m = Done m'"
  shows "index_undo (a, e) m' = Done m"
proof -
  have m': "m' = m(a \<mapsto> transfer_added e (index_view m a))"
    and "transfer_revert e (transfer_added e (index_view m a)) = Done (index_view m a)"
    using index_apply_Done_iff [OF assms(1)] assms(2) index_okD(2) [OF assms(1)]
    by (simp_all add: transfer_revert_added)
  moreover have "m a = Some t \<Longrightarrow> \<not> transfers_is_empty t" for t using assms(1) by (auto simp: index_ok_def)
  moreover have "transfers_is_empty transfers_default"
    by (simp add: transfers_is_empty_def transfers_default_def)
  ultimately show ?thesis
    by (cases "m a") (auto simp: index_undo_def index_revert_def fun_upd_idem)
qed

lemma index_apply_commute:
  assumes "index_ok (add_mset (a, e) (add_mset (b, f) T)) m"
    and "index_apply (a, e) m = Done m1" and "index_apply (b, f) m1 = Done m2"
  shows "\<exists>m'. index_apply (b, f) m = Done m' \<and> index_apply (a, e) m' = Done m2"
proof -
  have ok: "index_ok (add_mset (b, f) T) m1" using index_ok_apply [OF assms(1,2)] .
  have e: "transfer_typed e" "transfer_new e (index_view m a)" "m1 = m(a \<mapsto> transfer_added e (index_view m a))"
    using index_apply_Done_iff [OF assms(1)] assms(2) by simp_all
  have f: "transfer_typed f" "transfer_new f (index_view m1 b)" "m2 = m1(b \<mapsto> transfer_added f (index_view m1 b))"
    using index_apply_Done_iff [OF ok] assms(3) by simp_all
  let ?m' = "m(b \<mapsto> transfer_added f (index_view m b))"
  have "transfer_new f (index_view m b) \<and> transfer_new e (index_view ?m' a) \<and>
    ?m'(a \<mapsto> transfer_added e (index_view ?m' a)) = m2"
  proof (cases "a = b")
    case True
    then have "transfer_new f (transfer_added e (index_view m a))" using e(3) f(2) by simp
    from transfer_added_commute [OF index_okD(1) [OF assms(1), of a] e(2) this] show ?thesis
      using True e(3) f(3) by simp
  next
    case False
    then show ?thesis using e(2,3) f(2,3) by (simp add: fun_upd_twist)
  qed
  then have new: "transfer_new f (index_view m b)" "transfer_new e (index_view ?m' a)"
    "?m'(a \<mapsto> transfer_added e (index_view ?m' a)) = m2" by blast+
  have range: "\<bar>zatoshis (tt_balance (index_view m b)) + transfer_value f\<bar> \<le> MAX_MONEY"
    using index_okD(3) [OF assms(1), of b] moved_value_nonneg [of b T] by (auto split: if_splits)
  have m': "index_apply (b, f) m = Done ?m'"
    using index_apply_Done_iff [OF assms(1)] f(1) new(1) range by simp
  have ok': "index_ok (add_mset (a, e) T) ?m'"
    using index_ok_apply [of b f "add_mset (a, e) T" m ?m'] assms(1) m' by (simp add: add_mset_commute)
  have "\<bar>zatoshis (tt_balance (index_view ?m' a)) + transfer_value e\<bar> \<le> MAX_MONEY"
    using index_okD(3) [OF ok', of a] moved_value_nonneg [of a T] by simp
  then have "index_apply (a, e) ?m' = Done m2"
    using index_apply_Done_iff [OF ok'] e(1) new(2,3) by simp
  with m' show ?thesis by blast
qed

interpretation transfer_index: update_with index_apply index_undo index_ok
proof
  show "index_undo t s' = Done s" if "index_ok (add_mset t T) s" "index_apply t s = Done s'" for t T s s'
    using that index_undo_apply by (cases t) blast
  show "\<exists>s'. index_apply u s = Done s' \<and> index_apply t s' = Done s2"
    if "index_ok (add_mset t (add_mset u T)) s" "index_apply t s = Done s1" "index_apply u s1 = Done s2"
    for t u T s s1 s2
    using that index_apply_commute by (cases t; cases u) blast
  show "index_ok T s'" if "index_ok (add_mset t T) s" "index_apply t s = Done s'" for t T s s'
    using that index_ok_apply by (cases t) blast
  show "index_ok T s" if "index_ok (add_mset t T) s" for t T s
    using that by (rule index_ok_fewer)
qed

end
