(* ===== verification/Note_Commitment_Trees.thy ===== *)
theory Note_Commitment_Trees
  imports Context_Errors
begin

text \<open>
  Note commitment tree updates: \<open>NoteCommitmentTrees\<close> of \<open>zebra-chain/src/parallel/tree.rs\<close> and the
  subtrees of \<open>zebra-chain/src/subtree.rs\<close>. The trees themselves are frontiers of the
  incremental Merkle tree library: their root, their append, which fails when a tree is full,
  and the subtree that the last appended note completed are operations of an argument. The three trees of
  the program have one type here, and the tasks that the program runs in parallel work on separate trees, so
  they are run in the order of their results.
\<close>

section \<open>Trees and subtrees\<close>

record 't tree_ops =
  tree_root :: "'t \<Rightarrow> byte list"
  tree_append :: "'t \<Rightarrow> byte list \<Rightarrow> 't option"
  completed_subtree_index_and_root :: "'t \<Rightarrow> (nat \<times> byte list) option"

record subtree_data =
  sd_root :: "byte list"
  sd_end_height :: height

record note_commitment_subtree =
  subtree_index :: nat
  subtree_root :: "byte list"
  subtree_end_height :: height

definition into_data :: "note_commitment_subtree \<Rightarrow> subtree_data" where
  "into_data s = \<lparr>sd_root = subtree_root s, sd_end_height = subtree_end_height s\<rparr>"

definition with_index :: "nat \<Rightarrow> subtree_data \<Rightarrow> note_commitment_subtree" where
  "with_index i d = \<lparr>subtree_index = i, subtree_root = sd_root d, subtree_end_height = sd_end_height d\<rparr>"

record 't note_commitment_trees =
  nct_sprout :: 't
  nct_sapling :: 't
  nct_sapling_subtree :: "note_commitment_subtree option"
  nct_orchard :: 't
  nct_orchard_subtree :: "note_commitment_subtree option"

datatype note_commitment_tree_error = SproutTreeError | SaplingTreeError | OrchardTreeError

section \<open>Updates\<close>

fun update_sprout_note_commitment_tree ::
  "'t tree_ops \<Rightarrow> 't \<Rightarrow> byte list list \<Rightarrow> note_commitment_tree_error + 't" where
  "update_sprout_note_commitment_tree ops t [] = Inr t"
| "update_sprout_note_commitment_tree ops t (cm # cms) =
     (case tree_append ops t cm of
        None \<Rightarrow> Inl SproutTreeError
      | Some t' \<Rightarrow> update_sprout_note_commitment_tree ops t' cms)"

text \<open>The Sapling and the Orchard update are the same loop, with the error of their pool.\<close>

fun append_notes ::
  "'t tree_ops \<Rightarrow> note_commitment_tree_error \<Rightarrow> 't \<Rightarrow> (nat \<times> byte list) option \<Rightarrow> byte list list \<Rightarrow>
   note_commitment_tree_error + 't \<times> (nat \<times> byte list) option" where
  "append_notes ops e t subtree [] = Inr (t, subtree)"
| "append_notes ops e t subtree (cm # cms) =
     (case tree_append ops t cm of
        None \<Rightarrow> Inl e
      | Some t' \<Rightarrow>
          append_notes ops e t'
            (case completed_subtree_index_and_root ops t' of
               Some index_and_node \<Rightarrow> Some index_and_node | None \<Rightarrow> subtree) cms)"

definition update_sapling_note_commitment_tree ::
  "'t tree_ops \<Rightarrow> 't \<Rightarrow> byte list list \<Rightarrow> note_commitment_tree_error + 't \<times> (nat \<times> byte list) option" where
  "update_sapling_note_commitment_tree ops t cms = append_notes ops SaplingTreeError t None cms"

definition update_orchard_note_commitment_tree ::
  "'t tree_ops \<Rightarrow> 't \<Rightarrow> byte list list \<Rightarrow> note_commitment_tree_error + 't \<times> (nat \<times> byte list) option" where
  "update_orchard_note_commitment_tree ops t cms = append_notes ops OrchardTreeError t None cms"

definition new_subtree :: "height \<Rightarrow> nat \<times> byte list \<Rightarrow> note_commitment_subtree" where
  "new_subtree h index_and_node =
     \<lparr>subtree_index = fst index_and_node, subtree_root = snd index_and_node, subtree_end_height = h\<rparr>"

record 't pool_ops =
  sprout_ops :: "'t tree_ops"
  sapling_ops :: "'t tree_ops"
  orchard_ops :: "'t tree_ops"

definition update_trees_parallel ::
  "'t pool_ops \<Rightarrow> transaction block \<Rightarrow> 't note_commitment_trees \<Rightarrow>
   (note_commitment_tree_error + 't note_commitment_trees) outcome" where
  "update_trees_parallel ops b nct =
     run_bind (expect_some (coinbase_height b)) (\<lambda>h.
     try_bind
       (Done (if block_sprout_note_commitments b = [] then Inr nct
              else res_bind (update_sprout_note_commitment_tree (sprout_ops ops) (nct_sprout nct)
                               (block_sprout_note_commitments b)) (\<lambda>t.
                Inr (nct\<lparr>nct_sprout := t\<rparr>)))) (\<lambda>nct1.
     try_bind
       (Done (if block_sapling_note_commitments b = [] then Inr nct1
              else res_bind (update_sapling_note_commitment_tree (sapling_ops ops) (nct_sapling nct)
                               (block_sapling_note_commitments b)) (\<lambda>(t, subtree).
                Inr (nct1\<lparr>nct_sapling := t, nct_sapling_subtree := map_option (new_subtree h) subtree\<rparr>)))) (\<lambda>nct2.
     try_bind
       (Done (if block_orchard_note_commitments b = [] then Inr nct2
              else res_bind (update_orchard_note_commitment_tree (orchard_ops ops) (nct_orchard nct)
                               (block_orchard_note_commitments b)) (\<lambda>(t, subtree).
                Inr (nct2\<lparr>nct_orchard := t, nct_orchard_subtree := map_option (new_subtree h) subtree\<rparr>)))) (\<lambda>nct3.
       Done (Inr nct3)))))"

end
