(* ===== verification/Chains.thy ===== *)
theory Chains
  imports Transparent_Indexes Note_Commitment_Trees
begin

text \<open>
  Non-finalized chains: \<open>Chain\<close> and \<open>ChainInner\<close> of
  \<open>zebra-state/src/service/non_finalized_state/chain.rs\<close>. A chain is a record with one field per field of
  the program; hash maps are partial functions, tree maps are sorted association lists and the
  multisets of anchors are multisets. The tree and anchor maps of one pool are a record
  \<open>pool_index\<close>, because the program has the same code for each pool. The build without the
  \<open>indexer\<close> feature is modelled, in which the maps of spent outputs and nullifiers have unit values.
  A method that changes the chain returns the new chain; \<open>assert\<close>, \<open>expect\<close> and \<open>unreachable\<close> are panics.
\<close>

section \<open>Chains\<close>

record 't pool_index =
  trees_by_height :: "(height, 't) btree"
  anchors :: "byte list multiset"
  anchors_by_height :: "(height, byte list) btree"

record block_info =
  info_value_pools :: value_balance
  info_size :: nat

record ('t, 'h) chain =
  chain_network :: network
  blocks :: "(height, contextually_verified_block) btree"
  height_by_hash :: "block_hash \<rightharpoonup> height"
  tx_loc_by_hash :: "transaction_hash \<rightharpoonup> transaction_location"
  created_utxos :: "outpoint \<rightharpoonup> ordered_utxo"
  spent_utxos :: "outpoint \<rightharpoonup> unit"
  sprout_trees_by_anchor :: "byte list \<rightharpoonup> 't"
  sprout_index :: "'t pool_index"
  sapling_index :: "'t pool_index"
  orchard_index :: "'t pool_index"
  history_trees_by_height :: "(height, 'h) btree"
  sapling_subtrees :: "(nat, subtree_data) btree"
  orchard_subtrees :: "(nat, subtree_data) btree"
  chain_sprout_nullifiers :: "byte list \<rightharpoonup> unit"
  chain_sapling_nullifiers :: "byte list \<rightharpoonup> unit"
  chain_orchard_nullifiers :: "byte list \<rightharpoonup> unit"
  partial_transparent_transfers :: address_index
  partial_cumulative_work :: partial_cumulative_work
  chain_value_pools :: value_balance
  block_info_by_height :: "(height, block_info) btree"
  last_fork_height :: "height option"

text \<open>
  What the chain uses of other components: the tree operations, the history tree push, the address of an
  output, which is computed by the script library, and the serialized size of a block.
\<close>

record ('t, 'h) chain_env =
  pool_ops :: "'t pool_ops"
  history_push :: "network \<Rightarrow> 'h \<Rightarrow> transaction block \<Rightarrow> byte list \<Rightarrow> byte list \<Rightarrow> 'h option"
  output_address :: "network \<Rightarrow> transparent_output \<Rightarrow> transparent_address option"
  block_size :: "transaction block \<Rightarrow> nat"

datatype revert_position = RevertRoot | RevertTip

datatype hash_or_height = Hash block_hash | AtHeight height

section \<open>Accessors\<close>

definition chain_is_empty :: "('t, 'h) chain \<Rightarrow> bool" where
  "chain_is_empty c \<longleftrightarrow> blocks c = []"

definition chain_len :: "('t, 'h) chain \<Rightarrow> nat" where
  "chain_len c = length (blocks c)"

definition max_block_height :: "('t, 'h) chain \<Rightarrow> height option" where
  "max_block_height c = (if blocks c = [] then None else Some (fst (last (blocks c))))"

definition non_finalized_tip_height :: "('t, 'h) chain \<Rightarrow> height outcome" where
  "non_finalized_tip_height c = expect_some (max_block_height c)"

definition tip_block :: "('t, 'h) chain \<Rightarrow> contextually_verified_block option" where
  "tip_block c = (if blocks c = [] then None else Some (snd (last (blocks c))))"

definition non_finalized_tip_hash :: "('t, 'h) chain \<Rightarrow> block_hash outcome" where
  "non_finalized_tip_hash c = run_bind (expect_some (tip_block c)) (\<lambda>b. Done (cv_hash b))"

definition non_finalized_root_height :: "('t, 'h) chain \<Rightarrow> height outcome" where
  "non_finalized_root_height c =
     expect_some (case blocks c of [] \<Rightarrow> None | (h, _) # _ \<Rightarrow> Some h)"

definition non_finalized_root_hash :: "('t, 'h) chain \<Rightarrow> block_hash outcome" where
  "non_finalized_root_hash c =
     expect_some (case blocks c of [] \<Rightarrow> None | (_, b) # _ \<Rightarrow> Some (cv_hash b))"

definition non_finalized_nth_hash :: "nat \<Rightarrow> ('t, 'h) chain \<Rightarrow> block_hash option" where
  "non_finalized_nth_hash n c = (if n < length (blocks c) then Some (cv_hash (snd (blocks c ! n))) else None)"

definition child_blocks :: "height \<Rightarrow> ('t, 'h) chain \<Rightarrow> contextually_verified_block list" where
  "child_blocks block_height c = map snd (filter (\<lambda>(h, _). block_height \<le> h) (blocks c))"

text \<open>\<open>hash_or_height.height_or_else(..)\<close>.\<close>

fun height_of :: "hash_or_height \<Rightarrow> ('t, 'h) chain \<Rightarrow> height option" where
  "height_of (Hash hash) c = height_by_hash c hash"
| "height_of (AtHeight h) c = Some h"

definition chain_block :: "hash_or_height \<Rightarrow> ('t, 'h) chain \<Rightarrow> contextually_verified_block option" where
  "chain_block hh c = Option.bind (height_of hh c) (map_of (blocks c))"

definition hash_by_height :: "height \<Rightarrow> ('t, 'h) chain \<Rightarrow> block_hash option" where
  "hash_by_height h c = map_option cv_hash (map_of (blocks c) h)"

definition contains_block_hash :: "block_hash \<Rightarrow> ('t, 'h) chain \<Rightarrow> bool" where
  "contains_block_hash hash c \<longleftrightarrow> height_by_hash c hash \<noteq> None"

definition block_info_at :: "hash_or_height \<Rightarrow> ('t, 'h) chain \<Rightarrow> block_info option" where
  "block_info_at hh c = Option.bind (height_of hh c) (map_of (block_info_by_height c))"

definition transaction_by_loc :: "transaction_location \<Rightarrow> ('t, 'h) chain \<Rightarrow> transaction option" where
  "transaction_by_loc loc c =
     (case map_of (blocks c) (fst loc) of
        None \<Rightarrow> None
      | Some b \<Rightarrow>
          if snd loc < length (transactions (cv_block b)) then Some (transactions (cv_block b) ! snd loc) else None)"

definition chain_transaction ::
  "transaction_hash \<Rightarrow> ('t, 'h) chain \<Rightarrow> (transaction \<times> height \<times> int) option outcome" where
  "chain_transaction hash c =
     (case tx_loc_by_hash c hash of
        None \<Rightarrow> Done None
      | Some loc \<Rightarrow>
          run_bind (expect_some (map_of (blocks c) (fst loc))) (\<lambda>b.
          run_bind (expect_some (transaction_by_loc loc c)) (\<lambda>tx.
            Done (Some (tx, fst loc, header_time (block_header (cv_block b)))))))"

definition unspent_utxos :: "('t, 'h) chain \<Rightarrow> outpoint \<rightharpoonup> ordered_utxo" where
  "unspent_utxos c = (\<lambda>op. if spent_utxos c op = None then created_utxos c op else None)"

definition created_utxo :: "outpoint \<Rightarrow> ('t, 'h) chain \<Rightarrow> utxo option" where
  "created_utxo op c = map_option ou_utxo (created_utxos c op)"

section \<open>Tree and anchor indexes\<close>

text \<open>\<open>trees_by_height.range(..=height).next_back()\<close>.\<close>

definition tree_at :: "height \<Rightarrow> 't pool_index \<Rightarrow> 't option" where
  "tree_at h idx =
     (let lower = filter (\<lambda>(k, _). k \<le> h) (trees_by_height idx)
      in if lower = [] then None else Some (snd (last lower)))"

definition tree_for_tip :: "'t pool_index \<Rightarrow> 't outcome" where
  "tree_for_tip idx =
     (if trees_by_height idx = [] then Panic else Done (snd (last (trees_by_height idx))))"

definition add_tree_and_anchor ::
  "'t tree_ops \<Rightarrow> height \<Rightarrow> 't \<Rightarrow> 't pool_index \<Rightarrow> 't pool_index outcome" where
  "add_tree_and_anchor ops h tree idx =
     (let anchor = tree_root ops tree in
      run_bind (if height_is_min h then Done True
                else run_bind (expect_ok (height_previous h)) (\<lambda>prev.
                  Done (case tree_at prev idx of None \<Rightarrow> True | Some prev_tree \<Rightarrow> prev_tree \<noteq> tree))) (\<lambda>is_new.
      run_bind (if is_new then btree_insert_new h tree (trees_by_height idx)
                else Done (trees_by_height idx)) (\<lambda>trees.
      run_bind (btree_insert_new h anchor (anchors_by_height idx)) (\<lambda>by_height.
        Done (idx\<lparr>trees_by_height := trees, anchors_by_height := by_height,
                  anchors := add_mset anchor (anchors idx)\<rparr>)))))"

definition remove_tree_at :: "height \<Rightarrow> 't pool_index \<Rightarrow> ('t pool_index \<times> byte list) outcome" where
  "remove_tree_at h idx =
     run_bind (expect_some (map_of (anchors_by_height idx) h)) (\<lambda>anchor.
     run_bind (assert_that (anchor \<in># anchors idx)) (\<lambda>_.
       Done (idx\<lparr>anchors_by_height := btree_remove h (anchors_by_height idx),
                 trees_by_height := btree_remove h (trees_by_height idx),
                 anchors := anchors idx - {#anchor#}\<rparr>, anchor)))"

definition removed_heights :: "revert_position \<Rightarrow> height \<Rightarrow> 't pool_index \<Rightarrow> height list" where
  "removed_heights position h idx =
     (case position of
        RevertRoot \<Rightarrow> filter (\<lambda>index_height. index_height \<le> h) (map fst (anchors_by_height idx))
      | RevertTip \<Rightarrow> [h])"

definition highest_removed_tree :: "revert_position \<Rightarrow> height \<Rightarrow> 't pool_index \<Rightarrow> 't option" where
  "highest_removed_tree position h idx = (case position of RevertRoot \<Rightarrow> tree_at h idx | RevertTip \<Rightarrow> None)"

text \<open>\<open>entry(next_height).or_insert_with(..)\<close>, for the tip height of the remaining blocks.\<close>

definition restore_next_tree ::
  "height \<Rightarrow> height option \<Rightarrow> 't option \<Rightarrow> 't pool_index \<Rightarrow> 't pool_index outcome" where
  "restore_next_tree h tip highest idx =
     (case tip of
        None \<Rightarrow> Done idx
      | Some tip_height \<Rightarrow>
          if h < tip_height then
            run_bind (expect_ok (height_next h)) (\<lambda>next_height.
              case map_of (trees_by_height idx) next_height of
                Some _ \<Rightarrow> Done idx
              | None \<Rightarrow>
                  run_bind (expect_some highest) (\<lambda>tree.
                    Done (idx\<lparr>trees_by_height := btree_insert next_height tree (trees_by_height idx)\<rparr>)))
          else Done idx)"

definition remove_tree_and_anchor ::
  "revert_position \<Rightarrow> height \<Rightarrow> height option \<Rightarrow> 't pool_index \<Rightarrow> 't pool_index outcome" where
  "remove_tree_and_anchor position h tip idx =
     run_bind (updates (\<lambda>k i. run_bind (remove_tree_at k i) (\<lambda>(i', _). Done i')) (removed_heights position h idx) idx)
       (restore_next_tree h tip (highest_removed_tree position h idx))"

definition remove_sprout_tree_at ::
  "height \<Rightarrow> 't pool_index \<times> (byte list \<rightharpoonup> 't) \<Rightarrow> ('t pool_index \<times> (byte list \<rightharpoonup> 't)) outcome" where
  "remove_sprout_tree_at h s =
     run_bind (remove_tree_at h (fst s)) (\<lambda>(idx, anchor).
       Done (idx, if anchor \<in># anchors idx then snd s else (snd s)(anchor := None)))"

definition add_sprout_tree_and_anchor ::
  "('t, 'h) chain_env \<Rightarrow> height \<Rightarrow> 't \<Rightarrow> ('t, 'h) chain \<Rightarrow> ('t, 'h) chain outcome" where
  "add_sprout_tree_and_anchor env h tree c =
     run_bind (add_tree_and_anchor (sprout_ops (pool_ops env)) h tree (sprout_index c)) (\<lambda>idx.
       Done (c\<lparr>sprout_index := idx,
               sprout_trees_by_anchor :=
                 (sprout_trees_by_anchor c)(tree_root (sprout_ops (pool_ops env)) tree \<mapsto> tree)\<rparr>))"

definition add_sapling_tree_and_anchor ::
  "('t, 'h) chain_env \<Rightarrow> height \<Rightarrow> 't \<Rightarrow> ('t, 'h) chain \<Rightarrow> ('t, 'h) chain outcome" where
  "add_sapling_tree_and_anchor env h tree c =
     run_bind (add_tree_and_anchor (sapling_ops (pool_ops env)) h tree (sapling_index c)) (\<lambda>idx.
       Done (c\<lparr>sapling_index := idx\<rparr>))"

definition add_orchard_tree_and_anchor ::
  "('t, 'h) chain_env \<Rightarrow> height \<Rightarrow> 't \<Rightarrow> ('t, 'h) chain \<Rightarrow> ('t, 'h) chain outcome" where
  "add_orchard_tree_and_anchor env h tree c =
     run_bind (add_tree_and_anchor (orchard_ops (pool_ops env)) h tree (orchard_index c)) (\<lambda>idx.
       Done (c\<lparr>orchard_index := idx\<rparr>))"

definition remove_sprout_tree_and_anchor ::
  "revert_position \<Rightarrow> height \<Rightarrow> ('t, 'h) chain \<Rightarrow> ('t, 'h) chain outcome" where
  "remove_sprout_tree_and_anchor position h c =
     run_bind (updates remove_sprout_tree_at (removed_heights position h (sprout_index c))
                 (sprout_index c, sprout_trees_by_anchor c)) (\<lambda>(idx, by_anchor).
     run_bind (restore_next_tree h (max_block_height c)
                 (highest_removed_tree position h (sprout_index c)) idx) (\<lambda>idx'.
       Done (c\<lparr>sprout_index := idx', sprout_trees_by_anchor := by_anchor\<rparr>)))"

definition remove_sapling_tree_and_anchor ::
  "revert_position \<Rightarrow> height \<Rightarrow> ('t, 'h) chain \<Rightarrow> ('t, 'h) chain outcome" where
  "remove_sapling_tree_and_anchor position h c =
     run_bind (remove_tree_and_anchor position h (max_block_height c) (sapling_index c)) (\<lambda>idx.
       Done (c\<lparr>sapling_index := idx\<rparr>))"

definition remove_orchard_tree_and_anchor ::
  "revert_position \<Rightarrow> height \<Rightarrow> ('t, 'h) chain \<Rightarrow> ('t, 'h) chain outcome" where
  "remove_orchard_tree_and_anchor position h c =
     run_bind (remove_tree_and_anchor position h (max_block_height c) (orchard_index c)) (\<lambda>idx.
       Done (c\<lparr>orchard_index := idx\<rparr>))"

definition history_block_commitment_tree :: "('t, 'h) chain \<Rightarrow> 'h outcome" where
  "history_block_commitment_tree c =
     (if history_trees_by_height c = [] then Panic else Done (snd (last (history_trees_by_height c))))"

definition history_tree :: "hash_or_height \<Rightarrow> ('t, 'h) chain \<Rightarrow> 'h option" where
  "history_tree hh c = Option.bind (height_of hh c) (map_of (history_trees_by_height c))"

definition add_history_tree :: "height \<Rightarrow> 'h \<Rightarrow> ('t, 'h) chain \<Rightarrow> ('t, 'h) chain outcome" where
  "add_history_tree h tree c =
     run_bind (btree_insert_new h tree (history_trees_by_height c)) (\<lambda>trees.
       Done (c\<lparr>history_trees_by_height := trees\<rparr>))"

definition remove_history_tree ::
  "revert_position \<Rightarrow> height \<Rightarrow> ('t, 'h) chain \<Rightarrow> ('t, 'h) chain outcome" where
  "remove_history_tree position h c =
     (case position of
        RevertRoot \<Rightarrow>
          Done (c\<lparr>history_trees_by_height := filter (\<lambda>(k, _). k > h) (history_trees_by_height c)\<rparr>)
      | RevertTip \<Rightarrow>
          run_bind (expect_some (map_of (history_trees_by_height c) h)) (\<lambda>_.
            Done (c\<lparr>history_trees_by_height := btree_remove h (history_trees_by_height c)\<rparr>)))"

definition subtree_at :: "height \<Rightarrow> (nat, subtree_data) btree \<Rightarrow> note_commitment_subtree option" where
  "subtree_at h subtrees =
     map_option (\<lambda>(i, d). with_index i d) (find (\<lambda>(_, d). sd_end_height d = h) subtrees)"

definition subtree_for_tip ::
  "('t, 'h) chain \<Rightarrow> (nat, subtree_data) btree \<Rightarrow> note_commitment_subtree option" where
  "subtree_for_tip c subtrees = Option.bind (max_block_height c) (\<lambda>tip. subtree_at tip subtrees)"

definition insert_subtree ::
  "note_commitment_subtree option \<Rightarrow> (nat, subtree_data) btree \<Rightarrow> (nat, subtree_data) btree" where
  "insert_subtree s subtrees =
     (case s of None \<Rightarrow> subtrees | Some st \<Rightarrow> btree_insert (subtree_index st) (into_data st) subtrees)"

record ('t, 'h) treestate =
  ts_note_commitment_trees :: "'t note_commitment_trees"
  ts_history_tree :: 'h

definition chain_treestate :: "hash_or_height \<Rightarrow> ('t, 'h) chain \<Rightarrow> ('t, 'h) treestate option" where
  "chain_treestate hh c =
     Option.bind (height_of hh c) (\<lambda>h.
     Option.bind (tree_at h (sprout_index c)) (\<lambda>sprout_tree.
     Option.bind (tree_at h (sapling_index c)) (\<lambda>sapling_tree.
     Option.bind (tree_at h (orchard_index c)) (\<lambda>orchard_tree.
     Option.bind (map_of (history_trees_by_height c) h) (\<lambda>hist.
       Some \<lparr>ts_note_commitment_trees =
               \<lparr>nct_sprout = sprout_tree, nct_sapling = sapling_tree,
                nct_sapling_subtree = subtree_at h (sapling_subtrees c), nct_orchard = orchard_tree,
                nct_orchard_subtree = subtree_at h (orchard_subtrees c)\<rparr>,
             ts_history_tree = hist\<rparr>)))))"

definition chain_new ::
  "('t, 'h) chain_env \<Rightarrow> network \<Rightarrow> height \<Rightarrow> 't \<Rightarrow> 't \<Rightarrow> 't \<Rightarrow> 'h \<Rightarrow> value_balance \<Rightarrow>
   ('t, 'h) chain outcome" where
  "chain_new env net finalized_tip_height sprout_tree sapling_tree orchard_tree hist finalized_tip_pools =
     (let no_trees = \<lparr>trees_by_height = [], anchors = {#}, anchors_by_height = []\<rparr>;
          c = \<lparr>chain_network = net, blocks = [], height_by_hash = Map.empty, tx_loc_by_hash = Map.empty,
               created_utxos = Map.empty, spent_utxos = Map.empty, sprout_trees_by_anchor = Map.empty,
               sprout_index = no_trees, sapling_index = no_trees, orchard_index = no_trees,
               history_trees_by_height = [], sapling_subtrees = [], orchard_subtrees = [],
               chain_sprout_nullifiers = Map.empty, chain_sapling_nullifiers = Map.empty,
               chain_orchard_nullifiers = Map.empty, partial_transparent_transfers = Map.empty,
               partial_cumulative_work = cumulative_zero, chain_value_pools = finalized_tip_pools,
               block_info_by_height = [], last_fork_height = None\<rparr>
      in run_bind (add_sprout_tree_and_anchor env finalized_tip_height sprout_tree c) (\<lambda>c1.
         run_bind (add_sapling_tree_and_anchor env finalized_tip_height sapling_tree c1) (\<lambda>c2.
         run_bind (add_orchard_tree_and_anchor env finalized_tip_height orchard_tree c2) (\<lambda>c3.
         add_history_tree finalized_tip_height hist c3))))"

section \<open>Updates with a block\<close>

definition update_created_output ::
  "('t, 'h) chain_env \<Rightarrow> transaction_hash \<Rightarrow> (outpoint \<rightharpoonup> ordered_utxo) \<Rightarrow> nat \<Rightarrow> ('t, 'h) chain \<Rightarrow>
   ('t, 'h) chain outcome" where
  "update_created_output env creating_tx_hash block_created_outputs output_index c =
     run_bind (outpoint_from_usize creating_tx_hash output_index) (\<lambda>outpoint.
     run_bind (expect_some (block_created_outputs outpoint)) (\<lambda>utxo.
     run_bind (insert_new outpoint utxo (created_utxos c)) (\<lambda>created.
       let c' = c\<lparr>created_utxos := created\<rparr> in
       case output_address env (chain_network c) (utxo_output (ou_utxo utxo)) of
         None \<Rightarrow> Done c'
       | Some receiving_address \<Rightarrow>
           run_bind (index_update (transfers_add_created outpoint utxo) receiving_address
                       (partial_transparent_transfers c')) (\<lambda>transfers.
             Done (c'\<lparr>partial_transparent_transfers := transfers\<rparr>)))))"

definition revert_created_output ::
  "('t, 'h) chain_env \<Rightarrow> transaction_hash \<Rightarrow> (outpoint \<rightharpoonup> ordered_utxo) \<Rightarrow> nat \<Rightarrow> ('t, 'h) chain \<Rightarrow>
   ('t, 'h) chain outcome" where
  "revert_created_output env creating_tx_hash block_created_outputs output_index c =
     run_bind (outpoint_from_usize creating_tx_hash output_index) (\<lambda>outpoint.
     run_bind (expect_some (block_created_outputs outpoint)) (\<lambda>utxo.
     run_bind (remove_old outpoint (created_utxos c)) (\<lambda>created.
       let c' = c\<lparr>created_utxos := created\<rparr> in
       case output_address env (chain_network c) (utxo_output (ou_utxo utxo)) of
         None \<Rightarrow> Done c'
       | Some receiving_address \<Rightarrow>
           run_bind (index_revert (transfers_revert_created outpoint utxo) receiving_address
                       (partial_transparent_transfers c')) (\<lambda>transfers.
             Done (c'\<lparr>partial_transparent_transfers := transfers\<rparr>)))))"

definition update_spending_input ::
  "('t, 'h) chain_env \<Rightarrow> transaction_hash \<Rightarrow> (outpoint \<rightharpoonup> ordered_utxo) \<Rightarrow> transparent_input \<Rightarrow> ('t, 'h) chain \<Rightarrow>
   ('t, 'h) chain outcome" where
  "update_spending_input env spending_tx_hash block_spent_outputs spending_input c =
     (case input_outpoint spending_input of
        None \<Rightarrow> Done c
      | Some spent_outpoint \<Rightarrow>
          run_bind (insert_new spent_outpoint () (spent_utxos c)) (\<lambda>spent.
          run_bind (expect_some (block_spent_outputs spent_outpoint)) (\<lambda>spent_output.
            let c' = c\<lparr>spent_utxos := spent\<rparr> in
            case output_address env (chain_network c) (utxo_output (ou_utxo spent_output)) of
              None \<Rightarrow> Done c'
            | Some spending_address \<Rightarrow>
                run_bind (index_update (transfers_add_spent spending_input spending_tx_hash spent_output)
                            spending_address (partial_transparent_transfers c')) (\<lambda>transfers.
                  Done (c'\<lparr>partial_transparent_transfers := transfers\<rparr>)))))"

definition revert_spending_input ::
  "('t, 'h) chain_env \<Rightarrow> transaction_hash \<Rightarrow> (outpoint \<rightharpoonup> ordered_utxo) \<Rightarrow> transparent_input \<Rightarrow> ('t, 'h) chain \<Rightarrow>
   ('t, 'h) chain outcome" where
  "revert_spending_input env spending_tx_hash block_spent_outputs spending_input c =
     (case input_outpoint spending_input of
        None \<Rightarrow> Done c
      | Some spent_outpoint \<Rightarrow>
          run_bind (remove_old spent_outpoint (spent_utxos c)) (\<lambda>spent.
          run_bind (expect_some (block_spent_outputs spent_outpoint)) (\<lambda>spent_output.
            let c' = c\<lparr>spent_utxos := spent\<rparr> in
            case output_address env (chain_network c) (utxo_output (ou_utxo spent_output)) of
              None \<Rightarrow> Done c'
            | Some receiving_address \<Rightarrow>
                run_bind (index_revert (transfers_revert_spent spending_input spending_tx_hash spent_output)
                            receiving_address (partial_transparent_transfers c')) (\<lambda>transfers.
                  Done (c'\<lparr>partial_transparent_transfers := transfers\<rparr>)))))"

fun add_to_non_finalized_chain_unique ::
  "(byte list \<Rightarrow> bool \<Rightarrow> validate_context_error) \<Rightarrow> byte list list \<Rightarrow> (byte list \<rightharpoonup> unit) \<Rightarrow>
   validate_context_error + (byte list \<rightharpoonup> unit)" where
  "add_to_non_finalized_chain_unique duplicate_nullifier_error [] m = Inr m"
| "add_to_non_finalized_chain_unique duplicate_nullifier_error (n # ns) m =
     (if m n \<noteq> None then Inl (duplicate_nullifier_error n False)
      else add_to_non_finalized_chain_unique duplicate_nullifier_error ns (m(n \<mapsto> ())))"

definition remove_from_non_finalized_chain ::
  "byte list list \<Rightarrow> (byte list \<rightharpoonup> unit) \<Rightarrow> (byte list \<rightharpoonup> unit) outcome" where
  "remove_from_non_finalized_chain = updates remove_old"

text \<open>
  Older transaction versions only exist in finalized blocks. A version 4 transaction has no Orchard data,
  a version 5 transaction has no joinsplits, and each of them has Sapling data of one
  anchor variant, so the four shielded updates are one per pool.
\<close>

definition update_with_transaction ::
  "('t, 'h) chain_env \<Rightarrow> height \<Rightarrow> (outpoint \<rightharpoonup> ordered_utxo) \<Rightarrow> (outpoint \<rightharpoonup> ordered_utxo) \<Rightarrow>
   nat \<Rightarrow> transaction \<Rightarrow> transaction_hash \<Rightarrow> ('t, 'h) chain \<Rightarrow>
   (validate_context_error + ('t, 'h) chain) outcome" where
  "update_with_transaction env h block_new_outputs block_spent_outputs transaction_index tx transaction_hash c =
     (if tx_version tx < 4 then Panic
      else
        run_bind (transaction_location_from_usize h transaction_index) (\<lambda>location.
        run_bind (insert_new transaction_hash location (tx_loc_by_hash c)) (\<lambda>locations.
        run_bind (updates (update_created_output env transaction_hash block_new_outputs) [0..<length (tx_outputs tx)]
                    (c\<lparr>tx_loc_by_hash := locations\<rparr>)) (\<lambda>c1.
        run_bind (updates (update_spending_input env transaction_hash block_spent_outputs) (tx_inputs tx) c1) (\<lambda>c2.
        try_bind (Done (add_to_non_finalized_chain_unique DuplicateSproutNullifier (sprout_nullifiers tx)
                          (chain_sprout_nullifiers c2))) (\<lambda>sprout_ns.
        try_bind (Done (add_to_non_finalized_chain_unique DuplicateSaplingNullifier (sapling_nullifiers tx)
                          (chain_sapling_nullifiers c2))) (\<lambda>sapling_ns.
        try_bind (Done (add_to_non_finalized_chain_unique DuplicateOrchardNullifier (orchard_nullifiers tx)
                          (chain_orchard_nullifiers c2))) (\<lambda>orchard_ns.
          Done (Inr (c2\<lparr>chain_sprout_nullifiers := sprout_ns, chain_sapling_nullifiers := sapling_ns,
                       chain_orchard_nullifiers := orchard_ns\<rparr>))))))))))"

definition revert_with_transaction ::
  "('t, 'h) chain_env \<Rightarrow> (outpoint \<rightharpoonup> ordered_utxo) \<Rightarrow> (outpoint \<rightharpoonup> ordered_utxo) \<Rightarrow>
   transaction \<Rightarrow> transaction_hash \<Rightarrow> ('t, 'h) chain \<Rightarrow> ('t, 'h) chain outcome" where
  "revert_with_transaction env block_new_outputs block_spent_outputs tx transaction_hash c =
     (if tx_version tx < 4 then Panic
      else
        run_bind (updates (revert_created_output env transaction_hash block_new_outputs) [0..<length (tx_outputs tx)] c) (\<lambda>c1.
        run_bind (updates (revert_spending_input env transaction_hash block_spent_outputs) (tx_inputs tx) c1) (\<lambda>c2.
        run_bind (remove_old transaction_hash (tx_loc_by_hash c2)) (\<lambda>locations.
        run_bind (remove_from_non_finalized_chain (sprout_nullifiers tx) (chain_sprout_nullifiers c2)) (\<lambda>sprout_ns.
        run_bind (remove_from_non_finalized_chain (sapling_nullifiers tx) (chain_sapling_nullifiers c2)) (\<lambda>sapling_ns.
        run_bind (remove_from_non_finalized_chain (orchard_nullifiers tx) (chain_orchard_nullifiers c2)) (\<lambda>orchard_ns.
          Done (c2\<lparr>tx_loc_by_hash := locations, chain_sprout_nullifiers := sprout_ns,
                  chain_sapling_nullifiers := sapling_ns, chain_orchard_nullifiers := orchard_ns\<rparr>))))))))"

fun update_with_transactions ::
  "('t, 'h) chain_env \<Rightarrow> height \<Rightarrow> (outpoint \<rightharpoonup> ordered_utxo) \<Rightarrow> (outpoint \<rightharpoonup> ordered_utxo) \<Rightarrow>
   nat \<Rightarrow> (transaction \<times> transaction_hash) list \<Rightarrow> ('t, 'h) chain \<Rightarrow>
   (validate_context_error + ('t, 'h) chain) outcome" where
  "update_with_transactions env h block_new_outputs block_spent_outputs i [] c = Done (Inr c)"
| "update_with_transactions env h block_new_outputs block_spent_outputs i ((tx, hash) # txs) c =
     try_bind (update_with_transaction env h block_new_outputs block_spent_outputs i tx hash c)
       (update_with_transactions env h block_new_outputs block_spent_outputs (Suc i) txs)"

definition update_value_pools ::
  "value_balance \<Rightarrow> height \<Rightarrow> nat \<Rightarrow> ('t, 'h) chain \<Rightarrow> (validate_context_error + ('t, 'h) chain) outcome" where
  "update_value_pools block_value_pool_change h size_in_bytes c =
     run_bind (add_chain_value_pool_change (chain_value_pools c) block_value_pool_change) (\<lambda>r.
       case r of
         Inl e \<Rightarrow> Done (Inl (AddValuePool e (chain_value_pools c) block_value_pool_change (Some h)))
       | Inr new_pools \<Rightarrow>
           Done (Inr (c\<lparr>chain_value_pools := new_pools,
             block_info_by_height :=
               btree_insert h \<lparr>info_value_pools = new_pools, info_size = size_in_bytes mod 2 ^ 32\<rparr>
                 (block_info_by_height c)\<rparr>)))"

definition revert_value_pools ::
  "value_balance \<Rightarrow> height \<Rightarrow> revert_position \<Rightarrow> ('t, 'h) chain \<Rightarrow> ('t, 'h) chain outcome" where
  "revert_value_pools block_value_pool_change h position c =
     run_bind (case position of
                 RevertTip \<Rightarrow>
                   run_bind (vb_neg block_value_pool_change) (\<lambda>change.
                   run_bind (add_chain_value_pool_change (chain_value_pools c) change) expect_ok)
               | RevertRoot \<Rightarrow> Done (chain_value_pools c)) (\<lambda>old_pools.
       Done (c\<lparr>chain_value_pools := old_pools,
               block_info_by_height := btree_remove h (block_info_by_height c)\<rparr>))"

definition block_work :: "transaction block \<Rightarrow> work outcome" where
  "block_work b =
     run_bind (to_work (difficulty_threshold (block_header b))) expect_some"

definition update_chain_tip_with_block_except_trees ::
  "('t, 'h) chain_env \<Rightarrow> contextually_verified_block \<Rightarrow> ('t, 'h) chain \<Rightarrow>
   (validate_context_error + ('t, 'h) chain) outcome" where
  "update_chain_tip_with_block_except_trees env cv c =
     run_bind (insert_new (cv_hash cv) (cv_height cv) (height_by_hash c)) (\<lambda>heights.
     run_bind (block_work (cv_block cv)) (\<lambda>w.
     run_bind (cumulative_add (partial_cumulative_work c) w) (\<lambda>total_work.
     try_bind (update_with_transactions env (cv_height cv) (cv_new_outputs cv) (cv_spent_outputs cv) 0
                 (zip (transactions (cv_block cv)) (cv_transaction_hashes cv))
                 (c\<lparr>height_by_hash := heights, partial_cumulative_work := total_work\<rparr>)) (\<lambda>c1.
       update_value_pools (cv_chain_value_pool_change cv) (cv_height cv) (block_size env (cv_block cv)) c1))))"

definition update_chain_tip_with_block_parallel ::
  "('t, 'h) chain_env \<Rightarrow> contextually_verified_block \<Rightarrow> ('t, 'h) chain \<Rightarrow>
   (validate_context_error + ('t, 'h) chain) outcome" where
  "update_chain_tip_with_block_parallel env cv c =
     run_bind (tree_for_tip (sprout_index c)) (\<lambda>sprout_tree.
     run_bind (tree_for_tip (sapling_index c)) (\<lambda>sapling_tree.
     run_bind (tree_for_tip (orchard_index c)) (\<lambda>orchard_tree.
     run_bind
       (update_trees_parallel (pool_ops env) (cv_block cv)
          \<lparr>nct_sprout = sprout_tree, nct_sapling = sapling_tree,
           nct_sapling_subtree = subtree_for_tip c (sapling_subtrees c), nct_orchard = orchard_tree,
           nct_orchard_subtree = subtree_for_tip c (orchard_subtrees c)\<rparr>) (\<lambda>tree_result.
     run_bind (update_chain_tip_with_block_except_trees env cv c) (\<lambda>partial_result.
     try_bind (Done (map_err (\<lambda>_. NoteCommitmentTreeError) tree_result)) (\<lambda>nct.
     try_bind (Done partial_result) (\<lambda>c1.
     run_bind (add_sprout_tree_and_anchor env (cv_height cv) (nct_sprout nct) c1) (\<lambda>c2.
     run_bind (add_sapling_tree_and_anchor env (cv_height cv) (nct_sapling nct) c2) (\<lambda>c3.
     run_bind (add_orchard_tree_and_anchor env (cv_height cv) (nct_orchard nct) c3) (\<lambda>c4.
     let c5 = c4\<lparr>sapling_subtrees := insert_subtree (nct_sapling_subtree nct) (sapling_subtrees c4),
                orchard_subtrees := insert_subtree (nct_orchard_subtree nct) (orchard_subtrees c4)\<rparr> in
     run_bind (tree_for_tip (sapling_index c5)) (\<lambda>new_sapling_tree.
     run_bind (tree_for_tip (orchard_index c5)) (\<lambda>new_orchard_tree.
     run_bind (history_block_commitment_tree c5) (\<lambda>hist.
       case history_push env (chain_network c5) hist (cv_block cv)
              (tree_root (sapling_ops (pool_ops env)) new_sapling_tree)
              (tree_root (orchard_ops (pool_ops env)) new_orchard_tree) of
         None \<Rightarrow> Done (Inl HistoryTreeError)
       | Some hist' \<Rightarrow> run_bind (add_history_tree (cv_height cv) hist' c5) (\<lambda>c6. Done (Inr c6)))))))))))))))"

definition revert_chain_with ::
  "('t, 'h) chain_env \<Rightarrow> contextually_verified_block \<Rightarrow> revert_position \<Rightarrow> ('t, 'h) chain \<Rightarrow>
   ('t, 'h) chain outcome" where
  "revert_chain_with env cv position c =
     run_bind (remove_old (cv_hash cv) (height_by_hash c)) (\<lambda>heights.
     run_bind (block_work (cv_block cv)) (\<lambda>w.
     run_bind (cumulative_sub (partial_cumulative_work c) w) (\<lambda>total_work.
     run_bind (updates (\<lambda>(tx, hash). revert_with_transaction env (cv_new_outputs cv) (cv_spent_outputs cv) tx hash)
                 (zip (transactions (cv_block cv)) (cv_transaction_hashes cv))
                 (c\<lparr>height_by_hash := heights, partial_cumulative_work := total_work\<rparr>)) (\<lambda>c1.
     run_bind (remove_sprout_tree_and_anchor position (cv_height cv) c1) (\<lambda>c2.
     run_bind (remove_sapling_tree_and_anchor position (cv_height cv) c2) (\<lambda>c3.
     run_bind (remove_orchard_tree_and_anchor position (cv_height cv) c3) (\<lambda>c4.
     run_bind (remove_history_tree position (cv_height cv) c4) (\<lambda>c5.
       revert_value_pools (cv_chain_value_pool_change cv) (cv_height cv) position c5))))))))"

section \<open>Operations\<close>

definition push ::
  "('t, 'h) chain_env \<Rightarrow> contextually_verified_block \<Rightarrow> ('t, 'h) chain \<Rightarrow>
   (validate_context_error + ('t, 'h) chain) outcome" where
  "push env cv c =
     try_bind (update_chain_tip_with_block_parallel env cv c) (\<lambda>c'.
       Done (Inr (c'\<lparr>blocks := btree_insert (cv_height cv) cv (blocks c')\<rparr>)))"

definition pop_tip :: "('t, 'h) chain_env \<Rightarrow> ('t, 'h) chain \<Rightarrow> ('t, 'h) chain outcome" where
  "pop_tip env c =
     run_bind (non_finalized_tip_height c) (\<lambda>block_height.
     run_bind (expect_some (map_of (blocks c) block_height)) (\<lambda>cv.
       let c' = c\<lparr>blocks := btree_remove block_height (blocks c)\<rparr> in
       run_bind (assert_that (blocks c' \<noteq> [])) (\<lambda>_. revert_chain_with env cv RevertTip c')))"

definition pop_root ::
  "('t, 'h) chain_env \<Rightarrow> ('t, 'h) chain \<Rightarrow>
   (contextually_verified_block \<times> ('t, 'h) treestate \<times> ('t, 'h) chain) outcome" where
  "pop_root env c =
     run_bind (non_finalized_root_height c) (\<lambda>block_height.
     run_bind (expect_some (chain_treestate (AtHeight block_height) c)) (\<lambda>ts.
       let c1 = (if nct_sapling_subtree (ts_note_commitment_trees ts) \<noteq> None
                 then c\<lparr>sapling_subtrees := tl (sapling_subtrees c)\<rparr> else c);
           c2 = (if nct_orchard_subtree (ts_note_commitment_trees ts) \<noteq> None
                 then c1\<lparr>orchard_subtrees := tl (orchard_subtrees c1)\<rparr> else c1)
       in
       run_bind (expect_some (map_of (blocks c2) block_height)) (\<lambda>cv.
       run_bind (revert_chain_with env cv RevertRoot (c2\<lparr>blocks := btree_remove block_height (blocks c2)\<rparr>)) (\<lambda>c3.
         Done (cv, ts, c3)))))"

text \<open>Reverting a block keeps the other blocks, the network and the subtrees, and subtracts the work of the block.\<close>

lemma updates_keep:
  assumes "\<And>t s s'. f t s = Done s' \<Longrightarrow> g s' = g s" and "updates f ts s = Done s'"
  shows "g s' = g s"
  using assms(2)
proof (induction ts arbitrary: s)
  case (Cons t ts)
  then show ?case using assms(1) by (fastforce simp: run_bind_Done_iff)
qed simp

definition kept_fields ::
  "('t, 'h) chain \<Rightarrow> (height, contextually_verified_block) btree \<times> network \<times> (nat, subtree_data) btree \<times>
   (nat, subtree_data) btree" where
  "kept_fields c = (blocks c, chain_network c, sapling_subtrees c, orchard_subtrees c)"

lemma revert_created_output_keeps:
  "revert_created_output env hash m i c = Done c' \<Longrightarrow>
   (kept_fields c', partial_cumulative_work c') = (kept_fields c, partial_cumulative_work c)"
  by (auto simp: revert_created_output_def run_bind_Done_iff Let_def kept_fields_def split: option.splits)

lemma revert_spending_input_keeps:
  "revert_spending_input env hash m i c = Done c' \<Longrightarrow>
   (kept_fields c', partial_cumulative_work c') = (kept_fields c, partial_cumulative_work c)"
  by (auto simp: revert_spending_input_def run_bind_Done_iff Let_def kept_fields_def split: option.splits)

lemma revert_with_transaction_keeps:
  assumes "revert_with_transaction env ms ns tx hash c = Done c'"
  shows "(kept_fields c', partial_cumulative_work c') = (kept_fields c, partial_cumulative_work c)"
proof -
  let ?g = "\<lambda>c. (kept_fields c, partial_cumulative_work c)"
  from assms obtain c1 c2 where s:
    "updates (revert_created_output env hash ms) [0..<length (tx_outputs tx)] c = Done c1"
    "updates (revert_spending_input env hash ns) (tx_inputs tx) c1 = Done c2" "?g c' = ?g c2"
    by (auto simp: revert_with_transaction_def run_bind_Done_iff kept_fields_def split: if_splits)
  show ?thesis
    using updates_keep [OF _ s(1), of ?g] updates_keep [OF _ s(2), of ?g] s(3)
      revert_created_output_keeps revert_spending_input_keeps by metis
qed

lemma revert_chain_with_keeps:
  assumes "revert_chain_with env cv position c = Done c'"
  shows "kept_fields c' = kept_fields c" and "\<exists>w. block_work (cv_block cv) = Done w \<and>
    cumulative_sub (partial_cumulative_work c) w = Done (partial_cumulative_work c')"
proof -
  from assms obtain heights w total_work c1 where s:
    "block_work (cv_block cv) = Done w" "cumulative_sub (partial_cumulative_work c) w = Done total_work"
    "updates (\<lambda>(tx, hash). revert_with_transaction env (cv_new_outputs cv) (cv_spent_outputs cv) tx hash)
       (zip (transactions (cv_block cv)) (cv_transaction_hashes cv))
       (c\<lparr>height_by_hash := heights, partial_cumulative_work := total_work\<rparr>) = Done c1"
    "(kept_fields c', partial_cumulative_work c') = (kept_fields c1, partial_cumulative_work c1)"
    by (cases position) (auto simp: revert_chain_with_def run_bind_Done_iff remove_sprout_tree_and_anchor_def
        remove_sapling_tree_and_anchor_def remove_orchard_tree_and_anchor_def remove_history_tree_def
        revert_value_pools_def kept_fields_def)
  have "(kept_fields c1, partial_cumulative_work c1) =
    (kept_fields (c\<lparr>height_by_hash := heights, partial_cumulative_work := total_work\<rparr>),
     partial_cumulative_work (c\<lparr>height_by_hash := heights, partial_cumulative_work := total_work\<rparr>))"
    by (rule updates_keep [OF _ s(3), of "\<lambda>c. (kept_fields c, partial_cumulative_work c)"])
      (auto dest: revert_with_transaction_keeps)
  then have "kept_fields c' = kept_fields c" "partial_cumulative_work c' = total_work"
    using s(4) by (simp_all add: kept_fields_def)
  then show "kept_fields c' = kept_fields c" and "\<exists>w. block_work (cv_block cv) = Done w \<and>
    cumulative_sub (partial_cumulative_work c) w = Done (partial_cumulative_work c')" using s(1,2) by auto
qed

lemma pop_tip_blocks:
  assumes "pop_tip env c = Done c'"
  shows "blocks c' = btree_remove (fst (last (blocks c))) (blocks c) \<and> blocks c \<noteq> []"
  using assms
  by (auto simp: pop_tip_def run_bind_Done_iff non_finalized_tip_height_def max_block_height_def Let_def
      kept_fields_def dest!: revert_chain_with_keeps(1) split: if_splits)

lemma pop_tip_shorter: "pop_tip env c = Done c' \<Longrightarrow> length (blocks c') < length (blocks c)"
proof -
  assume "pop_tip env c = Done c'"
  then have b: "blocks c' = btree_remove (fst (last (blocks c))) (blocks c)" "blocks c \<noteq> []"
    using pop_tip_blocks by blast+
  have "last (blocks c) \<in> set (blocks c)" using b(2) by simp
  then show "length (blocks c') < length (blocks c)"
    unfolding b(1) btree_remove_def by (intro length_filter_less) (auto split: prod.splits)
qed

text \<open>The loop of \<open>fork\<close> pops tip blocks until the tip has the given hash.\<close>

function fork_loop ::
  "('t, 'h) chain_env \<Rightarrow> block_hash \<Rightarrow> ('t, 'h) chain \<Rightarrow> ('t, 'h) chain outcome" where
  "fork_loop env fork_tip forked =
     (case non_finalized_tip_hash forked of
        Panic \<Rightarrow> Panic
      | Done tip_hash \<Rightarrow>
          if tip_hash = fork_tip then Done forked
          else
            (case pop_tip env forked of
               Panic \<Rightarrow> Panic
             | Done popped \<Rightarrow>
                 (case non_finalized_tip_height popped of
                    Panic \<Rightarrow> Panic
                  | Done h \<Rightarrow> fork_loop env fork_tip (popped\<lparr>last_fork_height := Some h\<rparr>))))"
  by pat_completeness auto
termination
  by (relation "measure (\<lambda>(_, _, c). length (blocks c))") (auto dest: pop_tip_shorter)

declare fork_loop.simps [simp del]

definition fork ::
  "('t, 'h) chain_env \<Rightarrow> block_hash \<Rightarrow> ('t, 'h) chain \<Rightarrow> ('t, 'h) chain option outcome" where
  "fork env fork_tip c =
     (if height_by_hash c fork_tip = None then Done None
      else run_bind (fork_loop env fork_tip c) (\<lambda>forked. Done (Some forked)))"

text \<open>\<open>Option<Height>::min\<close>, in which \<open>None\<close> is the least value.\<close>

fun option_height_min :: "height option \<Rightarrow> height option \<Rightarrow> height option" where
  "option_height_min (Some a) (Some b) = Some (min a b)"
| "option_height_min _ _ = None"

definition chain_invalidate_block ::
  "('t, 'h) chain_env \<Rightarrow> block_hash \<Rightarrow> ('t, 'h) chain \<Rightarrow>
   (('t, 'h) chain \<times> contextually_verified_block list) option outcome" where
  "chain_invalidate_block env hash c =
     (case height_by_hash c hash of
        None \<Rightarrow> Done None
      | Some block_height \<Rightarrow>
          run_bind (fork env hash c) (\<lambda>forked.
            case forked of
              None \<Rightarrow> Done None
            | Some new_chain \<Rightarrow>
                run_bind (pop_tip env new_chain) (\<lambda>popped.
                  Done (Some (popped\<lparr>last_fork_height :=
                                 option_height_min (last_fork_height c) (Some block_height)\<rparr>,
                              child_blocks block_height c)))))"

text \<open>
  The order of chains: more work first, then the tip hash. Comparing chains with the same work and
  the same tip panics. Hashes are compared as byte arrays of the same length.
\<close>

datatype ordering = Less | Equal | Greater

fun bytes_cmp :: "byte list \<Rightarrow> byte list \<Rightarrow> ordering" where
  "bytes_cmp [] [] = Equal"
| "bytes_cmp [] (_ # _) = Less"
| "bytes_cmp (_ # _) [] = Greater"
| "bytes_cmp (x # xs) (y # ys) = (if x < y then Less else if y < x then Greater else bytes_cmp xs ys)"

definition chain_cmp :: "('t, 'h) chain \<Rightarrow> ('t, 'h) chain \<Rightarrow> ordering outcome" where
  "chain_cmp c d =
     (if partial_cumulative_work c \<noteq> partial_cumulative_work d
      then Done (if cumulative (partial_cumulative_work c) < cumulative (partial_cumulative_work d) then Less else Greater)
      else
        run_bind (non_finalized_tip_hash c) (\<lambda>self_hash.
        run_bind (non_finalized_tip_hash d) (\<lambda>other_hash.
          case bytes_cmp self_hash other_hash of
            Equal \<Rightarrow> Panic
          | result \<Rightarrow> Done result)))"

end
