(* ===== verification/Contextual_Checks.thy ===== *)
theory Contextual_Checks
  imports Chains Transaction_Checks Adjusted_Difficulties
begin

text \<open>
  The contextual checks of a block against its parent chain and the finalized state:
  \<open>zebra-state/src/service/check.rs\<close>, \<open>check/utxo.rs\<close>, \<open>check/anchors.rs\<close>, \<open>check/nullifier.rs\<close>,
  the conversion of a verified block in \<open>request.rs\<close> and the ancestor iterator of \<open>block_iter.rs\<close>.

  The finalized state is a database; what the checks read of it is the record \<open>zebra_db\<close>. The hash
  functions, the authorizing data digests and the root of a history tree are the record
  \<open>commitment_env\<close>. Transaction iterators that run in parallel return the error of one of the failing
  transactions; the first one is taken here.
\<close>

section \<open>The finalized state\<close>

record ('t, 'h) zebra_db =
  db_network :: network
  db_finalized_tip :: "(height \<times> block_hash) option"
  db_utxo :: "outpoint \<Rightarrow> ordered_utxo option"
  db_height :: "block_hash \<Rightarrow> height option"
  db_block :: "height \<Rightarrow> transaction block option"
  db_contains_sprout_nullifier :: "byte list \<Rightarrow> bool"
  db_contains_sapling_nullifier :: "byte list \<Rightarrow> bool"
  db_contains_orchard_nullifier :: "byte list \<Rightarrow> bool"
  db_contains_sapling_anchor :: "byte list \<Rightarrow> bool"
  db_contains_orchard_anchor :: "byte list \<Rightarrow> bool"
  db_sprout_tree_by_anchor :: "byte list \<Rightarrow> 't option"
  db_sprout_tree :: 't
  db_sapling_tree :: 't
  db_orchard_tree :: 't
  db_history_tree :: 'h
  db_value_pool :: value_balance

definition finalized_tip_height :: "('t, 'h) zebra_db \<Rightarrow> height option" where
  "finalized_tip_height db = map_option fst (db_finalized_tip db)"

record 'h commitment_env =
  ce_sha256d :: hash_fn
  ce_blake2b :: "string \<Rightarrow> hash_fn"
  ce_sapling_root_ok :: "byte list \<Rightarrow> bool"
  ce_auth_digest :: "transaction \<Rightarrow> byte list"
  ce_history_hash :: "'h \<Rightarrow> byte list option"

text \<open>Indexing a slice.\<close>

definition slice_get :: "'a list \<Rightarrow> nat \<Rightarrow> 'a outcome" where
  "slice_get xs i = (if i < length xs then Done (xs ! i) else Panic)"

section \<open>Transparent spends\<close>

definition transparent_spend_chain_order ::
  "outpoint \<Rightarrow> nat \<Rightarrow> (outpoint \<rightharpoonup> ordered_utxo) \<Rightarrow> (outpoint \<rightharpoonup> ordered_utxo) \<Rightarrow> (outpoint \<rightharpoonup> unit) \<Rightarrow>
   ('t, 'h) zebra_db \<Rightarrow> validate_context_error + ordered_utxo" where
  "transparent_spend_chain_order spend spend_tx_index_in_block block_new_outputs chain_unspent_utxos chain_spent_utxos db =
     (case block_new_outputs spend of
        Some output \<Rightarrow>
          if tx_index_in_block output \<ge> spend_tx_index_in_block then Inl (EarlyTransparentSpend spend) else Inr output
      | None \<Rightarrow>
          if chain_spent_utxos spend \<noteq> None
          then Inl (DuplicateTransparentSpend spend ''the non-finalized chain'')
          else
            ok_or (MissingTransparentOutput spend ''the non-finalized and finalized chain'')
              (case chain_unspent_utxos spend of Some u \<Rightarrow> Some u | None \<Rightarrow> db_utxo db spend))"

text \<open>The loop over the spends of one transaction; \<open>block_spends\<close> is the map in the order of insertion.\<close>

fun transaction_spends ::
  "semantically_verified_block \<Rightarrow> transaction \<Rightarrow> nat \<Rightarrow> ('t, 'h) chain \<Rightarrow> ('t, 'h) zebra_db \<Rightarrow>
   outpoint list \<Rightarrow> (outpoint \<times> ordered_utxo) list \<Rightarrow>
   (validate_context_error + (outpoint \<times> ordered_utxo) list) outcome" where
  "transaction_spends sv tx i c db [] block_spends = Done (Inr block_spends)"
| "transaction_spends sv tx i c db (spend # spends) block_spends =
     try_bind (Done (transparent_spend_chain_order spend i (sv_new_outputs sv) (unspent_utxos c) (spent_utxos c) db)) (\<lambda>u.
     try_bind (transparent_coinbase_spend spend
                 (tx_coinbase_spend_restriction tx (db_network db) (sv_height sv)) (ou_utxo u)) (\<lambda>_.
       if map_of block_spends spend \<noteq> None then Done (Inl (DuplicateTransparentSpend spend ''the same block''))
       else transaction_spends sv tx i c db spends (block_spends @ [(spend, u)])))"

fun block_transaction_spends ::
  "semantically_verified_block \<Rightarrow> ('t, 'h) chain \<Rightarrow> ('t, 'h) zebra_db \<Rightarrow> nat \<Rightarrow> transaction list \<Rightarrow>
   (outpoint \<times> ordered_utxo) list \<Rightarrow> (validate_context_error + (outpoint \<times> ordered_utxo) list) outcome" where
  "block_transaction_spends sv c db i [] block_spends = Done (Inr block_spends)"
| "block_transaction_spends sv c db i (tx # txs) block_spends =
     try_bind (transaction_spends sv tx i c db (List.map_filter input_outpoint (tx_inputs tx)) block_spends)
       (block_transaction_spends sv c db (Suc i) txs)"

definition remaining_value_of ::
  "semantically_verified_block \<Rightarrow> (outpoint \<rightharpoonup> ordered_utxo) \<Rightarrow> nat \<Rightarrow> transaction \<Rightarrow>
   (validate_context_error + unit) outcome" where
  "remaining_value_of sv utxos i tx =
     run_bind (tx_value_balance tx (utxos_from_ordered_utxos utxos)) (\<lambda>r.
     case r of
       Inl e \<Rightarrow>
         run_bind (slice_get (sv_transaction_hashes sv) i) (\<lambda>hash.
           Done (Inl (CalculateTransactionValueBalances e (sv_height sv) i hash)))
     | Inr vb \<Rightarrow>
         run_bind (remaining_transaction_value vb) (\<lambda>r'.
         case r' of
           Inr _ \<Rightarrow> Done (Inr ())
         | Inl e \<Rightarrow>
             run_bind (slice_get (sv_transaction_hashes sv) i) (\<lambda>hash.
               if (case e of Constraint _ _ _ \<Rightarrow> invalid_value e < 0 | _ \<Rightarrow> False)
               then Done (Inl (NegativeRemainingTransactionValue e (sv_height sv) i hash))
               else Done (Inl (CalculateRemainingTransactionValue e (sv_height sv) i hash)))))"

fun check_remaining_transaction_value ::
  "semantically_verified_block \<Rightarrow> (outpoint \<rightharpoonup> ordered_utxo) \<Rightarrow> nat \<Rightarrow> transaction list \<Rightarrow>
   (validate_context_error + unit) outcome" where
  "check_remaining_transaction_value sv utxos i [] = Done (Inr ())"
| "check_remaining_transaction_value sv utxos i (tx # txs) =
     (if is_coinbase tx then check_remaining_transaction_value sv utxos (Suc i) txs
      else try_bind (remaining_value_of sv utxos i tx) (\<lambda>_. check_remaining_transaction_value sv utxos (Suc i) txs))"

definition transparent_spend ::
  "semantically_verified_block \<Rightarrow> ('t, 'h) chain \<Rightarrow> ('t, 'h) zebra_db \<Rightarrow>
   (validate_context_error + (outpoint \<times> ordered_utxo) list) outcome" where
  "transparent_spend sv c db =
     try_bind (block_transaction_spends sv c db 0 (transactions (sv_block sv)) []) (\<lambda>block_spends.
     try_bind (check_remaining_transaction_value sv (map_of block_spends) 0 (transactions (sv_block sv))) (\<lambda>_.
       Done (Inr block_spends)))"

section \<open>Nullifiers of the finalized state\<close>

fun find_duplicate_nullifier ::
  "(byte list \<Rightarrow> bool \<Rightarrow> validate_context_error) \<Rightarrow> byte list list \<Rightarrow> (byte list \<Rightarrow> bool) \<Rightarrow>
   (byte list \<Rightarrow> bool) option \<Rightarrow> validate_context_error + unit" where
  "find_duplicate_nullifier duplicate_error [] finalized_contains non_finalized_contains = Inr ()"
| "find_duplicate_nullifier duplicate_error (n # ns) finalized_contains non_finalized_contains =
     (if (case non_finalized_contains of Some f \<Rightarrow> f n | None \<Rightarrow> False) then Inl (duplicate_error n False)
      else if finalized_contains n then Inl (duplicate_error n True)
      else find_duplicate_nullifier duplicate_error ns finalized_contains non_finalized_contains)"

fun finalized_duplicate ::
  "(byte list \<Rightarrow> bool \<Rightarrow> validate_context_error) \<Rightarrow> (byte list \<Rightarrow> bool) \<Rightarrow> byte list list \<Rightarrow>
   validate_context_error + unit" where
  "finalized_duplicate duplicate_error contains [] = Inr ()"
| "finalized_duplicate duplicate_error contains (n # ns) =
     (if contains n then Inl (duplicate_error n True) else finalized_duplicate duplicate_error contains ns)"

definition no_duplicates_in_finalized_chain ::
  "semantically_verified_block \<Rightarrow> ('t, 'h) zebra_db \<Rightarrow> validate_context_error + unit" where
  "no_duplicates_in_finalized_chain sv db =
     res_bind (finalized_duplicate DuplicateSproutNullifier (db_contains_sprout_nullifier db)
                 (block_sprout_nullifiers (sv_block sv))) (\<lambda>_.
     res_bind (finalized_duplicate DuplicateSaplingNullifier (db_contains_sapling_nullifier db)
                 (block_sapling_nullifiers (sv_block sv))) (\<lambda>_.
       finalized_duplicate DuplicateOrchardNullifier (db_contains_orchard_nullifier db)
         (block_orchard_nullifiers (sv_block sv))))"

definition tx_no_duplicates_in_chain ::
  "('t, 'h) zebra_db \<Rightarrow> ('t, 'h) chain option \<Rightarrow> transaction \<Rightarrow> validate_context_error + unit" where
  "tx_no_duplicates_in_chain db c tx =
     res_bind (find_duplicate_nullifier DuplicateSproutNullifier (sprout_nullifiers tx)
                 (db_contains_sprout_nullifier db) (map_option (\<lambda>c n. chain_sprout_nullifiers c n \<noteq> None) c)) (\<lambda>_.
     res_bind (find_duplicate_nullifier DuplicateSaplingNullifier (sapling_nullifiers tx)
                 (db_contains_sapling_nullifier db) (map_option (\<lambda>c n. chain_sapling_nullifiers c n \<noteq> None) c)) (\<lambda>_.
       find_duplicate_nullifier DuplicateOrchardNullifier (orchard_nullifiers tx)
         (db_contains_orchard_nullifier db) (map_option (\<lambda>c n. chain_orchard_nullifiers c n \<noteq> None) c)))"

section \<open>Anchors\<close>

fun sapling_anchors_known ::
  "('t, 'h) zebra_db \<Rightarrow> ('t, 'h) chain option \<Rightarrow> transaction_hash \<Rightarrow> nat option \<Rightarrow> height option \<Rightarrow> byte list list \<Rightarrow>
   validate_context_error + unit" where
  "sapling_anchors_known db c hash i h [] = Inr ()"
| "sapling_anchors_known db c hash i h (a # as) =
     (if \<not> (case c of Some chain \<Rightarrow> a \<in># anchors (sapling_index chain) | None \<Rightarrow> False) \<and>
         \<not> db_contains_sapling_anchor db a
      then Inl (UnknownSaplingAnchor a h i hash) else sapling_anchors_known db c hash i h as)"

definition sapling_orchard_anchors_refer_to_final_treestates ::
  "('t, 'h) zebra_db \<Rightarrow> ('t, 'h) chain option \<Rightarrow> transaction \<Rightarrow> transaction_hash \<Rightarrow> nat option \<Rightarrow> height option \<Rightarrow>
   (validate_context_error + unit) outcome" where
  "sapling_orchard_anchors_refer_to_final_treestates db c tx hash i h =
     run_bind (sapling_anchors tx) (\<lambda>as.
     try_bind (Done (sapling_anchors_known db c hash i h as)) (\<lambda>_.
       case tx_orchard_shielded_data tx of
         None \<Rightarrow> Done (Inr ())
       | Some d \<Rightarrow>
           let a = orchard_shared_anchor d in
           if \<not> (case c of Some chain \<Rightarrow> a \<in># anchors (orchard_index chain) | None \<Rightarrow> False) \<and>
              \<not> db_contains_orchard_anchor db a
           then Done (Inl (UnknownOrchardAnchor a h i hash)) else Done (Inr ())))"

fun fetch_sprout_treestates ::
  "('t, 'h) zebra_db \<Rightarrow> ('t, 'h) chain option \<Rightarrow> joinsplit list \<Rightarrow> (byte list \<rightharpoonup> 't) \<Rightarrow> (byte list \<rightharpoonup> 't)" where
  "fetch_sprout_treestates db c [] m = m"
| "fetch_sprout_treestates db c (js # jss) m =
     (if m (js_anchor js) \<noteq> None then fetch_sprout_treestates db c jss m
      else
        (case (case Option.bind c (\<lambda>chain. sprout_trees_by_anchor chain (js_anchor js)) of
                 Some t \<Rightarrow> Some t | None \<Rightarrow> db_sprout_tree_by_anchor db (js_anchor js)) of
           None \<Rightarrow> fetch_sprout_treestates db c jss m
         | Some t \<Rightarrow> fetch_sprout_treestates db c jss (m(js_anchor js \<mapsto> t))))"

definition fetch_sprout_final_treestates ::
  "(byte list \<rightharpoonup> 't) \<Rightarrow> ('t, 'h) zebra_db \<Rightarrow> ('t, 'h) chain option \<Rightarrow> transaction \<Rightarrow> (byte list \<rightharpoonup> 't)" where
  "fetch_sprout_final_treestates m db c tx = fetch_sprout_treestates db c (sprout_groth16_joinsplits tx) m"

text \<open>
  The loop over the joinsplits of a transaction. Its last interstitial tree is not built. An error of the
  tree, which is full, is an error of the check.
\<close>

fun sprout_anchors_known ::
  "'t tree_ops \<Rightarrow> (byte list \<rightharpoonup> 't) \<Rightarrow> transaction_hash \<Rightarrow> nat option \<Rightarrow> height option \<Rightarrow> joinsplit list \<Rightarrow>
   (byte list \<rightharpoonup> 't) \<Rightarrow> validate_context_error + unit" where
  "sprout_anchors_known ops final hash i h [] interstitial = Inr ()"
| "sprout_anchors_known ops final hash i h (js # jss) interstitial =
     (case (case interstitial (js_anchor js) of Some t \<Rightarrow> Some t | None \<Rightarrow> final (js_anchor js)) of
        None \<Rightarrow> Inl (UnknownSproutAnchor (js_anchor js) h i hash)
      | Some input_tree \<Rightarrow>
          if jss = [] then Inr ()
          else
            (case update_sprout_note_commitment_tree ops input_tree (pair_list (js_commitments js)) of
               Inl _ \<Rightarrow> Inl NoteCommitmentTreeError
             | Inr t \<Rightarrow> sprout_anchors_known ops final hash i h jss (interstitial(tree_root ops t \<mapsto> t))))"

definition sprout_anchors_refer_to_treestates ::
  "'t tree_ops \<Rightarrow> (byte list \<rightharpoonup> 't) \<Rightarrow> transaction \<Rightarrow> transaction_hash \<Rightarrow> nat option \<Rightarrow> height option \<Rightarrow>
   validate_context_error + unit" where
  "sprout_anchors_refer_to_treestates ops final tx hash i h =
     sprout_anchors_known ops final hash i h (sprout_groth16_joinsplits tx) Map.empty"

fun try_for_each :: "(nat \<Rightarrow> 'a \<Rightarrow> ('e + unit) outcome) \<Rightarrow> nat \<Rightarrow> 'a list \<Rightarrow> ('e + unit) outcome" where
  "try_for_each f i [] = Done (Inr ())"
| "try_for_each f i (x # xs) = try_bind (f i x) (\<lambda>_. try_for_each f (Suc i) xs)"

definition block_sapling_orchard_anchors_refer_to_final_treestates ::
  "('t, 'h) zebra_db \<Rightarrow> ('t, 'h) chain \<Rightarrow> semantically_verified_block \<Rightarrow> (validate_context_error + unit) outcome" where
  "block_sapling_orchard_anchors_refer_to_final_treestates db c sv =
     try_for_each (\<lambda>i tx. run_bind (slice_get (sv_transaction_hashes sv) i) (\<lambda>hash.
         sapling_orchard_anchors_refer_to_final_treestates db (Some c) tx hash (Some i) (Some (sv_height sv))))
       0 (transactions (sv_block sv))"

definition block_fetch_sprout_final_treestates ::
  "('t, 'h) zebra_db \<Rightarrow> ('t, 'h) chain \<Rightarrow> semantically_verified_block \<Rightarrow> (byte list \<rightharpoonup> 't)" where
  "block_fetch_sprout_final_treestates db c sv =
     fold (\<lambda>tx m. fetch_sprout_final_treestates m db (Some c) tx) (transactions (sv_block sv)) Map.empty"

definition block_sprout_anchors_refer_to_treestates ::
  "'t tree_ops \<Rightarrow> (byte list \<rightharpoonup> 't) \<Rightarrow> transaction block \<Rightarrow> transaction_hash list \<Rightarrow> height \<Rightarrow>
   (validate_context_error + unit) outcome" where
  "block_sprout_anchors_refer_to_treestates ops final b hashes h =
     try_for_each (\<lambda>i tx. run_bind (slice_get hashes i) (\<lambda>hash.
         Done (sprout_anchors_refer_to_treestates ops final tx hash (Some i) (Some h))))
       0 (transactions b)"

definition tx_anchors_refer_to_final_treestates ::
  "'t tree_ops \<Rightarrow> ('t, 'h) zebra_db \<Rightarrow> ('t, 'h) chain option \<Rightarrow> transaction \<Rightarrow> transaction_hash \<Rightarrow>
   (validate_context_error + unit) outcome" where
  "tx_anchors_refer_to_final_treestates ops db c tx mined_id =
     try_bind (sapling_orchard_anchors_refer_to_final_treestates db c tx mined_id None None) (\<lambda>_.
       if has_sprout_joinsplit_data tx
       then Done (sprout_anchors_refer_to_treestates ops (fetch_sprout_final_treestates Map.empty db c tx) tx mined_id
                    None None)
       else Done (Inr ()))"

section \<open>Block commitments\<close>

definition block_commitment_is_valid_for_chain_history ::
  "'h commitment_env \<Rightarrow> transaction block \<Rightarrow> network \<Rightarrow> 'h \<Rightarrow> (validate_context_error + unit) outcome" where
  "block_commitment_is_valid_for_chain_history ce b net hist =
     run_bind (block_commitment (ce_sha256d ce) (ce_sapling_root_ok ce) b net) (\<lambda>r.
     try_bind (Done (map_err InvalidBlockCommitment r)) (\<lambda>commitment.
     case commitment of
       ChainHistoryRoot actual \<Rightarrow>
         run_bind (expect_some (ce_history_hash ce hist)) (\<lambda>history_tree_root.
           Done (if actual = history_tree_root then Inr ()
                 else Inl (InvalidBlockCommitment (InvalidChainHistoryRoot actual history_tree_root))))
     | ChainHistoryBlockTxAuthCommitment actual \<Rightarrow>
         run_bind (expect_some
             (case ce_history_hash ce hist of
                Some root \<Rightarrow> Some root
              | None \<Rightarrow>
                  if activation_height Heartwood net = coinbase_height b
                  then Some CHAIN_HISTORY_ACTIVATION_RESERVED else None)) (\<lambda>history_tree_root.
         run_bind (auth_data_root (ce_blake2b ce) (ce_auth_digest ce) (transactions b)) (\<lambda>auth_root.
           let expected = from_commitments (ce_blake2b ce) history_tree_root auth_root in
           Done (if actual = expected then Inr ()
                 else Inl (InvalidBlockCommitment (InvalidChainHistoryBlockTxAuthCommitment actual expected)))))
     | _ \<Rightarrow> Done (Inr ())))"

section \<open>Blocks with their spent outputs\<close>

definition with_block_and_spent_utxos ::
  "semantically_verified_block \<Rightarrow> (outpoint \<times> ordered_utxo) list \<Rightarrow>
   (value_balance_error + contextually_verified_block) outcome" where
  "with_block_and_spent_utxos sv spends =
     (let spent_outputs = map_of spends ++ sv_new_outputs sv in
      try_bind (chain_value_pool_change (transactions (sv_block sv))
                  (outputs_from_utxos (utxos_from_ordered_utxos spent_outputs))
                  (sv_deferred_pool_balance_change sv)) (\<lambda>change.
        Done (Inr \<lparr>cv_block = sv_block sv, cv_hash = sv_hash sv, cv_height = sv_height sv,
                   cv_new_outputs = sv_new_outputs sv, cv_spent_outputs = spent_outputs,
                   cv_transaction_hashes = sv_transaction_hashes sv, cv_chain_value_pool_change = change\<rparr>)))"

section \<open>Ancestors\<close>

definition read_block :: "('t, 'h) chain option \<Rightarrow> ('t, 'h) zebra_db \<Rightarrow> height \<Rightarrow> transaction block option" where
  "read_block c db h =
     (case Option.bind c (chain_block (AtHeight h)) of
        Some cv \<Rightarrow> Some (cv_block cv)
      | None \<Rightarrow> db_block db h)"

text \<open>The iterator drops its chain when the chain does not contain the next height.\<close>

fun iter_blocks :: "('t, 'h) chain option \<Rightarrow> ('t, 'h) zebra_db \<Rightarrow> height \<Rightarrow> transaction block list" where
  "iter_blocks c db 0 = (case read_block c db 0 of None \<Rightarrow> [] | Some b \<Rightarrow> [b])"
| "iter_blocks c db (Suc h) =
     (case read_block c db (Suc h) of
        None \<Rightarrow> []
      | Some b \<Rightarrow>
          b # iter_blocks (case c of Some chain \<Rightarrow> if map_of (blocks chain) h = None then None else c | None \<Rightarrow> None) db h)"

end
