(* ===== verification/Non_Finalized_States.thy ===== *)
theory Non_Finalized_States
  imports Contextual_Checks
begin

text \<open>
  The non-finalized state, \<open>zebra-state/src/service/non_finalized_state.rs\<close>, with the initial checks of
  \<open>service/check.rs\<close> and the block write worker of \<open>service/write.rs\<close>.

  The set of chains is a list in ascending order. It has at most eleven elements, which a B-tree keeps in one node
  and searches from its first element, so the searches below make the comparisons of the program, in their order,
  with the panics of \<open>Chain::cmp\<close>. The index map of invalidated blocks is an association list in
  the order of insertion. Metrics, progress bars and logs are left out.
\<close>

section \<open>Collections\<close>

definition index_insert :: "'k \<Rightarrow> 'v \<Rightarrow> ('k \<times> 'v) list \<Rightarrow> ('k \<times> 'v) list" where
  "index_insert k v m = (if map_of m k = None then m @ [(k, v)] else map (\<lambda>(k', v'). (k', if k' = k then v else v')) m)"

definition retain_outcome :: "('a \<Rightarrow> bool outcome) \<Rightarrow> 'a list \<Rightarrow> 'a list outcome" where
  "retain_outcome p xs =
     run_bind (map_outcome_list p xs) (\<lambda>keeps. Done (map fst (filter snd (zip xs keeps))))"

fun find_outcome :: "('a \<Rightarrow> bool outcome) \<Rightarrow> 'a list \<Rightarrow> 'a option outcome" where
  "find_outcome p [] = Done None"
| "find_outcome p (x # xs) = run_bind (p x) (\<lambda>b. if b then Done (Some x) else find_outcome p xs)"

fun find_map_outcome :: "('a \<Rightarrow> 'b option outcome) \<Rightarrow> 'a list \<Rightarrow> 'b option outcome" where
  "find_map_outcome f [] = Done None"
| "find_map_outcome f (x # xs) =
     run_bind (f x) (\<lambda>r. case r of Some y \<Rightarrow> Done (Some y) | None \<Rightarrow> find_map_outcome f xs)"

fun chain_set_insert :: "('t, 'h) chain \<Rightarrow> ('t, 'h) chain list \<Rightarrow> ('t, 'h) chain list outcome" where
  "chain_set_insert c [] = Done [c]"
| "chain_set_insert c (d # ds) =
     run_bind (chain_cmp c d) (\<lambda>result.
       case result of
         Less \<Rightarrow> Done (c # d # ds)
       | Equal \<Rightarrow> Done (d # ds)
       | Greater \<Rightarrow> run_bind (chain_set_insert c ds) (\<lambda>ds'. Done (d # ds')))"

fun chain_set_remove :: "('t, 'h) chain \<Rightarrow> ('t, 'h) chain list \<Rightarrow> ('t, 'h) chain list outcome" where
  "chain_set_remove c [] = Done []"
| "chain_set_remove c (d # ds) =
     run_bind (chain_cmp c d) (\<lambda>result.
       case result of
         Less \<Rightarrow> Done (d # ds)
       | Equal \<Rightarrow> Done ds
       | Greater \<Rightarrow> run_bind (chain_set_remove c ds) (\<lambda>ds'. Done (d # ds')))"

section \<open>States\<close>

record ('t, 'h) non_finalized_state =
  chain_set :: "('t, 'h) chain list"
  invalidated_blocks :: "(height \<times> contextually_verified_block list) list"
  nfs_network :: network

definition MAX_NON_FINALIZED_CHAIN_FORKS :: nat where
  "MAX_NON_FINALIZED_CHAIN_FORKS = 10"

definition MAX_INVALIDATED_BLOCKS :: nat where
  "MAX_INVALIDATED_BLOCKS = 100"

definition nfs_new :: "network \<Rightarrow> ('t, 'h) non_finalized_state" where
  "nfs_new net = \<lparr>chain_set = [], invalidated_blocks = [], nfs_network = net\<rparr>"

definition chain_iter :: "('t, 'h) non_finalized_state \<Rightarrow> ('t, 'h) chain list" where
  "chain_iter s = rev (chain_set s)"

definition best_chain :: "('t, 'h) non_finalized_state \<Rightarrow> ('t, 'h) chain option" where
  "best_chain s = (case chain_iter s of [] \<Rightarrow> None | c # _ \<Rightarrow> Some c)"

definition best_chain_len :: "('t, 'h) non_finalized_state \<Rightarrow> nat option" where
  "best_chain_len s = map_option (\<lambda>c. length (blocks c) mod 2 ^ 32) (best_chain s)"

definition find_chain ::
  "(('t, 'h) chain \<Rightarrow> bool outcome) \<Rightarrow> ('t, 'h) non_finalized_state \<Rightarrow> ('t, 'h) chain option outcome" where
  "find_chain p s = find_outcome p (rev (chain_set s))"

definition any_utxo :: "outpoint \<Rightarrow> ('t, 'h) non_finalized_state \<Rightarrow> utxo option" where
  "any_utxo op s = map_option the (find (\<lambda>r. r \<noteq> None) (map (created_utxo op) (rev (chain_set s))))"

definition any_block_by_hash :: "block_hash \<Rightarrow> ('t, 'h) non_finalized_state \<Rightarrow> transaction block option" where
  "any_block_by_hash hash s =
     map_option (\<lambda>r. cv_block (the r)) (find (\<lambda>r. r \<noteq> None) (map (chain_block (Hash hash)) (rev (chain_set s))))"

definition best_tip :: "('t, 'h) non_finalized_state \<Rightarrow> (height \<times> block_hash) option outcome" where
  "best_tip s =
     (case best_chain s of
        None \<Rightarrow> Done None
      | Some c \<Rightarrow>
          run_bind (non_finalized_tip_height c) (\<lambda>h.
          run_bind (non_finalized_tip_hash c) (\<lambda>hash. Done (Some (h, hash)))))"

section \<open>Insertion and finalization\<close>

function pop_excess :: "'a list \<Rightarrow> 'a list" where
  "pop_excess cs = (if length cs > MAX_NON_FINALIZED_CHAIN_FORKS then pop_excess (tl cs) else cs)"
  by pat_completeness auto
termination by (relation "measure length") auto

declare pop_excess.simps [simp del]

definition insert_with ::
  "('t, 'h) chain \<Rightarrow> (('t, 'h) chain list \<Rightarrow> ('t, 'h) chain list outcome) \<Rightarrow> ('t, 'h) non_finalized_state \<Rightarrow>
   ('t, 'h) non_finalized_state outcome" where
  "insert_with c chain_filter s =
     run_bind (chain_set_insert c (chain_set s)) (\<lambda>cs.
     run_bind (chain_filter cs) (\<lambda>cs'.
       Done (s\<lparr>chain_set := pop_excess cs'\<rparr>)))"

definition nfs_insert ::
  "('t, 'h) chain \<Rightarrow> ('t, 'h) non_finalized_state \<Rightarrow> ('t, 'h) non_finalized_state outcome" where
  "nfs_insert c s = insert_with c Done s"

definition finalize_side_chain ::
  "('t, 'h) chain_env \<Rightarrow> contextually_verified_block \<Rightarrow> ('t, 'h) chain \<Rightarrow> ('t, 'h) non_finalized_state \<Rightarrow>
   ('t, 'h) non_finalized_state outcome" where
  "finalize_side_chain env best_chain_root side_chain s =
     run_bind (non_finalized_root_hash side_chain) (\<lambda>root_hash.
       if root_hash \<noteq> cv_hash best_chain_root then Done s
       else
         run_bind (pop_root env side_chain) (\<lambda>(side_chain_root, _, side_chain').
         run_bind (assert_that (cv_hash side_chain_root = cv_hash best_chain_root)) (\<lambda>_.
           nfs_insert side_chain' s)))"

definition finalize ::
  "('t, 'h) chain_env \<Rightarrow> ('t, 'h) non_finalized_state \<Rightarrow>
   (contextually_verified_block \<times> ('t, 'h) treestate \<times> ('t, 'h) non_finalized_state) outcome" where
  "finalize env s =
     (if chain_set s = [] then Panic
      else
        run_bind (pop_root env (last (chain_set s))) (\<lambda>(best_chain_root, root_treestate, best).
        run_bind (if chain_is_empty best then Done (s\<lparr>chain_set := []\<rparr>) else nfs_insert best (s\<lparr>chain_set := []\<rparr>)) (\<lambda>s1.
        run_bind (updates (finalize_side_chain env best_chain_root) (rev (butlast (chain_set s))) s1) (\<lambda>s2.
          Done (best_chain_root, root_treestate,
            s2\<lparr>invalidated_blocks := filter (\<lambda>(h, _). h \<ge> cv_height best_chain_root) (invalidated_blocks s2)\<rparr>)))))"

section \<open>Commits\<close>

definition has_tip :: "block_hash \<Rightarrow> ('t, 'h) chain \<Rightarrow> bool outcome" where
  "has_tip hash c = run_bind (non_finalized_tip_hash c) (\<lambda>tip. Done (tip = hash))"

definition not_tip :: "block_hash \<Rightarrow> ('t, 'h) chain \<Rightarrow> bool outcome" where
  "not_tip hash c = run_bind (non_finalized_tip_hash c) (\<lambda>tip. Done (tip \<noteq> hash))"

definition parent_chain ::
  "('t, 'h) chain_env \<Rightarrow> block_hash \<Rightarrow> ('t, 'h) non_finalized_state \<Rightarrow>
   (validate_context_error + ('t, 'h) chain) outcome" where
  "parent_chain env parent_hash s =
     run_bind (find_chain (has_tip parent_hash) s) (\<lambda>found.
       case found of
         Some c \<Rightarrow> Done (Inr c)
       | None \<Rightarrow>
           run_bind (find_map_outcome (fork env parent_hash) (rev (chain_set s))) (\<lambda>fork_chain.
             Done (ok_or NotReadyToBeCommitted fork_chain)))"

text \<open>The three tasks of the scope all run; then their results are checked in this order.\<close>

definition validate_and_update_parallel ::
  "('t, 'h) chain_env \<Rightarrow> 'h commitment_env \<Rightarrow> ('t, 'h) chain \<Rightarrow> contextually_verified_block \<Rightarrow> (byte list \<rightharpoonup> 't) \<Rightarrow>
   (validate_context_error + ('t, 'h) chain) outcome" where
  "validate_and_update_parallel env ce new_chain contextual sprout_final_treestates =
     run_bind (history_block_commitment_tree new_chain) (\<lambda>hist.
     run_bind (block_commitment_is_valid_for_chain_history ce (cv_block contextual) (chain_network new_chain) hist)
       (\<lambda>block_commitment_result.
     run_bind (block_sprout_anchors_refer_to_treestates (sprout_ops (pool_ops env)) sprout_final_treestates
                 (cv_block contextual) (cv_transaction_hashes contextual) (cv_height contextual))
       (\<lambda>sprout_anchor_result.
     run_bind (push env contextual new_chain) (\<lambda>chain_push_result.
       Done (res_bind block_commitment_result (\<lambda>_. res_bind sprout_anchor_result (\<lambda>_. chain_push_result)))))))"

definition validate_and_commit ::
  "('t, 'h) chain_env \<Rightarrow> 'h commitment_env \<Rightarrow> ('t, 'h) zebra_db \<Rightarrow> ('t, 'h) chain \<Rightarrow> semantically_verified_block \<Rightarrow>
   ('t, 'h) non_finalized_state \<Rightarrow> (validate_context_error + ('t, 'h) chain) outcome" where
  "validate_and_commit env ce db new_chain prepared s =
     (if \<exists>(_, bs) \<in> set (invalidated_blocks s). \<exists>b \<in> set bs. cv_hash b = sv_hash prepared
      then Done (Inl (BlockPreviouslyInvalidated (sv_hash prepared)))
      else
        try_bind (transparent_spend prepared new_chain db) (\<lambda>spends.
        try_bind (block_sapling_orchard_anchors_refer_to_final_treestates db new_chain prepared) (\<lambda>_.
        let sprout_final_treestates = block_fetch_sprout_final_treestates db new_chain prepared in
        run_bind (with_block_and_spent_utxos prepared spends) (\<lambda>r.
        try_bind (Done (map_err (\<lambda>e. CalculateBlockChainValueChange e (sv_height prepared) (sv_hash prepared)
                                   (length (transactions (sv_block prepared))) (length spends)) r)) (\<lambda>contextual.
          validate_and_update_parallel env ce new_chain contextual sprout_final_treestates)))))"

definition new_chain_from_tip ::
  "('t, 'h) chain_env \<Rightarrow> ('t, 'h) zebra_db \<Rightarrow> network \<Rightarrow> height \<Rightarrow> ('t, 'h) chain outcome" where
  "new_chain_from_tip env db net tip_height =
     chain_new env net tip_height (db_sprout_tree db) (db_sapling_tree db) (db_orchard_tree db) (db_history_tree db)
       (db_value_pool db)"

definition commit_new_chain ::
  "('t, 'h) chain_env \<Rightarrow> 'h commitment_env \<Rightarrow> ('t, 'h) zebra_db \<Rightarrow> semantically_verified_block \<Rightarrow>
   ('t, 'h) non_finalized_state \<Rightarrow> (validate_context_error + ('t, 'h) non_finalized_state) outcome" where
  "commit_new_chain env ce db prepared s =
     run_bind (expect_some (finalized_tip_height db)) (\<lambda>tip_height.
     run_bind (new_chain_from_tip env db (nfs_network s) tip_height) (\<lambda>c.
     try_bind (validate_and_commit env ce db c prepared s) (\<lambda>c'.
     run_bind (nfs_insert c' s) (\<lambda>s'. Done (Inr s')))))"

definition commit_block ::
  "('t, 'h) chain_env \<Rightarrow> 'h commitment_env \<Rightarrow> ('t, 'h) zebra_db \<Rightarrow> semantically_verified_block \<Rightarrow>
   ('t, 'h) non_finalized_state \<Rightarrow> (validate_context_error + ('t, 'h) non_finalized_state) outcome" where
  "commit_block env ce db prepared s =
     (let parent_hash = previous_block_hash (block_header (sv_block prepared)) in
      try_bind (parent_chain env parent_hash s) (\<lambda>parent.
      try_bind (validate_and_commit env ce db parent prepared s) (\<lambda>modified_chain.
      run_bind (insert_with modified_chain (retain_outcome (not_tip parent_hash)) s) (\<lambda>s'.
        Done (Inr s')))))"

section \<open>Invalidation\<close>

datatype invalidate_error = BlockNotFound block_hash

datatype reconsider_error =
    MissingInvalidatedBlock block_hash
  | ParentChainNotFound block_hash
  | InvalidatedBlocksEmpty

function shift_excess :: "'a list \<Rightarrow> 'a list" where
  "shift_excess m = (if length m > MAX_INVALIDATED_BLOCKS then shift_excess (tl m) else m)"
  by pat_completeness auto
termination by (relation "measure length") auto

declare shift_excess.simps [simp del]

definition invalidate_block ::
  "('t, 'h) chain_env \<Rightarrow> block_hash \<Rightarrow> ('t, 'h) non_finalized_state \<Rightarrow>
   (invalidate_error + block_hash \<times> ('t, 'h) non_finalized_state) outcome" where
  "invalidate_block env hash s =
     run_bind (find_chain (\<lambda>c. Done (contains_block_hash hash c)) s) (\<lambda>found.
       case found of
         None \<Rightarrow> Done (Inl (BlockNotFound hash))
       | Some c \<Rightarrow>
           run_bind (non_finalized_root_hash c) (\<lambda>root_hash.
           run_bind (if root_hash = hash
                     then run_bind (chain_set_remove c (chain_set s)) (\<lambda>cs.
                            Done (s\<lparr>chain_set := cs\<rparr>, map snd (blocks c)))
                     else
                       run_bind (chain_invalidate_block env hash c) (\<lambda>r.
                       run_bind (expect_some r) (\<lambda>(new_chain, invalidated).
                       run_bind (insert_with new_chain (\<lambda>cs. Done (filter (\<lambda>c. \<not> contains_block_hash hash c) cs)) s) (\<lambda>s'.
                         Done (s', invalidated))))) (\<lambda>(s', invalidated).
           run_bind (expect_some (if invalidated = [] then None else Some (hd invalidated))) (\<lambda>first.
             Done (Inr (hash, s'\<lparr>invalidated_blocks :=
               shift_excess (index_insert (cv_height first) invalidated (invalidated_blocks s'))\<rparr>))))))"

definition GENESIS_PREVIOUS_BLOCK_HASH :: block_hash where
  "GENESIS_PREVIOUS_BLOCK_HASH = replicate 32 0"

definition finalized_tip_hash :: "('t, 'h) zebra_db \<Rightarrow> block_hash" where
  "finalized_tip_hash db = (case db_finalized_tip db of Some (_, hash) \<Rightarrow> hash | None \<Rightarrow> GENESIS_PREVIOUS_BLOCK_HASH)"

fun push_all ::
  "('t, 'h) chain_env \<Rightarrow> contextually_verified_block list \<Rightarrow> ('t, 'h) chain \<Rightarrow> ('t, 'h) chain outcome" where
  "push_all env [] c = Done c"
| "push_all env (b # bs) c = run_bind (push env b c) (\<lambda>r. run_bind (expect_ok r) (push_all env bs))"

definition reconsider_block ::
  "('t, 'h) chain_env \<Rightarrow> ('t, 'h) zebra_db \<Rightarrow> block_hash \<Rightarrow> ('t, 'h) non_finalized_state \<Rightarrow>
   (reconsider_error + block_hash list \<times> ('t, 'h) non_finalized_state) outcome" where
  "reconsider_block env db hash s =
     (case find (\<lambda>(_, bs). bs \<noteq> [] \<and> cv_hash (hd bs) = hash) (invalidated_blocks s) of
        None \<Rightarrow> Done (Inl (MissingInvalidatedBlock hash))
      | Some (h, _) \<Rightarrow>
          (case map_of (invalidated_blocks s) h of
             None \<Rightarrow> Done (Inl (MissingInvalidatedBlock hash))
           | Some [] \<Rightarrow> Done (Inl InvalidatedBlocksEmpty)
           | Some (invalidated_root # invalidated) \<Rightarrow>
               let root_parent_hash = previous_block_hash (block_header (cv_block invalidated_root)) in
               try_bind
                 (if root_parent_hash = finalized_tip_hash db
                  then (case finalized_tip_height db of
                          None \<Rightarrow> Done (Inl (ParentChainNotFound hash))
                        | Some tip_height \<Rightarrow>
                            run_bind (new_chain_from_tip env db (nfs_network s) tip_height) (\<lambda>c. Done (Inr c)))
                  else run_bind (parent_chain env root_parent_hash s) (\<lambda>r.
                         Done (map_err (\<lambda>_. ParentChainNotFound hash) r))) (\<lambda>chain_result.
               run_bind (push_all env (invalidated_root # invalidated) chain_result) (\<lambda>modified_chain.
               run_bind (non_finalized_tip_height modified_chain) (\<lambda>_.
               run_bind (non_finalized_tip_hash modified_chain) (\<lambda>_.
               let s' = (case finalized_tip_height db of
                           Some tip_height \<Rightarrow>
                             s\<lparr>invalidated_blocks := filter (\<lambda>(k, _). k \<ge> tip_height) (invalidated_blocks s)\<rparr>
                         | None \<Rightarrow> s)
               in run_bind (insert_with modified_chain (retain_outcome (not_tip root_parent_hash)) s') (\<lambda>s''.
                    Done (Inr (map cv_hash (invalidated_root # invalidated), s'')))))))))"

section \<open>The block write worker\<close>

definition any_ancestor_blocks ::
  "('t, 'h) non_finalized_state \<Rightarrow> ('t, 'h) zebra_db \<Rightarrow> block_hash \<Rightarrow> transaction block list outcome" where
  "any_ancestor_blocks s db hash =
     run_bind (find_chain (\<lambda>c. Done (contains_block_hash hash c)) s) (\<lambda>c.
       Done (case (case Option.bind c (\<lambda>chain. height_by_hash chain hash) of Some h \<Rightarrow> Some h | None \<Rightarrow> db_height db hash) of
               None \<Rightarrow> []
             | Some h \<Rightarrow> iter_blocks c db h))"

definition initial_contextual_validity ::
  "('t, 'h) zebra_db \<Rightarrow> ('t, 'h) non_finalized_state \<Rightarrow> semantically_verified_block \<Rightarrow>
   (validate_context_error + unit) outcome" where
  "initial_contextual_validity db s prepared =
     run_bind (any_ancestor_blocks s db (previous_block_hash (block_header (sv_block prepared)))) (\<lambda>relevant_chain.
     try_bind (block_is_valid_for_recent_chain (sv_height prepared) (sv_block prepared) (nfs_network s)
                 (finalized_tip_height db) relevant_chain) (\<lambda>_.
       Done (no_duplicates_in_finalized_chain prepared db)))"

definition validate_and_commit_non_finalized ::
  "('t, 'h) chain_env \<Rightarrow> 'h commitment_env \<Rightarrow> ('t, 'h) zebra_db \<Rightarrow> semantically_verified_block \<Rightarrow>
   ('t, 'h) non_finalized_state \<Rightarrow> (validate_context_error + ('t, 'h) non_finalized_state) outcome" where
  "validate_and_commit_non_finalized env ce db prepared s =
     try_bind (initial_contextual_validity db s prepared) (\<lambda>_.
       if finalized_tip_hash db = previous_block_hash (block_header (sv_block prepared))
       then commit_new_chain env ce db prepared s
       else commit_block env ce db prepared s)"

end
