(* ===== verification/Chain_Reverts.thy ===== *)
theory Chain_Reverts
  imports Chains
begin

text \<open>
  Popping the tip block of a non-finalized chain undoes its push. The updates of a block are a sequence of
  items, each of which changes one map of the chain: a transaction location, a created output, a spent
  output, a transfer of an address, or a nullifier. The items satisfy the contract
  \<open>update_with\<close>, so that reverting them in the order of \<open>revert_chain_with\<close>, which differs from the order of
  the updates, restores the maps. The trees, the value pools, the work and the block index are restored
  one by one.
\<close>

section \<open>Items\<close>

datatype item =
    TxItem transaction_hash transaction_location
  | CreatedItem outpoint ordered_utxo
  | SpentItem outpoint
  | TransferItem transparent_address transfer
  | SproutItem "byte list"
  | SaplingItem "byte list"
  | OrchardItem "byte list"

fun item_update :: "item \<Rightarrow> ('t, 'h) chain \<Rightarrow> ('t, 'h) chain outcome" where
  "item_update (TxItem hash loc) c =
     run_bind (insert_new hash loc (tx_loc_by_hash c)) (\<lambda>m. Done (c\<lparr>tx_loc_by_hash := m\<rparr>))"
| "item_update (CreatedItem op u) c =
     run_bind (insert_new op u (created_utxos c)) (\<lambda>m. Done (c\<lparr>created_utxos := m\<rparr>))"
| "item_update (SpentItem op) c =
     run_bind (insert_new op () (spent_utxos c)) (\<lambda>m. Done (c\<lparr>spent_utxos := m\<rparr>))"
| "item_update (TransferItem a e) c =
     run_bind (index_apply (a, e) (partial_transparent_transfers c)) (\<lambda>m.
       Done (c\<lparr>partial_transparent_transfers := m\<rparr>))"
| "item_update (SproutItem n) c =
     run_bind (insert_new n () (chain_sprout_nullifiers c)) (\<lambda>m. Done (c\<lparr>chain_sprout_nullifiers := m\<rparr>))"
| "item_update (SaplingItem n) c =
     run_bind (insert_new n () (chain_sapling_nullifiers c)) (\<lambda>m. Done (c\<lparr>chain_sapling_nullifiers := m\<rparr>))"
| "item_update (OrchardItem n) c =
     run_bind (insert_new n () (chain_orchard_nullifiers c)) (\<lambda>m. Done (c\<lparr>chain_orchard_nullifiers := m\<rparr>))"

fun item_revert :: "item \<Rightarrow> ('t, 'h) chain \<Rightarrow> ('t, 'h) chain outcome" where
  "item_revert (TxItem hash loc) c =
     run_bind (remove_old hash (tx_loc_by_hash c)) (\<lambda>m. Done (c\<lparr>tx_loc_by_hash := m\<rparr>))"
| "item_revert (CreatedItem op u) c =
     run_bind (remove_old op (created_utxos c)) (\<lambda>m. Done (c\<lparr>created_utxos := m\<rparr>))"
| "item_revert (SpentItem op) c =
     run_bind (remove_old op (spent_utxos c)) (\<lambda>m. Done (c\<lparr>spent_utxos := m\<rparr>))"
| "item_revert (TransferItem a e) c =
     run_bind (index_undo (a, e) (partial_transparent_transfers c)) (\<lambda>m.
       Done (c\<lparr>partial_transparent_transfers := m\<rparr>))"
| "item_revert (SproutItem n) c =
     run_bind (remove_old n (chain_sprout_nullifiers c)) (\<lambda>m. Done (c\<lparr>chain_sprout_nullifiers := m\<rparr>))"
| "item_revert (SaplingItem n) c =
     run_bind (remove_old n (chain_sapling_nullifiers c)) (\<lambda>m. Done (c\<lparr>chain_sapling_nullifiers := m\<rparr>))"
| "item_revert (OrchardItem n) c =
     run_bind (remove_old n (chain_orchard_nullifiers c)) (\<lambda>m. Done (c\<lparr>chain_orchard_nullifiers := m\<rparr>))"

fun item_transfer :: "item \<Rightarrow> (transparent_address \<times> transfer) multiset" where
  "item_transfer (TransferItem a e) = {#(a, e)#}"
| "item_transfer _ = {#}"

definition item_transfers :: "item multiset \<Rightarrow> (transparent_address \<times> transfer) multiset" where
  "item_transfers T = (\<Sum>i \<in># T. item_transfer i)"

definition items_ok :: "item multiset \<Rightarrow> ('t, 'h) chain \<Rightarrow> bool" where
  "items_ok T c \<longleftrightarrow> index_ok (item_transfers T) (partial_transparent_transfers c)"

lemma item_transfers_add [simp]: "item_transfers (add_mset i T) = item_transfer i + item_transfers T"
  by (simp add: item_transfers_def)

lemma insert_new_commute:
  assumes "insert_new k v m = Done m1" and "insert_new k' v' m1 = Done m2"
  shows "insert_new k' v' m = Done (m(k' \<mapsto> v')) \<and> insert_new k v (m(k' \<mapsto> v')) = Done m2"
  using assms by (auto simp: insert_new_def fun_upd_twist split: if_splits)

lemma remove_insert_new: "insert_new k v m = Done m' \<Longrightarrow> remove_old k m' = Done m"
  by (auto simp: insert_new_def remove_old_def split: if_splits)

lemma item_inverse:
  assumes "items_ok (add_mset i T) c" and "item_update i c = Done c'"
  shows "item_revert i c' = Done c"
proof (cases i)
  case (TransferItem a e)
  then show ?thesis
    using assms index_undo_apply [of _ "partial_transparent_transfers c" a e]
    by (auto simp: run_bind_Done_iff items_ok_def)
qed (use assms(2) in \<open>auto simp: run_bind_Done_iff dest!: remove_insert_new\<close>)

lemma item_commute:
  assumes "items_ok (add_mset i (add_mset j T)) c" and "item_update i c = Done c1" and "item_update j c1 = Done c2"
  shows "\<exists>c'. item_update j c = Done c' \<and> item_update i c' = Done c2"
proof (cases "\<exists>a e b f. i = TransferItem a e \<and> j = TransferItem b f")
  case True
  then obtain a e b f where ij: "i = TransferItem a e" "j = TransferItem b f" by blast
  from assms(2,3) ij obtain m1 m2 where m: "index_apply (a, e) (partial_transparent_transfers c) = Done m1"
    "index_apply (b, f) m1 = Done m2" "c2 = c\<lparr>partial_transparent_transfers := m2\<rparr>"
    by (auto simp: run_bind_Done_iff)
  have "index_ok (add_mset (a, e) (add_mset (b, f) (item_transfers T))) (partial_transparent_transfers c)"
    using assms(1) ij by (simp add: items_ok_def add_mset_commute)
  from index_apply_commute [OF this m(1,2)] show ?thesis using ij m(3) by (auto simp: run_bind_Done_iff)
next
  case False
  then show ?thesis
    using assms(2,3)
    by (cases i; cases j) (auto simp: run_bind_Done_iff dest: insert_new_commute)
qed

lemma item_keeps:
  assumes "items_ok (add_mset i T) c" and "item_update i c = Done c'"
  shows "items_ok T c'"
proof (cases i)
  case (TransferItem a e)
  then show ?thesis
    using assms index_ok_apply [of a e "item_transfers T" "partial_transparent_transfers c"]
    by (auto simp: run_bind_Done_iff items_ok_def)
qed (use assms in \<open>auto simp: run_bind_Done_iff items_ok_def\<close>)

lemma item_fewer: "items_ok (add_mset i T) c \<Longrightarrow> items_ok T c"
  by (cases i) (auto simp: items_ok_def dest: index_ok_fewer)

interpretation chain_items: update_with item_update item_revert items_ok
  by unfold_locales (auto dest: item_inverse item_commute item_keeps item_fewer)

section \<open>The items of a block\<close>

definition output_items ::
  "('t, 'h) chain_env \<Rightarrow> network \<Rightarrow> transaction_hash \<Rightarrow> (outpoint \<rightharpoonup> ordered_utxo) \<Rightarrow> nat \<Rightarrow> item list" where
  "output_items env net hash outs i =
     (let op = OutPoint hash i; u = the (outs op) in
      CreatedItem op u #
      (case output_address env net (utxo_output (ou_utxo u)) of
         None \<Rightarrow> [] | Some a \<Rightarrow> [TransferItem a (Received op u)]))"

definition output_typed :: "transaction_hash \<Rightarrow> (outpoint \<rightharpoonup> ordered_utxo) \<Rightarrow> nat \<Rightarrow> bool" where
  "output_typed hash outs i \<longleftrightarrow> i < 2 ^ 32 \<and> outs (OutPoint hash i) \<noteq> None"

definition input_items ::
  "('t, 'h) chain_env \<Rightarrow> network \<Rightarrow> transaction_hash \<Rightarrow> (outpoint \<rightharpoonup> ordered_utxo) \<Rightarrow> transparent_input \<Rightarrow> item list" where
  "input_items env net hash outs i =
     (case input_outpoint i of
        None \<Rightarrow> []
      | Some op \<Rightarrow>
          let u = the (outs op) in
          SpentItem op #
          (case output_address env net (utxo_output (ou_utxo u)) of
             None \<Rightarrow> [] | Some a \<Rightarrow> [TransferItem a (Spent i hash u)]))"

definition input_typed :: "(outpoint \<rightharpoonup> ordered_utxo) \<Rightarrow> transparent_input \<Rightarrow> bool" where
  "input_typed outs i \<longleftrightarrow> (\<forall>op. input_outpoint i = Some op \<longrightarrow> outs op \<noteq> None)"

lemma updates_Nil_bind [simp]: "run_bind m (updates f []) = m"
  by (cases m) simp_all

lemma update_created_output_items:
  "update_created_output env hash outs i c =
     (if output_typed hash outs i then updates item_update (output_items env (chain_network c) hash outs i) c
      else Panic)"
  by (auto simp: update_created_output_def outpoint_from_usize_def output_typed_def output_items_def
      u32_try_from_def in_u32_def Let_def insert_new_def index_apply_def split: option.splits)

lemma revert_created_output_items:
  "output_typed hash outs i \<Longrightarrow>
   revert_created_output env hash outs i c = updates item_revert (output_items env (chain_network c) hash outs i) c"
  by (auto simp: revert_created_output_def outpoint_from_usize_def output_typed_def output_items_def
      u32_try_from_def in_u32_def Let_def remove_old_def index_undo_def split: option.splits)

lemma update_spending_input_items:
  "update_spending_input env hash outs i c =
     (if input_typed outs i then updates item_update (input_items env (chain_network c) hash outs i) c
      else Panic)"
  by (auto simp: update_spending_input_def input_typed_def input_items_def Let_def insert_new_def index_apply_def
      split: option.splits)

lemma revert_spending_input_items:
  "input_typed outs i \<Longrightarrow>
   revert_spending_input env hash outs i c = updates item_revert (input_items env (chain_network c) hash outs i) c"
  by (auto simp: revert_spending_input_def input_typed_def input_items_def Let_def remove_old_def index_undo_def
      split: option.splits)

lemma item_update_network: "item_update i c = Done c' \<Longrightarrow> chain_network c' = chain_network c"
  by (cases i) (auto simp: run_bind_Done_iff)

lemma item_revert_network: "item_revert i c = Done c' \<Longrightarrow> chain_network c' = chain_network c"
  by (cases i) (auto simp: run_bind_Done_iff)

text \<open>A loop whose steps are sequences of items is a sequence of items.\<close>

lemma updates_concat:
  assumes "\<And>x c. x \<in> set xs \<Longrightarrow> chain_network c = net \<Longrightarrow> f x c = updates g (items x) c"
    and "\<And>i c c'. g i c = Done c' \<Longrightarrow> chain_network c' = chain_network c"
    and "chain_network c = net"
  shows "updates f xs c = updates g (concat (map items xs)) c"
  using assms(1,3)
proof (induction xs arbitrary: c)
  case (Cons x xs)
  have step: "f x c = updates g (items x) c" using Cons.prems by simp
  show ?case
  proof (cases "updates g (items x) c")
    case (Done c1)
    then have "chain_network c1 = net"
      using updates_keep [of g chain_network, OF assms(2) Done] Cons.prems(2) by simp
    then show ?thesis using Cons.IH [of c1] Cons.prems(1) Done step by (simp add: updates_append)
  qed (simp add: step updates_append)
qed simp

lemma updates_typed:
  assumes "\<And>x c c'. f x c = Done c' \<Longrightarrow> typed x" and "updates f xs c = Done c'"
  shows "list_all typed xs"
  using assms(2)
proof (induction xs arbitrary: c)
  case (Cons x xs)
  then show ?case using assms(1) by (fastforce simp: run_bind_Done_iff)
qed simp

lemma add_unique_Inr_iff:
  "add_to_non_finalized_chain_unique err ns m = Inr m' \<longleftrightarrow> updates (\<lambda>n. insert_new n ()) ns m = Done m'"
  by (induction ns arbitrary: m) (auto simp: insert_new_def)

lemma updates_nullifiers:
  "updates item_update (map SproutItem ns) c =
     run_bind (updates (\<lambda>n. insert_new n ()) ns (chain_sprout_nullifiers c)) (\<lambda>m.
       Done (c\<lparr>chain_sprout_nullifiers := m\<rparr>))"
  "updates item_update (map SaplingItem ns) c =
     run_bind (updates (\<lambda>n. insert_new n ()) ns (chain_sapling_nullifiers c)) (\<lambda>m.
       Done (c\<lparr>chain_sapling_nullifiers := m\<rparr>))"
  "updates item_update (map OrchardItem ns) c =
     run_bind (updates (\<lambda>n. insert_new n ()) ns (chain_orchard_nullifiers c)) (\<lambda>m.
       Done (c\<lparr>chain_orchard_nullifiers := m\<rparr>))"
  by (induction ns arbitrary: c) (auto simp: insert_new_def)

lemma reverts_nullifiers:
  "updates item_revert (map SproutItem ns) c =
     run_bind (remove_from_non_finalized_chain ns (chain_sprout_nullifiers c)) (\<lambda>m.
       Done (c\<lparr>chain_sprout_nullifiers := m\<rparr>))"
  "updates item_revert (map SaplingItem ns) c =
     run_bind (remove_from_non_finalized_chain ns (chain_sapling_nullifiers c)) (\<lambda>m.
       Done (c\<lparr>chain_sapling_nullifiers := m\<rparr>))"
  "updates item_revert (map OrchardItem ns) c =
     run_bind (remove_from_non_finalized_chain ns (chain_orchard_nullifiers c)) (\<lambda>m.
       Done (c\<lparr>chain_orchard_nullifiers := m\<rparr>))"
  unfolding remove_from_non_finalized_chain_def
  by (induction ns arbitrary: c) (auto simp: remove_old_def)

definition tx_update_items ::
  "('t, 'h) chain_env \<Rightarrow> network \<Rightarrow> height \<Rightarrow> (outpoint \<rightharpoonup> ordered_utxo) \<Rightarrow> (outpoint \<rightharpoonup> ordered_utxo) \<Rightarrow>
   nat \<times> transaction \<times> transaction_hash \<Rightarrow> item list" where
  "tx_update_items env net h created spent = (\<lambda>(i, tx, hash).
     TxItem hash (h, i) #
     concat (map (output_items env net hash created) [0..<length (tx_outputs tx)]) @
     concat (map (input_items env net hash spent) (tx_inputs tx)) @
     map SproutItem (sprout_nullifiers tx) @ map SaplingItem (sapling_nullifiers tx) @
     map OrchardItem (orchard_nullifiers tx))"

definition tx_revert_items ::
  "('t, 'h) chain_env \<Rightarrow> network \<Rightarrow> height \<Rightarrow> (outpoint \<rightharpoonup> ordered_utxo) \<Rightarrow> (outpoint \<rightharpoonup> ordered_utxo) \<Rightarrow>
   nat \<times> transaction \<times> transaction_hash \<Rightarrow> item list" where
  "tx_revert_items env net h created spent = (\<lambda>(i, tx, hash).
     concat (map (output_items env net hash created) [0..<length (tx_outputs tx)]) @
     concat (map (input_items env net hash spent) (tx_inputs tx)) @
     TxItem hash (h, i) #
     map SproutItem (sprout_nullifiers tx) @ map SaplingItem (sapling_nullifiers tx) @
     map OrchardItem (orchard_nullifiers tx))"

definition tx_typed ::
  "(outpoint \<rightharpoonup> ordered_utxo) \<Rightarrow> (outpoint \<rightharpoonup> ordered_utxo) \<Rightarrow> nat \<times> transaction \<times> transaction_hash \<Rightarrow> bool" where
  "tx_typed created spent = (\<lambda>(i, tx, hash).
     4 \<le> tx_version tx \<and> i < 2 ^ 16 \<and> list_all (output_typed hash created) [0..<length (tx_outputs tx)] \<and>
     list_all (input_typed spent) (tx_inputs tx))"

lemma update_outputs_items:
  assumes "updates (update_created_output env hash created) is c = Done c'"
  shows "list_all (output_typed hash created) is \<and>
    updates item_update (concat (map (output_items env (chain_network c) hash created) is)) c = Done c'"
proof
  show typed: "list_all (output_typed hash created) is"
    by (rule updates_typed [OF _ assms]) (simp add: update_created_output_items split: if_splits)
  have "updates (update_created_output env hash created) is c =
    updates item_update (concat (map (output_items env (chain_network c) hash created) is)) c"
    by (rule updates_concat [OF _ item_update_network refl])
      (use typed in \<open>simp_all add: update_created_output_items list_all_iff\<close>)
  with assms show "updates item_update (concat (map (output_items env (chain_network c) hash created) is)) c = Done c'"
    by simp
qed

lemma update_inputs_items:
  assumes "updates (update_spending_input env hash spent) is c = Done c'"
  shows "list_all (input_typed spent) is \<and>
    updates item_update (concat (map (input_items env (chain_network c) hash spent) is)) c = Done c'"
proof
  show typed: "list_all (input_typed spent) is"
    by (rule updates_typed [OF _ assms]) (simp add: update_spending_input_items split: if_splits)
  have "updates (update_spending_input env hash spent) is c =
    updates item_update (concat (map (input_items env (chain_network c) hash spent) is)) c"
    by (rule updates_concat [OF _ item_update_network refl])
      (use typed in \<open>simp_all add: update_spending_input_items list_all_iff\<close>)
  with assms show "updates item_update (concat (map (input_items env (chain_network c) hash spent) is)) c = Done c'"
    by simp
qed

lemma revert_outputs_items:
  assumes "list_all (output_typed hash created) is"
  shows "updates (revert_created_output env hash created) is c =
    updates item_revert (concat (map (output_items env (chain_network c) hash created) is)) c"
  by (rule updates_concat [OF _ item_revert_network refl])
    (use assms in \<open>simp_all add: revert_created_output_items list_all_iff\<close>)

lemma revert_inputs_items:
  assumes "list_all (input_typed spent) is"
  shows "updates (revert_spending_input env hash spent) is c =
    updates item_revert (concat (map (input_items env (chain_network c) hash spent) is)) c"
  by (rule updates_concat [OF _ item_revert_network refl])
    (use assms in \<open>simp_all add: revert_spending_input_items list_all_iff\<close>)

lemma updates_items_network:
  "updates item_update is c = Done c' \<Longrightarrow> chain_network c' = chain_network c"
  "updates item_revert is c = Done c' \<Longrightarrow> chain_network c' = chain_network c"
  using updates_keep [of item_update chain_network] updates_keep [of item_revert chain_network]
    item_update_network item_revert_network by blast+

lemma update_with_transaction_items:
  assumes "update_with_transaction env h created spent i tx hash c = Done (Inr c')"
  shows "tx_typed created spent (i, tx, hash) \<and>
    updates item_update (tx_update_items env (chain_network c) h created spent (i, tx, hash)) c = Done c'"
proof -
  from assms obtain locations c1 c2 sp sa orc where s: "4 \<le> tx_version tx" "i < 2 ^ 16"
    "insert_new hash (h, i) (tx_loc_by_hash c) = Done locations"
    "updates (update_created_output env hash created) [0..<length (tx_outputs tx)] (c\<lparr>tx_loc_by_hash := locations\<rparr>) = Done c1"
    "updates (update_spending_input env hash spent) (tx_inputs tx) c1 = Done c2"
    "updates (\<lambda>n. insert_new n ()) (sprout_nullifiers tx) (chain_sprout_nullifiers c2) = Done sp"
    "updates (\<lambda>n. insert_new n ()) (sapling_nullifiers tx) (chain_sapling_nullifiers c2) = Done sa"
    "updates (\<lambda>n. insert_new n ()) (orchard_nullifiers tx) (chain_orchard_nullifiers c2) = Done orc"
    "c' = c2\<lparr>chain_sprout_nullifiers := sp, chain_sapling_nullifiers := sa, chain_orchard_nullifiers := orc\<rparr>"
    by (auto simp: update_with_transaction_def run_bind_Done_iff try_bind_Inr_iff add_unique_Inr_iff
        transaction_location_from_usize_def split: if_splits)
  note outs = update_outputs_items [OF s(4)]
  note ins = update_inputs_items [OF s(5)]
  have net: "chain_network c1 = chain_network c"
    using updates_items_network(1) outs by fastforce
  have "tx_typed created spent (i, tx, hash)" using s(1,2) outs ins by (simp add: tx_typed_def)
  moreover have "updates item_update (map SproutItem (sprout_nullifiers tx) @ map SaplingItem (sapling_nullifiers tx) @
      map OrchardItem (orchard_nullifiers tx)) c2 = Done c'"
    using s(6-9) by (simp add: updates_append updates_nullifiers)
  ultimately show ?thesis
    using outs ins s(3) net by (simp add: tx_update_items_def updates_append)
qed

lemma revert_with_transaction_items:
  assumes "tx_typed created spent (i, tx, hash)"
  shows "revert_with_transaction env created spent tx hash c =
    updates item_revert (tx_revert_items env (chain_network c) h created spent (i, tx, hash)) c"
proof (cases "updates (revert_created_output env hash created) [0..<length (tx_outputs tx)] c")
  case Panic
  then show ?thesis
    using assms
    by (simp add: revert_with_transaction_def tx_typed_def tx_revert_items_def updates_append revert_outputs_items)
next
  case (Done c1)
  have t: "\<not> tx_version tx < 4" "list_all (output_typed hash created) [0..<length (tx_outputs tx)]"
    "list_all (input_typed spent) (tx_inputs tx)" using assms by (auto simp: tx_typed_def)
  have outs: "updates item_revert (concat (map (output_items env (chain_network c) hash created)
      [0..<length (tx_outputs tx)])) c = Done c1"
    using Done revert_outputs_items [OF t(2), of env c] by simp
  then have net: "chain_network c1 = chain_network c" by (rule updates_items_network)
  show ?thesis
  proof (cases "updates (revert_spending_input env hash spent) (tx_inputs tx) c1")
    case Panic
    then show ?thesis
      using t Done outs net revert_inputs_items [OF t(3), of env hash c1]
      by (simp add: revert_with_transaction_def tx_revert_items_def updates_append)
  next
    case (Done c2)
    then have ins: "updates item_revert (concat (map (input_items env (chain_network c) hash spent) (tx_inputs tx))) c1 =
        Done c2"
      using revert_inputs_items [OF t(3), of env hash c1] net by simp
    show ?thesis
      using t \<open>updates (revert_created_output env hash created) _ c = Done c1\<close> Done outs ins
      by (simp add: revert_with_transaction_def tx_revert_items_def updates_append reverts_nullifiers run_bind_assoc)
  qed
qed

lemma mset_tx_items: "mset (tx_update_items env net h created spent t) = mset (tx_revert_items env net h created spent t)"
  by (auto simp: tx_update_items_def tx_revert_items_def split: prod.splits)

lemma update_with_transactions_items:
  assumes "update_with_transactions env h created spent i txs c = Done (Inr c')"
  shows "list_all (tx_typed created spent) (enumerate i txs) \<and>
    updates item_update (concat (map (tx_update_items env (chain_network c) h created spent) (enumerate i txs))) c = Done c'"
  using assms
proof (induction txs arbitrary: i c)
  case (Cons t txs)
  obtain tx hash where t: "t = (tx, hash)" by (cases t)
  from Cons.prems t obtain c1 where c1: "update_with_transaction env h created spent i tx hash c = Done (Inr c1)"
    "update_with_transactions env h created spent (Suc i) txs c1 = Done (Inr c')"
    by (auto simp: try_bind_Inr_iff)
  note first = update_with_transaction_items [OF c1(1)]
  have "chain_network c1 = chain_network c" using first updates_items_network(1) by blast
  then show ?case using first Cons.IH [OF c1(2)] t by (simp add: updates_append)
qed simp

lemma revert_with_transactions_items:
  assumes "list_all (tx_typed created spent) (enumerate i txs)"
  shows "updates (\<lambda>(tx, hash). revert_with_transaction env created spent tx hash) txs c =
    updates item_revert (concat (map (tx_revert_items env (chain_network c) h created spent) (enumerate i txs))) c"
  using assms
proof (induction txs arbitrary: i c)
  case (Cons t txs)
  obtain tx hash where t: "t = (tx, hash)" by (cases t)
  have first: "revert_with_transaction env created spent tx hash c =
    updates item_revert (tx_revert_items env (chain_network c) h created spent (i, tx, hash)) c"
    using Cons.prems t by (simp add: revert_with_transaction_items)
  show ?case
  proof (cases "revert_with_transaction env created spent tx hash c")
    case (Done c1)
    then have items: "updates item_revert (tx_revert_items env (chain_network c) h created spent (i, tx, hash)) c = Done c1"
      using first by simp
    then have "chain_network c1 = chain_network c" by (rule updates_items_network)
    then show ?thesis using Cons.IH [of "Suc i" c1] Cons.prems t Done items by (simp add: updates_append)
  next
    case Panic
    then show ?thesis using t first by (simp add: updates_append)
  qed
qed simp

text \<open>The transfers that a block adds to the address index.\<close>

definition block_items :: "('t, 'h) chain_env \<Rightarrow> network \<Rightarrow> contextually_verified_block \<Rightarrow> item list" where
  "block_items env net cv =
     concat (map (tx_update_items env net (cv_height cv) (cv_new_outputs cv) (cv_spent_outputs cv))
       (enumerate 0 (zip (transactions (cv_block cv)) (cv_transaction_hashes cv))))"

lemma transactions_restored:
  assumes "update_with_transactions env (cv_height cv) (cv_new_outputs cv) (cv_spent_outputs cv) 0
      (zip (transactions (cv_block cv)) (cv_transaction_hashes cv)) c = Done (Inr c')"
    and "items_ok (mset (block_items env (chain_network c) cv)) c"
  shows "\<exists>is. updates item_revert is c' = Done c \<and>
    (\<forall>d. chain_network d = chain_network c \<longrightarrow>
       updates (\<lambda>(tx, hash). revert_with_transaction env (cv_new_outputs cv) (cv_spent_outputs cv) tx hash)
         (zip (transactions (cv_block cv)) (cv_transaction_hashes cv)) d = updates item_revert is d)"
proof -
  let ?txs = "enumerate 0 (zip (transactions (cv_block cv)) (cv_transaction_hashes cv))"
  let ?revert = "concat (map (tx_revert_items env (chain_network c) (cv_height cv) (cv_new_outputs cv)
    (cv_spent_outputs cv)) ?txs)"
  note upd = update_with_transactions_items [OF assms(1)]
  have "mset (concat (map (tx_update_items env (chain_network c) (cv_height cv) (cv_new_outputs cv)
    (cv_spent_outputs cv)) ?txs)) = mset ?revert"
    by (simp add: mset_concat mset_tx_items comp_def)
  from chain_items.restores_permuted [OF this, of c c'] have "updates item_revert ?revert c' = Done c"
    using upd assms(2) by (simp add: block_items_def)
  then show ?thesis
    using revert_with_transactions_items [of "cv_new_outputs cv" "cv_spent_outputs cv" 0 _ env _ "cv_height cv"] upd
    by (intro exI [of _ ?revert]) auto
qed

section \<open>The other fields\<close>

text \<open>The items of \<open>c\<close> in a chain with all other fields of \<open>d\<close>.\<close>

definition with_items :: "('t, 'h) chain \<Rightarrow> ('t, 'h) chain \<Rightarrow> ('t, 'h) chain" where
  "with_items d c = d\<lparr>tx_loc_by_hash := tx_loc_by_hash c, created_utxos := created_utxos c,
     spent_utxos := spent_utxos c, partial_transparent_transfers := partial_transparent_transfers c,
     chain_sprout_nullifiers := chain_sprout_nullifiers c, chain_sapling_nullifiers := chain_sapling_nullifiers c,
     chain_orchard_nullifiers := chain_orchard_nullifiers c\<rparr>"

lemma item_revert_with_items:
  "item_revert i (with_items d c) = run_bind (item_revert i c) (\<lambda>c'. Done (with_items d c'))"
  by (cases i; cases c; cases d) (simp_all add: with_items_def run_bind_assoc)

lemma item_reverts_with_items:
  "updates item_revert is (with_items d c) = run_bind (updates item_revert is c) (\<lambda>c'. Done (with_items d c'))"
proof (induction "is" arbitrary: c)
  case (Cons i "is")
  then show ?case by (cases "item_revert i c") (simp_all add: item_revert_with_items)
qed simp

lemma item_update_rest: "item_update i c = Done c' \<Longrightarrow> c' = with_items c c'"
  by (cases i) (auto simp: run_bind_Done_iff with_items_def)

lemma with_items_trans [simp]: "with_items (with_items d c) c' = with_items d c'"
  by (simp add: with_items_def)

lemma item_updates_rest: "updates item_update is c = Done c' \<Longrightarrow> c' = with_items c c'"
proof (induction "is" arbitrary: c)
  case (Cons i "is")
  then obtain c1 where c1: "item_update i c = Done c1" "updates item_update is c1 = Done c'"
    by (auto simp: run_bind_Done_iff)
  have "c' = with_items c1 c'" using Cons.IH [OF c1(2)] .
  then show ?case using item_update_rest [OF c1(1)] by (metis with_items_trans)
qed (simp add: with_items_def)

text \<open>
  The invariant of a chain. The trees of a pool are stored at heights that have an anchor, the Sprout trees
  by anchor are exactly those of the anchors, the height index is the inverse of the blocks, and there is
  one block info per block. The transfers of an address are nonempty and within the money range.
\<close>

definition pool_ok :: "'t pool_index \<Rightarrow> bool" where
  "pool_ok idx \<longleftrightarrow> btree_ok (trees_by_height idx) \<and> btree_ok (anchors_by_height idx) \<and>
     fst ` set (trees_by_height idx) \<subseteq> fst ` set (anchors_by_height idx) \<and>
     anchors idx = mset (map snd (anchors_by_height idx))"

definition sprout_ok :: "('t, 'h) chain_env \<Rightarrow> ('t, 'h) chain \<Rightarrow> bool" where
  "sprout_ok env c \<longleftrightarrow> dom (sprout_trees_by_anchor c) = set_mset (anchors (sprout_index c)) \<and>
     (\<forall>a t. sprout_trees_by_anchor c a = Some t \<longrightarrow> tree_root (sprout_ops (pool_ops env)) t = a)"

definition blocks_ok :: "('t, 'h) chain \<Rightarrow> bool" where
  "blocks_ok c \<longleftrightarrow> btree_ok (blocks c) \<and> (\<forall>(h, b) \<in> set (blocks c). cv_height b = h) \<and>
     (\<forall>hash h. height_by_hash c hash = Some h \<longleftrightarrow> (\<exists>b. (h, b) \<in> set (blocks c) \<and> cv_hash b = hash)) \<and>
     btree_ok (block_info_by_height c) \<and> fst ` set (block_info_by_height c) = fst ` set (blocks c)"

definition chain_ok :: "('t, 'h) chain_env \<Rightarrow> ('t, 'h) chain \<Rightarrow> bool" where
  "chain_ok env c \<longleftrightarrow> blocks_ok c \<and> pool_ok (sprout_index c) \<and> pool_ok (sapling_index c) \<and>
     pool_ok (orchard_index c) \<and> sprout_ok env c \<and> btree_ok (history_trees_by_height c) \<and>
     vb_ok NonNegative (chain_value_pools c) \<and> index_ok {#} (partial_transparent_transfers c)"

text \<open>
  A block that extends a chain: it is above the blocks of the chain, its value pool change is typed, and the
  value it moves to and from each address keeps the address balances within the money range.
\<close>

definition extends_chain ::
  "('t, 'h) chain_env \<Rightarrow> contextually_verified_block \<Rightarrow> ('t, 'h) chain \<Rightarrow> bool" where
  "extends_chain env cv c \<longleftrightarrow> (\<forall>h \<in> fst ` set (blocks c). h < cv_height cv) \<and>
     vb_ok NegativeAllowed (cv_chain_value_pool_change cv) \<and>
     items_ok (mset (block_items env (chain_network c) cv)) c"

lemma update_value_pools_parts:
  assumes "update_value_pools change h n c = Done (Inr c')"
  shows "\<exists>new_pools. add_chain_value_pool_change (chain_value_pools c) change = Done (Inr new_pools) \<and>
    c' = c\<lparr>chain_value_pools := new_pools,
      block_info_by_height :=
        btree_insert h \<lparr>info_value_pools = new_pools, info_size = n mod 2 ^ 32\<rparr> (block_info_by_height c)\<rparr>"
proof -
  from assms obtain r where r: "add_chain_value_pool_change (chain_value_pools c) change = Done r"
    by (auto simp: update_value_pools_def run_bind_Done_iff)
  then show ?thesis using assms by (cases r) (auto simp: update_value_pools_def)
qed

text \<open>
  A push in one step: \<open>c1\<close> is the chain after the transactions, \<open>nct\<close> are the new trees, and the tree
  indexes of the three pools are those after the new trees are added.
\<close>

definition push_steps ::
  "('t, 'h) chain_env \<Rightarrow> contextually_verified_block \<Rightarrow> ('t, 'h) chain \<Rightarrow> ('t, 'h) chain \<Rightarrow> value_balance \<Rightarrow>
   't note_commitment_trees \<Rightarrow> 't pool_index \<Rightarrow> 't pool_index \<Rightarrow> 't pool_index \<Rightarrow> bool" where
  "push_steps env cv c c1 new_pools nct sprout_idx sapling_idx orchard_idx \<longleftrightarrow>
     insert_new (cv_hash cv) (cv_height cv) (height_by_hash c) = Done (height_by_hash c1) \<and>
     (\<exists>w. block_work (cv_block cv) = Done w \<and>
        cumulative_add (partial_cumulative_work c) w = Done (partial_cumulative_work c1)) \<and>
     update_with_transactions env (cv_height cv) (cv_new_outputs cv) (cv_spent_outputs cv) 0
       (zip (transactions (cv_block cv)) (cv_transaction_hashes cv))
       (c\<lparr>height_by_hash := height_by_hash c1, partial_cumulative_work := partial_cumulative_work c1\<rparr>) =
       Done (Inr c1) \<and>
     add_chain_value_pool_change (chain_value_pools c1) (cv_chain_value_pool_change cv) = Done (Inr new_pools) \<and>
     add_tree_and_anchor (sprout_ops (pool_ops env)) (cv_height cv) (nct_sprout nct) (sprout_index c1) = Done sprout_idx \<and>
     add_tree_and_anchor (sapling_ops (pool_ops env)) (cv_height cv) (nct_sapling nct) (sapling_index c1) = Done sapling_idx \<and>
     add_tree_and_anchor (orchard_ops (pool_ops env)) (cv_height cv) (nct_orchard nct) (orchard_index c1) = Done orchard_idx \<and>
     map_of (history_trees_by_height c1) (cv_height cv) = None"

definition pushed_chain ::
  "('t, 'h) chain_env \<Rightarrow> contextually_verified_block \<Rightarrow> ('t, 'h) chain \<Rightarrow> value_balance \<Rightarrow>
   't note_commitment_trees \<Rightarrow> 't pool_index \<Rightarrow> 't pool_index \<Rightarrow> 't pool_index \<Rightarrow> 'h \<Rightarrow> ('t, 'h) chain" where
  "pushed_chain env cv c1 new_pools nct sprout_idx sapling_idx orchard_idx hist =
     c1\<lparr>chain_value_pools := new_pools,
      block_info_by_height := btree_insert (cv_height cv)
        \<lparr>info_value_pools = new_pools, info_size = block_size env (cv_block cv) mod 2 ^ 32\<rparr> (block_info_by_height c1),
      sprout_index := sprout_idx,
      sprout_trees_by_anchor :=
        (sprout_trees_by_anchor c1)(tree_root (sprout_ops (pool_ops env)) (nct_sprout nct) \<mapsto> nct_sprout nct),
      sapling_index := sapling_idx, orchard_index := orchard_idx,
      sapling_subtrees := insert_subtree (nct_sapling_subtree nct) (sapling_subtrees c1),
      orchard_subtrees := insert_subtree (nct_orchard_subtree nct) (orchard_subtrees c1),
      history_trees_by_height := btree_insert (cv_height cv) hist (history_trees_by_height c1),
      blocks := btree_insert (cv_height cv) cv (blocks c1)\<rparr>"

text \<open>Transactions change the items only.\<close>

lemma update_with_transactions_rest:
  "update_with_transactions env h created spent i txs c = Done (Inr c') \<Longrightarrow> c' = with_items c c'"
  using update_with_transactions_items item_updates_rest by blast

lemma with_items_rest:
  assumes "c' = with_items c c'"
  shows "chain_network c' = chain_network c" "blocks c' = blocks c" "height_by_hash c' = height_by_hash c"
    "sprout_trees_by_anchor c' = sprout_trees_by_anchor c" "sprout_index c' = sprout_index c"
    "sapling_index c' = sapling_index c" "orchard_index c' = orchard_index c"
    "history_trees_by_height c' = history_trees_by_height c"
    "partial_cumulative_work c' = partial_cumulative_work c"
    "chain_value_pools c' = chain_value_pools c" "block_info_by_height c' = block_info_by_height c"
    "sapling_subtrees c' = sapling_subtrees c" "orchard_subtrees c' = orchard_subtrees c"
    "last_fork_height c' = last_fork_height c"
  by (subst assms, simp add: with_items_def)+

lemma except_trees_parts:
  assumes "update_chain_tip_with_block_except_trees env cv c = Done (Inr c')"
  shows "\<exists>c1 new_pools.
    insert_new (cv_hash cv) (cv_height cv) (height_by_hash c) = Done (height_by_hash c1) \<and>
    (\<exists>w. block_work (cv_block cv) = Done w \<and>
       cumulative_add (partial_cumulative_work c) w = Done (partial_cumulative_work c1)) \<and>
    update_with_transactions env (cv_height cv) (cv_new_outputs cv) (cv_spent_outputs cv) 0
      (zip (transactions (cv_block cv)) (cv_transaction_hashes cv))
      (c\<lparr>height_by_hash := height_by_hash c1, partial_cumulative_work := partial_cumulative_work c1\<rparr>) =
      Done (Inr c1) \<and>
    add_chain_value_pool_change (chain_value_pools c1) (cv_chain_value_pool_change cv) = Done (Inr new_pools) \<and>
    c' = c1\<lparr>chain_value_pools := new_pools,
      block_info_by_height := btree_insert (cv_height cv)
        \<lparr>info_value_pools = new_pools, info_size = block_size env (cv_block cv) mod 2 ^ 32\<rparr> (block_info_by_height c1)\<rparr>"
proof -
  from assms obtain heights w total_work c1 where e:
    "insert_new (cv_hash cv) (cv_height cv) (height_by_hash c) = Done heights"
    "block_work (cv_block cv) = Done w" "cumulative_add (partial_cumulative_work c) w = Done total_work"
    "update_with_transactions env (cv_height cv) (cv_new_outputs cv) (cv_spent_outputs cv) 0
      (zip (transactions (cv_block cv)) (cv_transaction_hashes cv))
      (c\<lparr>height_by_hash := heights, partial_cumulative_work := total_work\<rparr>) = Done (Inr c1)"
    "update_value_pools (cv_chain_value_pool_change cv) (cv_height cv) (block_size env (cv_block cv)) c1 = Done (Inr c')"
    unfolding update_chain_tip_with_block_except_trees_def
    by (auto simp: run_bind_Done_iff try_bind_Inr_iff)
  have "height_by_hash c1 = heights" "partial_cumulative_work c1 = total_work"
    using with_items_rest [OF update_with_transactions_rest [OF e(4)]] by simp_all
  then show ?thesis using e update_value_pools_parts [OF e(5)] by blast
qed

lemma push_parts:
  fixes c c' :: "('t, 'h) chain"
  assumes "push env cv c = Done (Inr c')"
  shows "\<exists>c1 new_pools (nct :: 't note_commitment_trees) sprout_idx sapling_idx orchard_idx hist.
    push_steps env cv c c1 new_pools nct sprout_idx sapling_idx orchard_idx \<and>
    c' = pushed_chain env cv c1 new_pools nct sprout_idx sapling_idx orchard_idx hist"
proof -
  from assms obtain c5 where c5: "update_chain_tip_with_block_parallel env cv c = Done (Inr c5)"
    "c' = c5\<lparr>blocks := btree_insert (cv_height cv) cv (blocks c5)\<rparr>"
    unfolding push_def by (auto simp: try_bind_Inr_iff)
  from c5(1) have "\<exists>(nct :: 't note_commitment_trees) c0 c2 c3 c4 hist.
    update_chain_tip_with_block_except_trees env cv c = Done (Inr c0) \<and>
    add_sprout_tree_and_anchor env (cv_height cv) (nct_sprout nct) c0 = Done c2 \<and>
    add_sapling_tree_and_anchor env (cv_height cv) (nct_sapling nct) c2 = Done c3 \<and>
    add_orchard_tree_and_anchor env (cv_height cv) (nct_orchard nct) c3 = Done c4 \<and>
    add_history_tree (cv_height cv) hist
      (c4\<lparr>sapling_subtrees := insert_subtree (nct_sapling_subtree nct) (sapling_subtrees c4),
          orchard_subtrees := insert_subtree (nct_orchard_subtree nct) (orchard_subtrees c4)\<rparr>) = Done c5"
    unfolding update_chain_tip_with_block_parallel_def
    by (clarsimp simp: run_bind_Done_iff try_bind_Inr_iff Let_def split: option.splits) blast
  then obtain nct :: "'t note_commitment_trees" and c0 c2 c3 c4 hist where s:
    "update_chain_tip_with_block_except_trees env cv c = Done (Inr c0)"
    "add_sprout_tree_and_anchor env (cv_height cv) (nct_sprout nct) c0 = Done c2"
    "add_sapling_tree_and_anchor env (cv_height cv) (nct_sapling nct) c2 = Done c3"
    "add_orchard_tree_and_anchor env (cv_height cv) (nct_orchard nct) c3 = Done c4"
    "add_history_tree (cv_height cv) hist
       (c4\<lparr>sapling_subtrees := insert_subtree (nct_sapling_subtree nct) (sapling_subtrees c4),
           orchard_subtrees := insert_subtree (nct_orchard_subtree nct) (orchard_subtrees c4)\<rparr>) = Done c5" by blast
  from except_trees_parts [OF s(1)] obtain c1 new_pools where e:
    "insert_new (cv_hash cv) (cv_height cv) (height_by_hash c) = Done (height_by_hash c1)"
    "\<exists>w. block_work (cv_block cv) = Done w \<and>
       cumulative_add (partial_cumulative_work c) w = Done (partial_cumulative_work c1)"
    "update_with_transactions env (cv_height cv) (cv_new_outputs cv) (cv_spent_outputs cv) 0
      (zip (transactions (cv_block cv)) (cv_transaction_hashes cv))
      (c\<lparr>height_by_hash := height_by_hash c1, partial_cumulative_work := partial_cumulative_work c1\<rparr>) =
      Done (Inr c1)"
    "add_chain_value_pool_change (chain_value_pools c1) (cv_chain_value_pool_change cv) = Done (Inr new_pools)"
    and c0: "c0 = c1\<lparr>chain_value_pools := new_pools,
      block_info_by_height := btree_insert (cv_height cv)
        \<lparr>info_value_pools = new_pools, info_size = block_size env (cv_block cv) mod 2 ^ 32\<rparr> (block_info_by_height c1)\<rparr>"
    by blast
  from s(2-4) obtain sprout_idx sapling_idx orchard_idx where i:
    "add_tree_and_anchor (sprout_ops (pool_ops env)) (cv_height cv) (nct_sprout nct) (sprout_index c1) = Done sprout_idx"
    "add_tree_and_anchor (sapling_ops (pool_ops env)) (cv_height cv) (nct_sapling nct) (sapling_index c1) = Done sapling_idx"
    "add_tree_and_anchor (orchard_ops (pool_ops env)) (cv_height cv) (nct_orchard nct) (orchard_index c1) = Done orchard_idx"
    and c4: "c4 = c0\<lparr>sprout_index := sprout_idx, sprout_trees_by_anchor :=
        (sprout_trees_by_anchor c0)(tree_root (sprout_ops (pool_ops env)) (nct_sprout nct) \<mapsto> nct_sprout nct),
      sapling_index := sapling_idx, orchard_index := orchard_idx\<rparr>"
    by (auto simp: add_sprout_tree_and_anchor_def add_sapling_tree_and_anchor_def add_orchard_tree_and_anchor_def
        run_bind_Done_iff c0)
  from s(5) have "map_of (history_trees_by_height c1) (cv_height cv) = None"
    by (simp add: add_history_tree_def run_bind_Done_iff btree_insert_new_Done_iff c4 c0)
  with e i have "push_steps env cv c c1 new_pools nct sprout_idx sapling_idx orchard_idx"
    by (simp add: push_steps_def)
  moreover have "c' = pushed_chain env cv c1 new_pools nct sprout_idx sapling_idx orchard_idx hist"
    using s(5) c5(2)
    by (auto simp: add_history_tree_def run_bind_Done_iff btree_insert_new_Done_iff c4 c0 pushed_chain_def)
  ultimately show ?thesis by blast
qed

lemma add_tree_parts:
  assumes "add_tree_and_anchor ops h t idx = Done idx'"
  shows "\<exists>trees. map_of (anchors_by_height idx) h = None \<and>
    (trees = trees_by_height idx \<or> map_of (trees_by_height idx) h = None \<and> trees = btree_insert h t (trees_by_height idx)) \<and>
    idx' = idx\<lparr>trees_by_height := trees, anchors_by_height := btree_insert h (tree_root ops t) (anchors_by_height idx),
               anchors := add_mset (tree_root ops t) (anchors idx)\<rparr>"
proof -
  from assms obtain is_new trees by_height where s:
    "(if is_new then btree_insert_new h t (trees_by_height idx) else Done (trees_by_height idx)) = Done trees"
    "btree_insert_new h (tree_root ops t) (anchors_by_height idx) = Done by_height"
    "idx' = idx\<lparr>trees_by_height := trees, anchors_by_height := by_height,
                anchors := add_mset (tree_root ops t) (anchors idx)\<rparr>"
    unfolding add_tree_and_anchor_def Let_def by (auto simp only: run_bind_Done_iff outcome.inject)
  show ?thesis
    using s by (intro exI [of _ trees]) (auto simp: btree_insert_new_Done_iff split: if_splits)
qed

lemma remove_added_tree:
  assumes "add_tree_and_anchor ops h t idx = Done idx'" and "pool_ok idx" and "\<forall>tip. tip_height = Some tip \<longrightarrow> tip \<le> h"
  shows "remove_tree_at h idx' = Done (idx, tree_root ops t) \<and>
    remove_tree_and_anchor RevertTip h tip_height idx' = Done idx \<and>
    restore_next_tree h tip_height None idx = Done idx"
proof -
  from add_tree_parts [OF assms(1)] obtain trees where s: "map_of (anchors_by_height idx) h = None"
    "trees = trees_by_height idx \<or> map_of (trees_by_height idx) h = None \<and> trees = btree_insert h t (trees_by_height idx)"
    "idx' = idx\<lparr>trees_by_height := trees, anchors_by_height := btree_insert h (tree_root ops t) (anchors_by_height idx),
                anchors := add_mset (tree_root ops t) (anchors idx)\<rparr>" by blast
  have "map_of (trees_by_height idx) h = None"
    using s(1) assms(2) by (auto simp: pool_ok_def map_of_eq_None_iff)
  then have "btree_remove h trees = trees_by_height idx"
    using s(2) by (auto simp: btree_remove_absent btree_remove_insert)
  then have r: "remove_tree_at h idx' = Done (idx, tree_root ops t)"
    using s(1,3) by (simp add: remove_tree_at_def map_of_btree_insert_same assert_that_def btree_remove_insert)
  moreover have "restore_next_tree h tip_height None idx = Done idx"
    using assms(3) by (auto simp: restore_next_tree_def split: option.splits)
  ultimately show ?thesis
    by (simp add: remove_tree_and_anchor_def removed_heights_def highest_removed_tree_def)
qed

lemma cumulative_sub_add: "cumulative_add p w = Done p' \<Longrightarrow> cumulative_sub p' w = Done p"
  by (auto simp: cumulative_add_def cumulative_sub_def split: if_splits)

lemma value_pools_restored:
  assumes "vb_ok NonNegative v" and "vb_ok NegativeAllowed d" and "add_chain_value_pool_change v d = Done (Inr v')"
  shows "run_bind (vb_neg d) (\<lambda>d'. run_bind (add_chain_value_pool_change v' d') expect_ok) = Done v"
proof -
  obtain d' where d': "vb_neg d = Done d'" using vb_neg_done [OF assms(2)] by blast
  have v': "v' = vb_plus v d" "vb_ok NonNegative v'"
    using add_change_cases [OF assms(1,2)] assms(3) by (auto split: if_splits)
  have "vb_ok NegativeAllowed d'" using vb_neg_ok [OF assms(2) d'] .
  from add_change_cases [OF v'(2) this] have "add_chain_value_pool_change v' d' = Done (Inr v)"
    using pool_plus_neg [OF d' assms(2)] v'(1) assms(1) by simp
  with d' show ?thesis by simp
qed

lemma remove_added_sprout_tree:
  assumes "add_tree_and_anchor (sprout_ops (pool_ops env)) h t (sprout_index c) = Done idx'"
    and "pool_ok (sprout_index c)" and "sprout_ok env c"
    and "\<And>t t'. tree_root (sprout_ops (pool_ops env)) t = tree_root (sprout_ops (pool_ops env)) t' \<Longrightarrow> t = t'"
  shows "remove_sprout_tree_at h (idx', (sprout_trees_by_anchor c)(tree_root (sprout_ops (pool_ops env)) t \<mapsto> t)) =
    Done (sprout_index c, sprout_trees_by_anchor c)"
proof -
  let ?a = "tree_root (sprout_ops (pool_ops env)) t"
  have r: "remove_tree_at h idx' = Done (sprout_index c, ?a)"
    using remove_added_tree [OF assms(1,2), of None] by simp
  have "sprout_trees_by_anchor c ?a = Some t" if "?a \<in># anchors (sprout_index c)"
  proof -
    have "?a \<in> dom (sprout_trees_by_anchor c)" using that assms(3) by (simp add: sprout_ok_def)
    then obtain t' where t': "sprout_trees_by_anchor c ?a = Some t'" by blast
    then have "tree_root (sprout_ops (pool_ops env)) t' = ?a" using assms(3) by (simp add: sprout_ok_def)
    then show ?thesis using assms(4) t' by blast
  qed
  moreover have "sprout_trees_by_anchor c ?a = None" if "?a \<notin># anchors (sprout_index c)"
    using that assms(3) by (auto simp: sprout_ok_def)
  ultimately show ?thesis using r by (auto simp: remove_sprout_tree_at_def fun_upd_idem)
qed

lemma max_block_height_simps [simp]:
  "max_block_height (c\<lparr>sprout_index := x\<rparr>) = max_block_height c"
  "max_block_height (c\<lparr>sprout_trees_by_anchor := m\<rparr>) = max_block_height c"
  "max_block_height (c\<lparr>sapling_index := x\<rparr>) = max_block_height c"
  "max_block_height (c\<lparr>orchard_index := x\<rparr>) = max_block_height c"
  by (simp_all add: max_block_height_def)

text \<open>The tree removals at the tip, for a chain with the trees of \<open>c\<close> and those of one more block.\<close>

lemma remove_trees_restored:
  fixes c E :: "('t, 'h) chain"
  assumes "remove_sprout_tree_at h (sprout_index E, sprout_trees_by_anchor E) =
      Done (sprout_index c, sprout_trees_by_anchor c)"
    and "restore_next_tree h (max_block_height E) None (sprout_index c) = Done (sprout_index c)"
    and "remove_tree_and_anchor RevertTip h (max_block_height E) (sapling_index E) = Done (sapling_index c)"
    and "remove_tree_and_anchor RevertTip h (max_block_height E) (orchard_index E) = Done (orchard_index c)"
    and "map_of (history_trees_by_height c) h = None"
    and "history_trees_by_height E = btree_insert h hist (history_trees_by_height c)"
  shows "run_bind (remove_sprout_tree_and_anchor RevertTip h E) (\<lambda>c2.
         run_bind (remove_sapling_tree_and_anchor RevertTip h c2) (\<lambda>c3.
         run_bind (remove_orchard_tree_and_anchor RevertTip h c3) (\<lambda>c4.
         run_bind (remove_history_tree RevertTip h c4) k))) =
    k (E\<lparr>sprout_index := sprout_index c, sprout_trees_by_anchor := sprout_trees_by_anchor c,
         sapling_index := sapling_index c, orchard_index := orchard_index c,
         history_trees_by_height := history_trees_by_height c\<rparr>)"
  using assms
  by (simp add: remove_sprout_tree_and_anchor_def removed_heights_def highest_removed_tree_def
      remove_sapling_tree_and_anchor_def remove_orchard_tree_and_anchor_def remove_history_tree_def
      map_of_btree_insert_same btree_remove_insert)

lemma push_steps_rest:
  assumes "push_steps env cv c c1 new_pools nct sprout_idx sapling_idx orchard_idx"
  shows "c1 = with_items
    (c\<lparr>height_by_hash := height_by_hash c1, partial_cumulative_work := partial_cumulative_work c1\<rparr>) c1"
  using assms update_with_transactions_rest unfolding push_steps_def by blast

text \<open>
  The reverts of the transactions of a pushed block. They restore the items of a chain whose other fields
  are arbitrary.
\<close>

lemma push_transactions_restored:
  assumes "push_steps env cv c c1 new_pools nct sprout_idx sapling_idx orchard_idx"
    and "extends_chain env cv c" and "D = with_items D c1" and "chain_network D = chain_network c"
  shows "updates (\<lambda>(tx, hash). revert_with_transaction env (cv_new_outputs cv) (cv_spent_outputs cv) tx hash)
      (zip (transactions (cv_block cv)) (cv_transaction_hashes cv)) D = Done (with_items D c)"
proof -
  let ?c0 = "c\<lparr>height_by_hash := height_by_hash c1, partial_cumulative_work := partial_cumulative_work c1\<rparr>"
  have "items_ok (mset (block_items env (chain_network ?c0) cv)) ?c0"
    using assms(2) by (simp add: extends_chain_def items_ok_def)
  moreover have "update_with_transactions env (cv_height cv) (cv_new_outputs cv) (cv_spent_outputs cv) 0
      (zip (transactions (cv_block cv)) (cv_transaction_hashes cv)) ?c0 = Done (Inr c1)"
    using assms(1) by (simp add: push_steps_def)
  ultimately obtain "is" where items: "updates item_revert is c1 = Done ?c0"
    and reverts: "\<And>d. chain_network d = chain_network ?c0 \<Longrightarrow>
       updates (\<lambda>(tx, hash). revert_with_transaction env (cv_new_outputs cv) (cv_spent_outputs cv) tx hash)
         (zip (transactions (cv_block cv)) (cv_transaction_hashes cv)) d = updates item_revert is d"
    using transactions_restored by blast
  have "with_items D ?c0 = with_items D c" by (simp add: with_items_def)
  then show ?thesis
    using reverts [of D] item_reverts_with_items [of "is" D c1] items assms(3,4) by simp
qed

lemma revert_pushed:
  fixes c c1 :: "('t, 'h) chain"
  assumes steps: "push_steps env cv c c1 new_pools nct sprout_idx sapling_idx orchard_idx"
    and ok: "chain_ok env c" and ext: "extends_chain env cv c"
    and roots: "\<And>t t'. tree_root (sprout_ops (pool_ops env)) t = tree_root (sprout_ops (pool_ops env)) t' \<Longrightarrow> t = t'"
  shows "revert_chain_with env cv RevertTip
      ((pushed_chain env cv c1 new_pools nct sprout_idx sapling_idx orchard_idx hist)
         \<lparr>sapling_subtrees := sa, orchard_subtrees := orc, last_fork_height := f, blocks := blocks c\<rparr>) =
    Done (c\<lparr>sapling_subtrees := sa, orchard_subtrees := orc, last_fork_height := f\<rparr>)"
proof -
  let ?h = "cv_height cv"
  note rest = with_items_rest [OF push_steps_rest [OF steps], simplified]
  note s = steps [unfolded push_steps_def rest]
  obtain w where w: "block_work (cv_block cv) = Done w"
    "cumulative_add (partial_cumulative_work c) w = Done (partial_cumulative_work c1)" using s by blast
  define D where "D = (pushed_chain env cv c1 new_pools nct sprout_idx sapling_idx orchard_idx hist)
    \<lparr>sapling_subtrees := sa, orchard_subtrees := orc, last_fork_height := f,
     blocks := blocks c, height_by_hash := height_by_hash c, partial_cumulative_work := partial_cumulative_work c\<rparr>"
  define E where "E = with_items D c"
  have txs: "updates (\<lambda>(tx, hash). revert_with_transaction env (cv_new_outputs cv) (cv_spent_outputs cv) tx hash)
      (zip (transactions (cv_block cv)) (cv_transaction_hashes cv)) D = Done E"
    unfolding E_def using push_transactions_restored [OF steps ext, of D]
    by (simp add: D_def pushed_chain_def with_items_def rest)
  have E: "sprout_index E = sprout_idx" "sapling_index E = sapling_idx" "orchard_index E = orchard_idx"
    "sprout_trees_by_anchor E =
       (sprout_trees_by_anchor c)(tree_root (sprout_ops (pool_ops env)) (nct_sprout nct) \<mapsto> nct_sprout nct)"
    "history_trees_by_height E = btree_insert ?h hist (history_trees_by_height c)"
    "max_block_height E = max_block_height c" "chain_value_pools E = new_pools"
    by (simp_all add: E_def D_def pushed_chain_def with_items_def rest max_block_height_def)
  have below: "\<forall>t. max_block_height c = Some t \<longrightarrow> t \<le> ?h"
    using ext by (auto simp: extends_chain_def max_block_height_def intro: less_imp_le)
  have pools: "pool_ok (sprout_index c)" "pool_ok (sapling_index c)" "pool_ok (orchard_index c)" "sprout_ok env c"
    using ok by (simp_all add: chain_ok_def)
  have adds: "add_tree_and_anchor (sprout_ops (pool_ops env)) ?h (nct_sprout nct) (sprout_index c) = Done sprout_idx"
    "add_tree_and_anchor (sapling_ops (pool_ops env)) ?h (nct_sapling nct) (sapling_index c) = Done sapling_idx"
    "add_tree_and_anchor (orchard_ops (pool_ops env)) ?h (nct_orchard nct) (orchard_index c) = Done orchard_idx"
    "map_of (history_trees_by_height c) ?h = None"
    using s by simp_all
  have trees: "run_bind (remove_sprout_tree_and_anchor RevertTip ?h E) (\<lambda>c2.
      run_bind (remove_sapling_tree_and_anchor RevertTip ?h c2) (\<lambda>c3.
      run_bind (remove_orchard_tree_and_anchor RevertTip ?h c3) (\<lambda>c4.
      run_bind (remove_history_tree RevertTip ?h c4) k))) =
    k (E\<lparr>sprout_index := sprout_index c, sprout_trees_by_anchor := sprout_trees_by_anchor c,
         sapling_index := sapling_index c, orchard_index := orchard_index c,
         history_trees_by_height := history_trees_by_height c\<rparr>)" for k :: "('t, 'h) chain \<Rightarrow> ('t, 'h) chain outcome"
    using remove_added_sprout_tree [OF adds(1) pools(1,4) roots] remove_added_tree [OF adds(1) pools(1) below]
      remove_added_tree [OF adds(2) pools(2) below] remove_added_tree [OF adds(3) pools(3) below] adds(4)
    by (intro remove_trees_restored) (simp_all add: E)
  have info: "map_of (block_info_by_height c) ?h = None"
    using ext ok by (fastforce simp: extends_chain_def chain_ok_def blocks_ok_def map_of_eq_None_iff)
  have final: "E\<lparr>sprout_index := sprout_index c, sprout_trees_by_anchor := sprout_trees_by_anchor c,
         sapling_index := sapling_index c, orchard_index := orchard_index c,
         history_trees_by_height := history_trees_by_height c, chain_value_pools := chain_value_pools c,
         block_info_by_height := btree_remove ?h (block_info_by_height E)\<rparr> =
      c\<lparr>sapling_subtrees := sa, orchard_subtrees := orc, last_fork_height := f\<rparr>"
    using btree_remove_insert [OF info] by (simp add: E_def D_def pushed_chain_def with_items_def rest)
  have vals: "run_bind (vb_neg (cv_chain_value_pool_change cv)) (\<lambda>d'.
      run_bind (add_chain_value_pool_change new_pools d') expect_ok) = Done (chain_value_pools c)"
    using ok ext s by (intro value_pools_restored) (auto simp: chain_ok_def extends_chain_def)
  have "remove_old (cv_hash cv) (height_by_hash c1) = Done (height_by_hash c)" by (rule remove_insert_new [OF conjunct1 [OF s]])
  then show ?thesis
    using vals final w(1) cumulative_sub_add [OF w(2)]
    by (simp add: revert_chain_with_def pushed_chain_def D_def [unfolded pushed_chain_def, simplified, symmetric]
        txs trees revert_value_pools_def E(7))
qed

text \<open>
  Popping the tip undoes a push, except for the subtrees: \<open>pop_tip\<close> leaves those of the popped block.
\<close>

lemma pop_tip_push:
  fixes c c' :: "('t, 'h) chain"
  assumes push: "push env cv c = Done (Inr c')"
    and ok: "chain_ok env c" and ext: "extends_chain env cv c" and ne: "blocks c \<noteq> []"
    and roots: "\<And>t t'. tree_root (sprout_ops (pool_ops env)) t = tree_root (sprout_ops (pool_ops env)) t' \<Longrightarrow> t = t'"
  shows "pop_tip env (c'\<lparr>sapling_subtrees := sa, orchard_subtrees := orc, last_fork_height := f\<rparr>) =
    Done (c\<lparr>sapling_subtrees := sa, orchard_subtrees := orc, last_fork_height := f\<rparr>)"
proof -
  from push_parts [OF push] obtain c1 new_pools and nct :: "'t note_commitment_trees"
    and sprout_idx sapling_idx orchard_idx hist where
    steps: "push_steps env cv c c1 new_pools nct sprout_idx sapling_idx orchard_idx"
    and c': "c' = pushed_chain env cv c1 new_pools nct sprout_idx sapling_idx orchard_idx hist" by blast
  have above: "\<forall>h \<in> fst ` set (blocks c). h < cv_height cv" using ext by (simp add: extends_chain_def)
  have blocks: "blocks c' = blocks c @ [(cv_height cv, cv)]"
    using with_items_rest(2) [OF push_steps_rest [OF steps]] btree_insert_last [OF above]
    by (simp add: c' pushed_chain_def)
  have absent: "map_of (blocks c) (cv_height cv) = None" using above by (auto simp: map_of_eq_None_iff)
  have "btree_remove (cv_height cv) (blocks c @ [(cv_height cv, cv)]) = blocks c"
    using btree_remove_insert [OF absent, of cv] btree_insert_last [OF above] by simp
  moreover have "map_of (blocks c @ [(cv_height cv, cv)]) (cv_height cv) = Some cv"
    using absent by (simp add: map_add_def)
  ultimately show ?thesis
    using ne revert_pushed [OF steps ok ext roots, where hist = hist and sa = sa and orc = orc and f = f] blocks
    by (simp add: pop_tip_def non_finalized_tip_height_def max_block_height_def Let_def assert_that_def c')
qed

end
