(* ===== verification/Chain_Invariants.thy ===== *)
theory Chain_Invariants
  imports Chain_Reverts
begin

text \<open>
  The invariant of a non-finalized chain. The items, the work and the value pools of a chain are those of its
  blocks, which have consecutive heights, and every pool has an anchor for each block and a tree at or below the
  root. A push keeps the invariant, and so do \<open>pop_tip\<close> and \<open>pop_root\<close>, which do not panic under it.
\<close>

section \<open>The invariant\<close>

lemma mset_btree_insert_new:
  "map_of m k = None \<Longrightarrow> mset (btree_insert k v m) = add_mset (k, v) (mset m)"
  by (induction k v m rule: btree_insert.induct) (auto split: if_splits)

lemma add_tree_pool_ok:
  assumes "add_tree_and_anchor ops h t idx = Done idx'" and "pool_ok idx"
  shows "pool_ok idx'"
    and "set_mset (anchors idx') = insert (tree_root ops t) (set_mset (anchors idx))"
proof -
  from add_tree_parts [OF assms(1)] obtain trees where s: "map_of (anchors_by_height idx) h = None"
    "trees = trees_by_height idx \<or> map_of (trees_by_height idx) h = None \<and> trees = btree_insert h t (trees_by_height idx)"
    "idx' = idx\<lparr>trees_by_height := trees, anchors_by_height := btree_insert h (tree_root ops t) (anchors_by_height idx),
                anchors := add_mset (tree_root ops t) (anchors idx)\<rparr>" by blast
  have "mset (map snd (btree_insert h (tree_root ops t) (anchors_by_height idx))) =
      add_mset (tree_root ops t) (mset (map snd (anchors_by_height idx)))"
    using mset_btree_insert_new [OF s(1)] by simp
  moreover have "btree_ok trees" "fst ` set trees \<subseteq> insert h (fst ` set (anchors_by_height idx))"
    using s(2) assms(2) by (elim disjE conjE; simp add: pool_ok_def btree_ok_insert; blast)+
  ultimately show "pool_ok idx'" using s(3) assms(2) by (simp add: pool_ok_def btree_ok_insert)
  show "set_mset (anchors idx') = insert (tree_root ops t) (set_mset (anchors idx))" using s(3) by simp
qed

lemma items_ok_updates:
  "items_ok (mset is + T) c \<Longrightarrow> updates item_update is c = Done c' \<Longrightarrow> items_ok T c'"
proof (induction "is" arbitrary: c)
  case (Cons i "is")
  then obtain c1 where c1: "item_update i c = Done c1" "updates item_update is c1 = Done c'"
    by (auto simp: run_bind_Done_iff)
  have "items_ok (mset is + T) c1" using chain_items.keeps [of i "mset is + T" c c1] Cons.prems(1) c1(1) by simp
  then show ?case using Cons.IH c1(2) by blast
qed simp

lemma push_index_ok:
  assumes "push_steps env cv c c1 new_pools nct sprout_idx sapling_idx orchard_idx" and "extends_chain env cv c"
  shows "index_ok {#} (partial_transparent_transfers c1)"
proof -
  let ?c0 = "c\<lparr>height_by_hash := height_by_hash c1, partial_cumulative_work := partial_cumulative_work c1\<rparr>"
  have "updates item_update (block_items env (chain_network c) cv) ?c0 = Done c1"
    using assms(1) update_with_transactions_items [of env "cv_height cv" _ _ 0 _ ?c0 c1]
    by (simp add: push_steps_def block_items_def)
  moreover have "items_ok (mset (block_items env (chain_network c) cv) + {#}) ?c0"
    using assms(2) by (simp add: extends_chain_def items_ok_def)
  ultimately have "items_ok {#} c1" using items_ok_updates by blast
  then show ?thesis by (simp add: items_ok_def item_transfers_def)
qed

lemma push_blocks:
  assumes "push env cv c = Done (Inr c')" and "extends_chain env cv c"
  shows "blocks c' = blocks c @ [(cv_height cv, cv)]"
    and "height_by_hash c (cv_hash cv) = None" and "height_by_hash c' = (height_by_hash c)(cv_hash cv \<mapsto> cv_height cv)"
    and "chain_network c' = chain_network c" and "last_fork_height c' = last_fork_height c"
proof -
  from push_parts [OF assms(1)] obtain c1 new_pools nct sprout_idx sapling_idx orchard_idx hist where
    steps: "push_steps env cv c c1 new_pools nct sprout_idx sapling_idx orchard_idx"
    and c': "c' = pushed_chain env cv c1 new_pools nct sprout_idx sapling_idx orchard_idx hist" by blast
  note rest = with_items_rest [OF push_steps_rest [OF steps], simplified]
  have "btree_insert (cv_height cv) cv (blocks c) = blocks c @ [(cv_height cv, cv)]"
    using assms(2) by (intro btree_insert_last) (simp add: extends_chain_def)
  then show "blocks c' = blocks c @ [(cv_height cv, cv)]" "chain_network c' = chain_network c"
    "last_fork_height c' = last_fork_height c"
    by (simp_all add: c' pushed_chain_def rest)
  have "insert_new (cv_hash cv) (cv_height cv) (height_by_hash c) = Done (height_by_hash c1)"
    using steps by (simp add: push_steps_def)
  then show "height_by_hash c (cv_hash cv) = None" "height_by_hash c' = (height_by_hash c)(cv_hash cv \<mapsto> cv_height cv)"
    by (auto simp: c' pushed_chain_def insert_new_def split: if_splits)
qed

lemma push_blocks_ok:
  assumes "push env cv c = Done (Inr c')" and "blocks_ok c" and "extends_chain env cv c"
    and "block_info_by_height c' = btree_insert (cv_height cv) info (block_info_by_height c)"
  shows "blocks_ok c'"
proof -
  note b = push_blocks [OF assms(1,3)]
  have above: "\<forall>h \<in> fst ` set (blocks c). h < cv_height cv" using assms(3) by (simp add: extends_chain_def)
  have "btree_ok (blocks c')" using assms(2) above b(1) by (auto simp: blocks_ok_def btree_ok_def sorted_wrt_append)
  moreover have "height_by_hash c' hash = Some h \<longleftrightarrow> (\<exists>b. (h, b) \<in> set (blocks c') \<and> cv_hash b = hash)" for hash h
  proof (cases "hash = cv_hash cv")
    case True
    have "\<nexists>h b. (h, b) \<in> set (blocks c) \<and> cv_hash b = cv_hash cv"
      using assms(2) b(2) by (metis blocks_ok_def option.distinct(1))
    then show ?thesis using True b(1,3) by auto
  next
    case False
    then show ?thesis using assms(2) b(1,3) by (auto simp: blocks_ok_def)
  qed
  ultimately show ?thesis
    using assms(2,4) b(1) by (auto simp: blocks_ok_def btree_ok_insert)
qed

lemma push_keeps_ok:
  fixes c c' :: "('t, 'h) chain"
  assumes "push env cv c = Done (Inr c')" and "chain_ok env c" and "extends_chain env cv c"
  shows "chain_ok env c'"
proof -
  from push_parts [OF assms(1)] obtain c1 new_pools and nct :: "'t note_commitment_trees"
    and sprout_idx sapling_idx orchard_idx hist where
    steps: "push_steps env cv c c1 new_pools nct sprout_idx sapling_idx orchard_idx"
    and c': "c' = pushed_chain env cv c1 new_pools nct sprout_idx sapling_idx orchard_idx hist" by blast
  note rest = with_items_rest [OF push_steps_rest [OF steps], simplified]
  note s = steps [unfolded push_steps_def rest]
  have ok: "pool_ok (sprout_index c)" "pool_ok (sapling_index c)" "pool_ok (orchard_index c)" "sprout_ok env c"
    "btree_ok (history_trees_by_height c)" "blocks_ok c" "vb_ok NonNegative (chain_value_pools c)"
    using assms(2) by (simp_all add: chain_ok_def)
  have adds: "add_tree_and_anchor (sprout_ops (pool_ops env)) (cv_height cv) (nct_sprout nct) (sprout_index c) = Done sprout_idx"
    "add_tree_and_anchor (sapling_ops (pool_ops env)) (cv_height cv) (nct_sapling nct) (sapling_index c) = Done sapling_idx"
    "add_tree_and_anchor (orchard_ops (pool_ops env)) (cv_height cv) (nct_orchard nct) (orchard_index c) = Done orchard_idx"
    using s by simp_all
  have "blocks_ok c'"
    by (rule push_blocks_ok [OF assms(1) ok(6) assms(3)]) (simp add: c' pushed_chain_def rest)
  moreover have "vb_ok NonNegative new_pools"
    using s add_change_cases [OF ok(7), of "cv_chain_value_pool_change cv"] assms(3)
    by (auto simp: extends_chain_def split: if_splits)
  moreover have "pool_ok sprout_idx" "pool_ok sapling_idx" "pool_ok orchard_idx"
    "set_mset (anchors sprout_idx) =
       insert (tree_root (sprout_ops (pool_ops env)) (nct_sprout nct)) (set_mset (anchors (sprout_index c)))"
    using add_tree_pool_ok [OF adds(1) ok(1)] add_tree_pool_ok(1) [OF adds(2) ok(2)]
      add_tree_pool_ok(1) [OF adds(3) ok(3)] by simp_all
  moreover have "sprout_ok env c'"
    using ok(4) calculation(6) by (auto simp: sprout_ok_def c' pushed_chain_def rest)
  ultimately show ?thesis
    using push_index_ok [OF steps assms(3)] ok(5)
    by (simp add: chain_ok_def c' pushed_chain_def rest btree_ok_insert)
qed

section \<open>Chains as functions of their blocks\<close>

definition no_items :: "('t, 'h) chain \<Rightarrow> ('t, 'h) chain" where
  "no_items c = c\<lparr>tx_loc_by_hash := Map.empty, created_utxos := Map.empty, spent_utxos := Map.empty,
     partial_transparent_transfers := Map.empty, chain_sprout_nullifiers := Map.empty,
     chain_sapling_nullifiers := Map.empty, chain_orchard_nullifiers := Map.empty\<rparr>"

definition blocks_items ::
  "('t, 'h) chain_env \<Rightarrow> network \<Rightarrow> (height, contextually_verified_block) btree \<Rightarrow> item list" where
  "blocks_items env net bs = concat (map (\<lambda>(_, cv). block_items env net cv) bs)"

definition block_typed :: "contextually_verified_block \<Rightarrow> bool" where
  "block_typed cv \<longleftrightarrow> list_all (tx_typed (cv_new_outputs cv) (cv_spent_outputs cv))
     (enumerate 0 (zip (transactions (cv_block cv)) (cv_transaction_hashes cv)))"

definition block_weight :: "contextually_verified_block \<Rightarrow> nat" where
  "block_weight cv = (case block_work (cv_block cv) of Done w \<Rightarrow> work_value w | Panic \<Rightarrow> 0)"

fun pool_steps :: "value_balance \<Rightarrow> value_balance list \<Rightarrow> value_balance \<Rightarrow> bool" where
  "pool_steps v [] v' \<longleftrightarrow> v = v'"
| "pool_steps v (d # ds) v' \<longleftrightarrow> vb_ok NegativeAllowed d \<and>
     (\<exists>u. add_chain_value_pool_change v d = Done (Inr u) \<and> pool_steps u ds v')"

definition items_inv :: "('t, 'h) chain_env \<Rightarrow> ('t, 'h) chain \<Rightarrow> bool" where
  "items_inv env c \<longleftrightarrow>
     items_ok (mset (blocks_items env (chain_network c) (blocks c))) (no_items c) \<and>
     updates item_update (blocks_items env (chain_network c) (blocks c)) (no_items c) = Done c \<and>
     (\<forall>cv \<in> snd ` set (blocks c). block_typed cv)"

definition work_inv :: "('t, 'h) chain \<Rightarrow> bool" where
  "work_inv c \<longleftrightarrow> (\<forall>cv \<in> snd ` set (blocks c). \<exists>w. block_work (cv_block cv) = Done w) \<and>
     cumulative (partial_cumulative_work c) = sum_list (map (block_weight \<circ> snd) (blocks c))"

definition pools_inv :: "('t, 'h) chain \<Rightarrow> bool" where
  "pools_inv c \<longleftrightarrow> (\<exists>base. vb_ok NonNegative base \<and>
     pool_steps base (map (cv_chain_value_pool_change \<circ> snd) (blocks c)) (chain_value_pools c))"

definition trees_inv :: "height set \<Rightarrow> 't pool_index \<Rightarrow> bool" where
  "trees_inv H idx \<longleftrightarrow> pool_ok idx \<and> H \<subseteq> fst ` set (anchors_by_height idx) \<and>
     (\<exists>k \<in> fst ` set (trees_by_height idx). \<forall>h \<in> H. k \<le> h)"

definition heights_inv :: "('t, 'h) chain \<Rightarrow> bool" where
  "heights_inv c \<longleftrightarrow> (\<exists>r. map fst (blocks c) = [r..<r + length (blocks c)]) \<and>
     (\<forall>h \<in> fst ` set (blocks c). h \<le> Height_MAX)"

definition chain_inv :: "('t, 'h) chain_env \<Rightarrow> ('t, 'h) chain \<Rightarrow> bool" where
  "chain_inv env c \<longleftrightarrow> blocks_ok c \<and> heights_inv c \<and> items_inv env c \<and> work_inv c \<and> pools_inv c \<and>
     trees_inv (fst ` set (blocks c)) (sprout_index c) \<and> trees_inv (fst ` set (blocks c)) (sapling_index c) \<and>
     trees_inv (fst ` set (blocks c)) (orchard_index c) \<and> sprout_ok env c \<and>
     btree_ok (history_trees_by_height c) \<and> fst ` set (blocks c) \<subseteq> fst ` set (history_trees_by_height c)"

lemma pool_steps_append:
  "pool_steps v (ds @ es) v' \<longleftrightarrow> (\<exists>u. pool_steps v ds u \<and> pool_steps u es v')"
  by (induction ds arbitrary: v) auto

lemma pool_steps_ok: "vb_ok NonNegative v \<Longrightarrow> pool_steps v ds v' \<Longrightarrow> vb_ok NonNegative v'"
proof (induction ds arbitrary: v)
  case (Cons d ds)
  then obtain u where u: "vb_ok NegativeAllowed d" "add_chain_value_pool_change v d = Done (Inr u)" "pool_steps u ds v'"
    by auto
  have "vb_ok NonNegative u" using add_change_cases [OF Cons.prems(1) u(1)] u(2) by (auto split: if_splits)
  then show ?case using Cons.IH u(3) by blast
qed simp

lemma item_update_with_items:
  "item_update i (with_items d c) = run_bind (item_update i c) (\<lambda>c'. Done (with_items d c'))"
  by (cases i; cases c; cases d) (simp_all add: with_items_def run_bind_assoc)

lemma item_updates_with_items:
  "updates item_update is (with_items d c) = run_bind (updates item_update is c) (\<lambda>c'. Done (with_items d c'))"
proof (induction "is" arbitrary: c)
  case (Cons i "is")
  then show ?case by (cases "item_update i c") (simp_all add: item_update_with_items)
qed simp

lemma with_items_with_items [simp]: "with_items d (with_items c e) = with_items d e"
  by (simp add: with_items_def)

lemma updates_rebase:
  "updates item_update is e = Done m \<Longrightarrow> updates item_update is (with_items d e) = Done (with_items d m)"
  by (simp add: item_updates_with_items)

lemma items_inv_index_ok: "items_inv env c \<Longrightarrow> index_ok {#} (partial_transparent_transfers c)"
  using items_ok_updates [of _ "{#}" "no_items c" c] by (force simp: items_inv_def items_ok_def item_transfers_def)

lemma chain_inv_ok: "chain_inv env c \<Longrightarrow> chain_ok env c"
  using items_inv_index_ok [of env c] pool_steps_ok
  by (auto simp: chain_inv_def chain_ok_def trees_inv_def pools_inv_def)

text \<open>Nothing of the invariant depends on the subtrees and the fork height.\<close>

lemma chain_inv_subtrees:
  "chain_inv env (c\<lparr>sapling_subtrees := sa, orchard_subtrees := orc, last_fork_height := f\<rparr>) = chain_inv env c"
proof -
  let ?d = "c\<lparr>sapling_subtrees := sa, orchard_subtrees := orc, last_fork_height := f\<rparr>"
  have "no_items ?d = with_items ?d (no_items c)" "no_items c = with_items c (no_items ?d)"
    "with_items ?d c = ?d" "with_items c ?d = c"
    by (simp_all add: no_items_def with_items_def)
  then have "updates item_update is (no_items ?d) = Done ?d \<longleftrightarrow> updates item_update is (no_items c) = Done c" for "is"
    using updates_rebase [of "is" "no_items ?d" ?d c] updates_rebase [of "is" "no_items c" c ?d] by metis
  then show ?thesis
    by (simp add: chain_inv_def blocks_ok_def heights_inv_def items_inv_def work_inv_def pools_inv_def sprout_ok_def
        items_ok_def no_items_def)
qed

section \<open>Pushes\<close>

text \<open>
  A block that extends the tip of a chain: it has the next height, its value pool change is typed, and the value that
  the chain and the block move to and from each address is within the money range.
\<close>

definition extends_tip ::
  "('t, 'h) chain_env \<Rightarrow> contextually_verified_block \<Rightarrow> ('t, 'h) chain \<Rightarrow> bool" where
  "extends_tip env cv c \<longleftrightarrow>
     (if blocks c = [] then
        \<forall>idx \<in> {sprout_index c, sapling_index c, orchard_index c}. \<forall>k \<in> fst ` set (trees_by_height idx). k \<le> cv_height cv
      else cv_height cv = Suc (fst (last (blocks c)))) \<and>
     cv_height cv \<le> Height_MAX \<and> vb_ok NegativeAllowed (cv_chain_value_pool_change cv) \<and>
     items_ok (mset (blocks_items env (chain_network c) (blocks c) @ block_items env (chain_network c) cv)) (no_items c)"

lemma cumulative_add_value: "cumulative_add p w = Done p' \<Longrightarrow> cumulative p' = cumulative p + work_value w"
  by (cases p') (auto simp: cumulative_add_def split: if_splits)

lemma last_height:
  assumes "map fst bs = [r..<r + length bs]" and "bs \<noteq> []"
  shows "Suc (fst (last bs)) = r + length bs"
proof -
  have "last (map fst bs) = last [r..<r + length bs]" unfolding assms(1) ..
  moreover have "0 < length bs" using assms(2) by simp
  ultimately show ?thesis using assms(2) by (simp add: last_map)
qed

lemma heights_inv_last:
  assumes "heights_inv c" and "h \<in> fst ` set (blocks c)"
  shows "h \<le> fst (last (blocks c))"
proof -
  from assms(1) obtain r where r: "map fst (blocks c) = [r..<r + length (blocks c)]" by (auto simp: heights_inv_def)
  have ne: "blocks c \<noteq> []" using assms(2) by auto
  have "h \<in> set (map fst (blocks c))" using assms(2) by simp
  then have "h \<in> set [r..<r + length (blocks c)]" unfolding r .
  then show ?thesis using last_height [OF r ne] by simp
qed

lemma extends_tip_chain:
  assumes "chain_inv env c" and "extends_tip env cv c"
  shows "extends_chain env cv c"
proof -
  let ?L = "blocks_items env (chain_network c) (blocks c)" and ?M = "block_items env (chain_network c) cv"
  have "h < cv_height cv" if "h \<in> fst ` set (blocks c)" for h
  proof -
    have "blocks c \<noteq> []" using that by auto
    then show ?thesis using heights_inv_last [of c h] that assms by (auto simp: chain_inv_def extends_tip_def)
  qed
  moreover have "items_ok (mset ?L + mset ?M) (no_items c)" "updates item_update ?L (no_items c) = Done c"
    using assms by (simp_all add: extends_tip_def chain_inv_def items_inv_def)
  then have "items_ok (mset ?M) c" by (rule items_ok_updates)
  ultimately show ?thesis using assms(2) by (simp add: extends_chain_def extends_tip_def)
qed

lemma trees_inv_add:
  assumes "add_tree_and_anchor ops h t idx = Done idx'" and "trees_inv H idx"
    and "H = {} \<Longrightarrow> \<forall>k \<in> fst ` set (trees_by_height idx). k \<le> h" and "\<forall>k \<in> H. k \<le> h"
  shows "trees_inv (insert h H) idx'"
proof -
  from add_tree_parts [OF assms(1)] obtain trees where s:
    "trees = trees_by_height idx \<or> trees = btree_insert h t (trees_by_height idx)"
    "idx' = idx\<lparr>trees_by_height := trees, anchors_by_height := btree_insert h (tree_root ops t) (anchors_by_height idx),
                anchors := add_mset (tree_root ops t) (anchors idx)\<rparr>" by blast
  from assms(2) obtain k where k: "k \<in> fst ` set (trees_by_height idx)" "\<forall>h \<in> H. k \<le> h"
    by (auto simp: trees_inv_def)
  have "k \<le> h"
  proof (cases "H = {}")
    case False
    then show ?thesis using k(2) assms(4) by (meson all_not_in_conv le_trans)
  qed (use assms(3) k(1) in blast)
  moreover have "k \<in> fst ` set trees" using s(1) k(1) by (elim disjE) simp_all
  ultimately have "\<exists>k \<in> fst ` set trees. \<forall>x \<in> insert h H. k \<le> x" using k(2) by blast
  moreover have "pool_ok idx'" using add_tree_pool_ok [OF assms(1)] assms(2) by (simp add: trees_inv_def)
  moreover have "H \<subseteq> fst ` set (anchors_by_height idx)" using assms(2) by (simp add: trees_inv_def)
  ultimately show ?thesis using s(2) by (simp add: trees_inv_def subset_insertI2)
qed

lemma push_items_inv:
  assumes "push_steps env cv c c1 new_pools nct sprout_idx sapling_idx orchard_idx" and "items_inv env c"
    and "extends_tip env cv c" and "d = with_items d c1" and "chain_network d = chain_network c"
    and "blocks d = blocks c @ [(cv_height cv, cv)]"
  shows "items_inv env d"
proof -
  let ?c0 = "c\<lparr>height_by_hash := height_by_hash c1, partial_cumulative_work := partial_cumulative_work c1\<rparr>"
  let ?L = "blocks_items env (chain_network c) (blocks c)" and ?M = "block_items env (chain_network c) cv"
  have txs: "block_typed cv \<and> updates item_update ?M ?c0 = Done c1"
    using assms(1) update_with_transactions_items [of env "cv_height cv" "cv_new_outputs cv" "cv_spent_outputs cv" 0
        "zip (transactions (cv_block cv)) (cv_transaction_hashes cv)" ?c0 c1]
    by (simp add: push_steps_def block_items_def block_typed_def)
  have "no_items d = with_items d (no_items c)" "with_items d ?c0 = with_items d c"
    by (simp_all add: no_items_def with_items_def)
  then have "updates item_update (?L @ ?M) (no_items d) = Done d"
    using txs assms(2,4) updates_rebase [of ?L "no_items c" c d] updates_rebase [of ?M ?c0 c1 d]
    by (simp add: updates_append items_inv_def)
  then show ?thesis
    using assms(2,3,5,6) txs
    by (auto simp: items_inv_def blocks_items_def extends_tip_def items_ok_def no_items_def)
qed

lemma push_keeps_inv:
  fixes c c' :: "('t, 'h) chain"
  assumes "push env cv c = Done (Inr c')" and inv: "chain_inv env c" and ext: "extends_tip env cv c"
  shows "chain_inv env c'"
proof -
  from push_parts [OF assms(1)] obtain c1 new_pools and nct :: "'t note_commitment_trees"
    and sprout_idx sapling_idx orchard_idx hist where
    steps: "push_steps env cv c c1 new_pools nct sprout_idx sapling_idx orchard_idx"
    and c': "c' = pushed_chain env cv c1 new_pools nct sprout_idx sapling_idx orchard_idx hist" by blast
  note rest = with_items_rest [OF push_steps_rest [OF steps], simplified]
  note s = steps [unfolded push_steps_def rest]
  have adds: "add_tree_and_anchor (sprout_ops (pool_ops env)) (cv_height cv) (nct_sprout nct) (sprout_index c) = Done sprout_idx"
    "add_tree_and_anchor (sapling_ops (pool_ops env)) (cv_height cv) (nct_sapling nct) (sapling_index c) = Done sapling_idx"
    "add_tree_and_anchor (orchard_ops (pool_ops env)) (cv_height cv) (nct_orchard nct) (orchard_index c) = Done orchard_idx"
    "add_chain_value_pool_change (chain_value_pools c) (cv_chain_value_pool_change cv) = Done (Inr new_pools)"
    using s by simp_all
  obtain w where w: "block_work (cv_block cv) = Done w"
    "cumulative_add (partial_cumulative_work c) w = Done (partial_cumulative_work c1)" using s by blast
  note chain = extends_tip_chain [OF inv ext]
  note blocks = push_blocks(1) [OF assms(1) chain]
  note ok = push_keeps_ok [OF assms(1) chain_inv_ok [OF inv] chain]
  have below: "\<forall>h \<in> fst ` set (blocks c). h \<le> cv_height cv" using chain by (auto simp: extends_chain_def intro: less_imp_le)
  have trees: "\<forall>k \<in> fst ` set (trees_by_height idx). k \<le> cv_height cv"
    if "fst ` set (blocks c) = {}" "idx \<in> {sprout_index c, sapling_index c, orchard_index c}" for idx
    using that ext by (auto simp: extends_tip_def)
  have "trees_inv (insert (cv_height cv) (fst ` set (blocks c))) sprout_idx"
    "trees_inv (insert (cv_height cv) (fst ` set (blocks c))) sapling_idx"
    "trees_inv (insert (cv_height cv) (fst ` set (blocks c))) orchard_idx"
    using trees_inv_add [OF adds(1) _ trees below] trees_inv_add [OF adds(2) _ trees below]
      trees_inv_add [OF adds(3) _ trees below] inv by (simp_all add: chain_inv_def)
  moreover have "items_inv env c'"
    using inv push_items_inv [OF steps _ ext, of c'] blocks
    by (simp add: chain_inv_def c' pushed_chain_def with_items_def rest)
  moreover have "work_inv c'"
    using inv w(1) cumulative_add_value [OF w(2)] blocks
    by (auto simp: chain_inv_def work_inv_def c' pushed_chain_def block_weight_def)
  moreover have "pools_inv c'"
    using inv adds(4) blocks ext
    by (auto simp: chain_inv_def pools_inv_def c' pushed_chain_def pool_steps_append extends_tip_def)
  moreover have "heights_inv c'"
  proof (cases "blocks c = []")
    case True
    then show ?thesis using blocks ext by (simp add: heights_inv_def extends_tip_def)
  next
    case False
    obtain r where r: "map fst (blocks c) = [r..<r + length (blocks c)]"
      using inv by (auto simp: chain_inv_def heights_inv_def)
    have "cv_height cv = r + length (blocks c)" using last_height [OF r False] False ext by (simp add: extends_tip_def)
    then show ?thesis using inv ext blocks r by (auto simp: chain_inv_def heights_inv_def extends_tip_def)
  qed
  ultimately show ?thesis
    using ok inv blocks by (auto simp: chain_inv_def chain_ok_def c' pushed_chain_def rest)
qed

end
