(* ===== verification/Chain_Pops.thy ===== *)
theory Chain_Pops
  imports Chain_Invariants
begin

text \<open>
  Removing a block from either end of a chain that satisfies the invariant: \<open>pop_tip\<close> and \<open>pop_root\<close> do not
  panic, and the remaining chain satisfies the invariant.
\<close>

section \<open>Trees\<close>

lemma mset_btree_remove:
  assumes "distinct (map fst m)" and "map_of m k = Some v"
  shows "mset (map snd (btree_remove k m)) = mset (map snd m) - {#v#}"
  using assms
proof (induction m)
  case (Cons kv m)
  obtain k' v' where kv: "kv = (k', v')" by (cases kv)
  show ?case
  proof (cases "k' = k")
    case True
    then have "map_of m k = None" using Cons.prems(1) kv by (auto simp: map_of_eq_None_iff)
    then show ?thesis using True kv Cons.prems(2) by (simp add: btree_remove_absent)
  next
    case False
    then have "map_of m k = Some v" using kv Cons.prems(2) by simp
    then have "v \<in># mset (map snd m)" by (force dest: map_of_SomeD)
    then show ?thesis using False kv Cons.IH Cons.prems by simp
  qed
qed simp

lemma keys_btree_remove [simp]: "fst ` set (btree_remove k m) = fst ` set m - {k}"
  by (force simp: btree_remove_def)

lemma remove_tree_at_total:
  assumes "pool_ok idx" and "h \<in> fst ` set (anchors_by_height idx)"
  shows "\<exists>idx' a. remove_tree_at h idx = Done (idx', a) \<and> pool_ok idx' \<and>
    fst ` set (anchors_by_height idx') = fst ` set (anchors_by_height idx) - {h} \<and>
    fst ` set (trees_by_height idx') = fst ` set (trees_by_height idx) - {h}"
proof -
  obtain a where a: "map_of (anchors_by_height idx) h = Some a"
    using assms(2) by (metis map_of_eq_None_iff not_Some_eq)
  have d: "distinct (map fst (anchors_by_height idx))" using assms(1) by (simp add: pool_ok_def btree_ok_distinct)
  have "a \<in># anchors idx" using assms(1) a by (force simp: pool_ok_def dest: map_of_SomeD)
  then show ?thesis
    using assms(1) a mset_btree_remove [OF d a]
    by (auto simp: remove_tree_at_def assert_that_def pool_ok_def btree_ok_remove)
qed

abbreviation remove_trees :: "height list \<Rightarrow> 't pool_index \<Rightarrow> 't pool_index outcome" where
  "remove_trees \<equiv> updates (\<lambda>k i. run_bind (remove_tree_at k i) (\<lambda>(i', _). Done i'))"

lemma remove_trees_total:
  assumes "pool_ok idx" and "distinct ks" and "set ks \<subseteq> fst ` set (anchors_by_height idx)"
  shows "\<exists>idx'. remove_trees ks idx = Done idx' \<and> pool_ok idx' \<and>
    fst ` set (anchors_by_height idx') = fst ` set (anchors_by_height idx) - set ks \<and>
    fst ` set (trees_by_height idx') = fst ` set (trees_by_height idx) - set ks"
  using assms
proof (induction ks arbitrary: idx)
  case (Cons k ks)
  from remove_tree_at_total [OF Cons.prems(1), of k] Cons.prems(3) obtain idx1 a where i:
    "remove_tree_at k idx = Done (idx1, a)" "pool_ok idx1"
    "fst ` set (anchors_by_height idx1) = fst ` set (anchors_by_height idx) - {k}"
    "fst ` set (trees_by_height idx1) = fst ` set (trees_by_height idx) - {k}" by auto
  have "set ks \<subseteq> fst ` set (anchors_by_height idx1)" using Cons.prems(2,3) i(3) by auto
  from Cons.IH [OF i(2) _ this] Cons.prems(2) obtain idx' where r:
    "remove_trees ks idx1 = Done idx'" "pool_ok idx'"
    "fst ` set (anchors_by_height idx') = fst ` set (anchors_by_height idx1) - set ks"
    "fst ` set (trees_by_height idx') = fst ` set (trees_by_height idx1) - set ks" by auto
  have "fst ` set (anchors_by_height idx') = fst ` set (anchors_by_height idx) - set (k # ks)"
    "fst ` set (trees_by_height idx') = fst ` set (trees_by_height idx) - set (k # ks)"
    unfolding r(3,4) i(3,4) by auto
  with i(1) r(1,2) show ?case by (intro exI [of _ idx'] conjI) (simp_all only: updates.simps run_bind.simps prod.case)
qed simp

definition sprout_map_ok :: "('t, 'h) chain_env \<Rightarrow> 't pool_index \<Rightarrow> (byte list \<rightharpoonup> 't) \<Rightarrow> bool" where
  "sprout_map_ok env idx m \<longleftrightarrow> dom m = set_mset (anchors idx) \<and>
     (\<forall>a t. m a = Some t \<longrightarrow> tree_root (sprout_ops (pool_ops env)) t = a)"

lemma remove_sprout_trees:
  assumes "remove_trees ks idx = Done idx'" and "sprout_map_ok env idx m"
  shows "\<exists>m'. updates remove_sprout_tree_at ks (idx, m) = Done (idx', m') \<and> sprout_map_ok env idx' m'"
  using assms
proof (induction ks arbitrary: idx m)
  case (Cons k ks)
  then obtain idx1 a where i: "remove_tree_at k idx = Done (idx1, a)" "remove_trees ks idx1 = Done idx'"
    by (auto simp: run_bind_Done_iff)
  then have "anchors idx = add_mset a (anchors idx1)"
    by (auto simp: remove_tree_at_def run_bind_Done_iff assert_that_def split: if_splits)
  then have "sprout_map_ok env idx1 (if a \<in># anchors idx1 then m else m(a := None))"
    using Cons.prems(2) by (auto simp: sprout_map_ok_def insert_absorb)
  from Cons.IH [OF i(2) this] show ?case using i(1) by (simp add: remove_sprout_tree_at_def split: if_splits)
qed simp

lemma height_next_ok: "Suc h \<le> Height_MAX \<Longrightarrow> height_next h = Inr (Suc h)"
proof -
  assume "Suc h \<le> Height_MAX"
  then have "height_add h 1 = Some (Suc h)"
    by (subst height_add_exact) (auto simp: is_u32_def in_i64_def Height_MAX_value)
  then show ?thesis by (simp add: height_next_def)
qed

lemma restore_next_tree_total:
  assumes "pool_ok idx"
    and "\<And>t. tip = Some t \<Longrightarrow> h < t \<Longrightarrow>
      Suc h \<le> Height_MAX \<and> Suc h \<in> fst ` set (anchors_by_height idx) \<and> highest \<noteq> None"
  shows "\<exists>idx'. restore_next_tree h tip highest idx = Done idx' \<and> pool_ok idx' \<and>
    anchors_by_height idx' = anchors_by_height idx \<and> anchors idx' = anchors idx \<and>
    fst ` set (trees_by_height idx) \<subseteq> fst ` set (trees_by_height idx') \<and>
    (\<forall>t. tip = Some t \<longrightarrow> h < t \<longrightarrow> Suc h \<in> fst ` set (trees_by_height idx'))"
proof (cases "\<exists>t. tip = Some t \<and> h < t")
  case True
  then have s: "Suc h \<le> Height_MAX" "Suc h \<in> fst ` set (anchors_by_height idx)" "highest \<noteq> None"
    using assms(2) by blast+
  show ?thesis
  proof (cases "map_of (trees_by_height idx) (Suc h)")
    case None
    obtain t tree where "tip = Some t" "h < t" "highest = Some tree" using True s(3) by blast
    then show ?thesis
      using None s assms(1)
      by (simp add: restore_next_tree_def height_next_ok pool_ok_def btree_ok_insert subset_insertI)
  next
    case (Some t)
    then have "Suc h \<in> fst ` set (trees_by_height idx)" by (force dest: map_of_SomeD)
    then show ?thesis using True s assms(1) Some by (auto simp: restore_next_tree_def height_next_ok)
  qed
next
  case False
  then show ?thesis using assms(1) by (auto simp: restore_next_tree_def split: option.splits)
qed

section \<open>Removing a block\<close>

text \<open>The heights \<open>H\<close> of a chain before, and \<open>H'\<close> after its block at height \<open>h\<close> is removed from one end.\<close>

definition pops :: "revert_position \<Rightarrow> height set \<Rightarrow> height \<Rightarrow> height set \<Rightarrow> height option \<Rightarrow> bool" where
  "pops position H h H' tip \<longleftrightarrow>
     (case position of
        RevertTip \<Rightarrow> (\<exists>r < h. H = {r..h} \<and> H' = {r..<h} \<and> tip = Some (h - 1))
      | RevertRoot \<Rightarrow> (\<exists>t \<ge> h. t \<le> Height_MAX \<and> H = {h..t} \<and> H' = {Suc h..t} \<and>
          tip = (if h = t then None else Some t)))"

lemma tree_at_some: "k \<in> fst ` set (trees_by_height idx) \<Longrightarrow> k \<le> h \<Longrightarrow> tree_at h idx \<noteq> None"
  by (force simp: tree_at_def Let_def filter_empty_conv)

lemma pool_pop:
  assumes inv: "trees_inv H idx" and pops: "pops position H h H' tip"
  shows "\<exists>idx1 idx'. remove_trees (removed_heights position h idx) idx = Done idx1 \<and>
    restore_next_tree h tip (highest_removed_tree position h idx) idx1 = Done idx' \<and> pool_ok idx' \<and>
    anchors idx' = anchors idx1 \<and> (H' \<noteq> {} \<longrightarrow> trees_inv H' idx')"
proof -
  let ?ks = "removed_heights position h idx"
  have ok: "pool_ok idx" and H: "H \<subseteq> fst ` set (anchors_by_height idx)" using inv by (simp_all add: trees_inv_def)
  have hH: "h \<in> H" using pops by (auto simp: pops_def split: revert_position.splits)
  obtain k where k: "k \<in> fst ` set (trees_by_height idx)" "\<forall>x \<in> H. k \<le> x" using inv by (auto simp: trees_inv_def)
  have "distinct ?ks" "set ?ks \<subseteq> fst ` set (anchors_by_height idx)"
    using ok H hH by (auto simp: removed_heights_def pool_ok_def btree_ok_distinct split: revert_position.splits)
  from remove_trees_total [OF ok this] obtain idx1 where i1: "remove_trees ?ks idx = Done idx1" "pool_ok idx1"
    "fst ` set (anchors_by_height idx1) = fst ` set (anchors_by_height idx) - set ?ks"
    "fst ` set (trees_by_height idx1) = fst ` set (trees_by_height idx) - set ?ks" by blast
  have H': "H' \<subseteq> fst ` set (anchors_by_height idx1)"
    using pops H i1(3) by (auto simp: pops_def removed_heights_def split: revert_position.splits)
  have next_tree: "Suc h \<le> Height_MAX \<and> Suc h \<in> fst ` set (anchors_by_height idx1) \<and>
      highest_removed_tree position h idx \<noteq> None \<and> position = RevertRoot" if "tip = Some t" "h < t" for t
    using that pops H' tree_at_some [OF k(1), of h] k(2) hH
    by (auto simp: pops_def highest_removed_tree_def split: revert_position.splits if_splits)
  obtain idx' where i': "restore_next_tree h tip (highest_removed_tree position h idx) idx1 = Done idx'" "pool_ok idx'"
    "anchors_by_height idx' = anchors_by_height idx1" "anchors idx' = anchors idx1"
    "fst ` set (trees_by_height idx1) \<subseteq> fst ` set (trees_by_height idx')"
    "\<forall>t. tip = Some t \<longrightarrow> h < t \<longrightarrow> Suc h \<in> fst ` set (trees_by_height idx')"
    using restore_next_tree_total [OF i1(2), of tip h "highest_removed_tree position h idx"] next_tree by blast
  have "\<exists>k \<in> fst ` set (trees_by_height idx'). \<forall>x \<in> H'. k \<le> x" if "H' \<noteq> {}"
  proof (cases position)
    case RevertRoot
    then obtain t where "tip = Some t" "h < t" "H' = {Suc h..t}"
      using pops \<open>H' \<noteq> {}\<close> by (auto simp: pops_def split: if_splits)
    then show ?thesis using i'(6) by (intro bexI [of _ "Suc h"]) auto
  next
    case RevertTip
    then obtain r where r: "r < h" "H = {r..h}" "H' = {r..<h}" using pops by (auto simp: pops_def)
    have "k \<le> r" using k(2) r by simp
    then have "k \<noteq> h" "\<forall>x \<in> H'. x \<in> H" using r by auto
    then show ?thesis using k RevertTip i1(4) i'(5) by (intro bexI [of _ k]) (auto simp: removed_heights_def)
  qed
  then show ?thesis using i1(1) i' H' by (auto simp: trees_inv_def)
qed

definition at_end ::
  "revert_position \<Rightarrow> height \<Rightarrow> contextually_verified_block \<Rightarrow> (height, contextually_verified_block) btree \<Rightarrow>
   ('t, 'h) chain \<Rightarrow> bool" where
  "at_end position h cv bs c \<longleftrightarrow>
     (case position of RevertTip \<Rightarrow> blocks c = bs @ [(h, cv)] \<and> bs \<noteq> [] | RevertRoot \<Rightarrow> blocks c = (h, cv) # bs)"

lemma at_end_mset: "at_end position h cv bs c \<Longrightarrow> mset (blocks c) = add_mset (h, cv) (mset bs)"
  by (cases position) (simp_all add: at_end_def)

lemma at_end_set: "at_end position h cv bs c \<Longrightarrow> set (blocks c) = insert (h, cv) (set bs)"
  by (cases position) (simp_all add: at_end_def)

lemma chain_pops:
  assumes "heights_inv c"
    and "at_end position h cv bs c"
  shows "pops position (fst ` set (blocks c)) h (fst ` set bs) (if bs = [] then None else Some (fst (last bs)))"
    and "\<exists>r. map fst bs = [r..<r + length bs]"
proof -
  obtain r where r: "map fst (blocks c) = [r..<r + length (blocks c)]" using assms(1) by (auto simp: heights_inv_def)
  then have H: "fst ` set (blocks c) = {r..<r + length (blocks c)}" by (metis list.set_map set_upt)
  have "pops position (fst ` set (blocks c)) h (fst ` set bs) (if bs = [] then None else Some (fst (last bs))) \<and>
    (\<exists>r. map fst bs = [r..<r + length bs])"
  proof (cases position)
    case RevertTip
    then have b: "blocks c = bs @ [(h, cv)]" "bs \<noteq> []" using assms(2) by (simp_all add: at_end_def)
    then have bs: "map fst bs = [r..<r + length bs]" "h = r + length bs" using r by simp_all
    then have "fst ` set bs = {r..<r + length bs}" by (metis list.set_map set_upt)
    moreover have "Suc (fst (last bs)) = h" using last_height [OF bs(1) b(2)] bs(2) by simp
    ultimately show ?thesis
      using RevertTip b bs H by (auto simp: pops_def atLeastLessThanSuc_atLeastAtMost intro!: exI [of _ r])
  next
    case RevertRoot
    then have b: "blocks c = (h, cv) # bs" using assms(2) by (simp add: at_end_def)
    have "[r..<r + Suc (length bs)] = r # [Suc r..<r + Suc (length bs)]" by (rule upt_conv_Cons) simp
    then have bs: "map fst bs = [Suc h..<Suc h + length bs]" "r = h" using r b by (simp_all del: upt_Suc)
    then have Hbs: "fst ` set bs = {Suc h..<Suc h + length bs}" by (metis list.set_map set_upt)
    have "fst (last (blocks c)) \<le> Height_MAX" using assms(1) b by (auto simp: heights_inv_def)
    moreover have "fst (last (blocks c)) = h + length bs" using last_height [OF r] b bs(2) by simp
    moreover have "fst (last bs) = h + length bs" if "bs \<noteq> []" using last_height [OF bs(1) that] by simp
    ultimately have "pops position (fst ` set (blocks c)) h (fst ` set bs) (if bs = [] then None else Some (fst (last bs)))"
      using RevertRoot b bs(2) H Hbs
      by (auto simp: pops_def atLeastLessThanSuc_atLeastAtMost intro!: exI [of _ "h + length bs"])
    then show ?thesis using bs(1) by blast
  qed
  then show "pops position (fst ` set (blocks c)) h (fst ` set bs) (if bs = [] then None else Some (fst (last bs)))"
    "\<exists>r. map fst bs = [r..<r + length bs]" by simp_all
qed

text \<open>The parts of a chain without one of its end blocks.\<close>

lemma items_popped:
  assumes "items_inv env c" and "at_end position h cv bs c"
  shows "\<exists>m. updates item_update (blocks_items env (chain_network c) bs) (no_items c) = Done m \<and>
    items_ok (mset (blocks_items env (chain_network c) bs)) (no_items c) \<and>
    (\<forall>D. with_items D c = D \<longrightarrow> chain_network D = chain_network c \<longrightarrow>
       updates (\<lambda>(tx, hash). revert_with_transaction env (cv_new_outputs cv) (cv_spent_outputs cv) tx hash)
         (zip (transactions (cv_block cv)) (cv_transaction_hashes cv)) D = Done (with_items D m))"
proof -
  let ?txs = "enumerate 0 (zip (transactions (cv_block cv)) (cv_transaction_hashes cv))"
  let ?L = "blocks_items env (chain_network c) bs" and ?M = "block_items env (chain_network c) cv"
  let ?R = "concat (map (tx_revert_items env (chain_network c) (cv_height cv) (cv_new_outputs cv) (cv_spent_outputs cv)) ?txs)"
  have perm: "mset (blocks_items env (chain_network c) (blocks c)) = mset (?L @ ?M)"
    using at_end_mset [OF assms(2)] by (simp add: blocks_items_def mset_concat sum_mset_sum_list [symmetric])
  have ok: "items_ok (mset (?L @ ?M)) (no_items c)" using assms(1) perm by (simp add: items_inv_def)
  have "updates item_update (?L @ ?M) (no_items c) = Done c"
    using chain_items.updates_permute [OF perm, of "no_items c" c] assms(1) by (simp add: items_inv_def)
  then obtain m where m: "updates item_update ?L (no_items c) = Done m" "updates item_update ?M m = Done c"
    by (auto simp: updates_append run_bind_Done_iff)
  have "items_ok (mset ?M) m" using items_ok_updates [of ?L "mset ?M" "no_items c" m] ok m(1) by simp
  moreover have "mset ?M = mset ?R" by (simp add: block_items_def mset_concat mset_tx_items comp_def)
  ultimately have reverts: "updates item_revert ?R c = Done m" using chain_items.restores_permuted [of ?M ?R m c] m(2) by simp
  have "block_typed cv" using assms by (auto simp: items_inv_def at_end_set)
  then have "updates (\<lambda>(tx, hash). revert_with_transaction env (cv_new_outputs cv) (cv_spent_outputs cv) tx hash)
      (zip (transactions (cv_block cv)) (cv_transaction_hashes cv)) D = Done (with_items D m)"
    if "with_items D c = D" "chain_network D = chain_network c" for D
    using revert_with_transactions_items [of "cv_new_outputs cv" "cv_spent_outputs cv" 0 _ env D "cv_height cv"] that
      item_reverts_with_items [of ?R D c] reverts by (simp add: block_typed_def)
  moreover have "items_ok (mset ?L) (no_items c)" using chain_items.fewer_list [of "mset ?L" ?M "no_items c"] ok by simp
  ultimately show ?thesis using m(1) by blast
qed

lemma items_inv_popped:
  assumes "items_inv env c" and "at_end position h cv bs c"
    and "updates item_update (blocks_items env (chain_network c) bs) (no_items c) = Done m"
    and "items_ok (mset (blocks_items env (chain_network c) bs)) (no_items c)"
    and "d = with_items d m" and "chain_network d = chain_network c" and "blocks d = bs"
  shows "items_inv env d"
proof -
  have "no_items d = with_items d (no_items c)" by (simp add: no_items_def with_items_def)
  then have "updates item_update (blocks_items env (chain_network c) bs) (no_items d) = Done d"
    using updates_rebase [OF assms(3), of d] assms(5) by simp
  then show ?thesis
    using assms(1,4,6,7) at_end_set [OF assms(2)] by (auto simp: items_inv_def items_ok_def no_items_def)
qed

lemma work_popped:
  assumes "work_inv c" and "at_end position h cv bs c"
  shows "\<exists>w p. block_work (cv_block cv) = Done w \<and> cumulative_sub (partial_cumulative_work c) w = Done p \<and>
    (\<forall>d :: ('t, 'h) chain. blocks d = bs \<longrightarrow> partial_cumulative_work d = p \<longrightarrow> work_inv d)"
proof -
  obtain w where w: "block_work (cv_block cv) = Done w" using assms by (auto simp: work_inv_def at_end_set)
  have "cumulative (partial_cumulative_work c) = work_value w + sum_list (map (block_weight \<circ> snd) bs)"
    using assms w by (cases position) (auto simp: work_inv_def at_end_def block_weight_def)
  then have "cumulative_sub (partial_cumulative_work c) w =
      Done (PartialCumulativeWork (sum_list (map (block_weight \<circ> snd) bs)))"
    by (simp add: cumulative_sub_def)
  then show ?thesis using w assms at_end_set [OF assms(2)] by (auto simp: work_inv_def)
qed

lemma blocks_popped:
  assumes "blocks_ok c" and "at_end position h cv bs c"
  shows "height_by_hash c (cv_hash cv) = Some h" and "cv_height cv = h"
    and "blocks d = bs \<Longrightarrow> height_by_hash d = (height_by_hash c)(cv_hash cv := None) \<Longrightarrow>
      block_info_by_height d = btree_remove h (block_info_by_height c) \<Longrightarrow> blocks_ok d"
proof -
  have sorted: "btree_ok (blocks c)" using assms(1) by (simp add: blocks_ok_def)
  then have bs: "btree_ok bs" "h \<notin> fst ` set bs"
    using assms(2) by (cases position; auto simp: at_end_def btree_ok_def sorted_wrt_append)+
  show hash: "height_by_hash c (cv_hash cv) = Some h" and "cv_height cv = h"
    using assms at_end_set [OF assms(2)] by (auto simp: blocks_ok_def)
  assume d: "blocks d = bs" "height_by_hash d = (height_by_hash c)(cv_hash cv := None)"
    "block_info_by_height d = btree_remove h (block_info_by_height c)"
  have "height_by_hash d x = Some k \<longleftrightarrow> (\<exists>b. (k, b) \<in> set bs \<and> cv_hash b = x)" for x k
  proof -
    have iff: "height_by_hash c x = Some k \<longleftrightarrow> (\<exists>b. (k, b) \<in> insert (h, cv) (set bs) \<and> cv_hash b = x)" for k
      using assms(1) at_end_set [OF assms(2)] by (simp add: blocks_ok_def)
    have "k \<noteq> h" if "(k, b) \<in> set bs" for b using that bs(2) by force
    then show ?thesis using iff [of k] hash d(2) by (auto split: if_splits)
  qed
  moreover have "fst ` set (block_info_by_height c) - {h} = fst ` set bs"
    using assms(1) at_end_set [OF assms(2)] bs(2) by (simp add: blocks_ok_def)
  ultimately show "blocks_ok d"
    using assms(1) at_end_set [OF assms(2)] bs(1) d by (auto simp: blocks_ok_def btree_ok_remove)
qed

lemma pools_popped:
  assumes "pools_inv c" and "at_end position h cv bs c"
  shows "\<exists>v. (case position of
      RevertTip \<Rightarrow> run_bind (vb_neg (cv_chain_value_pool_change cv)) (\<lambda>change.
        run_bind (add_chain_value_pool_change (chain_value_pools c) change) expect_ok)
    | RevertRoot \<Rightarrow> Done (chain_value_pools c)) = Done v \<and>
    (\<forall>d :: ('t, 'h) chain. blocks d = bs \<longrightarrow> chain_value_pools d = v \<longrightarrow> pools_inv d)"
proof -
  let ?d = "cv_chain_value_pool_change cv" and ?ds = "map (cv_chain_value_pool_change \<circ> snd) bs"
  obtain base where base: "vb_ok NonNegative base"
    "pool_steps base (map (cv_chain_value_pool_change \<circ> snd) (blocks c)) (chain_value_pools c)"
    using assms(1) by (auto simp: pools_inv_def)
  show ?thesis
  proof (cases position)
    case RevertTip
    then obtain u where u: "pool_steps base ?ds u" "vb_ok NegativeAllowed ?d"
      "add_chain_value_pool_change u ?d = Done (Inr (chain_value_pools c))"
      using base(2) assms(2) by (auto simp: at_end_def pool_steps_append)
    have "vb_ok NonNegative u" using pool_steps_ok [OF base(1) u(1)] .
    then show ?thesis using RevertTip base(1) u value_pools_restored [OF _ u(2,3)] by (auto simp: pools_inv_def)
  next
    case RevertRoot
    then obtain u where u: "vb_ok NegativeAllowed ?d" "add_chain_value_pool_change base ?d = Done (Inr u)"
      "pool_steps u ?ds (chain_value_pools c)" using base(2) assms(2) by (auto simp: at_end_def)
    have "vb_ok NonNegative u" using add_change_cases [OF base(1) u(1)] u(2) by (auto split: if_splits)
    then show ?thesis using RevertRoot u(3) by (auto simp: pools_inv_def)
  qed
qed

lemma history_popped:
  assumes "at_end position h cv bs c" and "heights_inv c" and "btree_ok (history_trees_by_height c)"
    and "fst ` set (blocks c) \<subseteq> fst ` set (history_trees_by_height c)"
    and "history_trees_by_height d = history_trees_by_height c"
  shows "\<exists>hs. remove_history_tree position h d = Done (d\<lparr>history_trees_by_height := hs\<rparr>) \<and> btree_ok hs \<and>
    fst ` set bs \<subseteq> fst ` set hs"
proof (cases position)
  case RevertTip
  note pops = chain_pops(1) [OF assms(2,1)]
  have "map_of (history_trees_by_height c) h \<noteq> None"
    using assms(4) at_end_set [OF assms(1)] by (auto simp: map_of_eq_None_iff)
  moreover have "h \<notin> fst ` set bs" using pops RevertTip by (auto simp: pops_def)
  ultimately show ?thesis
    using RevertTip assms(3-5) at_end_set [OF assms(1)]
    by (intro exI [of _ "btree_remove h (history_trees_by_height c)"])
      (auto simp: remove_history_tree_def btree_ok_remove subset_Diff_insert)
next
  case RevertRoot
  from chain_pops(1) [OF assms(2,1)] obtain t where "fst ` set bs = {Suc h..t}" using RevertRoot by (auto simp: pops_def)
  then have "h < k" if "k \<in> fst ` set bs" for k using that by simp
  moreover have "btree_ok (filter (\<lambda>(k, _). h < k) (history_trees_by_height c))"
    using assms(3) by (auto simp: btree_ok_def sorted_wrt_map intro: sorted_wrt_filter)
  ultimately show ?thesis
    using RevertRoot assms(4,5) at_end_set [OF assms(1)] by (force simp: remove_history_tree_def)
qed

text \<open>The tree removals of a revert, for the trees of the chain \<open>c\<close>.\<close>

lemma trees_popped:
  fixes c E :: "('t, 'h) chain"
  assumes inv: "chain_inv env c" and pops: "pops position (fst ` set (blocks c)) h H' (max_block_height E)"
    and E: "sprout_index E = sprout_index c" "sapling_index E = sapling_index c" "orchard_index E = orchard_index c"
      "sprout_trees_by_anchor E = sprout_trees_by_anchor c"
  shows "\<exists>sp m sa orc. sprout_map_ok env sp m \<and>
    (H' \<noteq> {} \<longrightarrow> trees_inv H' sp \<and> trees_inv H' sa \<and> trees_inv H' orc) \<and>
    (\<forall>k. run_bind (remove_sprout_tree_and_anchor position h E) (\<lambda>c2.
         run_bind (remove_sapling_tree_and_anchor position h c2) (\<lambda>c3.
         run_bind (remove_orchard_tree_and_anchor position h c3) k)) =
       (k (E\<lparr>sprout_index := sp, sprout_trees_by_anchor := m, sapling_index := sa, orchard_index := orc\<rparr>)
          :: ('t, 'h) chain outcome))"
proof -
  have t: "trees_inv (fst ` set (blocks c)) (sprout_index c)" "trees_inv (fst ` set (blocks c)) (sapling_index c)"
    "trees_inv (fst ` set (blocks c)) (orchard_index c)" "sprout_map_ok env (sprout_index c) (sprout_trees_by_anchor c)"
    using inv by (simp_all add: chain_inv_def sprout_map_ok_def sprout_ok_def)
  from pool_pop [OF t(1) pops] obtain sp1 sp where
    sp: "remove_trees (removed_heights position h (sprout_index c)) (sprout_index c) = Done sp1"
    "restore_next_tree h (max_block_height E) (highest_removed_tree position h (sprout_index c)) sp1 = Done sp"
    "anchors sp = anchors sp1" "H' \<noteq> {} \<longrightarrow> trees_inv H' sp" by blast
  from remove_sprout_trees [OF sp(1) t(4)] obtain m where
    m: "updates remove_sprout_tree_at (removed_heights position h (sprout_index c))
          (sprout_index c, sprout_trees_by_anchor c) = Done (sp1, m)" "sprout_map_ok env sp1 m" by blast
  from pool_pop [OF t(2) pops] obtain sa where
    sa: "remove_tree_and_anchor position h (max_block_height E) (sapling_index c) = Done sa"
    "H' \<noteq> {} \<longrightarrow> trees_inv H' sa" unfolding remove_tree_and_anchor_def by auto
  from pool_pop [OF t(3) pops] obtain orc where
    orc: "remove_tree_and_anchor position h (max_block_height E) (orchard_index c) = Done orc"
    "H' \<noteq> {} \<longrightarrow> trees_inv H' orc" unfolding remove_tree_and_anchor_def by auto
  show ?thesis
    using sp(2-4) m sa orc
    by (intro exI [of _ sp] exI [of _ m] exI [of _ sa] exI [of _ orc])
      (simp add: remove_sprout_tree_and_anchor_def remove_sapling_tree_and_anchor_def remove_orchard_tree_and_anchor_def E
        sprout_map_ok_def)
qed

lemma revert_block:
  fixes c :: "('t, 'h) chain"
  assumes inv: "chain_inv env c" and at_end: "at_end position h cv bs c"
  shows "\<exists>c'. revert_chain_with env cv position (c\<lparr>blocks := bs\<rparr>) = Done c' \<and> blocks c' = bs \<and>
    (bs \<noteq> [] \<longrightarrow> chain_inv env c')"
proof -
  have i: "blocks_ok c" "heights_inv c" "items_inv env c" "work_inv c" "pools_inv c"
    "btree_ok (history_trees_by_height c)" "fst ` set (blocks c) \<subseteq> fst ` set (history_trees_by_height c)"
    using inv by (simp_all add: chain_inv_def)
  note hash = blocks_popped [OF i(1) at_end]
  from items_popped [OF i(3) at_end] obtain m where
    m: "updates item_update (blocks_items env (chain_network c) bs) (no_items c) = Done m"
    "items_ok (mset (blocks_items env (chain_network c) bs)) (no_items c)"
    "\<And>D. with_items D c = D \<Longrightarrow> chain_network D = chain_network c \<Longrightarrow>
       updates (\<lambda>(tx, hash). revert_with_transaction env (cv_new_outputs cv) (cv_spent_outputs cv) tx hash)
         (zip (transactions (cv_block cv)) (cv_transaction_hashes cv)) D = Done (with_items D m)" by blast
  from work_popped [OF i(4) at_end] obtain w p where
    w: "block_work (cv_block cv) = Done w" "cumulative_sub (partial_cumulative_work c) w = Done p"
    "\<And>d :: ('t, 'h) chain. blocks d = bs \<Longrightarrow> partial_cumulative_work d = p \<Longrightarrow> work_inv d" by blast
  from pools_popped [OF i(5) at_end] obtain v where
    v: "(case position of
          RevertTip \<Rightarrow> run_bind (vb_neg (cv_chain_value_pool_change cv)) (\<lambda>change.
            run_bind (add_chain_value_pool_change (chain_value_pools c) change) expect_ok)
        | RevertRoot \<Rightarrow> Done (chain_value_pools c)) = Done v"
    "\<And>d :: ('t, 'h) chain. blocks d = bs \<Longrightarrow> chain_value_pools d = v \<Longrightarrow> pools_inv d" by blast
  define D where "D = c\<lparr>blocks := bs, height_by_hash := (height_by_hash c)(cv_hash cv := None), partial_cumulative_work := p\<rparr>"
  define E where "E = with_items D m"
  have txs: "updates (\<lambda>(tx, hash). revert_with_transaction env (cv_new_outputs cv) (cv_spent_outputs cv) tx hash)
         (zip (transactions (cv_block cv)) (cv_transaction_hashes cv)) D = Done E"
    unfolding E_def by (rule m(3)) (simp_all add: D_def with_items_def)
  have E: "sprout_index E = sprout_index c" "sapling_index E = sapling_index c" "orchard_index E = orchard_index c"
      "sprout_trees_by_anchor E = sprout_trees_by_anchor c" "history_trees_by_height E = history_trees_by_height c"
      "max_block_height E = (if bs = [] then None else Some (fst (last bs)))" "chain_value_pools E = chain_value_pools c"
      "block_info_by_height E = block_info_by_height c"
    by (simp_all add: E_def D_def with_items_def max_block_height_def)
  have "pops position (fst ` set (blocks c)) h (fst ` set bs) (max_block_height E)"
    using chain_pops(1) [OF i(2) at_end] E(6) by simp
  from trees_popped [OF inv this E(1-4)] obtain sp sm sa orc where t: "sprout_map_ok env sp sm"
    "fst ` set bs \<noteq> {} \<longrightarrow> trees_inv (fst ` set bs) sp \<and> trees_inv (fst ` set bs) sa \<and> trees_inv (fst ` set bs) orc"
    "\<And>k. run_bind (remove_sprout_tree_and_anchor position h E) (\<lambda>c2.
         run_bind (remove_sapling_tree_and_anchor position h c2) (\<lambda>c3.
         run_bind (remove_orchard_tree_and_anchor position h c3) k)) =
       (k (E\<lparr>sprout_index := sp, sprout_trees_by_anchor := sm, sapling_index := sa, orchard_index := orc\<rparr>)
          :: ('t, 'h) chain outcome)" by blast
  define F where "F = E\<lparr>sprout_index := sp, sprout_trees_by_anchor := sm, sapling_index := sa, orchard_index := orc\<rparr>"
  from history_popped [OF at_end i(2,6,7), of F] obtain hs where
    hs: "remove_history_tree position h F = Done (F\<lparr>history_trees_by_height := hs\<rparr>)" "btree_ok hs"
    "fst ` set bs \<subseteq> fst ` set hs" by (auto simp: F_def E)
  define G where "G = F\<lparr>history_trees_by_height := hs, chain_value_pools := v,
    block_info_by_height := btree_remove h (block_info_by_height c)\<rparr>"
  have pools: "revert_value_pools (cv_chain_value_pool_change cv) h position X = Done (X\<lparr>chain_value_pools := v,
      block_info_by_height := btree_remove h (block_info_by_height X)\<rparr>)"
    if "chain_value_pools X = chain_value_pools c" for X :: "('t, 'h) chain"
    unfolding revert_value_pools_def that v(1) by simp
  have "revert_chain_with env cv position (c\<lparr>blocks := bs\<rparr>) = Done G"
    using hash(1) hash(2) w(1,2) hs(1)
    by (simp add: revert_chain_with_def remove_old_def D_def [symmetric] txs t(3) F_def [symmetric] pools)
      (simp add: F_def E G_def pools)
  moreover have "blocks G = bs" by (simp add: G_def F_def E_def D_def with_items_def)
  moreover have "chain_inv env G" if "bs \<noteq> []"
  proof -
    have "blocks_ok G" by (rule hash(3)) (simp_all add: G_def F_def E_def D_def with_items_def)
    moreover have "heights_inv G"
      using chain_pops(2) [OF i(2) at_end] i(2) at_end_set [OF at_end] \<open>blocks G = bs\<close> by (auto simp: heights_inv_def)
    moreover have "items_inv env G"
      by (rule items_inv_popped [OF i(3) at_end m(1,2)]) (simp_all add: G_def F_def E_def D_def with_items_def)
    moreover have "work_inv G" by (rule w(3)) (simp_all add: G_def F_def E_def D_def with_items_def)
    moreover have "pools_inv G" by (rule v(2)) (simp_all add: G_def F_def E_def D_def with_items_def)
    ultimately show ?thesis
      using t(1,2) hs(2,3) that \<open>blocks G = bs\<close>
      by (simp add: chain_inv_def sprout_ok_def sprout_map_ok_def G_def F_def)
  qed
  ultimately show ?thesis by blast
qed

end
