(* ===== verification/Chain_Forks.thy ===== *)
theory Chain_Forks
  imports Chain_Pops
begin

text \<open>
  The operations of \<open>Chain\<close> on every chain that the program can build: new chains, pushes, forks,
  invalidations and finalized roots. None of them panics on such a chain, \<open>fork\<close> returns the chain as it was
  when the fork point was its tip, and the only trace of the reverted blocks are their subtrees.
\<close>

section \<open>Pops and forks under the invariant\<close>

lemma pop_tip_total:
  assumes "chain_inv env c" and "blocks c = bs @ [(h, cv)]" and "bs \<noteq> []"
  shows "\<exists>c'. pop_tip env c = Done c' \<and> blocks c' = bs \<and> chain_inv env c'"
proof -
  have at_end: "at_end RevertTip h cv bs c" using assms(2,3) by (simp add: at_end_def)
  have "btree_ok (blocks c)" using assms(1) by (simp add: chain_inv_def blocks_ok_def)
  then have absent: "map_of bs h = None"
    using assms(2) by (force simp: btree_ok_def sorted_wrt_append map_of_eq_None_iff)
  then have "btree_remove h (blocks c) = bs" "map_of (blocks c) h = Some cv"
    using assms(2) btree_remove_absent [OF absent] by (simp_all add: btree_remove_def map_add_def)
  then show ?thesis
    using revert_block [OF assms(1) at_end] assms(2,3)
    by (auto simp: pop_tip_def non_finalized_tip_height_def max_block_height_def Let_def assert_that_def)
qed

lemma trees_inv_tree_at: "trees_inv H idx \<Longrightarrow> h \<in> H \<Longrightarrow> tree_at h idx \<noteq> None"
  unfolding trees_inv_def using tree_at_some by blast

lemma pop_root_total:
  assumes inv: "chain_inv env c" and b: "blocks c = (h, cv) # bs"
  shows "\<exists>ts c'. pop_root env c = Done (cv, ts, c') \<and> blocks c' = bs \<and> (bs \<noteq> [] \<longrightarrow> chain_inv env c')"
proof -
  have H: "h \<in> fst ` set (blocks c)" using b by simp
  have "tree_at h (sprout_index c) \<noteq> None" "tree_at h (sapling_index c) \<noteq> None" "tree_at h (orchard_index c) \<noteq> None"
    using inv trees_inv_tree_at H unfolding chain_inv_def by blast+
  moreover have "map_of (history_trees_by_height c) h \<noteq> None"
    using inv H by (auto simp: chain_inv_def map_of_eq_None_iff)
  ultimately obtain ts where ts: "chain_treestate (AtHeight h) c = Some ts"
    by (auto simp: chain_treestate_def)
  define sa where "sa = (if nct_sapling_subtree (ts_note_commitment_trees ts) \<noteq> None
    then tl (sapling_subtrees c) else sapling_subtrees c)"
  define orc where "orc = (if nct_orchard_subtree (ts_note_commitment_trees ts) \<noteq> None
    then tl (orchard_subtrees c) else orchard_subtrees c)"
  define d where "d = c\<lparr>sapling_subtrees := sa, orchard_subtrees := orc\<rparr>"
  have "d = c\<lparr>sapling_subtrees := sa, orchard_subtrees := orc, last_fork_height := last_fork_height c\<rparr>"
    by (simp add: d_def)
  then have "chain_inv env d" using inv chain_inv_subtrees by metis
  moreover have "at_end RevertRoot h cv bs d" using b by (simp add: at_end_def d_def)
  ultimately obtain c' where c': "revert_chain_with env cv RevertRoot (d\<lparr>blocks := bs\<rparr>) = Done c'" "blocks c' = bs"
    "bs \<noteq> [] \<longrightarrow> chain_inv env c'" using revert_block by blast
  have "btree_ok (blocks c)" using inv by (simp add: chain_inv_def blocks_ok_def)
  then have "map_of bs h = None" using b by (force simp: map_of_eq_None_iff)
  then have "btree_remove h (blocks c) = bs" using b by (simp add: btree_remove_absent)
  moreover have "(let c1 = if nct_sapling_subtree (ts_note_commitment_trees ts) \<noteq> None
                 then c\<lparr>sapling_subtrees := tl (sapling_subtrees c)\<rparr> else c;
           c2 = if nct_orchard_subtree (ts_note_commitment_trees ts) \<noteq> None
                 then c1\<lparr>orchard_subtrees := tl (orchard_subtrees c1)\<rparr> else c1 in c2) = d"
    by (simp add: d_def sa_def orc_def)
  ultimately show ?thesis
    using c' ts b by (simp add: pop_root_def non_finalized_root_height_def Let_def d_def)
qed

lemma fork_loop_total:
  assumes "chain_inv env c" and "height_by_hash c hash = Some h"
  shows "\<exists>c'. fork_loop env hash c = Done c' \<and> chain_inv env c' \<and> blocks c' = filter (\<lambda>(k, _). k \<le> h) (blocks c)"
  using assms
proof (induction "length (blocks c)" arbitrary: c rule: less_induct)
  case less
  note inv = less.prems(1)
  have ok: "blocks_ok c" "heights_inv c" using inv by (simp_all add: chain_inv_def)
  obtain b where b: "(h, b) \<in> set (blocks c)" "cv_hash b = hash" using ok(1) less.prems(2) by (auto simp: blocks_ok_def)
  then have "blocks c = butlast (blocks c) @ [last (blocks c)]" by (intro append_butlast_last_id [symmetric]) auto
  then obtain bs t cv where bs: "blocks c = bs @ [(t, cv)]" by (metis surj_pair)
  have tip: "non_finalized_tip_hash c = Done (cv_hash cv)" by (simp add: non_finalized_tip_hash_def tip_block_def bs)
  show ?case
  proof (cases "cv_hash cv = hash")
    case True
    then have "height_by_hash c hash = Some t" using ok(1) bs by (auto simp: blocks_ok_def)
    then have "t = h" using less.prems(2) by simp
    then have "filter (\<lambda>(k, _). k \<le> h) (blocks c) = blocks c"
      using heights_inv_last [OF ok(2)] bs by (force simp: filter_id_conv)
    then show ?thesis using inv True tip by (subst fork_loop.simps) simp
  next
    case False
    then have mem: "(h, b) \<in> set bs" using b bs by auto
    then have "bs \<noteq> []" by auto
    from pop_tip_total [OF inv bs this] obtain c1 where
      c1: "pop_tip env c = Done c1" "blocks c1 = bs" "chain_inv env c1" by blast
    define d where "d = c1\<lparr>last_fork_height := Some (fst (last bs))\<rparr>"
    have "d = c1\<lparr>sapling_subtrees := sapling_subtrees c1, orchard_subtrees := orchard_subtrees c1,
        last_fork_height := Some (fst (last bs))\<rparr>" by (simp add: d_def)
    then have d: "chain_inv env d" "blocks d = bs" using c1 chain_inv_subtrees by (metis, simp add: d_def)
    have "height_by_hash d hash = Some h" using d mem b(2) by (auto simp: chain_inv_def blocks_ok_def)
    from less.hyps [OF _ d(1) this] obtain c' where
      c': "fork_loop env hash d = Done c'" "chain_inv env c'" "blocks c' = filter (\<lambda>(k, _). k \<le> h) bs"
      using d(2) bs by auto
    have "h < t" using ok(1) bs mem by (force simp: blocks_ok_def btree_ok_def sorted_wrt_append)
    moreover have "fork_loop env hash c = fork_loop env hash d"
      using False tip c1 \<open>bs \<noteq> []\<close>
      by (subst fork_loop.simps) (simp add: non_finalized_tip_height_def max_block_height_def d_def)
    ultimately show ?thesis using c' bs by simp
  qed
qed

lemma fork_total:
  assumes "chain_inv env c" and "height_by_hash c hash = Some h"
  shows "\<exists>c'. fork env hash c = Done (Some c') \<and> chain_inv env c' \<and> blocks c' = filter (\<lambda>(k, _). k \<le> h) (blocks c)"
  using fork_loop_total [OF assms] assms(2) by (auto simp: fork_def)

lemma chain_invalidate_total:
  assumes "chain_inv env c" and "height_by_hash c hash = Some h" and "fst (hd (blocks c)) < h"
  shows "\<exists>c'. chain_invalidate_block env hash c = Done (Some (c', child_blocks h c)) \<and> chain_inv env c' \<and>
    blocks c' = filter (\<lambda>(k, _). k < h) (blocks c)"
proof -
  from fork_total [OF assms(1,2)] obtain c1 where c1: "fork env hash c = Done (Some c1)" "chain_inv env c1"
    "blocks c1 = filter (\<lambda>(k, _). k \<le> h) (blocks c)" by blast
  have ok: "blocks_ok c" using assms(1) by (simp add: chain_inv_def)
  then obtain b where b: "(h, b) \<in> set (blocks c)" using assms(2) by (auto simp: blocks_ok_def)
  then obtain xs ys where xs: "blocks c = xs @ (h, b) # ys" by (auto simp: in_set_conv_decomp)
  have "btree_ok (blocks c)" using ok by (simp add: blocks_ok_def)
  then have "\<forall>(k, _) \<in> set xs. k < h" "\<forall>(k, _) \<in> set ys. h < k"
    using xs by (auto simp: btree_ok_def sorted_wrt_append)
  then have "filter (\<lambda>(k, _). k \<le> h) xs = xs" "filter (\<lambda>(k, _). k \<le> h) ys = []"
    "filter (\<lambda>(k, _). k < h) xs = xs" "filter (\<lambda>(k, _). k < h) ys = []"
    by (force simp: filter_id_conv filter_empty_conv)+
  then have split: "blocks c1 = xs @ [(h, b)]" "filter (\<lambda>(k, _). k < h) (blocks c) = xs"
    using c1(3) xs by simp_all
  have "xs \<noteq> []" using assms(3) xs by (cases xs) auto
  from pop_tip_total [OF c1(2) split(1) this] obtain c2 where
    c2: "pop_tip env c1 = Done c2" "blocks c2 = xs" "chain_inv env c2" by blast
  let ?f = "option_height_min (last_fork_height c) (Some h)"
  have "c2\<lparr>last_fork_height := ?f\<rparr> = c2\<lparr>sapling_subtrees := sapling_subtrees c2,
      orchard_subtrees := orchard_subtrees c2, last_fork_height := ?f\<rparr>" by simp
  then have "chain_inv env (c2\<lparr>last_fork_height := ?f\<rparr>)" using c2(3) chain_inv_subtrees by metis
  then show ?thesis using assms(2) c1(1) c2 split(2) by (simp add: chain_invalidate_block_def)
qed

section \<open>Reachable chains\<close>

lemma height_previous_ok: "h \<le> Height_MAX \<Longrightarrow> h \<noteq> 0 \<Longrightarrow> height_previous h = Inr (h - 1)"
proof -
  assume "h \<le> Height_MAX" "h \<noteq> 0"
  then have "height_sub h 1 = Some (h - 1)"
    by (subst height_sub_exact) (auto simp: is_u32_def in_i64_def Height_MAX_value)
  then show ?thesis by (simp add: height_previous_def)
qed

lemma add_first_tree:
  "h \<le> Height_MAX \<Longrightarrow>
   add_tree_and_anchor ops h t \<lparr>trees_by_height = [], anchors = {#}, anchors_by_height = []\<rparr> =
     Done \<lparr>trees_by_height = [(h, t)], anchors = {#tree_root ops t#}, anchors_by_height = [(h, tree_root ops t)]\<rparr>"
  by (auto simp: add_tree_and_anchor_def height_is_min_def Height_MIN_def height_previous_ok tree_at_def
      btree_insert_new_def Let_def)

lemma chain_new_inv:
  assumes "h \<le> Height_MAX" and "vb_ok NonNegative finalized_pools"
  shows "\<exists>c. chain_new env net h sprout_tree sapling_tree orchard_tree hist finalized_pools = Done c \<and>
    chain_inv env c \<and> blocks c = []"
  using assms
  by (simp add: chain_new_def add_sprout_tree_and_anchor_def add_sapling_tree_and_anchor_def
      add_orchard_tree_and_anchor_def add_first_tree add_history_tree_def btree_insert_new_def Let_def chain_inv_def
      blocks_ok_def heights_inv_def items_inv_def blocks_items_def items_ok_def item_transfers_def index_ok_def
      no_items_def transfers_default_def moved_value_def MAX_MONEY_value work_inv_def cumulative_zero_def pools_inv_def
      trees_inv_def pool_ok_def sprout_ok_def)

inductive reachable_chain :: "('t, 'h) chain_env \<Rightarrow> ('t, 'h) chain \<Rightarrow> bool" for env where
  first_block: "chain_new env net finalized_height sprout_tree sapling_tree orchard_tree hist finalized_pools = Done c \<Longrightarrow>
     finalized_height \<le> Height_MAX \<Longrightarrow> vb_ok NonNegative finalized_pools \<Longrightarrow>
     extends_tip env cv c \<Longrightarrow> push env cv c = Done (Inr c') \<Longrightarrow> reachable_chain env c'"
| next_block: "reachable_chain env c \<Longrightarrow> extends_tip env cv c \<Longrightarrow> push env cv c = Done (Inr c') \<Longrightarrow>
     reachable_chain env c'"
| fork_at: "reachable_chain env c \<Longrightarrow> fork env hash c = Done (Some c') \<Longrightarrow> reachable_chain env c'"
| invalidate: "reachable_chain env c \<Longrightarrow> chain_invalidate_block env hash c = Done (Some (c', bs)) \<Longrightarrow>
     height_by_hash c hash \<noteq> Some (fst (hd (blocks c))) \<Longrightarrow> reachable_chain env c'"
| finalize_root: "reachable_chain env c \<Longrightarrow> pop_root env c = Done (cv, ts, c') \<Longrightarrow> blocks c' \<noteq> [] \<Longrightarrow>
     reachable_chain env c'"

lemma push_nonempty: "push env cv c = Done (Inr c') \<Longrightarrow> blocks c' \<noteq> []"
proof -
  have "btree_insert k v m \<noteq> []" for k :: height and v :: contextually_verified_block and m
    by (induction k v m rule: btree_insert.induct) auto
  then show "push env cv c = Done (Inr c') \<Longrightarrow> blocks c' \<noteq> []" by (auto simp: push_def try_bind_Inr_iff)
qed

lemma root_lowest:
  assumes "chain_inv env c" and "height_by_hash c hash = Some h"
  shows "fst (hd (blocks c)) \<le> h" "hd (blocks c) \<in> set (blocks c)"
proof -
  have ok: "blocks_ok c" using assms(1) by (simp add: chain_inv_def)
  then obtain b where b: "(h, b) \<in> set (blocks c)" using assms(2) by (auto simp: blocks_ok_def)
  moreover have "btree_ok (blocks c)" using ok by (simp add: blocks_ok_def)
  ultimately show "fst (hd (blocks c)) \<le> h" "hd (blocks c) \<in> set (blocks c)"
    by (cases "blocks c"; force simp: btree_ok_def)+
qed

lemma reachable_chain_inv: "reachable_chain env c \<Longrightarrow> chain_inv env c \<and> blocks c \<noteq> []"
proof (induction rule: reachable_chain.induct)
  case (first_block net finalized_height sprout_tree sapling_tree orchard_tree hist finalized_pools c cv c')
  then have "chain_inv env c"
    using chain_new_inv [OF first_block(2,3), of env net sprout_tree sapling_tree orchard_tree hist] by simp
  then show ?case using first_block push_keeps_inv push_nonempty by blast
next
  case (next_block c cv c')
  then show ?case using push_keeps_inv push_nonempty by blast
next
  case (fork_at c hash c')
  then obtain h where h: "height_by_hash c hash = Some h" by (auto simp: fork_def split: if_splits)
  note root = root_lowest [OF conjunct1 [OF fork_at.IH] h]
  then have "hd (blocks c) \<in> set (filter (\<lambda>(k, _). k \<le> h) (blocks c))" by (cases "hd (blocks c)") simp
  then show ?case using fork_total [OF conjunct1 [OF fork_at.IH] h] fork_at.hyps(2) by (metis empty_iff list.set(1) option.inject outcome.inject)
next
  case (invalidate c hash c' bs)
  then obtain h where h: "height_by_hash c hash = Some h" by (auto simp: chain_invalidate_block_def split: option.splits)
  note root = root_lowest [OF conjunct1 [OF invalidate.IH] h]
  then have "fst (hd (blocks c)) < h" using invalidate.hyps(3) h by simp
  then have "hd (blocks c) \<in> set (filter (\<lambda>(k, _). k < h) (blocks c))"
    using root(2) by (cases "hd (blocks c)") simp
  then show ?case
    using chain_invalidate_total [OF conjunct1 [OF invalidate.IH] h \<open>fst (hd (blocks c)) < h\<close>] invalidate.hyps(2)
    by (metis empty_iff list.set(1) option.inject outcome.inject prod.inject)
next
  case (finalize_root c cv ts c')
  then obtain h b bs where "blocks c = (h, b) # bs" by (metis list.exhaust surj_pair)
  then show ?case using pop_root_total [of env c h b bs] finalize_root by auto
qed

section \<open>Exact forks\<close>

text \<open>The chain \<open>c'\<close> is \<open>c\<close> with the given blocks pushed on it.\<close>

inductive extended ::
  "('t, 'h) chain_env \<Rightarrow> ('t, 'h) chain \<Rightarrow> contextually_verified_block list \<Rightarrow> ('t, 'h) chain \<Rightarrow> bool" for env c where
  no_blocks: "extended env c [] c"
| one_more: "extended env c cvs c' \<Longrightarrow> extends_tip env cv c' \<Longrightarrow> push env cv c' = Done (Inr c'') \<Longrightarrow>
     extended env c (cvs @ [cv]) c''"

lemma extended_inv:
  assumes "extended env c cvs c'" and "chain_inv env c"
  shows "chain_inv env c' \<and> set (blocks c) \<subseteq> set (blocks c')"
  using assms
proof (induction rule: extended.induct)
  case (one_more cvs c' cv c'')
  then have inv: "chain_inv env c'" and sub: "set (blocks c) \<subseteq> set (blocks c')" by blast+
  note chain = extends_tip_chain [OF inv one_more.hyps(2)]
  show ?case
    using push_keeps_inv [OF one_more.hyps(3) inv one_more.hyps(2)] push_blocks(1) [OF one_more.hyps(3) chain] sub
    by auto
qed simp

lemma fork_loop_extended:
  fixes c :: "('t, 'h) chain"
  assumes "extended env c cvs c'" and "chain_inv env c" and "blocks c \<noteq> []"
    and "\<And>t t'. tree_root (sprout_ops (pool_ops env)) t = tree_root (sprout_ops (pool_ops env)) t' \<Longrightarrow> t = t'"
    and "non_finalized_tip_hash c = Done hash"
  shows "fork_loop env hash (c'\<lparr>sapling_subtrees := sa, orchard_subtrees := orc, last_fork_height := f\<rparr>) =
    Done (c\<lparr>sapling_subtrees := sa, orchard_subtrees := orc,
            last_fork_height := if cvs = [] then f else max_block_height c\<rparr>)"
  using assms(1)
proof (induction arbitrary: f rule: extended.induct)
  case no_blocks
  have "non_finalized_tip_hash (c\<lparr>sapling_subtrees := sa, orchard_subtrees := orc, last_fork_height := f\<rparr>) = Done hash"
    using assms(3,5) by (simp add: non_finalized_tip_hash_def tip_block_def)
  then show ?case by (subst fork_loop.simps) simp
next
  case (one_more cvs c' cv c'')
  let ?d = "c''\<lparr>sapling_subtrees := sa, orchard_subtrees := orc, last_fork_height := f\<rparr>"
  have inv: "chain_inv env c'" and sub: "set (blocks c) \<subseteq> set (blocks c')"
    using extended_inv [OF one_more.hyps(1) assms(2)] by blast+
  note chain = extends_tip_chain [OF inv one_more.hyps(2)]
  note b = push_blocks [OF one_more.hyps(3) chain]
  have ne: "blocks c' \<noteq> []" using sub assms(3) by (metis last_in_set length_pos_if_in_set list.size(3) not_less_zero subsetD)
  have "hash \<noteq> cv_hash cv"
  proof -
    obtain h b where hb: "last (blocks c) = (h, b)" by (cases "last (blocks c)")
    then have "(h, b) \<in> set (blocks c')" "cv_hash b = hash"
      using sub assms(3,5) last_in_set [OF assms(3)] by (auto simp: non_finalized_tip_hash_def tip_block_def)
    then have "height_by_hash c' hash = Some h" using inv unfolding chain_inv_def blocks_ok_def by blast
    then show ?thesis using b(2) by auto
  qed
  moreover have "non_finalized_tip_hash ?d = Done (cv_hash cv)"
    by (simp add: non_finalized_tip_hash_def tip_block_def b(1))
  moreover have "pop_tip env ?d = Done (c'\<lparr>sapling_subtrees := sa, orchard_subtrees := orc, last_fork_height := f\<rparr>)"
    by (rule pop_tip_push [OF one_more.hyps(3) chain_inv_ok [OF inv] chain ne assms(4)])
  moreover have "max_block_height c' = Some (fst (last (blocks c')))" using ne by (simp add: max_block_height_def)
  ultimately have "fork_loop env hash ?d =
      fork_loop env hash (c'\<lparr>sapling_subtrees := sa, orchard_subtrees := orc, last_fork_height := max_block_height c'\<rparr>)"
    using ne by (subst fork_loop.simps) (simp add: non_finalized_tip_height_def max_block_height_def)
  moreover have "max_block_height c' = max_block_height c" if "cvs = []"
    using one_more.hyps(1) that by (cases rule: extended.cases) simp_all
  ultimately show ?case using one_more.IH [of "max_block_height c'"] by simp
qed

text \<open>A fork leaves the subtrees of the chain, also those of the blocks it removes.\<close>

lemma fork_loop_subtrees:
  "fork_loop env hash c = Done c' \<Longrightarrow>
   (sapling_subtrees c', orchard_subtrees c') = (sapling_subtrees c, orchard_subtrees c)"
proof (induction env hash c rule: fork_loop.induct)
  case (1 env hash c)
  show ?case
  proof (cases "non_finalized_tip_hash c = Done hash")
    case True
    then show ?thesis using "1.prems" by (subst (asm) fork_loop.simps) simp
  next
    case False
    with "1.prems" obtain tip_hash popped h where s: "non_finalized_tip_hash c = Done tip_hash" "tip_hash \<noteq> hash"
      "pop_tip env c = Done popped" "non_finalized_tip_height popped = Done h"
      "fork_loop env hash (popped\<lparr>last_fork_height := Some h\<rparr>) = Done c'"
      by (subst (asm) fork_loop.simps) (auto split: outcome.splits if_splits)
    have "(sapling_subtrees popped, orchard_subtrees popped) = (sapling_subtrees c, orchard_subtrees c)"
      using s(3) by (auto simp: pop_tip_def run_bind_Done_iff Let_def kept_fields_def dest!: revert_chain_with_keeps(1))
    then show ?thesis using "1.IH" [OF s(1,2,3,4,5)] by simp
  qed
qed

end
