(* ===== verification/Chain_Sets.thy ===== *)
theory Chain_Sets
  imports Non_Finalized_States Chain_Forks
begin

text \<open>
  The set of chains of the non-finalized state: it is strictly ordered by work and tip hash after every operation,
  and on states that are built by commits of new blocks and by finalization its operations never panic.
\<close>

section \<open>The order of chains\<close>

lemma bytes_cmp_swap: "bytes_cmp ys xs = (case bytes_cmp xs ys of Less \<Rightarrow> Greater | Equal \<Rightarrow> Equal | Greater \<Rightarrow> Less)"
  by (induction xs ys rule: bytes_cmp.induct) auto

lemma bytes_cmp_equal [simp]: "bytes_cmp xs ys = Equal \<longleftrightarrow> xs = ys"
  by (induction xs ys rule: bytes_cmp.induct) auto

lemma bytes_cmp_self [simp]: "bytes_cmp xs xs = Equal"
  by simp

lemma bytes_cmp_trans: "bytes_cmp xs ys = Less \<Longrightarrow> bytes_cmp ys zs = Less \<Longrightarrow> bytes_cmp xs zs = Less"
proof (induction xs ys arbitrary: zs rule: bytes_cmp.induct)
  case (2 y ys)
  then show ?case by (cases zs) auto
next
  case (4 x xs y ys)
  then show ?case by (cases zs) (auto split: if_splits)
qed auto

definition chain_less :: "('t, 'h) chain \<Rightarrow> ('t, 'h) chain \<Rightarrow> bool" where
  "chain_less c d \<longleftrightarrow> chain_cmp c d = Done Less"

definition chain_work :: "('t, 'h) chain \<Rightarrow> nat" where
  "chain_work c = cumulative (partial_cumulative_work c)"

lemma work_eq: "partial_cumulative_work c = partial_cumulative_work d \<longleftrightarrow> chain_work c = chain_work d"
  by (cases "partial_cumulative_work c"; cases "partial_cumulative_work d") (simp add: chain_work_def)

lemma chain_cmp_cases:
  "chain_cmp c d =
     (if chain_work c \<noteq> chain_work d then Done (if chain_work c < chain_work d then Less else Greater)
      else case (non_finalized_tip_hash c, non_finalized_tip_hash d) of
             (Done x, Done y) \<Rightarrow> (if x = y then Panic else Done (bytes_cmp x y))
           | _ \<Rightarrow> Panic)"
proof -
  have "(case bytes_cmp x y of Less \<Rightarrow> Done Less | Equal \<Rightarrow> Panic | Greater \<Rightarrow> Done Greater) =
        (if x = y then Panic else Done (bytes_cmp x y))" for x y
    using bytes_cmp_equal [of x y] by (cases "bytes_cmp x y"; cases "x = y") simp_all
  then show ?thesis
    unfolding chain_cmp_def work_eq
    by (cases "non_finalized_tip_hash c"; cases "non_finalized_tip_hash d") (simp_all add: chain_work_def)
qed

lemma chain_less_cases:
  "chain_less c d \<longleftrightarrow> chain_work c < chain_work d \<or>
     chain_work c = chain_work d \<and>
       (\<exists>x y. non_finalized_tip_hash c = Done x \<and> non_finalized_tip_hash d = Done y \<and> bytes_cmp x y = Less)"
proof -
  have "bytes_cmp x x \<noteq> Less" for x by (metis bytes_cmp_equal ordering.distinct(1))
  then show ?thesis
    unfolding chain_less_def chain_cmp_cases by (auto split: outcome.splits)
qed

lemma bytes_cmp_greater: "bytes_cmp x y = Greater \<longleftrightarrow> bytes_cmp y x = Less"
  using bytes_cmp_swap [of x y] by (cases "bytes_cmp y x") auto

lemma chain_cmp_greater: "chain_cmp c d = Done Greater \<longleftrightarrow> chain_less d c"
proof -
  have "bytes_cmp x x \<noteq> Less" for x by (metis bytes_cmp_equal ordering.distinct(1))
  then show ?thesis
    unfolding chain_less_cases chain_cmp_cases by (auto simp: bytes_cmp_greater split: outcome.splits)
qed

lemma chain_cmp_not_equal: "chain_cmp c d \<noteq> Done Equal"
  unfolding chain_cmp_cases by (auto split: outcome.splits)

lemma chain_less_trans: "chain_less c d \<Longrightarrow> chain_less d e \<Longrightarrow> chain_less c e"
  unfolding chain_less_cases using bytes_cmp_trans by fastforce

lemma chain_less_work: "chain_less c d \<Longrightarrow> chain_work c \<le> chain_work d"
  unfolding chain_less_cases by auto

lemma chain_less_irrefl [simp]: "\<not> chain_less c c"
proof -
  have "bytes_cmp x x \<noteq> Less" for x by (metis bytes_cmp_equal ordering.distinct(1))
  then show ?thesis unfolding chain_less_cases by auto
qed

text \<open>Comparing two chains returns exactly when they differ in work or are non-empty with different tips.\<close>

lemma chain_cmp_total:
  assumes "blocks c \<noteq> []" and "blocks d \<noteq> []" and "cv_hash (snd (last (blocks c))) \<noteq> cv_hash (snd (last (blocks d)))"
  shows "chain_less c d \<or> chain_less d c"
proof -
  let ?x = "cv_hash (snd (last (blocks c)))" and ?y = "cv_hash (snd (last (blocks d)))"
  have "bytes_cmp ?x ?y = Less \<or> bytes_cmp ?y ?x = Less"
    using assms(3) bytes_cmp_swap [of ?y ?x] by (cases "bytes_cmp ?x ?y") auto
  then show ?thesis
    unfolding chain_less_cases using assms(1,2)
    by (auto simp: non_finalized_tip_hash_def tip_block_def intro: linorder_neqE_nat)
qed

section \<open>Insertion\<close>

lemma chain_set_insert_sorted:
  assumes "chain_set_insert c cs = Done cs'" and "sorted_wrt chain_less cs"
  shows "sorted_wrt chain_less cs' \<and> set cs' = insert c (set cs) \<and> length cs' = Suc (length cs)"
  using assms
proof (induction cs arbitrary: cs')
  case (Cons d ds)
  obtain r where r: "chain_cmp c d = Done r" using Cons.prems(1) by (auto simp: run_bind_Done_iff)
  show ?case
  proof (cases r)
    case Less
    then have "chain_less c d" "cs' = c # d # ds" using r Cons.prems(1) by (simp_all add: chain_less_def)
    then show ?thesis using Cons.prems(2) chain_less_trans by auto
  next
    case Equal
    then show ?thesis using r chain_cmp_not_equal by blast
  next
    case Greater
    then obtain ds' where ds': "chain_set_insert c ds = Done ds'" "cs' = d # ds'" and "chain_less d c"
      using r Cons.prems(1) chain_cmp_greater by (auto simp: run_bind_Done_iff)
    then show ?thesis using Cons.IH [OF ds'(1)] Cons.prems(2) by auto
  qed
qed simp

lemma chain_set_insert_total:
  assumes "\<forall>d \<in> set cs. chain_less c d \<or> chain_less d c"
  shows "\<exists>cs'. chain_set_insert c cs = Done cs'"
  using assms
proof (induction cs)
  case (Cons d ds)
  then obtain ds' where ds': "chain_set_insert c ds = Done ds'" by auto
  from Cons.prems consider "chain_cmp c d = Done Less" | "chain_cmp c d = Done Greater"
    using chain_cmp_greater [of c d] chain_less_def [of c d] by auto
  then show ?case by cases (simp_all add: ds')
qed simp

text \<open>Removing a chain that is in the set compares it with itself, which panics.\<close>

lemma chain_set_remove_panics:
  assumes "sorted_wrt chain_less cs" and "c \<in> set cs"
  shows "chain_set_remove c cs = Panic"
  using assms
proof (induction cs)
  case (Cons d ds)
  show ?case
  proof (cases "c = d")
    case True
    have "chain_cmp c c = Panic"
      using chain_cmp_not_equal [of c c] chain_cmp_greater [of c c] chain_less_irrefl [of c]
      unfolding chain_less_def by (metis (full_types) ordering.exhaust outcome.exhaust)
    then show ?thesis using True by simp
  next
    case False
    then have "chain_less d c" using Cons.prems by auto
    then have "chain_cmp c d = Done Greater" by (simp add: chain_cmp_greater)
    then show ?thesis using Cons False by simp
  qed
qed simp

lemma pop_excess_drop: "pop_excess cs = drop (length cs - MAX_NON_FINALIZED_CHAIN_FORKS) cs"
proof (induction cs rule: pop_excess.induct)
  case (1 cs)
  show ?case
  proof (cases "length cs > MAX_NON_FINALIZED_CHAIN_FORKS")
    case True
    then have "length cs - MAX_NON_FINALIZED_CHAIN_FORKS = Suc (length (tl cs) - MAX_NON_FINALIZED_CHAIN_FORKS)" by simp
    then show ?thesis using 1 True by (subst pop_excess.simps) (simp add: drop_Suc)
  qed (subst pop_excess.simps, simp)
qed

lemma shift_excess_drop: "shift_excess m = drop (length m - MAX_INVALIDATED_BLOCKS) m"
proof (induction m rule: shift_excess.induct)
  case (1 m)
  show ?case
  proof (cases "length m > MAX_INVALIDATED_BLOCKS")
    case True
    then have "length m - MAX_INVALIDATED_BLOCKS = Suc (length (tl m) - MAX_INVALIDATED_BLOCKS)" by simp
    then show ?thesis using 1 True by (subst shift_excess.simps) (simp add: drop_Suc)
  qed (subst shift_excess.simps, simp)
qed

lemma map_outcome_list_Done_length: "map_outcome_list f xs = Done ys \<Longrightarrow> length ys = length xs"
  by (induction xs arbitrary: ys) (auto simp: run_bind_Done_iff)

lemma zip_map_pair: "zip xs (map p xs) = map (\<lambda>x. (x, p x)) xs"
  by (induction xs) auto

lemma retain_outcome_filter:
  assumes "retain_outcome p cs = Done cs'"
  shows "cs' = filter (\<lambda>c. p c = Done True) cs \<and> (\<forall>c \<in> set cs. \<exists>b. p c = Done b)"
proof -
  from assms obtain keeps where k: "map_outcome_list p cs = Done keeps" "cs' = map fst (filter snd (zip cs keeps))"
    by (auto simp: retain_outcome_def run_bind_Done_iff)
  have "map fst (filter snd (zip cs keeps)) = filter (\<lambda>c. p c = Done True) cs \<and> (\<forall>c \<in> set cs. \<exists>b. p c = Done b)"
    using k(1) by (induction cs arbitrary: keeps) (auto simp: run_bind_Done_iff)
  then show ?thesis using k(2) by simp
qed

lemma sorted_wrt_drop: "sorted_wrt r xs \<Longrightarrow> sorted_wrt r (drop n xs)"
  by (metis append_take_drop_id sorted_wrt_append)

lemma insert_with_result:
  assumes "insert_with c chain_filter s = Done s'" and "sorted_wrt chain_less (chain_set s)"
    and "\<And>cs cs'. chain_filter cs = Done cs' \<Longrightarrow> \<exists>p. cs' = filter p cs"
  shows "sorted_wrt chain_less (chain_set s')" "length (chain_set s') \<le> MAX_NON_FINALIZED_CHAIN_FORKS"
    "set (chain_set s') \<subseteq> insert c (set (chain_set s))"
    "invalidated_blocks s' = invalidated_blocks s" "nfs_network s' = nfs_network s"
proof -
  from assms(1) obtain cs cs' where cs: "chain_set_insert c (chain_set s) = Done cs" "chain_filter cs = Done cs'"
    "s' = s\<lparr>chain_set := pop_excess cs'\<rparr>" by (auto simp: insert_with_def run_bind_Done_iff)
  obtain p where p: "cs' = filter p cs" using assms(3) cs(2) by blast
  note ins = chain_set_insert_sorted [OF cs(1) assms(2)]
  show "sorted_wrt chain_less (chain_set s')"
    using ins by (simp add: cs(3) p pop_excess_drop sorted_wrt_drop sorted_wrt_filter)
  show "set (chain_set s') \<subseteq> insert c (set (chain_set s))"
    using ins set_drop_subset [of _ cs'] by (auto simp: cs(3) p pop_excess_drop)
  show "length (chain_set s') \<le> MAX_NON_FINALIZED_CHAIN_FORKS" by (simp add: cs(3) pop_excess_drop)
  show "invalidated_blocks s' = invalidated_blocks s" "nfs_network s' = nfs_network s" by (simp_all add: cs(3))
qed

lemma retain_filter: "retain_outcome p cs = Done cs' \<Longrightarrow> \<exists>q. cs' = filter q cs"
  using retain_outcome_filter by blast

lemma keep_all_filter: "Done cs = Done cs' \<Longrightarrow> \<exists>q. cs' = filter q cs"
  by (intro exI [of _ "\<lambda>_. True"]) simp

lemmas insert_with_retain = insert_with_result [where chain_filter = "retain_outcome p" for p, OF _ _ retain_filter]
lemmas nfs_insert_result = insert_with_result [where chain_filter = Done, OF _ _ keep_all_filter, folded nfs_insert_def]

section \<open>The order of the chain set\<close>

definition set_sorted :: "('t, 'h) non_finalized_state \<Rightarrow> bool" where
  "set_sorted s \<longleftrightarrow> sorted_wrt chain_less (chain_set s) \<and> length (chain_set s) \<le> MAX_NON_FINALIZED_CHAIN_FORKS \<and>
     length (invalidated_blocks s) \<le> MAX_INVALIDATED_BLOCKS"

lemma updates_invariant:
  assumes "\<And>t s s'. P s \<Longrightarrow> f t s = Done s' \<Longrightarrow> P s'" and "P s" and "updates f ts s = Done s'"
  shows "P s'"
  using assms(2,3)
proof (induction ts arbitrary: s)
  case (Cons t ts)
  then show ?case using assms(1) by (auto simp: run_bind_Done_iff)
qed simp

lemma set_sorted_retain:
  "set_sorted s \<Longrightarrow> set_sorted (s\<lparr>invalidated_blocks := filter p (invalidated_blocks s)\<rparr>)"
  by (auto simp: set_sorted_def intro: order_trans [OF length_filter_le])

lemma nfs_insert_sorted:
  assumes "set_sorted s" and "nfs_insert c s = Done s'"
  shows "set_sorted s'"
  using nfs_insert_result [OF assms(2)] assms(1) by (simp add: set_sorted_def)

lemma insert_retain_sorted:
  assumes "set_sorted s" and "insert_with c (retain_outcome p) s = Done s'"
  shows "set_sorted s'"
  using insert_with_retain [OF assms(2)] assms(1) by (simp add: set_sorted_def)

lemma insert_filter_sorted:
  assumes "set_sorted s" and "insert_with c (\<lambda>cs. Done (filter p cs)) s = Done s'"
  shows "set_sorted s'"
proof -
  have "\<exists>q. cs' = filter q cs" if "Done (filter p cs) = Done cs'" for cs cs' using that by auto
  from insert_with_result [OF assms(2) _ this] show ?thesis using assms(1) by (simp add: set_sorted_def)
qed

lemma finalize_side_chain_sorted:
  "set_sorted s \<Longrightarrow> finalize_side_chain env root c s = Done s' \<Longrightarrow> set_sorted s'"
  by (auto simp: finalize_side_chain_def run_bind_Done_iff intro: nfs_insert_sorted split: if_splits)

lemma finalize_parts:
  assumes "finalize env s = Done (root, ts, s')"
  obtains best s1 s2 where "chain_set s \<noteq> []" "pop_root env (last (chain_set s)) = Done (root, ts, best)"
    "(if chain_is_empty best then Done (s\<lparr>chain_set := []\<rparr>) else nfs_insert best (s\<lparr>chain_set := []\<rparr>)) = Done s1"
    "updates (finalize_side_chain env root) (rev (butlast (chain_set s))) s1 = Done s2"
    "s' = s2\<lparr>invalidated_blocks := filter (\<lambda>(h, _). h \<ge> cv_height root) (invalidated_blocks s2)\<rparr>"
proof -
  have ne: "chain_set s \<noteq> []" using assms by (auto simp: finalize_def)
  obtain r t best where pop: "pop_root env (last (chain_set s)) = Done (r, t, best)"
    using assms ne by (auto simp: finalize_def run_bind_Done_iff)
  let ?first = "if chain_is_empty best then Done (s\<lparr>chain_set := []\<rparr>) else nfs_insert best (s\<lparr>chain_set := []\<rparr>)"
  obtain s1 where s1: "?first = Done s1" using assms ne pop by (cases ?first) (simp_all add: finalize_def)
  obtain s2 where s2: "updates (finalize_side_chain env r) (rev (butlast (chain_set s))) s1 = Done s2"
    using assms ne pop s1
    by (cases "updates (finalize_side_chain env r) (rev (butlast (chain_set s))) s1") (simp_all add: finalize_def)
  have "r = root" "t = ts"
    "s' = s2\<lparr>invalidated_blocks := filter (\<lambda>(h, _). h \<ge> cv_height root) (invalidated_blocks s2)\<rparr>"
    using assms ne pop s1 s2 by (auto simp: finalize_def)
  then show thesis using that ne pop s1 s2 by blast
qed

lemma finalize_sorted:
  assumes "set_sorted s" and "finalize env s = Done (root, ts, s')"
  shows "set_sorted s'"
proof -
  from finalize_parts [OF assms(2)] obtain best s1 s2 where s:
    "(if chain_is_empty best then Done (s\<lparr>chain_set := []\<rparr>) else nfs_insert best (s\<lparr>chain_set := []\<rparr>)) = Done s1"
    "updates (finalize_side_chain env root) (rev (butlast (chain_set s))) s1 = Done s2"
    "s' = s2\<lparr>invalidated_blocks := filter (\<lambda>(h, _). h \<ge> cv_height root) (invalidated_blocks s2)\<rparr>" by blast
  have "set_sorted (s\<lparr>chain_set := []\<rparr>)" using assms(1) by (simp add: set_sorted_def)
  then have "set_sorted s1" using s(1) nfs_insert_sorted by (auto split: if_splits)
  then have "set_sorted s2"
    using updates_invariant [of set_sorted, OF _ _ s(2)] finalize_side_chain_sorted by blast
  then show ?thesis unfolding s(3) by (rule set_sorted_retain)
qed

lemma length_index_insert: "length (index_insert k v m) \<le> Suc (length m)"
  by (simp add: index_insert_def)

lemma invalidate_block_sorted:
  assumes "set_sorted s" and "invalidate_block env hash s = Done (Inr (hash', s'))"
  shows "set_sorted s'"
proof -
  from assms(2) obtain c root_hash where
    found: "find_chain (\<lambda>c. Done (contains_block_hash hash c)) s = Done (Some c)"
    and root: "non_finalized_root_hash c = Done root_hash"
    by (auto simp: invalidate_block_def run_bind_Done_iff split: option.splits)
  have "c \<in> set (chain_set s)"
  proof -
    have "find_outcome (\<lambda>c. Done (p c)) cs = Done (Some c) \<Longrightarrow> c \<in> set cs" for p cs
      by (induction cs) (auto split: if_splits)
    then show ?thesis using found unfolding find_chain_def by (metis set_rev)
  qed
  then have "root_hash \<noteq> hash"
    using assms found root chain_set_remove_panics [of "chain_set s" c]
    by (auto simp: invalidate_block_def set_sorted_def)
  then obtain s1 new_chain invalidated and first :: contextually_verified_block where s1:
    "insert_with new_chain (\<lambda>cs. Done (filter (\<lambda>c. \<not> contains_block_hash hash c) cs)) s = Done s1"
    "s' = s1\<lparr>invalidated_blocks := shift_excess (index_insert (cv_height first) invalidated (invalidated_blocks s1))\<rparr>"
    using assms(2) found root by (auto simp: invalidate_block_def run_bind_Done_iff)
  have "set_sorted s1" using insert_filter_sorted [OF assms(1) s1(1)] .
  then show ?thesis by (simp add: set_sorted_def s1(2) shift_excess_drop)
qed

lemma reconsider_block_sorted:
  assumes "set_sorted s" and "reconsider_block env db hash s = Done (Inr (hashes, s'))"
  shows "set_sorted s'"
proof -
  let ?s = "case finalized_tip_height db of
      Some tip_height \<Rightarrow> s\<lparr>invalidated_blocks := filter (\<lambda>(k, _). k \<ge> tip_height) (invalidated_blocks s)\<rparr> | None \<Rightarrow> s"
  from assms(2) obtain c p where "insert_with c (retain_outcome p) ?s = Done s'"
    by (auto simp: reconsider_block_def Let_def run_bind_Done_iff try_bind_Inr_iff split: option.splits list.splits)
  moreover have "set_sorted ?s"
    using assms(1) by (simp add: set_sorted_retain split: option.split)
  ultimately show ?thesis using insert_retain_sorted by blast
qed

lemma commit_new_chain_sorted:
  "set_sorted s \<Longrightarrow> commit_new_chain env ce db prepared s = Done (Inr s') \<Longrightarrow> set_sorted s'"
  by (auto simp: commit_new_chain_def run_bind_Done_iff try_bind_Inr_iff intro: nfs_insert_sorted)

lemma commit_block_sorted:
  "set_sorted s \<Longrightarrow> commit_block env ce db prepared s = Done (Inr s') \<Longrightarrow> set_sorted s'"
  by (auto simp: commit_block_def Let_def run_bind_Done_iff try_bind_Inr_iff intro: insert_retain_sorted)

text \<open>The states that any sequence of successful operations builds.\<close>

inductive reachable_state :: "('t, 'h) chain_env \<Rightarrow> 'h commitment_env \<Rightarrow> ('t, 'h) non_finalized_state \<Rightarrow> bool" for env ce where
  new_state: "reachable_state env ce (nfs_new net)"
| new_chain: "reachable_state env ce s \<Longrightarrow> commit_new_chain env ce db prepared s = Done (Inr s') \<Longrightarrow>
     reachable_state env ce s'"
| new_block: "reachable_state env ce s \<Longrightarrow> commit_block env ce db prepared s = Done (Inr s') \<Longrightarrow> reachable_state env ce s'"
| finalized: "reachable_state env ce s \<Longrightarrow> finalize env s = Done (root, ts, s') \<Longrightarrow> reachable_state env ce s'"
| invalidated: "reachable_state env ce s \<Longrightarrow> invalidate_block env hash s = Done (Inr (hash', s')) \<Longrightarrow>
     reachable_state env ce s'"
| reconsidered: "reachable_state env ce s \<Longrightarrow> reconsider_block env db hash s = Done (Inr (hashes, s')) \<Longrightarrow>
     reachable_state env ce s'"

lemma reachable_state_sorted: "reachable_state env ce s \<Longrightarrow> set_sorted s"
proof (induction rule: reachable_state.induct)
  case (new_state net)
  then show ?case by (simp add: nfs_new_def set_sorted_def)
qed (blast intro: commit_new_chain_sorted commit_block_sorted finalize_sorted invalidate_block_sorted
      reconsider_block_sorted)+

lemma sorted_last:
  assumes "sorted_wrt chain_less cs" and "c \<in> set cs" and "c \<noteq> last cs"
  shows "chain_less c (last cs)"
proof -
  have "cs = butlast cs @ [last cs]" using assms(2) by (intro append_butlast_last_id [symmetric]) auto
  then show ?thesis using assms by (metis Un_iff empty_iff insert_iff list.set(1) list.simps(15) set_append sorted_wrt_append)
qed

lemma best_chain_last: "best_chain s = (if chain_set s = [] then None else Some (last (chain_set s)))"
  by (cases "chain_set s" rule: rev_cases) (simp_all add: best_chain_def chain_iter_def)

end
