(* ===== verification/Chain_Leaves.thy ===== *)
theory Chain_Leaves
  imports Chain_Sets
begin

text \<open>
  The chains of a state that is built by commits of new blocks and by finalization: every chain satisfies the
  chain invariant, and the tip of a chain is in no other chain. On such a state
  \<open>commit_block\<close> and \<open>finalize\<close> never compare equal chains and never leave an empty chain.
\<close>

section \<open>Hashes and tips\<close>

definition chain_hashes :: "('t, 'h) chain \<Rightarrow> block_hash set" where
  "chain_hashes c = cv_hash ` snd ` set (blocks c)"

definition chain_tip :: "('t, 'h) chain \<Rightarrow> block_hash" where
  "chain_tip c = cv_hash (snd (last (blocks c)))"

definition leaves_ok :: "('t, 'h) chain_env \<Rightarrow> ('t, 'h) chain set \<Rightarrow> bool" where
  "leaves_ok env C \<longleftrightarrow> (\<forall>c \<in> C. chain_inv env c \<and> blocks c \<noteq> []) \<and>
     (\<forall>c \<in> C. \<forall>d \<in> C. c \<noteq> d \<longrightarrow> chain_tip c \<notin> chain_hashes d)"

lemma leaves_ok_subset: "leaves_ok env C \<Longrightarrow> D \<subseteq> C \<Longrightarrow> leaves_ok env D"
  unfolding leaves_ok_def by blast

lemma hash_height:
  "chain_inv env c \<Longrightarrow> height_by_hash c hash = Some h \<longleftrightarrow> (\<exists>b. (h, b) \<in> set (blocks c) \<and> cv_hash b = hash)"
  by (simp add: chain_inv_def blocks_ok_def)

lemma known_hash: "chain_inv env c \<Longrightarrow> height_by_hash c hash \<noteq> None \<longleftrightarrow> hash \<in> chain_hashes c"
  unfolding chain_hashes_def by (auto simp: hash_height [of env] image_iff split: prod.splits) (metis hash_height snd_conv)+

lemma chain_tip_in: "blocks c \<noteq> [] \<Longrightarrow> chain_tip c \<in> chain_hashes c"
  by (simp add: chain_tip_def chain_hashes_def)

lemma tip_hash_Done: "blocks c \<noteq> [] \<Longrightarrow> non_finalized_tip_hash c = Done (chain_tip c)"
  by (simp add: non_finalized_tip_hash_def tip_block_def chain_tip_def)

lemma push_hashes:
  assumes "push env cv c = Done (Inr c')" and "chain_inv env c" and "extends_tip env cv c"
  shows "chain_inv env c'" "blocks c' \<noteq> []" "chain_tip c' = cv_hash cv" "chain_hashes c' = insert (cv_hash cv) (chain_hashes c)"
proof -
  have "blocks c' = blocks c @ [(cv_height cv, cv)]"
    using push_blocks(1) [OF assms(1) extends_tip_chain [OF assms(2,3)]] .
  then show "blocks c' \<noteq> []" "chain_tip c' = cv_hash cv" "chain_hashes c' = insert (cv_hash cv) (chain_hashes c)"
    by (auto simp: chain_tip_def chain_hashes_def)
  show "chain_inv env c'" using push_keeps_inv [OF assms] .
qed

section \<open>Parent chains\<close>

lemma find_outcome_Done:
  "(\<And>x. x \<in> set xs \<Longrightarrow> p x = Done (q x)) \<Longrightarrow> find_outcome p xs = Done (find q xs)"
  by (induction xs) auto

lemma find_map_outcome_Some:
  "find_map_outcome f xs = Done (Some y) \<Longrightarrow> \<exists>x \<in> set xs. f x = Done (Some y)"
  by (induction xs) (auto simp: run_bind_Done_iff split: option.splits)

lemma block_at_height:
  assumes "chain_inv env c" and "(h, b) \<in> set (blocks c)" and "(h, b') \<in> set (blocks c)"
  shows "b = b'"
proof -
  have "distinct (map fst (blocks c))" using assms(1) btree_ok_distinct by (auto simp: chain_inv_def blocks_ok_def)
  then show ?thesis using assms(2,3) by (metis eq_key_imp_eq_value)
qed

lemma tip_entry:
  assumes "chain_inv env c" and "blocks c \<noteq> []"
  obtains h b where "last (blocks c) = (h, b)" "(h, b) \<in> set (blocks c)" "cv_hash b = chain_tip c"
    "\<And>k b. (k, b) \<in> set (blocks c) \<Longrightarrow> k \<le> h"
proof -
  obtain h b where l: "last (blocks c) = (h, b)" by (cases "last (blocks c)")
  moreover have "k \<le> h" if "(k, b') \<in> set (blocks c)" for k b'
    using heights_inv_last [of c k] assms(1) that l by (force simp: chain_inv_def)
  ultimately show thesis using that last_in_set [OF assms(2)] by (simp add: chain_tip_def)
qed

lemma fork_result:
  assumes d: "chain_inv env d" "blocks d \<noteq> []" and "fork env hash d = Done (Some c)"
  shows "chain_inv env c" "blocks c \<noteq> []" "chain_tip c = hash" "chain_hashes c \<subseteq> chain_hashes d"
    and "chain_tip d \<noteq> hash \<Longrightarrow> chain_tip d \<notin> chain_hashes c"
proof -
  obtain h where h: "height_by_hash d hash = Some h" using assms(3) by (auto simp: fork_def split: if_splits)
  then obtain b where b: "(h, b) \<in> set (blocks d)" "cv_hash b = hash" using hash_height [OF d(1)] by blast
  have inv: "chain_inv env c" and eq: "blocks c = filter (\<lambda>(k, _). k \<le> h) (blocks d)"
    using fork_total [OF d(1) h] assms(3) by auto
  have mem: "(h, b) \<in> set (blocks c)" using b eq by simp
  then show ne: "blocks c \<noteq> []" by auto
  show "chain_inv env c" "chain_hashes c \<subseteq> chain_hashes d" using inv eq by (auto simp: chain_hashes_def)
  obtain k b' where l: "(k, b') \<in> set (blocks c)" "cv_hash b' = chain_tip c" "\<And>j b. (j, b) \<in> set (blocks c) \<Longrightarrow> j \<le> k"
    using tip_entry [OF inv ne] by metis
  then have "k = h" using l(3) [OF mem] eq by auto
  then show "chain_tip c = hash" using block_at_height [OF inv mem] l(1,2) b(2) by simp
  show "chain_tip d \<notin> chain_hashes c" if "chain_tip d \<noteq> hash"
  proof
    obtain t bt where t: "(t, bt) \<in> set (blocks d)" "cv_hash bt = chain_tip d" "\<And>j b. (j, b) \<in> set (blocks d) \<Longrightarrow> j \<le> t"
      using tip_entry [OF d] by metis
    assume "chain_tip d \<in> chain_hashes c"
    then obtain j bj where "(j, bj) \<in> set (blocks d)" "j \<le> h" "cv_hash bj = chain_tip d"
      using eq by (auto simp: chain_hashes_def)
    then have "j = t" using t hash_height [OF d(1), of "chain_tip d"] by (metis option.inject)
    then have "t = h" using t(3) [OF b(1)] \<open>j \<le> h\<close> by simp
    then show False using block_at_height [OF d(1) b(1)] t(1,2) b(2) that by simp
  qed
qed

lemma parent_chain_result:
  assumes "leaves_ok env (set (chain_set s))" and "parent_chain env parent_hash s = Done (Inr c)"
  shows "chain_inv env c" "blocks c \<noteq> []" "chain_tip c = parent_hash"
    and "\<exists>d \<in> set (chain_set s). chain_hashes c \<subseteq> chain_hashes d"
    and "\<And>e. e \<in> set (chain_set s) \<Longrightarrow> chain_tip e \<noteq> parent_hash \<Longrightarrow> chain_tip e \<notin> chain_hashes c"
proof -
  have inv: "chain_inv env d" "blocks d \<noteq> []" if "d \<in> set (chain_set s)" for d
    using assms(1) that by (simp_all add: leaves_ok_def)
  then have "has_tip parent_hash d = Done (chain_tip d = parent_hash)" if "d \<in> set (rev (chain_set s))" for d
    using that by (simp add: has_tip_def tip_hash_Done)
  then have found: "find_chain (has_tip parent_hash) s = Done (find (\<lambda>d. chain_tip d = parent_hash) (rev (chain_set s)))"
    unfolding find_chain_def by (rule find_outcome_Done)
  have "chain_inv env c \<and> blocks c \<noteq> [] \<and> chain_tip c = parent_hash \<and>
    (\<exists>d \<in> set (chain_set s). chain_hashes c \<subseteq> chain_hashes d) \<and>
    (\<forall>e \<in> set (chain_set s). chain_tip e \<noteq> parent_hash \<longrightarrow> chain_tip e \<notin> chain_hashes c)"
  proof (cases "find (\<lambda>d. chain_tip d = parent_hash) (rev (chain_set s))")
    case (Some d)
    then have "d = c" using assms(2) found by (simp add: parent_chain_def)
    moreover have d: "d \<in> set (chain_set s)" "chain_tip d = parent_hash" using find_SomeD [OF Some] by simp_all
    moreover have "chain_tip e \<notin> chain_hashes d" if "e \<in> set (chain_set s)" "chain_tip e \<noteq> parent_hash" for e
      using assms(1) that d unfolding leaves_ok_def by metis
    ultimately show ?thesis using inv by blast
  next
    case None
    then have other: "chain_tip e \<noteq> parent_hash" if "e \<in> set (chain_set s)" for e
      using that by (auto simp: find_None_iff)
    obtain d where d: "d \<in> set (chain_set s)" "fork env parent_hash d = Done (Some c)"
      using assms(2) found None find_map_outcome_Some [of "fork env parent_hash" "rev (chain_set s)" c]
      by (auto simp: parent_chain_def run_bind_Done_iff ok_or_def split: option.splits)
    note c = fork_result [OF inv [OF d(1)] d(2)]
    have "chain_tip e \<notin> chain_hashes c" if e: "e \<in> set (chain_set s)" for e
      using assms(1) e d(1) c(4) c(5) [OF other [OF d(1)]] unfolding leaves_ok_def by (cases "e = d") blast+
    then show ?thesis using c d(1) by blast
  qed
  then show "chain_inv env c" "blocks c \<noteq> []" "chain_tip c = parent_hash"
    "\<exists>d \<in> set (chain_set s). chain_hashes c \<subseteq> chain_hashes d"
    "\<And>e. e \<in> set (chain_set s) \<Longrightarrow> chain_tip e \<noteq> parent_hash \<Longrightarrow> chain_tip e \<notin> chain_hashes c"
    by blast+
qed

section \<open>Commits\<close>

text \<open>
  What the caller of a commit guarantees. The state service sends a block once, so no chain has it; the block is
  one above the tip of its parent chain, its value pool change is typed, and the value that the blocks of
  the chain move for each address is in the money range.
\<close>

definition unknown_block :: "block_hash \<Rightarrow> ('t, 'h) non_finalized_state \<Rightarrow> bool" where
  "unknown_block hash s \<longleftrightarrow> (\<forall>c \<in> set (chain_set s). height_by_hash c hash = None)"

definition extends_parent ::
  "('t, 'h) chain_env \<Rightarrow> ('t, 'h) zebra_db \<Rightarrow> semantically_verified_block \<Rightarrow> ('t, 'h) chain \<Rightarrow> bool" where
  "extends_parent env db prepared c \<longleftrightarrow>
     (\<forall>spends cv. transparent_spend prepared c db = Done (Inr spends) \<longrightarrow>
        with_block_and_spent_utxos prepared spends = Done (Inr cv) \<longrightarrow> extends_tip env cv c)"

lemma validated_push:
  assumes "validate_and_commit env ce db c prepared s = Done (Inr c')" and "extends_parent env db prepared c"
  shows "\<exists>cv. push env cv c = Done (Inr c') \<and> cv_hash cv = sv_hash prepared \<and> extends_tip env cv c"
proof -
  from assms(1) obtain spends r where r: "transparent_spend prepared c db = Done (Inr spends)"
    "with_block_and_spent_utxos prepared spends = Done r"
    "try_bind (Done (map_err (\<lambda>e. CalculateBlockChainValueChange e (sv_height prepared) (sv_hash prepared)
        (length (transactions (sv_block prepared))) (length spends)) r))
       (\<lambda>contextual. validate_and_update_parallel env ce c contextual (block_fetch_sprout_final_treestates db c prepared)) =
     Done (Inr c')"
    by (auto simp: validate_and_commit_def Let_def try_bind_Inr_iff run_bind_Done_iff split: if_splits)
  then obtain cv where cv: "r = Inr cv"
    "validate_and_update_parallel env ce c cv (block_fetch_sprout_final_treestates db c prepared) = Done (Inr c')"
    by (cases r) auto
  have "push env cv c = Done (Inr c')"
    using cv(2) by (auto simp: validate_and_update_parallel_def run_bind_Done_iff res_bind_Inr_iff)
  moreover have "cv_hash cv = sv_hash prepared"
    using r(2) cv(1) by (auto simp: with_block_and_spent_utxos_def Let_def try_bind_Inr_iff)
  moreover have "extends_tip env cv c" using assms(2) r(1,2) cv(1) by (simp add: extends_parent_def)
  ultimately show ?thesis by blast
qed

lemma validated_chain:
  assumes "validate_and_commit env ce db c prepared s = Done (Inr c')" and "extends_parent env db prepared c"
    and "chain_inv env c"
  shows "chain_inv env c'" "blocks c' \<noteq> []" "chain_tip c' = sv_hash prepared"
    "chain_hashes c' = insert (sv_hash prepared) (chain_hashes c)"
  using validated_push [OF assms(1,2)] push_hashes [OF _ assms(3)] by metis+

lemma insert_leaf:
  assumes "leaves_ok env C" and "chain_inv env c" and "blocks c \<noteq> []"
    and "\<And>d. d \<in> C \<Longrightarrow> d \<noteq> c \<Longrightarrow> chain_tip c \<notin> chain_hashes d \<and> chain_tip d \<notin> chain_hashes c"
  shows "leaves_ok env (insert c C)"
  using assms unfolding leaves_ok_def by blast

lemma leaf_comparable:
  assumes "leaves_ok env C" and "blocks c \<noteq> []" and "\<And>d. d \<in> C \<Longrightarrow> chain_tip c \<notin> chain_hashes d"
  shows "\<forall>d \<in> C. chain_less c d \<or> chain_less d c"
proof
  fix d assume d: "d \<in> C"
  then have "blocks d \<noteq> []" using assms(1) by (simp add: leaves_ok_def)
  then show "chain_less c d \<or> chain_less d c"
    using chain_cmp_total [OF assms(2), of d] assms(3) [OF d] chain_tip_in [of d] unfolding chain_tip_def by metis
qed

lemma retain_not_tip:
  assumes "\<And>c. c \<in> set cs \<Longrightarrow> blocks c \<noteq> []"
  shows "retain_outcome (not_tip hash) cs = Done (filter (\<lambda>c. chain_tip c \<noteq> hash) cs)"
proof -
  have "map_outcome_list (not_tip hash) cs = Done (map (\<lambda>c. chain_tip c \<noteq> hash) cs)"
    using assms by (induction cs) (auto simp: not_tip_def tip_hash_Done)
  moreover have "map fst (filter snd (zip cs (map p cs))) = filter p cs" for p by (induction cs) auto
  ultimately show ?thesis by (simp add: retain_outcome_def)
qed

lemma unknown_hash:
  assumes "leaves_ok env (set (chain_set s))" and "unknown_block hash s" and "d \<in> set (chain_set s)"
  shows "hash \<notin> chain_hashes d"
  using assms known_hash [of env d hash] by (auto simp only: leaves_ok_def unknown_block_def)

lemma commit_block_result:
  assumes "leaves_ok env (set (chain_set s))" and "set_sorted s" and "unknown_block (sv_hash prepared) s"
    and "parent_chain env (previous_block_hash (block_header (sv_block prepared))) s = Done (Inr c)"
    and "validate_and_commit env ce db c prepared s = Done (Inr c')" and "extends_parent env db prepared c"
  shows "\<exists>s' cs. commit_block env ce db prepared s = Done (Inr s') \<and> chain_set s' = pop_excess cs \<and>
    sorted_wrt chain_less cs \<and> leaves_ok env (set cs) \<and>
    set cs = insert c' {d \<in> set (chain_set s). chain_tip d \<noteq> previous_block_hash (block_header (sv_block prepared))}"
proof -
  let ?parent = "previous_block_hash (block_header (sv_block prepared))"
  note p = parent_chain_result [OF assms(1,4)]
  note v = validated_chain [OF assms(5,6) p(1)]
  have new: "sv_hash prepared \<notin> chain_hashes d" if "d \<in> set (chain_set s)" for d
    using unknown_hash [OF assms(1,3) that] .
  then obtain cs where cs: "chain_set_insert c' (chain_set s) = Done cs"
    using chain_set_insert_total [OF leaf_comparable [OF assms(1) v(2)]] v(3) by auto
  note ins = chain_set_insert_sorted [OF cs] 
  have sorted: "sorted_wrt chain_less cs" "set cs = insert c' (set (chain_set s))"
    using ins assms(2) by (simp_all add: set_sorted_def)
  have "blocks d \<noteq> []" if "d \<in> set cs" for d using that sorted(2) v(2) assms(1) by (auto simp: leaves_ok_def)
  then have retain: "retain_outcome (not_tip ?parent) cs = Done (filter (\<lambda>d. chain_tip d \<noteq> ?parent) cs)"
    by (rule retain_not_tip)
  have "chain_tip c' \<noteq> ?parent" using new p(3,4) chain_tip_in [OF p(2)] v(3) by auto
  then have set: "set (filter (\<lambda>d. chain_tip d \<noteq> ?parent) cs) = insert c' {d \<in> set (chain_set s). chain_tip d \<noteq> ?parent}"
    using sorted(2) by auto
  have "leaves_ok env (insert c' {d \<in> set (chain_set s). chain_tip d \<noteq> ?parent})"
  proof (rule insert_leaf [OF _ v(1,2)])
    show "leaves_ok env {d \<in> set (chain_set s). chain_tip d \<noteq> ?parent}"
      by (rule leaves_ok_subset [OF assms(1)]) blast
    fix d assume "d \<in> {d \<in> set (chain_set s). chain_tip d \<noteq> ?parent}"
    then have d: "d \<in> set (chain_set s)" "chain_tip d \<noteq> ?parent" by auto
    have "chain_tip d \<noteq> sv_hash prepared" using new [OF d(1)] chain_tip_in [of d] d(1) assms(1) by (auto simp: leaves_ok_def)
    then show "chain_tip c' \<notin> chain_hashes d \<and> chain_tip d \<notin> chain_hashes c'"
      using new [OF d(1)] p(5) [OF d] v(3,4) by simp
  qed
  then show ?thesis
    using assms(4,5) cs retain sorted(1) set
    by (intro exI [of _ "s\<lparr>chain_set := pop_excess (filter (\<lambda>d. chain_tip d \<noteq> ?parent) cs)\<rparr>"]
        exI [of _ "filter (\<lambda>d. chain_tip d \<noteq> ?parent) cs"])
      (simp add: commit_block_def Let_def insert_with_def sorted_wrt_filter)
qed

lemma commit_new_chain_result:
  assumes "leaves_ok env (set (chain_set s))" and "set_sorted s" and "unknown_block (sv_hash prepared) s"
    and "finalized_tip_height db = Some h" and "h \<le> Height_MAX" and "vb_ok NonNegative (db_value_pool db)"
    and "new_chain_from_tip env db (nfs_network s) h = Done c"
    and "validate_and_commit env ce db c prepared s = Done (Inr c')" and "extends_parent env db prepared c"
  shows "\<exists>s' cs. commit_new_chain env ce db prepared s = Done (Inr s') \<and> chain_set s' = pop_excess cs \<and>
    sorted_wrt chain_less cs \<and> leaves_ok env (set cs) \<and> set cs = insert c' (set (chain_set s))"
proof -
  have c: "chain_inv env c" "blocks c = []"
    using chain_new_inv [OF assms(5,6)] assms(7) unfolding new_chain_from_tip_def by (metis outcome.inject)+
  note v = validated_chain [OF assms(8,9) c(1)]
  have new: "sv_hash prepared \<notin> chain_hashes d" if "d \<in> set (chain_set s)" for d
    using unknown_hash [OF assms(1,3) that] .
  then obtain cs where cs: "chain_set_insert c' (chain_set s) = Done cs"
    using chain_set_insert_total [OF leaf_comparable [OF assms(1) v(2)]] v(3) by auto
  have sorted: "sorted_wrt chain_less cs" "set cs = insert c' (set (chain_set s))"
    using chain_set_insert_sorted [OF cs] assms(2) by (simp_all add: set_sorted_def)
  have "leaves_ok env (insert c' (set (chain_set s)))"
  proof (rule insert_leaf [OF assms(1) v(1,2)])
    fix d assume d: "d \<in> set (chain_set s)"
    then have "chain_tip d \<in> chain_hashes d" using chain_tip_in assms(1) by (auto simp: leaves_ok_def)
    then show "chain_tip c' \<notin> chain_hashes d \<and> chain_tip d \<notin> chain_hashes c'"
      using new [OF d] v(3,4) c(2) by (simp add: chain_hashes_def [of c]) metis
  qed
  then show ?thesis
    using assms(4,7,8) cs sorted
    by (intro exI [of _ "s\<lparr>chain_set := pop_excess cs\<rparr>"] exI [of _ cs])
      (simp add: commit_new_chain_def nfs_insert_def insert_with_def)
qed

section \<open>Finalization\<close>

text \<open>The chain \<open>d\<close> is left of \<open>c\<close> when its root block is finalized.\<close>

definition popped :: "('t, 'h) chain_env \<Rightarrow> block_hash \<Rightarrow> ('t, 'h) chain \<Rightarrow> ('t, 'h) chain \<Rightarrow> bool" where
  "popped env root_hash c d \<longleftrightarrow>
     (\<exists>cv ts. pop_root env c = Done (cv, ts, d) \<and> cv_hash cv = root_hash \<and> blocks d \<noteq> [])"

lemma pop_root_result:
  assumes "chain_inv env c" and "blocks c \<noteq> []"
  obtains cv ts d h where "pop_root env c = Done (cv, ts, d)" "blocks c = (h, cv) # blocks d"
    "non_finalized_root_hash c = Done (cv_hash cv)" "blocks d \<noteq> [] \<Longrightarrow> chain_inv env d"
    "blocks d \<noteq> [] \<Longrightarrow> chain_tip d = chain_tip c" "chain_hashes d \<subseteq> chain_hashes c"
proof -
  obtain h cv bs where b: "blocks c = (h, cv) # bs" using assms(2) by (metis list.exhaust surj_pair)
  obtain ts d where d: "pop_root env c = Done (cv, ts, d)" "blocks d = bs" "bs \<noteq> [] \<longrightarrow> chain_inv env d"
    using pop_root_total [OF assms(1) b] by blast
  show thesis
    by (rule that [OF d(1)])
      (use b d in \<open>auto simp: non_finalized_root_hash_def chain_tip_def chain_hashes_def\<close>)
qed

lemma popped_leaf:
  assumes "leaves_ok env C" and "c \<in> C" and "popped env r c d"
  shows "chain_inv env d" "blocks d \<noteq> []" "chain_tip d = chain_tip c" "chain_hashes d \<subseteq> chain_hashes c"
proof -
  have "chain_inv env c" "blocks c \<noteq> []" using assms(1,2) by (simp_all add: leaves_ok_def)
  from pop_root_result [OF this] show "chain_inv env d" "blocks d \<noteq> []" "chain_tip d = chain_tip c"
    "chain_hashes d \<subseteq> chain_hashes c" using assms(3) unfolding popped_def by (metis outcome.inject prod.inject)+
qed

lemma popped_unique: "popped env r c d \<Longrightarrow> popped env r c d' \<Longrightarrow> d = d'"
  by (auto simp: popped_def)

lemma popped_leaves:
  assumes "leaves_ok env C" and "\<And>d. d \<in> D \<Longrightarrow> \<exists>c \<in> C. popped env r c d"
  shows "leaves_ok env D"
  unfolding leaves_ok_def
proof (intro conjI ballI impI)
  fix d assume "d \<in> D"
  then obtain c where c: "c \<in> C" "popped env r c d" using assms(2) by blast
  show "chain_inv env d" "blocks d \<noteq> []" using popped_leaf [OF assms(1) c] by blast+
  fix e assume "e \<in> D" "d \<noteq> e"
  then obtain c' where c': "c' \<in> C" "popped env r c' e" using assms(2) by blast
  then have "c \<noteq> c'" using c \<open>d \<noteq> e\<close> popped_unique by metis
  then have "chain_tip c \<notin> chain_hashes c'" using assms(1) c(1) c'(1) by (simp add: leaves_ok_def)
  then show "chain_tip d \<notin> chain_hashes e"
    using popped_leaf(3) [OF assms(1) c] popped_leaf(4) [OF assms(1) c'] by auto
qed

lemma pop_excess_id: "length cs \<le> MAX_NON_FINALIZED_CHAIN_FORKS \<Longrightarrow> pop_excess cs = cs"
  by (simp add: pop_excess_drop)

lemma nfs_insert_popped:
  assumes "leaves_ok env C" and "sorted_wrt chain_less (chain_set s)" and "length (chain_set s) < MAX_NON_FINALIZED_CHAIN_FORKS"
    and "\<And>d. d \<in> set (chain_set s) \<Longrightarrow> \<exists>c \<in> A. popped env r c d" and "A \<subseteq> C"
    and "c \<in> C" and "c \<notin> A" and "popped env r c d"
  shows "\<exists>s'. nfs_insert d s = Done s' \<and> sorted_wrt chain_less (chain_set s') \<and>
    length (chain_set s') = Suc (length (chain_set s)) \<and> set (chain_set s') = insert d (set (chain_set s)) \<and>
    s' = s\<lparr>chain_set := chain_set s'\<rparr>"
proof -
  note d = popped_leaf [OF assms(1,6,8)]
  have "\<exists>c \<in> C. popped env r c d" if "d \<in> set (chain_set s)" for d using assms(4) [OF that] assms(5) by auto
  then have "leaves_ok env (set (chain_set s))" by (rule popped_leaves [OF assms(1)])
  moreover have "chain_tip d \<notin> chain_hashes e" if e: "e \<in> set (chain_set s)" for e
  proof -
    obtain c' where c': "c' \<in> A" "popped env r c' e" using assms(4) [OF e] by blast
    then have "c' \<in> C" "c \<noteq> c'" using assms(5,7) by blast+
    moreover from this have "chain_tip c \<notin> chain_hashes c'" using assms(1,6) by (simp add: leaves_ok_def)
    ultimately show ?thesis using popped_leaf(4) [OF assms(1) _ c'(2)] d(3) by auto
  qed
  ultimately obtain cs where cs: "chain_set_insert d (chain_set s) = Done cs"
    using chain_set_insert_total [OF leaf_comparable [OF _ d(2)]] by blast
  then show ?thesis
    using chain_set_insert_sorted [OF cs assms(2)] assms(3)
    by (auto simp: nfs_insert_def insert_with_def pop_excess_id)
qed

lemma finalize_sides:
  assumes "leaves_ok env C" and "set sides \<subseteq> C" and "distinct sides" and "A \<subseteq> C" and "A \<inter> set sides = {}"
    and "b \<in> C" and "b \<notin> set sides" and "non_finalized_root_hash b = Done (cv_hash root)"
    and "sorted_wrt chain_less (chain_set s)"
    and "length (chain_set s) + length sides \<le> MAX_NON_FINALIZED_CHAIN_FORKS"
    and "set (chain_set s) = {d. \<exists>c \<in> A. popped env (cv_hash root) c d}"
  shows "\<exists>s'. updates (finalize_side_chain env root) sides s = Done s' \<and>
    set (chain_set s') = {d. \<exists>c \<in> A \<union> set sides. popped env (cv_hash root) c d} \<and> s' = s\<lparr>chain_set := chain_set s'\<rparr>"
  using assms
proof (induction sides arbitrary: A s)
  case Nil
  then show ?case by simp
next
  case (Cons c sides)
  have c: "c \<in> C" "chain_inv env c" "blocks c \<noteq> []" using Cons.prems(1,2) by (auto simp: leaves_ok_def)
  obtain cv ts d h where d: "pop_root env c = Done (cv, ts, d)" "blocks c = (h, cv) # blocks d"
    "non_finalized_root_hash c = Done (cv_hash cv)" by (rule pop_root_result [OF c(2,3)])
  have IH: ?case if "finalize_side_chain env root c s = Done s1" "sorted_wrt chain_less (chain_set s1)"
    "length (chain_set s1) \<le> Suc (length (chain_set s))"
    "set (chain_set s1) = {d. \<exists>c \<in> insert c A. popped env (cv_hash root) c d}" "s1 = s\<lparr>chain_set := chain_set s1\<rparr>" for s1
  proof -
    have "\<exists>s'. updates (finalize_side_chain env root) sides s1 = Done s' \<and>
      set (chain_set s') = {d. \<exists>c \<in> insert c A \<union> set sides. popped env (cv_hash root) c d} \<and>
      s' = s1\<lparr>chain_set := chain_set s'\<rparr>"
      by (rule Cons.IH) (use Cons.prems that in auto)
    then obtain s' where s': "updates (finalize_side_chain env root) sides s1 = Done s'"
      "set (chain_set s') = {d. \<exists>c \<in> insert c A \<union> set sides. popped env (cv_hash root) c d}"
      "s' = s1\<lparr>chain_set := chain_set s'\<rparr>" by blast
    have "s' = s\<lparr>chain_set := chain_set s'\<rparr>" using s'(3) that(5) by (metis non_finalized_state.update_convs(1) non_finalized_state.surjective)
    then show ?thesis using s'(1,2) that(1) by (intro exI [of _ s']) auto
  qed
  show ?case
  proof (cases "cv_hash cv = cv_hash root")
    case False
    then have "\<not> popped env (cv_hash root) c e" for e using d(1) by (auto simp: popped_def)
    then show ?thesis using False d(3) Cons.prems(9,11) by (intro IH [of s]) (auto simp: finalize_side_chain_def)
  next
    case True
    have "blocks d \<noteq> []"
    proof
      assume "blocks d = []"
      then have "chain_tip c = cv_hash root" using d(2) True by (simp add: chain_tip_def)
      moreover have "cv_hash root \<in> chain_hashes b"
        using Cons.prems(8) by (cases "blocks b") (auto simp: non_finalized_root_hash_def chain_hashes_def)
      ultimately show False using Cons.prems(1,6,7) c(1) unfolding leaves_ok_def by (metis list.set_intros(1))
    qed
    then have p: "popped env (cv_hash root) c d" using d(1) True by (auto simp: popped_def)
    have "\<exists>s1. nfs_insert d s = Done s1 \<and> sorted_wrt chain_less (chain_set s1) \<and>
      length (chain_set s1) = Suc (length (chain_set s)) \<and> set (chain_set s1) = insert d (set (chain_set s)) \<and>
      s1 = s\<lparr>chain_set := chain_set s1\<rparr>"
      by (rule nfs_insert_popped [OF Cons.prems(1,9), where A = A and c = c])
        (use Cons.prems(2,4,5,10,11) p in auto)
    then obtain s1 where s1: "nfs_insert d s = Done s1" "sorted_wrt chain_less (chain_set s1)"
      "length (chain_set s1) = Suc (length (chain_set s))" "set (chain_set s1) = insert d (set (chain_set s))"
      "s1 = s\<lparr>chain_set := chain_set s1\<rparr>" by blast
    have "{e. \<exists>c \<in> insert c A. popped env (cv_hash root) c e} = insert d {e. \<exists>c \<in> A. popped env (cv_hash root) c e}"
      using p popped_unique by blast
    then show ?thesis
      using s1 d(1,3) True Cons.prems(11) by (intro IH [of s1]) (simp_all add: finalize_side_chain_def)
  qed
qed

text \<open>
  Finalization on such a state: the root of the best chain is returned, and the new chains are exactly what is
  left of the chains that start with it.
\<close>

lemma sorted_distinct: "sorted_wrt chain_less cs \<Longrightarrow> distinct cs"
  by (induction cs) auto

lemma finalize_total:
  assumes "leaves_ok env (set (chain_set s))" and "set_sorted s" and "chain_set s \<noteq> []"
  shows "\<exists>root ts s' h bs. finalize env s = Done (root, ts, s') \<and> blocks (last (chain_set s)) = (h, root) # bs \<and>
    set (chain_set s') = {d. \<exists>c \<in> set (chain_set s). popped env (cv_hash root) c d}"
proof -
  let ?b = "last (chain_set s)" and ?sides = "rev (butlast (chain_set s))" and ?C = "set (chain_set s)"
  have split: "chain_set s = butlast (chain_set s) @ [?b]" using assms(3) by simp
  have distinct: "distinct (chain_set s)"
    using assms(2) by (intro sorted_distinct) (simp add: set_sorted_def)
  have b: "?b \<in> ?C" "chain_inv env ?b" "blocks ?b \<noteq> []" using assms(1,3) by (simp_all add: leaves_ok_def)
  obtain root ts best h where r: "pop_root env ?b = Done (root, ts, best)" "blocks ?b = (h, root) # blocks best"
    "non_finalized_root_hash ?b = Done (cv_hash root)" by (rule pop_root_result [OF b(2,3)])
  have pop: "popped env (cv_hash root) ?b d \<longleftrightarrow> d = best \<and> blocks best \<noteq> []" for d using r(1) by (auto simp: popped_def)
  let ?s0 = "s\<lparr>chain_set := []\<rparr>" and ?s1 = "s\<lparr>chain_set := if blocks best = [] then [] else [best]\<rparr>"
  have s1: "(if chain_is_empty best then Done ?s0 else nfs_insert best ?s0) = Done ?s1"
    by (simp add: chain_is_empty_def nfs_insert_def insert_with_def pop_excess_id MAX_NON_FINALIZED_CHAIN_FORKS_def)
  have "\<exists>s'. updates (finalize_side_chain env root) ?sides ?s1 = Done s' \<and>
    set (chain_set s') = {d. \<exists>c \<in> {?b} \<union> set ?sides. popped env (cv_hash root) c d} \<and> s' = ?s1\<lparr>chain_set := chain_set s'\<rparr>"
  proof (rule finalize_sides [OF assms(1) _ _ _ _ b(1) _ r(3)])
    show "set ?sides \<subseteq> ?C" by (auto dest: in_set_butlastD)
    show "distinct ?sides" "{?b} \<inter> set ?sides = {}" "?b \<notin> set ?sides"
      using distinct by (subst (asm) split, simp)+
    show "{?b} \<subseteq> ?C" using b(1) by simp
    show "sorted_wrt chain_less (chain_set ?s1)" by simp
    show "length (chain_set ?s1) + length ?sides \<le> MAX_NON_FINALIZED_CHAIN_FORKS"
      using assms(2,3) by (cases "chain_set s") (auto simp: set_sorted_def)
    show "set (chain_set ?s1) = {d. \<exists>c \<in> {?b}. popped env (cv_hash root) c d}" using pop by auto
  qed
  then obtain s2 where s2: "updates (finalize_side_chain env root) ?sides ?s1 = Done s2"
    "set (chain_set s2) = {d. \<exists>c \<in> {?b} \<union> set ?sides. popped env (cv_hash root) c d}" by blast
  have "{?b} \<union> set ?sides = ?C" by (subst (3) split) auto
  then show ?thesis
    using assms(3) r(1,2) s1 s2 by (simp add: finalize_def)
qed

end
