(* ===== verification/Chain_Theorems.thy ===== *)
theory Chain_Theorems
  imports Chain_Forks
begin

text \<open>
  What the operations of \<open>Chain\<close> guarantee on every chain that the program can build, and a small
  chain on which the theorems are applied: its note commitment trees are byte strings that are their own
  root, a tree of two notes completes a subtree, and each block has one transaction with one transparent and one
  Sapling output.
\<close>

section \<open>A small chain\<close>

definition sample_tree_ops :: "byte list tree_ops" where
  "sample_tree_ops = \<lparr>tree_root = (\<lambda>t. t), tree_append = (\<lambda>t n. Some (t @ n)),
     completed_subtree_index_and_root = (\<lambda>t. if length t = 2 then Some (0, t) else None)\<rparr>"

definition sample_chain_env :: "(byte list, nat) chain_env" where
  "sample_chain_env = \<lparr>pool_ops = \<lparr>sprout_ops = sample_tree_ops, sapling_ops = sample_tree_ops, orchard_ops = sample_tree_ops\<rparr>,
     history_push = (\<lambda>_ n _ _ _. Some (Suc n)),
     output_address = (\<lambda>_ _. Some (PayToScriptHash TestnetKind [])), block_size = (\<lambda>_. 1000)\<rparr>"

definition sample_note_tx :: "height \<Rightarrow> transaction" where
  "sample_note_tx h =
     V5 Nu5 unlocked 0 [Coinbase h [] 0] [sample_output 5]
       (Some \<lparr>sapling_value = Amount 0,
              transfers = JustOutputs
                [\<lparr>out_cv = [], cm_u = [of_nat h], out_ephemeral_key = [], out_enc_ciphertext = [],
                  out_out_ciphertext = [], out_zkproof = []\<rparr>],
              sapling_sig = []\<rparr>) None"

definition sample_chain_block :: "height \<Rightarrow> contextually_verified_block" where
  "sample_chain_block h =
     \<lparr>cv_block = \<lparr>block_header = sample_header\<lparr>previous_block_hash := [of_nat h - 1]\<rparr>, transactions = [sample_note_tx h]\<rparr>,
      cv_hash = [of_nat h], cv_height = h,
      cv_new_outputs = [OutPoint [of_nat h] 0 \<mapsto> ordered_utxo_new (sample_output 5) h 0],
      cv_spent_outputs = [OutPoint [of_nat h] 0 \<mapsto> ordered_utxo_new (sample_output 5) h 0],
      cv_transaction_hashes = [[of_nat h]],
      cv_chain_value_pool_change = pools_of 5 0 0 0\<rparr>"

lemma sample_chain_block_fields [simp]:
  "cv_hash (sample_chain_block h) = [of_nat h]" "cv_height (sample_chain_block h) = h"
  "cv_new_outputs (sample_chain_block h) = [OutPoint [of_nat h] 0 \<mapsto> ordered_utxo_new (sample_output 5) h 0]"
  "cv_spent_outputs (sample_chain_block h) = [OutPoint [of_nat h] 0 \<mapsto> ordered_utxo_new (sample_output 5) h 0]"
  "cv_transaction_hashes (sample_chain_block h) = [[of_nat h]]"
  "cv_chain_value_pool_change (sample_chain_block h) = pools_of 5 0 0 0"
  "transactions (cv_block (sample_chain_block h)) = [sample_note_tx h]"
  by (simp_all add: sample_chain_block_def)

lemma sample_work: "to_work (CompactDifficulty 0x1f07ffff) = Done (Some (Work 8192))"
proof -
  have "to_expanded (CompactDifficulty 0x1f07ffff) = Done (Some (0x7ffff * 256 ^ 28))"
    by (simp add: to_expanded_target compact_target_def valid_target_def bit_iff_odd)
  then show ?thesis using work_try_from_exact [of "0x7ffff * 256 ^ 28"] by (simp add: to_work_def)
qed

lemma sample_block_work: "block_work (cv_block (sample_chain_block h)) = Done (Work 8192)"
  by (simp add: block_work_def sample_chain_block_def sample_header_def sample_work Let_def)



lemma sample_created:
  "0 \<le> v \<Longrightarrow> v \<le> 100 \<Longrightarrow> tt_balance t = Amount v \<Longrightarrow> map_of (tt_created_utxos t) ((h, 0), 0) = None \<Longrightarrow>
   transfers_add_created (OutPoint hash 0) (ordered_utxo_new (sample_output 5) h 0) t =
     Done (t\<lparr>tt_balance := Amount (v + 5), tt_created_utxos := btree_insert ((h, 0), 0) (sample_output 5) (tt_created_utxos t),
             tt_tx_ids := add_mset hash (tt_tx_ids t)\<rparr>)"
  using transfer_update_Done_iff [of t "Received (OutPoint hash 0) (ordered_utxo_new (sample_output 5) h 0)"]
  by (simp add: transfer_typed_def ordered_utxo_new_def utxo_new_def sample_output_def MAX_MONEY_value transfer_location_def)



abbreviation sample_address :: transparent_address where
  "sample_address \<equiv> PayToScriptHash TestnetKind []"

definition sample_transfers :: "height \<Rightarrow> transparent_transfers \<Rightarrow> transparent_transfers" where
  "sample_transfers h t = t\<lparr>tt_balance := Amount (zatoshis (tt_balance t) + 5),
     tt_created_utxos := btree_insert ((h, 0), 0) (sample_output 5) (tt_created_utxos t),
     tt_tx_ids := add_mset [of_nat h] (tt_tx_ids t)\<rparr>"

definition sample_items :: "height \<Rightarrow> (byte list, nat) chain \<Rightarrow> (byte list, nat) chain" where
  "sample_items h c = c\<lparr>tx_loc_by_hash := (tx_loc_by_hash c)([of_nat h] \<mapsto> (h, 0)),
     created_utxos := (created_utxos c)(OutPoint [of_nat h] 0 \<mapsto> ordered_utxo_new (sample_output 5) h 0),
     partial_transparent_transfers := (partial_transparent_transfers c)(sample_address \<mapsto>
       sample_transfers h (index_view (partial_transparent_transfers c) sample_address))\<rparr>"

definition sample_new :: "height \<Rightarrow> (byte list, nat) chain \<Rightarrow> bool" where
  "sample_new h c \<longleftrightarrow> tx_loc_by_hash c [of_nat h] = None \<and>
     created_utxos c (OutPoint [of_nat h] 0) = None \<and>
     zatoshis (tt_balance (index_view (partial_transparent_transfers c) sample_address)) \<in> {0..100} \<and>
     map_of (tt_created_utxos (index_view (partial_transparent_transfers c) sample_address)) ((h, 0), 0) = None"

lemma sample_transactions:
  assumes "sample_new h c"
  shows "update_with_transaction sample_chain_env h [OutPoint [of_nat h] 0 \<mapsto> ordered_utxo_new (sample_output 5) h 0]
    m 0 (sample_note_tx h) [of_nat h] c = Done (Inr (sample_items h c))"
proof -
  let ?t = "index_view (partial_transparent_transfers c) sample_address"
  have "transfers_add_created (OutPoint [of_nat h] 0) (ordered_utxo_new (sample_output 5) h 0) ?t =
      Done (sample_transfers h ?t)"
    using sample_created [of "zatoshis (tt_balance ?t)" ?t h "[of_nat h]"] assms
    by (simp add: sample_new_def sample_transfers_def)
  then show ?thesis
    using assms
    by (simp add: update_with_transaction_def sample_note_tx_def transaction_location_from_usize_def insert_new_def
        sample_new_def update_created_output_def outpoint_from_usize_def u32_try_from_def in_u32_def index_update_def
        sample_chain_env_def update_spending_input_def sprout_nullifiers_def over_joinsplit_data_def
        orchard_nullifiers_def over_orchard_data_def sample_items_def)
qed

lemma sample_trees:
  "update_trees_parallel (pool_ops sample_chain_env) (cv_block (sample_chain_block h)) nct =
     Done (Inr (nct\<lparr>nct_sapling := nct_sapling nct @ [of_nat h],
       nct_sapling_subtree := (if length (nct_sapling nct) = 1 then
         Some \<lparr>subtree_index = 0, subtree_root = nct_sapling nct @ [of_nat h], subtree_end_height = h\<rparr> else None)\<rparr>))"
  by (simp add: update_trees_parallel_def sample_chain_block_def coinbase_height_def block_sprout_note_commitments_def
      block_sapling_note_commitments_def block_orchard_note_commitments_def sprout_note_commitments_def
      sapling_note_commitments_def orchard_note_commitments_def update_sapling_note_commitment_tree_def
      sample_note_tx_def over_joinsplit_data_def over_orchard_data_def sample_chain_env_def sample_tree_ops_def new_subtree_def)



lemma sample_pool_change:
  "0 \<le> v \<Longrightarrow> v \<le> 100 \<Longrightarrow>
   add_chain_value_pool_change (pools_of v 0 0 0) (pools_of 5 0 0 0) = Done (Inr (pools_of (v + 5) 0 0 0))"
  using add_change_cases [of "pools_of v 0 0 0" "pools_of 5 0 0 0"]
  by (simp add: vb_ok_def pools_def pools_of_def vb_plus_def amount_plus_def amount_ok_def MAX_MONEY_value)

definition sample_value_state :: "height \<Rightarrow> (byte list, nat) chain \<Rightarrow> (byte list, nat) chain" where
  "sample_value_state h c =
     (let v = zatoshis (transparent (chain_value_pools c)) + 5 in
      (sample_items h c)\<lparr>height_by_hash := (height_by_hash c)([of_nat h] \<mapsto> h),
        partial_cumulative_work := PartialCumulativeWork (cumulative (partial_cumulative_work c) + 8192),
        chain_value_pools := pools_of v 0 0 0,
        block_info_by_height := btree_insert h \<lparr>info_value_pools = pools_of v 0 0 0, info_size = 1000\<rparr> (block_info_by_height c)\<rparr>)"

lemma sample_except_trees:
  assumes "sample_new h c" and "height_by_hash c [of_nat h] = None" and "cumulative (partial_cumulative_work c) \<le> 100000"
    and "chain_value_pools c = pools_of v 0 0 0" and "0 \<le> v" and "v \<le> 100"
  shows "update_chain_tip_with_block_except_trees sample_chain_env (sample_chain_block h) c =
    Done (Inr (sample_value_state h c))"
proof -
  let ?c = "c\<lparr>height_by_hash := (height_by_hash c)([of_nat h] \<mapsto> h),
    partial_cumulative_work := PartialCumulativeWork (cumulative (partial_cumulative_work c) + 8192)\<rparr>"
  have "update_with_transaction sample_chain_env h [OutPoint [of_nat h] 0 \<mapsto> ordered_utxo_new (sample_output 5) h 0]
    [OutPoint [of_nat h] 0 \<mapsto> ordered_utxo_new (sample_output 5) h 0] 0 (sample_note_tx h) [of_nat h] ?c = Done (Inr (sample_items h ?c))"
    using assms(1) by (intro sample_transactions) (simp add: sample_new_def)
  moreover have "block_size sample_chain_env b = 1000" for b by (simp add: sample_chain_env_def)
  ultimately show ?thesis
    using assms sample_pool_change [OF assms(5,6)]
    by (simp add: update_chain_tip_with_block_except_trees_def sample_block_work insert_new_def cumulative_add_def
        sample_new_def try_bind_def update_value_pools_def sample_value_state_def sample_items_def pools_of_def Let_def)
qed


definition sample_pool :: "height \<Rightarrow> byte list \<Rightarrow> byte list pool_index \<Rightarrow> byte list pool_index" where
  "sample_pool h t idx = idx\<lparr>
     trees_by_height := (if t = snd (last (trees_by_height idx)) then trees_by_height idx else trees_by_height idx @ [(h, t)]),
     anchors := add_mset t (anchors idx), anchors_by_height := anchors_by_height idx @ [(h, t)]\<rparr>"

definition sample_pool_at :: "height \<Rightarrow> byte list pool_index \<Rightarrow> bool" where
  "sample_pool_at h idx \<longleftrightarrow> 0 < h \<and> trees_by_height idx \<noteq> [] \<and> (\<forall>k \<in> fst ` set (trees_by_height idx). k < h) \<and>
     (\<forall>k \<in> fst ` set (anchors_by_height idx). k < h)"

lemma sample_add_tree:
  assumes "sample_pool_at h idx" and "h \<le> 100"
  shows "add_tree_and_anchor sample_tree_ops h t idx = Done (sample_pool h t idx)"
proof -
  have "h \<noteq> 0" using assms(1) by (auto simp: sample_pool_at_def)
  moreover have "filter (\<lambda>(k, _). k \<le> h - 1) (trees_by_height idx) = trees_by_height idx"
    using assms(1) by (force simp: sample_pool_at_def filter_id_conv)
  moreover have "map_of (trees_by_height idx) h = None" "map_of (anchors_by_height idx) h = None"
    using assms(1) by (auto simp: sample_pool_at_def map_of_eq_None_iff)
  ultimately show ?thesis
    using assms by (auto simp: add_tree_and_anchor_def height_is_min_def Height_MIN_def height_previous_ok Height_MAX_value
        tree_at_def btree_insert_new_def btree_insert_last sample_pool_at_def sample_pool_def sample_tree_ops_def Let_def)
qed

definition sample_pushed :: "height \<Rightarrow> (byte list, nat) chain \<Rightarrow> (byte list, nat) chain" where
  "sample_pushed h c =
     (let t = snd (last (trees_by_height (sapling_index c))) @ [of_nat h]
      in (sample_value_state h c)\<lparr>
        sprout_index := sample_pool h (snd (last (trees_by_height (sprout_index c)))) (sprout_index c),
        sprout_trees_by_anchor := (sprout_trees_by_anchor c)
          (snd (last (trees_by_height (sprout_index c))) \<mapsto> snd (last (trees_by_height (sprout_index c)))),
        sapling_index := sample_pool h t (sapling_index c),
        orchard_index := sample_pool h (snd (last (trees_by_height (orchard_index c)))) (orchard_index c),
        sapling_subtrees := (if length t = 2 then
          insert_subtree (Some \<lparr>subtree_index = 0, subtree_root = t, subtree_end_height = h\<rparr>) (sapling_subtrees c)
          else sapling_subtrees c),
        history_trees_by_height := btree_insert h (Suc (snd (last (history_trees_by_height c)))) (history_trees_by_height c),
        blocks := btree_insert h (sample_chain_block h) (blocks c)\<rparr>)"

definition sample_ready :: "height \<Rightarrow> (byte list, nat) chain \<Rightarrow> bool" where
  "sample_ready h c \<longleftrightarrow> sample_new h c \<and> height_by_hash c [of_nat h] = None \<and>
     cumulative (partial_cumulative_work c) \<le> 100000 \<and>
     (\<exists>v. chain_value_pools c = pools_of v 0 0 0 \<and> 0 \<le> v \<and> v \<le> 100) \<and>
     sample_pool_at h (sprout_index c) \<and> sample_pool_at h (sapling_index c) \<and> sample_pool_at h (orchard_index c) \<and>
     history_trees_by_height c \<noteq> [] \<and> map_of (history_trees_by_height c) h = None \<and> h \<le> 100 \<and>
     orchard_subtrees c = []"

lemma sample_push:
  assumes "sample_ready h c"
  shows "push sample_chain_env (sample_chain_block h) c = Done (Inr (sample_pushed h c))"
proof -
  from assms obtain v where v: "chain_value_pools c = pools_of v 0 0 0" "0 \<le> v" "v \<le> 100"
    by (auto simp: sample_ready_def)
  have except: "update_chain_tip_with_block_except_trees sample_chain_env (sample_chain_block h) c =
    Done (Inr (sample_value_state h c))"
    using assms v by (intro sample_except_trees) (simp_all add: sample_ready_def)
  have ops: "sprout_ops (pool_ops sample_chain_env) = sample_tree_ops" "sapling_ops (pool_ops sample_chain_env) = sample_tree_ops"
    "orchard_ops (pool_ops sample_chain_env) = sample_tree_ops" "history_push sample_chain_env net n b x y = Some (Suc n)"
    "tree_root sample_tree_ops t = t" for net n b x y t
    by (simp_all add: sample_chain_env_def sample_tree_ops_def)
  have state: "sprout_index (sample_value_state h c) = sprout_index c" "sapling_index (sample_value_state h c) = sapling_index c"
    "orchard_index (sample_value_state h c) = orchard_index c" "orchard_subtrees (sample_value_state h c) = orchard_subtrees c"
    "history_trees_by_height (sample_value_state h c) = history_trees_by_height c" "blocks (sample_value_state h c) = blocks c"
    "sprout_trees_by_anchor (sample_value_state h c) = sprout_trees_by_anchor c"
    "sapling_subtrees (sample_value_state h c) = sapling_subtrees c"
    by (simp_all add: sample_value_state_def sample_items_def Let_def)
  have pools: "sample_pool_at h (sprout_index c)" "sample_pool_at h (sapling_index c)" "sample_pool_at h (orchard_index c)"
    "h \<le> 100" "history_trees_by_height c \<noteq> []" "map_of (history_trees_by_height c) h = None" "orchard_subtrees c = []"
    using assms by (simp_all add: sample_ready_def)
  have trees: "trees_by_height (sprout_index c) \<noteq> []" "trees_by_height (sapling_index c) \<noteq> []"
    "trees_by_height (orchard_index c) \<noteq> []" "trees_by_height idx \<noteq> [] \<Longrightarrow> trees_by_height (sample_pool h t idx) \<noteq> []" for t idx
    using pools by (auto simp: sample_pool_at_def sample_pool_def)
  show ?thesis
    using pools trees
    by (simp add: push_def update_chain_tip_with_block_parallel_def tree_for_tip_def sample_trees except
        add_sprout_tree_and_anchor_def add_sapling_tree_and_anchor_def add_orchard_tree_and_anchor_def ops state sample_ready_def
        sample_add_tree sample_pushed_def history_block_commitment_tree_def add_history_tree_def btree_insert_new_def
        subtree_for_tip_def subtree_at_def insert_subtree_def Let_def)
qed


lemma sample_block_items:
  "block_items sample_chain_env net (sample_chain_block h) =
     [TxItem [of_nat h] (h, 0), CreatedItem (OutPoint [of_nat h] 0) (ordered_utxo_new (sample_output 5) h 0),
      TransferItem sample_address (Received (OutPoint [of_nat h] 0) (ordered_utxo_new (sample_output 5) h 0))]"
  by (simp add: block_items_def tx_update_items_def output_items_def input_items_def sample_note_tx_def
      sprout_nullifiers_def over_joinsplit_data_def orchard_nullifiers_def over_orchard_data_def sample_chain_env_def Let_def)

definition sample_base :: "(byte list, nat) chain" where
  "sample_base = \<lparr>chain_network = Mainnet, blocks = [], height_by_hash = Map.empty, tx_loc_by_hash = Map.empty,
     created_utxos = Map.empty, spent_utxos = Map.empty, sprout_trees_by_anchor = [[] \<mapsto> []],
     sprout_index = \<lparr>trees_by_height = [(1, [])], anchors = {#[]#}, anchors_by_height = [(1, [])]\<rparr>,
     sapling_index = \<lparr>trees_by_height = [(1, [])], anchors = {#[]#}, anchors_by_height = [(1, [])]\<rparr>,
     orchard_index = \<lparr>trees_by_height = [(1, [])], anchors = {#[]#}, anchors_by_height = [(1, [])]\<rparr>,
     history_trees_by_height = [(1, 0)], sapling_subtrees = [], orchard_subtrees = [],
     chain_sprout_nullifiers = Map.empty, chain_sapling_nullifiers = Map.empty,
     chain_orchard_nullifiers = Map.empty, partial_transparent_transfers = Map.empty,
     partial_cumulative_work = cumulative_zero, chain_value_pools = pools_of 0 0 0 0,
     block_info_by_height = [], last_fork_height = None\<rparr>"

lemma sample_base_new: "chain_new sample_chain_env Mainnet 1 [] [] [] 0 (pools_of 0 0 0 0) = Done sample_base"
  by (simp add: sample_base_def chain_new_def add_sprout_tree_and_anchor_def add_sapling_tree_and_anchor_def
      add_orchard_tree_and_anchor_def add_first_tree Height_MAX_value add_history_tree_def btree_insert_new_def
      sample_chain_env_def sample_tree_ops_def)

abbreviation sample_chain :: "(byte list, nat) chain" where
  "sample_chain \<equiv> sample_pushed 2 sample_base"

lemmas sample_pushed_defs = sample_pushed_def sample_value_state_def sample_items_def sample_transfers_def
  sample_pool_def sample_base_def Let_def

lemma sample_pushes:
  "push sample_chain_env (sample_chain_block 2) sample_base = Done (Inr sample_chain)"
  "push sample_chain_env (sample_chain_block 3) sample_chain = Done (Inr (sample_pushed 3 sample_chain))"
proof -
  have "sample_ready 2 sample_base"
    by (simp add: sample_ready_def sample_new_def sample_base_def transfers_default_def cumulative_zero_def
        sample_pool_at_def pools_of_def)
  then show "push sample_chain_env (sample_chain_block 2) sample_base = Done (Inr sample_chain)" by (rule sample_push)
  have "sample_ready 3 sample_chain"
    by (simp add: sample_ready_def sample_new_def sample_pushed_defs transfers_default_def cumulative_zero_def
        sample_pool_at_def pools_of_def)
  then show "push sample_chain_env (sample_chain_block 3) sample_chain = Done (Inr (sample_pushed 3 sample_chain))"
    by (rule sample_push)
qed

lemma sample_extends:
  "extends_tip sample_chain_env (sample_chain_block 2) sample_base"
  "extends_tip sample_chain_env (sample_chain_block 3) sample_chain"
  by (simp_all add: extends_tip_def sample_pushed_defs blocks_items_def sample_block_items Height_MAX_value
      vb_ok_pools_of MAX_MONEY_value items_ok_def index_ok_def no_items_def transfers_default_def ordered_utxo_new_def
      utxo_new_def sample_output_def moved_value_def item_transfers_def)

lemma sample_reachable: "reachable_chain sample_chain_env sample_chain"
proof (rule reachable_chain.first_block [OF sample_base_new _ _ sample_extends(1) sample_pushes(1)])
  show "vb_ok NonNegative (pools_of 0 0 0 0)" by (simp add: vb_ok_def pools_def pools_of_def amount_ok_def MAX_MONEY_value)
qed (simp add: Height_MAX_value)


section \<open>Theorems\<close>






lemma sample_extended: "extended sample_chain_env sample_chain [sample_chain_block 3] (sample_pushed 3 sample_chain)"
  using extended.one_more [OF extended.no_blocks sample_extends(2) sample_pushes(2)] by simp


text \<open>C35. A forked chain keeps the subtrees of the blocks that were removed. When a pushed block completed a Sapling
  subtree and the chain is forked at the parent of that block, the forked chain does not have the block, but it still
  has the subtree that ends at its height.\<close>

theorem fork_keeps_removed_subtree:
  assumes "chain_inv env c" and "blocks c \<noteq> []" and "extends_tip env cv c" and "push env cv c = Done (Inr c')"
    and "non_finalized_tip_hash c = Done hash" and "(i, data) \<in> set (sapling_subtrees c')"
    and "sd_end_height data = cv_height cv"
  shows "\<exists>forked. fork env hash c' = Done (Some forked) \<and> map_of (blocks forked) (cv_height cv) = None \<and>
    (i, data) \<in> set (sapling_subtrees forked)"
proof -
  have ext: "extended env c [cv] c'" using extended.one_more [OF extended.no_blocks assms(3,4)] by simp
  have inv: "chain_inv env c'" and sub: "set (blocks c) \<subseteq> set (blocks c')" using extended_inv [OF ext assms(1)] by blast+
  obtain h b where hb: "last (blocks c) = (h, b)" by (cases "last (blocks c)")
  then have "(h, b) \<in> set (blocks c')" "cv_hash b = hash"
    using sub assms(2,5) last_in_set [OF assms(2)] by (auto simp: non_finalized_tip_hash_def tip_block_def)
  then have "height_by_hash c' hash = Some h" using inv unfolding chain_inv_def blocks_ok_def by blast
  from fork_total [OF inv this] obtain forked where f: "fork env hash c' = Done (Some forked)"
    "blocks forked = filter (\<lambda>(k, _). k \<le> h) (blocks c')" by blast
  have "h < cv_height cv" using assms(2,3) hb by (simp add: extends_tip_def)
  then have "map_of (blocks forked) (cv_height cv) = None" using f(2) by (auto simp: map_of_eq_None_iff)
  moreover have "fork_loop env hash c' = Done forked" using f(1) by (auto simp: fork_def run_bind_Done_iff split: if_splits)
  then have "sapling_subtrees forked = sapling_subtrees c'" using fork_loop_subtrees by blast
  ultimately show ?thesis using f(1) assms(6) by auto
qed

theorem fork_keeps_removed_subtree_witness:
  "\<exists>forked. fork sample_chain_env [2] (sample_pushed 3 sample_chain) = Done (Some forked) \<and>
     map_of (blocks forked) 3 = None \<and> (0, \<lparr>sd_root = [2, 3], sd_end_height = 3\<rparr>) \<in> set (sapling_subtrees forked)"
proof -
  have "non_finalized_tip_hash sample_chain = Done [2]" "blocks sample_chain \<noteq> []"
    "(0, \<lparr>sd_root = [2, 3], sd_end_height = 3\<rparr>) \<in> set (sapling_subtrees (sample_pushed 3 sample_chain))"
    by (simp_all add: non_finalized_tip_hash_def tip_block_def sample_pushed_defs insert_subtree_def into_data_def)
  moreover have "chain_inv sample_chain_env sample_chain" using reachable_chain_inv [OF sample_reachable] by blast
  ultimately show ?thesis
    using fork_keeps_removed_subtree [OF _ _ sample_extends(2) sample_pushes(2), of "[2]" 0] by simp
qed

end
