(* ===== verification/State_Theorems.thy ===== *)
theory State_Theorems
  imports Chain_Leaves Chain_Theorems
begin

text \<open>
  What the non-finalized state guarantees: the order and the number of its chains after any operations, the results of
  commits and of finalization on states that are built by them, and three defects of invalidation. The
  theorems are applied to a small state with the blocks of \<open>Chain_Theorems\<close>.
\<close>

section \<open>A small state\<close>

definition sample_prepared :: "height \<Rightarrow> semantically_verified_block" where
  "sample_prepared h =
     \<lparr>sv_block = cv_block (sample_chain_block h), sv_hash = [of_nat h], sv_height = h,
      sv_new_outputs = cv_new_outputs (sample_chain_block h), sv_transaction_hashes = [[of_nat h]],
      sv_deferred_pool_balance_change = None\<rparr>"

definition sample_db :: "(byte list, nat) zebra_db" where
  "sample_db =
     \<lparr>db_network = Mainnet, db_finalized_tip = Some (1, [1]), db_utxo = Map.empty, db_height = Map.empty,
      db_block = Map.empty, db_contains_sprout_nullifier = (\<lambda>_. False), db_contains_sapling_nullifier = (\<lambda>_. False),
      db_contains_orchard_nullifier = (\<lambda>_. False), db_contains_sapling_anchor = (\<lambda>_. False),
      db_contains_orchard_anchor = (\<lambda>_. False), db_sprout_tree_by_anchor = Map.empty, db_sprout_tree = [],
      db_sapling_tree = [], db_orchard_tree = [], db_history_tree = 0, db_value_pool = pools_of 0 0 0 0\<rparr>"

definition sample_commitment_env :: "nat commitment_env" where
  "sample_commitment_env =
     \<lparr>ce_sha256d = (\<lambda>_. []), ce_blake2b = (\<lambda>_ _. []), ce_sapling_root_ok = (\<lambda>_. True), ce_auth_digest = (\<lambda>_. []),
      ce_history_hash = (\<lambda>_. None)\<rparr>"

lemma sample_spends: "transparent_spend (sample_prepared h) c db = Done (Inr [])"
  by (simp add: transparent_spend_def sample_prepared_def sample_note_tx_def map_filter_simps is_coinbase_def)

lemma sample_anchors: "block_sapling_orchard_anchors_refer_to_final_treestates db c (sample_prepared h) = Done (Inr ())"
  by (simp add: block_sapling_orchard_anchors_refer_to_final_treestates_def sample_prepared_def sample_note_tx_def
      slice_get_def sapling_orchard_anchors_refer_to_final_treestates_def sapling_anchors_def td_spends_per_anchor_def)

lemma sample_tx_balance: "value_balance_from_outputs (sample_note_tx h) outputs = Done (Inr (pools_of (-5) 0 0 0))"
proof -
  have t: "tx_inputs (sample_note_tx h) = [Coinbase h [] 0]" "tx_outputs (sample_note_tx h) = [sample_output 5]"
    "sprout_joinsplits (sample_note_tx h) = []" "tx_sapling_value (sample_note_tx h) = Done (Amount 0)"
    "tx_orchard_shielded_data (sample_note_tx h) = None"
    by (simp_all add: sample_note_tx_def sprout_joinsplits_def over_joinsplit_data_def)
  have "tx_values_ok (sample_note_tx h)"
    by (simp add: tx_values_ok_def t sample_output_def amount_ok_def MAX_MONEY_value)
  moreover have "inputs_known (sample_note_tx h) outputs"
    by (simp add: inputs_known_def spent_outpoints_def t map_filter_simps)
  ultimately show ?thesis
    using value_balance_cases [of "sample_note_tx h" outputs]
    by (simp add: balance_in_range_def total_in_def total_out_def t input_zatoshis_def sample_output_def MAX_MONEY_value
        prefixes_in_range_def sprout_changes_def tx_pools_def sapling_change_def orchard_change_def)
qed

lemma sample_contextual: "with_block_and_spent_utxos (sample_prepared h) [] = Done (Inr (sample_chain_block h))"
proof -
  have ok: "vb_ok NegativeAllowed (pools_of 0 0 0 0)" "vb_ok NegativeAllowed (pools_of (-5) 0 0 0)"
    by (simp_all add: vb_ok_def pools_def pools_of_def amount_ok_def MAX_MONEY_value)
  then have "vb_add NegativeAllowed (pools_of 0 0 0 0) (pools_of (-5) 0 0 0) = Done (Inr (pools_of (-5) 0 0 0))"
    using vb_add_done [OF ok] by (simp add: vb_plus_def pools_of_def amount_plus_def)
  then have "chain_value_pool_change [sample_note_tx h] outputs None = Done (Inr (pools_of 5 0 0 0))" for outputs
    using ok by (simp add: chain_value_pool_change_def sample_tx_balance vb_sum_def vb_zero_pools vb_neg_done
        constraints.zero_done set_deferred_amount_def pools_of_def)
  then show ?thesis
    by (simp add: with_block_and_spent_utxos_def sample_prepared_def sample_chain_block_def)
qed

lemma sample_sprout: "block_sprout_anchors_refer_to_treestates ops m (cv_block (sample_chain_block h)) [[of_nat h]] h = Done (Inr ())"
  by (simp add: block_sprout_anchors_refer_to_treestates_def sample_note_tx_def slice_get_def
      sprout_anchors_refer_to_treestates_def)

lemma sample_commitment:
  assumes "1 < h" and "h < 100"
  shows "block_commitment_is_valid_for_chain_history sample_commitment_env (cv_block (sample_chain_block h)) Mainnet hist =
    Done (Inr ())"
proof -
  have "coinbase_height (cv_block (sample_chain_block h)) = Some h"
    by (simp add: coinbase_height_def sample_chain_block_def sample_note_tx_def)
  moreover have "current_with_activation_height Mainnet h = Done (BeforeOverwinter, 1)"
    using assms by (simp add: current_with_activation_height_def range_to_def next_back_def MAINNET_ACTIVATION_HEIGHTS_def)
  ultimately show ?thesis
    by (simp add: block_commitment_is_valid_for_chain_history_def block_commitment_def commitment_from_bytes_def)
qed

lemma sample_validated:
  assumes "1 < h" and "h < 100" and "invalidated_blocks s = []" and "chain_network c = Mainnet"
    and "history_trees_by_height c \<noteq> []" and "push sample_chain_env (sample_chain_block h) c = Done (Inr c')"
  shows "validate_and_commit sample_chain_env sample_commitment_env db c (sample_prepared h) s = Done (Inr c')"
  using assms sample_commitment [OF assms(1,2)]
  by (simp add: validate_and_commit_def sample_spends sample_anchors sample_contextual validate_and_update_parallel_def
      history_block_commitment_tree_def sample_sprout)

lemma sample_new_base: "new_chain_from_tip sample_chain_env sample_db Mainnet 1 = Done sample_base"
  using sample_base_new by (simp add: new_chain_from_tip_def sample_db_def)

definition sample_state :: "(byte list, nat) non_finalized_state" where
  "sample_state = \<lparr>chain_set = [sample_chain], invalidated_blocks = [], nfs_network = Mainnet\<rparr>"

lemma sample_committed:
  "commit_new_chain sample_chain_env sample_commitment_env sample_db (sample_prepared 2) (nfs_new Mainnet) =
     Done (Inr sample_state)"
proof -
  have "validate_and_commit sample_chain_env sample_commitment_env sample_db sample_base (sample_prepared 2) (nfs_new Mainnet) =
      Done (Inr sample_chain)"
    by (rule sample_validated [OF _ _ _ _ _ sample_pushes(1)]) (simp_all add: nfs_new_def sample_base_def)
  moreover have "finalized_tip_height sample_db = Some 1" by (simp add: finalized_tip_height_def sample_db_def)
  ultimately show ?thesis
    using sample_new_base
    by (simp add: commit_new_chain_def nfs_new_def nfs_insert_def insert_with_def sample_state_def pop_excess_id
        MAX_NON_FINALIZED_CHAIN_FORKS_def)
qed

text \<open>A state with an invalidated block.\<close>

definition sample_invalidated :: "(byte list, nat) non_finalized_state" where
  "sample_invalidated = \<lparr>chain_set = [], invalidated_blocks = [(2, [sample_chain_block 2])], nfs_network = Mainnet\<rparr>"

lemma sample_reconsidered:
  "reconsider_block sample_chain_env sample_db [2] sample_invalidated =
     Done (Inr ([[2]], sample_invalidated\<lparr>chain_set := [sample_chain]\<rparr>))"
proof -
  have "non_finalized_tip_hash sample_chain = Done [2]" "non_finalized_tip_height sample_chain = Done 2"
    by (simp_all add: non_finalized_tip_hash_def tip_block_def sample_pushed_defs non_finalized_tip_height_def max_block_height_def)
  moreover have "previous_block_hash (block_header (cv_block (sample_chain_block 2))) = [1]" by (simp add: sample_chain_block_def)
  moreover have "finalized_tip_hash sample_db = [1]" "finalized_tip_height sample_db = Some 1"
    by (simp_all add: finalized_tip_hash_def finalized_tip_height_def sample_db_def)
  ultimately show ?thesis
    using sample_new_base sample_pushes(1)
    by (simp add: reconsider_block_def sample_invalidated_def insert_with_def retain_outcome_def not_tip_def pop_excess_id
        MAX_NON_FINALIZED_CHAIN_FORKS_def)
qed

section \<open>States built by commits and finalization\<close>

inductive committed_state ::
  "('t, 'h) chain_env \<Rightarrow> 'h commitment_env \<Rightarrow> ('t, 'h) non_finalized_state \<Rightarrow> bool" for env ce where
  no_chains: "committed_state env ce (nfs_new net)"
| first_commit: "committed_state env ce s \<Longrightarrow> commit_new_chain env ce db prepared s = Done (Inr s') \<Longrightarrow>
     unknown_block (sv_hash prepared) s \<Longrightarrow> finalized_tip_height db = Some h \<Longrightarrow> h \<le> Height_MAX \<Longrightarrow>
     vb_ok NonNegative (db_value_pool db) \<Longrightarrow> new_chain_from_tip env db (nfs_network s) h = Done c \<Longrightarrow>
     extends_parent env db prepared c \<Longrightarrow> committed_state env ce s'"
| next_commit: "committed_state env ce s \<Longrightarrow> commit_block env ce db prepared s = Done (Inr s') \<Longrightarrow>
     unknown_block (sv_hash prepared) s \<Longrightarrow>
     parent_chain env (previous_block_hash (block_header (sv_block prepared))) s = Done (Inr c) \<Longrightarrow>
     extends_parent env db prepared c \<Longrightarrow> committed_state env ce s'"
| finalization: "committed_state env ce s \<Longrightarrow> finalize env s = Done (root, ts, s') \<Longrightarrow> committed_state env ce s'"

lemma committed_state_reachable: "committed_state env ce s \<Longrightarrow> reachable_state env ce s"
  by (induction rule: committed_state.induct) (blast intro: reachable_state.intros)+

lemma committed_state_ok: "committed_state env ce s \<Longrightarrow> leaves_ok env (set (chain_set s)) \<and> set_sorted s"
proof (induction rule: committed_state.induct)
  case (no_chains net)
  then show ?case by (simp add: nfs_new_def leaves_ok_def set_sorted_def)
next
  case (first_commit s db prepared s' h c)
  obtain c' where "validate_and_commit env ce db c prepared s = Done (Inr c')"
    using first_commit.hyps(2,4,7) by (auto simp: commit_new_chain_def run_bind_Done_iff try_bind_Inr_iff)
  from commit_new_chain_result [OF _ _ first_commit.hyps(3-7) this first_commit.hyps(8)] first_commit.IH first_commit.hyps(2)
  obtain cs where "chain_set s' = pop_excess cs" "leaves_ok env (set cs)" by auto
  then have "leaves_ok env (set (chain_set s'))" using leaves_ok_subset set_drop_subset by (metis pop_excess_drop)
  then show ?case using commit_new_chain_sorted first_commit.IH first_commit.hyps(2) by blast
next
  case (next_commit s db prepared s' c)
  obtain c' where "validate_and_commit env ce db c prepared s = Done (Inr c')"
    using next_commit.hyps(2,4) by (auto simp: commit_block_def Let_def run_bind_Done_iff try_bind_Inr_iff)
  from commit_block_result [OF _ _ next_commit.hyps(3,4) this next_commit.hyps(5)] next_commit.IH next_commit.hyps(2)
  obtain cs where "chain_set s' = pop_excess cs" "leaves_ok env (set cs)" by auto
  then have "leaves_ok env (set (chain_set s'))" using leaves_ok_subset set_drop_subset by (metis pop_excess_drop)
  then show ?case using commit_block_sorted next_commit.IH next_commit.hyps(2) by blast
next
  case (finalization s root ts s')
  have ne: "chain_set s \<noteq> []" using finalization.hyps(2) by (auto simp: finalize_def)
  note ok = conjunct1 [OF finalization.IH] conjunct2 [OF finalization.IH]
  have "set (chain_set s') = {d. \<exists>c \<in> set (chain_set s). popped env (cv_hash root) c d}"
    using finalize_total [OF ok ne] finalization.hyps(2) by auto
  then have "leaves_ok env (set (chain_set s'))" by (intro popped_leaves [OF ok(1)]) simp
  then show ?case using finalize_sorted finalization.IH finalization.hyps(2) by blast
qed

lemma work_positive: "to_work c = Done (Some w) \<Longrightarrow> 0 < work_value w"
  by (auto simp: to_work_def work_try_from_def u256_add_def u256_checked_def run_bind_Done_iff split: option.splits if_splits sum.splits)

lemma block_work_positive: "block_work b = Done w \<Longrightarrow> 0 < work_value w"
  using work_positive by (auto simp: block_work_def run_bind_Done_iff expect_some_def split: option.splits)

lemma chain_work_positive:
  assumes "chain_inv env c" and "blocks c \<noteq> []"
  shows "0 < chain_work c"
proof -
  obtain h cv bs where b: "blocks c = (h, cv) # bs" using assms(2) by (metis list.exhaust surj_pair)
  have work: "work_inv c" using assms(1) by (simp add: chain_inv_def)
  then obtain w where "block_work (cv_block cv) = Done w" using b by (auto simp: work_inv_def)
  then have "0 < block_weight cv" using block_work_positive by (simp add: block_weight_def)
  then show ?thesis using work b by (simp add: work_inv_def chain_work_def)
qed

lemma pop_root_work:
  assumes "pop_root env c = Done (cv, ts, d)"
  shows "\<exists>w. block_work (cv_block cv) = Done w \<and> chain_work c = work_value w + chain_work d"
proof -
  from assms obtain e where "revert_chain_with env cv RevertRoot e = Done d" "partial_cumulative_work e = partial_cumulative_work c"
    by (auto simp: pop_root_def run_bind_Done_iff Let_def split: if_splits)
  then show ?thesis
    using revert_chain_with_keeps(2) [of env cv RevertRoot e d] by (auto simp: cumulative_sub_def chain_work_def split: if_splits dest: sym)
qed

lemma commit_block_no_empty:
  assumes "commit_block env ce db prepared s = Done (Inr s')" and "sorted_wrt chain_less (chain_set s)" and "c \<in> set (chain_set s)"
  shows "blocks c \<noteq> []"
proof -
  let ?p = "not_tip (previous_block_hash (block_header (sv_block prepared)))"
  from assms(1) obtain d cs cs' where cs: "chain_set_insert d (chain_set s) = Done cs" "retain_outcome ?p cs = Done cs'"
    by (auto simp: commit_block_def Let_def try_bind_Inr_iff run_bind_Done_iff insert_with_def)
  have "c \<in> set cs" using chain_set_insert_sorted [OF cs(1) assms(2)] assms(3) by simp
  then obtain b where "?p c = Done b" using retain_outcome_filter [OF cs(2)] by blast
  then show ?thesis by (auto simp: not_tip_def non_finalized_tip_hash_def tip_block_def)
qed

section \<open>Theorems\<close>

text \<open>C16. After any sequence of successful commits, finalizations, invalidations and reconsiderations there are at most ten
  chains and at most one hundred invalidated entries, the chains are strictly ordered by work and tip hash, and
  the best chain is above every other chain: no chain has more work, and a chain with the same work has a smaller
  tip hash.\<close>

theorem best_chain_has_most_work:
  assumes "reachable_state env ce s"
  shows "length (chain_set s) \<le> 10 \<and> length (invalidated_blocks s) \<le> 100 \<and>
    sorted_wrt (\<lambda>c d. chain_cmp c d = Done Less) (chain_set s) \<and>
    (\<forall>b. best_chain s = Some b \<longrightarrow> b \<in> set (chain_set s) \<and>
       (\<forall>c \<in> set (chain_set s). cumulative (partial_cumulative_work c) \<le> cumulative (partial_cumulative_work b) \<and>
          (c \<noteq> b \<longrightarrow> chain_cmp b c = Done Greater)))"
proof -
  have sorted: "set_sorted s" using reachable_state_sorted [OF assms] .
  then have less: "sorted_wrt chain_less (chain_set s)" by (simp add: set_sorted_def)
  have "chain_less c (last (chain_set s))" if "c \<in> set (chain_set s)" "c \<noteq> last (chain_set s)" for c
    using sorted_last [OF less that] .
  then have "chain_work c \<le> chain_work (last (chain_set s)) \<and>
      (c \<noteq> last (chain_set s) \<longrightarrow> chain_cmp (last (chain_set s)) c = Done Greater)" if "c \<in> set (chain_set s)" for c
    using that chain_less_work chain_cmp_greater by (metis order_refl)
  moreover have "sorted_wrt (\<lambda>c d. chain_cmp c d = Done Less) (chain_set s)"
    using less by (simp add: chain_less_def [abs_def])
  ultimately show ?thesis
    using sorted unfolding chain_work_def
    by (auto simp: set_sorted_def best_chain_last MAX_NON_FINALIZED_CHAIN_FORKS_def MAX_INVALIDATED_BLOCKS_def
        split: if_splits)
qed

theorem best_chain_has_most_work_witness: "length (chain_set sample_state) \<le> 10 \<and> best_chain sample_state = Some sample_chain"
  using best_chain_has_most_work [OF reachable_state.new_chain [OF reachable_state.new_state sample_committed]]
  by (simp add: best_chain_last) (simp add: sample_state_def)

lemma sample_leaf: "committed_state sample_chain_env sample_commitment_env sample_state"
proof (rule committed_state.first_commit [OF committed_state.no_chains sample_committed])
  show "unknown_block (sv_hash (sample_prepared 2)) (nfs_new Mainnet)" by (simp add: unknown_block_def nfs_new_def)
  show "finalized_tip_height sample_db = Some 1" by (simp add: finalized_tip_height_def sample_db_def)
  show "1 \<le> Height_MAX" by (simp add: Height_MAX_value)
  show "vb_ok NonNegative (db_value_pool sample_db)"
    by (simp add: sample_db_def vb_ok_def pools_def pools_of_def amount_ok_def MAX_MONEY_value)
  show "new_chain_from_tip sample_chain_env sample_db (nfs_network (nfs_new Mainnet)) 1 = Done sample_base"
    using sample_new_base by (simp add: nfs_new_def)
  show "extends_parent sample_chain_env sample_db (sample_prepared 2) sample_base"
    using sample_extends(1) by (simp add: extends_parent_def sample_spends sample_contextual)
qed





text \<open>C36. Invalidating the first block of a chain always panics. The chain that is found for the hash is in the chain set, and
  removing it from the set compares it with itself, which \<open>Chain::cmp\<close> treats as unreachable.\<close>

theorem invalidate_root_panics:
  assumes "reachable_state env ce s" and "find_chain (\<lambda>c. Done (contains_block_hash hash c)) s = Done (Some c)"
    and "non_finalized_root_hash c = Done hash"
  shows "invalidate_block env hash s = Panic"
proof -
  have "find_chain (\<lambda>c. Done (contains_block_hash hash c)) s = Done (find (contains_block_hash hash) (rev (chain_set s)))"
    unfolding find_chain_def by (rule find_outcome_Done) simp
  then have "c \<in> set (chain_set s)" using assms(2) find_SomeD [of "contains_block_hash hash" "rev (chain_set s)" c] by simp
  then have "chain_set_remove c (chain_set s) = Panic"
    using reachable_state_sorted [OF assms(1)] by (intro chain_set_remove_panics) (simp_all add: set_sorted_def)
  then show ?thesis using assms(2,3) by (simp add: invalidate_block_def)
qed

theorem invalidate_root_panics_witness: "invalidate_block sample_chain_env [2] sample_state = Panic"
proof (rule invalidate_root_panics [OF committed_state_reachable [OF sample_leaf]])
  show "find_chain (\<lambda>c. Done (contains_block_hash [2] c)) sample_state = Done (Some sample_chain)"
    by (simp add: find_chain_def sample_state_def contains_block_hash_def sample_pushed_defs)
  show "non_finalized_root_hash sample_chain = Done [2]" by (simp add: non_finalized_root_hash_def sample_pushed_defs)
qed

text \<open>C37. A successful reconsideration does not remove the block from the list of invalidated blocks: the entry is taken out of
  a clone of the list. So every block that was reconsidered is still refused as invalidated when it is
  committed again on any chain.\<close>

theorem reconsidered_blocks_stay_invalidated:
  assumes "reconsider_block env db hash s = Done (Inr (hashes, s'))"
    and "\<forall>(h, bs) \<in> set (invalidated_blocks s). \<forall>tip. finalized_tip_height db = Some tip \<longrightarrow> tip \<le> h"
    and "sv_hash prepared \<in> set hashes"
  shows "invalidated_blocks s' = invalidated_blocks s \<and>
    validate_and_commit env ce db c prepared s' = Done (Inl (BlockPreviouslyInvalidated (sv_hash prepared)))"
proof -
  let ?s = "case finalized_tip_height db of
      Some tip_height \<Rightarrow> s\<lparr>invalidated_blocks := filter (\<lambda>(k, _). k \<ge> tip_height) (invalidated_blocks s)\<rparr> | None \<Rightarrow> s"
  from assms(1) obtain h bs m p where r: "map_of (invalidated_blocks s) h = Some bs" "hashes = map cv_hash bs"
    "insert_with m (retain_outcome p) ?s = Done s'"
    by (auto simp: reconsider_block_def Let_def run_bind_Done_iff try_bind_Inr_iff split: option.splits list.splits)
  have "invalidated_blocks ?s = invalidated_blocks s"
    using assms(2) by (auto simp: filter_id_conv split: option.splits)
  then have same: "invalidated_blocks s' = invalidated_blocks s" using r(3) by (auto simp: insert_with_def run_bind_Done_iff)
  moreover have "(h, bs) \<in> set (invalidated_blocks s')" using map_of_SomeD [OF r(1)] same by simp
  moreover have "\<exists>b \<in> set bs. cv_hash b = sv_hash prepared" using assms(3) r(2) by auto
  ultimately show ?thesis by (auto simp: validate_and_commit_def intro: bexI [rotated])
qed

theorem reconsidered_blocks_stay_invalidated_witness:
  "validate_and_commit sample_chain_env sample_commitment_env sample_db sample_chain (sample_prepared 2)
     (sample_invalidated\<lparr>chain_set := [sample_chain]\<rparr>) = Done (Inl (BlockPreviouslyInvalidated [2]))"
  using reconsidered_blocks_stay_invalidated [OF sample_reconsidered, of "sample_prepared 2"]
  by (simp add: sample_invalidated_def finalized_tip_height_def sample_db_def sample_prepared_def)

text \<open>C38. When a chain that is only its root block stands beside a longer chain with the same root, which invalidating
  the second block of a fork brings about, finalizing the root succeeds and leaves an empty chain in the set. From
  then on no block can be committed to an existing chain.\<close>

theorem finalize_leaves_empty_chain:
  assumes "chain_set s = [side, best]" and "chain_inv env side" and "chain_inv env best"
    and "blocks side = [(h, root)]" and "blocks best = (h, root) # bs" and "bs \<noteq> []"
  shows "\<exists>ts s'. finalize env s = Done (root, ts, s') \<and> (\<exists>c \<in> set (chain_set s'). blocks c = []) \<and>
    (\<forall>ce db prepared s''. commit_block env ce db prepared s' \<noteq> Done (Inr s''))"
proof -
  obtain ts best' where b: "pop_root env best = Done (root, ts, best')" "blocks best' = bs" "chain_inv env best'"
    using pop_root_total [OF assms(3,5)] assms(6) by blast
  obtain ts' side' where d: "pop_root env side = Done (root, ts', side')" "blocks side' = []"
    using pop_root_total [OF assms(2,4)] by blast
  have "chain_work side = block_weight root" using assms(2,4) by (simp add: chain_inv_def work_inv_def chain_work_def)
  then have "chain_work side' = 0" using pop_root_work [OF d(1)] by (auto simp: block_weight_def)
  moreover have "0 < chain_work best'" using chain_work_positive [OF b(3)] b(2) assms(6) by simp
  ultimately have cmp: "chain_cmp side' best' = Done Less" by (simp add: chain_cmp_cases)
  define s' where "s' = s\<lparr>chain_set := [side', best'],
    invalidated_blocks := filter (\<lambda>(h, _). h \<ge> cv_height root) (invalidated_blocks s)\<rparr>"
  have "finalize env s = Done (root, ts, s')"
    using assms b d cmp
    by (simp add: finalize_def finalize_side_chain_def chain_is_empty_def nfs_insert_def insert_with_def pop_excess_id
        MAX_NON_FINALIZED_CHAIN_FORKS_def non_finalized_root_hash_def s'_def)
  moreover have "commit_block env ce db prepared s' \<noteq> Done (Inr s'')" for ce db prepared s''
    using commit_block_no_empty [of env ce db prepared s' s'' side'] cmp d(2) by (auto simp: s'_def chain_less_def)
  ultimately show ?thesis using d(2) by (auto simp: s'_def)
qed

theorem finalize_leaves_empty_chain_witness:
  "\<exists>ts s'. finalize sample_chain_env \<lparr>chain_set = [sample_chain, sample_pushed 3 sample_chain], invalidated_blocks = [],
      nfs_network = Mainnet\<rparr> = Done (sample_chain_block 2, ts, s') \<and> (\<exists>c \<in> set (chain_set s'). blocks c = [])"
proof -
  have "chain_inv sample_chain_env sample_chain" using reachable_chain_inv [OF sample_reachable] by blast
  moreover from this have "chain_inv sample_chain_env (sample_pushed 3 sample_chain)"
    using push_keeps_inv sample_pushes(2) sample_extends(2) by blast
  moreover have "blocks sample_chain = [(2, sample_chain_block 2)]"
    "blocks (sample_pushed 3 sample_chain) = (2, sample_chain_block 2) # [(3, sample_chain_block 3)]"
    by (simp_all add: sample_pushed_defs)
  ultimately show ?thesis
    using finalize_leaves_empty_chain [of "\<lparr>chain_set = [sample_chain, sample_pushed 3 sample_chain], invalidated_blocks = [],
      nfs_network = Mainnet\<rparr>"] by fastforce
qed

end
