(* ===== verification/Spend_Theorems.thy ===== *)
theory Spend_Theorems
  imports State_Theorems
begin

text \<open>
  Spends: the transparent spend check of \<open>zebra-state/src/service/check/utxo.rs\<close> accepts exactly the blocks whose
  spends follow the chain order rules, and no chain ever has a repeated spend or nullifier.
\<close>

section \<open>The spend check\<close>

text \<open>The spends of a list of transactions, with the index and the transaction of each.\<close>

fun indexed_spends :: "nat \<Rightarrow> transaction list \<Rightarrow> (nat \<times> transaction \<times> outpoint) list" where
  "indexed_spends i [] = []"
| "indexed_spends i (tx # txs) =
     map (\<lambda>op. (i, tx, op)) (List.map_filter input_outpoint (tx_inputs tx)) @ indexed_spends (Suc i) txs"

definition spend_ok ::
  "semantically_verified_block \<Rightarrow> ('t, 'h) chain \<Rightarrow> ('t, 'h) zebra_db \<Rightarrow> nat \<times> transaction \<times> outpoint \<Rightarrow> ordered_utxo \<Rightarrow> bool" where
  "spend_ok sv c db = (\<lambda>(i, tx, op) u.
     transparent_spend_chain_order op i (sv_new_outputs sv) (unspent_utxos c) (spent_utxos c) db = Inr u \<and>
     transparent_coinbase_spend op (tx_coinbase_spend_restriction tx (db_network db) (sv_height sv)) (ou_utxo u) = Done (Inr ()))"

text \<open>The two loops as one loop over these spends.\<close>

fun spends_loop ::
  "semantically_verified_block \<Rightarrow> ('t, 'h) chain \<Rightarrow> ('t, 'h) zebra_db \<Rightarrow> (nat \<times> transaction \<times> outpoint) list \<Rightarrow>
   (outpoint \<times> ordered_utxo) list \<Rightarrow> (validate_context_error + (outpoint \<times> ordered_utxo) list) outcome" where
  "spends_loop sv c db [] acc = Done (Inr acc)"
| "spends_loop sv c db ((i, tx, op) # spends) acc =
     try_bind (transaction_spends sv tx i c db [op] acc) (spends_loop sv c db spends)"

lemma try_bind_assoc: "try_bind (try_bind m f) g = try_bind m (\<lambda>x. try_bind (f x) g)"
proof (cases m)
  case (Done r)
  then show ?thesis by (cases r) (simp_all add: try_bind_def)
qed (simp add: try_bind_def)

lemma spends_loop_append:
  "spends_loop sv c db (xs @ ys) = (\<lambda>acc. try_bind (spends_loop sv c db xs acc) (spends_loop sv c db ys))"
proof (induction xs)
  case (Cons x xs)
  show ?case by (cases x, rule ext) (simp add: Cons.IH try_bind_assoc del: transaction_spends.simps)
qed (simp add: fun_eq_iff)

lemma transaction_spends_loop:
  "transaction_spends sv tx i c db ops = spends_loop sv c db (map (\<lambda>op. (i, tx, op)) ops)"
proof (induction ops)
  case (Cons op ops)
  have "transaction_spends sv tx i c db (op # ops) acc =
      try_bind (transaction_spends sv tx i c db [op] acc) (transaction_spends sv tx i c db ops)" for acc
    by (simp add: try_bind_assoc if_distrib [of "\<lambda>m. try_bind m f" for f] cong: if_cong)
  then show ?case by (intro ext) (simp add: Cons.IH del: transaction_spends.simps)
qed (simp add: fun_eq_iff)

lemma block_spends_loop: "block_transaction_spends sv c db i txs = spends_loop sv c db (indexed_spends i txs)"
  by (induction txs arbitrary: i; intro ext) (simp_all add: transaction_spends_loop spends_loop_append)

lemma spends_loop_iff:
  assumes "distinct (map fst acc)"
  shows "spends_loop sv c db L acc = Done (Inr spends) \<longleftrightarrow>
    (\<exists>us. list_all2 (spend_ok sv c db) L us \<and> spends = acc @ zip (map (snd \<circ> snd) L) us \<and>
       distinct (map fst acc @ map (snd \<circ> snd) L))"
  using assms
proof (induction L arbitrary: acc)
  case (Cons x L)
  obtain i tx op where x: "x = (i, tx, op)" by (cases x)
  have "spends_loop sv c db (x # L) acc = Done (Inr spends) \<longleftrightarrow>
    (\<exists>u. spend_ok sv c db x u \<and> op \<notin> fst ` set acc \<and> spends_loop sv c db L (acc @ [(op, u)]) = Done (Inr spends))"
    by (auto simp: x try_bind_Inr_iff spend_ok_def map_of_eq_None_iff split: if_splits)
  also have "\<dots> \<longleftrightarrow> (\<exists>u us. spend_ok sv c db x u \<and> op \<notin> fst ` set acc \<and> list_all2 (spend_ok sv c db) L us \<and>
      spends = acc @ (op, u) # zip (map (snd \<circ> snd) L) us \<and> distinct (map fst acc @ op # map (snd \<circ> snd) L))"
    using Cons by (fastforce simp: distinct_append)
  also have "\<dots> \<longleftrightarrow> (\<exists>us. list_all2 (spend_ok sv c db) (x # L) us \<and>
      spends = acc @ zip (map (snd \<circ> snd) (x # L)) us \<and> distinct (map fst acc @ map (snd \<circ> snd) (x # L)))"
    by (fastforce simp: list_all2_Cons1 x)
  finally show ?case .
qed auto

lemma check_remaining_iff:
  "check_remaining_transaction_value sv utxos i txs = Done (Inr ()) \<longleftrightarrow>
   (\<forall>tx \<in> set txs. \<not> is_coinbase tx \<longrightarrow>
      (\<exists>vb v. tx_value_balance tx (utxos_from_ordered_utxos utxos) = Done (Inr vb) \<and>
              remaining_transaction_value vb = Done (Inr v)))"
proof (induction txs arbitrary: i)
  case (Cons tx txs)
  have "remaining_value_of sv utxos i tx = Done (Inr ()) \<longleftrightarrow>
    (\<exists>vb v. tx_value_balance tx (utxos_from_ordered_utxos utxos) = Done (Inr vb) \<and>
            remaining_transaction_value vb = Done (Inr v))"
    by (auto simp: remaining_value_of_def run_bind_Done_iff split: sum.split_asm if_splits) (metis sum.exhaust)+
  then show ?case using Cons by (auto simp: try_bind_Inr_iff)
qed simp

section \<open>Repeated spends\<close>

lemma updates_distinct:
  assumes "\<And>i s s'. f i s = Done s' \<Longrightarrow> case key i of
      None \<Rightarrow> m s' = m s | Some k \<Rightarrow> m s k = None \<and> m s' = (m s)(k \<mapsto> ())"
    and "updates f is s = Done s'"
  shows "distinct (List.map_filter key is) \<and> set (List.map_filter key is) \<inter> dom (m s) = {} \<and>
    dom (m s') = dom (m s) \<union> set (List.map_filter key is)"
  using assms(2)
proof (induction "is" arbitrary: s)
  case (Cons i "is")
  then obtain s1 where s1: "f i s = Done s1" "updates f is s1 = Done s'" by (auto simp: run_bind_Done_iff)
  show ?case
  proof (cases "key i")
    case None
    then have "m s1 = m s" using assms(1) [OF s1(1)] by simp
    then show ?thesis using Cons.IH [OF s1(2)] None by (simp add: map_filter_simps)
  next
    case (Some k)
    then have "m s k = None" "m s1 = (m s)(k \<mapsto> ())" using assms(1) [OF s1(1)] by simp_all
    then show ?thesis using Cons.IH [OF s1(2)] Some by (auto simp: map_filter_simps)
  qed
qed (simp add: map_filter_simps)

fun spent_key :: "item \<Rightarrow> outpoint option" where
  "spent_key (SpentItem op) = Some op"
| "spent_key _ = None"

fun sprout_key :: "item \<Rightarrow> byte list option" where
  "sprout_key (SproutItem n) = Some n"
| "sprout_key _ = None"

fun sapling_key :: "item \<Rightarrow> byte list option" where
  "sapling_key (SaplingItem n) = Some n"
| "sapling_key _ = None"

fun orchard_key :: "item \<Rightarrow> byte list option" where
  "orchard_key (OrchardItem n) = Some n"
| "orchard_key _ = None"

text \<open>The transactions of a chain, in the order in which they were added.\<close>

definition chain_transactions :: "('t, 'h) chain \<Rightarrow> transaction list" where
  "chain_transactions c =
     concat (map (\<lambda>(_, cv). map fst (zip (transactions (cv_block cv)) (cv_transaction_hashes cv))) (blocks c))"

lemma map_filter_append: "List.map_filter f (xs @ ys) = List.map_filter f xs @ List.map_filter f ys"
  by (simp add: List.map_filter_def)

lemma map_filter_concat: "List.map_filter f (concat xss) = concat (map (List.map_filter f) xss)"
  by (induction xss) (simp_all add: map_filter_append map_filter_simps)

lemma map_filter_const: "(\<And>x. x \<in> set xs \<Longrightarrow> f x = None) \<Longrightarrow> List.map_filter f xs = []"
  by (simp add: List.map_filter_def filter_empty_conv)

lemma map_filter_map_Some: "(\<And>x. f (g x) = Some x) \<Longrightarrow> List.map_filter f (map g xs) = xs"
  by (induction xs) (simp_all add: map_filter_simps)

lemma input_items_keys:
  "List.map_filter spent_key (concat (map (input_items env net hash m) ins)) = List.map_filter input_outpoint ins"
  by (induction ins) (auto simp: map_filter_simps map_filter_append input_items_def Let_def split: option.splits)

lemma item_keys:
  "x \<in> set (output_items env net hash m i) \<Longrightarrow> spent_key x = None \<and> sprout_key x = None \<and> sapling_key x = None \<and> orchard_key x = None"
  "x \<in> set (input_items env net hash m j) \<Longrightarrow> sprout_key x = None \<and> sapling_key x = None \<and> orchard_key x = None"
  by (auto simp: output_items_def input_items_def Let_def split: option.splits)

lemma tx_items_keys:
  shows "List.map_filter spent_key (tx_update_items env net h created spent (i, tx, hash)) = List.map_filter input_outpoint (tx_inputs tx)"
    and "List.map_filter sprout_key (tx_update_items env net h created spent (i, tx, hash)) = sprout_nullifiers tx"
    and "List.map_filter sapling_key (tx_update_items env net h created spent (i, tx, hash)) = sapling_nullifiers tx"
    and "List.map_filter orchard_key (tx_update_items env net h created spent (i, tx, hash)) = orchard_nullifiers tx"
proof -
  have outs: "List.map_filter k (concat (map (output_items env net hash created) is)) = []"
    if "\<And>x i. x \<in> set (output_items env net hash created i) \<Longrightarrow> k x = None" for k :: "item \<Rightarrow> 'k option" and "is"
    using that by (intro map_filter_const) auto
  have ins: "List.map_filter k (concat (map (input_items env net hash spent) is)) = []"
    if "\<And>x i. x \<in> set (input_items env net hash spent i) \<Longrightarrow> k x = None" for k :: "item \<Rightarrow> 'k option" and "is"
    using that by (intro map_filter_const) auto
  have maps: "List.map_filter spent_key (map SproutItem ns) = []" "List.map_filter spent_key (map SaplingItem ns) = []"
    "List.map_filter spent_key (map OrchardItem ns) = []" "List.map_filter sprout_key (map SproutItem ns) = ns"
    "List.map_filter sprout_key (map SaplingItem ns) = []" "List.map_filter sprout_key (map OrchardItem ns) = []"
    "List.map_filter sapling_key (map SproutItem ns) = []" "List.map_filter sapling_key (map SaplingItem ns) = ns"
    "List.map_filter sapling_key (map OrchardItem ns) = []" "List.map_filter orchard_key (map SproutItem ns) = []"
    "List.map_filter orchard_key (map SaplingItem ns) = []" "List.map_filter orchard_key (map OrchardItem ns) = ns" for ns
    by (auto intro!: map_filter_const map_filter_map_Some)
  show "List.map_filter spent_key (tx_update_items env net h created spent (i, tx, hash)) = List.map_filter input_outpoint (tx_inputs tx)"
    "List.map_filter sprout_key (tx_update_items env net h created spent (i, tx, hash)) = sprout_nullifiers tx"
    "List.map_filter sapling_key (tx_update_items env net h created spent (i, tx, hash)) = sapling_nullifiers tx"
    "List.map_filter orchard_key (tx_update_items env net h created spent (i, tx, hash)) = orchard_nullifiers tx"
    by (simp_all add: tx_update_items_def map_filter_append map_filter_simps maps input_items_keys
        outs ins item_keys)
qed

lemma concat_concat: "concat (concat (map g bs)) = concat (map (\<lambda>b. concat (g b)) bs)"
  by (induction bs) simp_all

lemma blocks_items_keys:
  assumes "\<And>i tx hash h m n. List.map_filter key (tx_update_items env net h m n (i, tx, hash)) = f tx"
  shows "List.map_filter key (blocks_items env net (blocks c)) = concat (map f (chain_transactions c))"
proof -
  have "map (\<lambda>x. List.map_filter key (tx_update_items env net h m n x)) (enumerate i txs) = map (f \<circ> fst) txs" for h m n i txs
    using assms by (induction txs arbitrary: i) auto
  then have "List.map_filter key (block_items env net cv) =
      concat (map f (map fst (zip (transactions (cv_block cv)) (cv_transaction_hashes cv))))" for cv
    by (simp add: block_items_def map_filter_concat comp_def)
  then show ?thesis
    by (simp add: concat_concat blocks_items_def map_filter_concat chain_transactions_def comp_def map_concat split_def)
qed

lemma chain_keys:
  fixes c :: "('t, 'h) chain"
  assumes "items_inv env c" and "m (no_items c) = Map.empty"
    and "\<And>i (s :: ('t, 'h) chain) s'. item_update i s = Done s' \<Longrightarrow> case key i of
      None \<Rightarrow> m s' = m s | Some k \<Rightarrow> m s k = None \<and> m s' = (m s)(k \<mapsto> ())"
    and "\<And>i tx hash h new old. List.map_filter key (tx_update_items env (chain_network c) h new old (i, tx, hash)) = f tx"
  shows "distinct (concat (map f (chain_transactions c)))"
    and "\<And>k. m c k \<noteq> None \<longleftrightarrow> k \<in> set (concat (map f (chain_transactions c)))"
proof -
  have "updates item_update (blocks_items env (chain_network c) (blocks c)) (no_items c) = Done c"
    using assms(1) by (simp add: items_inv_def)
  from updates_distinct [where f = item_update and m = m and key = key, OF assms(3) this]
  have "distinct (concat (map f (chain_transactions c))) \<and> dom (m c) = set (concat (map f (chain_transactions c)))"
    using blocks_items_keys [OF assms(4), where c = c] assms(2) by simp
  then show "distinct (concat (map f (chain_transactions c)))"
    "\<And>k. m c k \<noteq> None \<longleftrightarrow> k \<in> set (concat (map f (chain_transactions c)))" by (auto simp: dom_def set_eq_iff)
qed

lemma item_update_keys:
  assumes "item_update i s = Done s'"
  shows "case spent_key i of None \<Rightarrow> spent_utxos s' = spent_utxos s
      | Some k \<Rightarrow> spent_utxos s k = None \<and> spent_utxos s' = (spent_utxos s)(k \<mapsto> ())"
    and "case sprout_key i of None \<Rightarrow> chain_sprout_nullifiers s' = chain_sprout_nullifiers s
      | Some k \<Rightarrow> chain_sprout_nullifiers s k = None \<and> chain_sprout_nullifiers s' = (chain_sprout_nullifiers s)(k \<mapsto> ())"
    and "case sapling_key i of None \<Rightarrow> chain_sapling_nullifiers s' = chain_sapling_nullifiers s
      | Some k \<Rightarrow> chain_sapling_nullifiers s k = None \<and> chain_sapling_nullifiers s' = (chain_sapling_nullifiers s)(k \<mapsto> ())"
    and "case orchard_key i of None \<Rightarrow> chain_orchard_nullifiers s' = chain_orchard_nullifiers s
      | Some k \<Rightarrow> chain_orchard_nullifiers s k = None \<and> chain_orchard_nullifiers s' = (chain_orchard_nullifiers s)(k \<mapsto> ())"
  using assms by (cases i; auto simp: run_bind_Done_iff insert_new_Done_iff)+

section \<open>Theorems\<close>

text \<open>C11. The transparent spend check accepts a block exactly when its spends are all different, every spend is found and
  allowed, and every transaction other than a coinbase has a remaining value. A spend is found when its output is
  created by an earlier transaction of the block, or else is not spent in the parent chain and is created there or unspent
  in the finalized state; it is allowed when the coinbase rules hold for its output. The result lists every spend
  with the output it spends.\<close>

theorem transparent_spend_exact:
  "transparent_spend sv c db = Done (Inr spends) \<longleftrightarrow>
     distinct (map (\<lambda>(_, _, op). op) (indexed_spends 0 (transactions (sv_block sv)))) \<and>
     (\<exists>us. spends = zip (map (\<lambda>(_, _, op). op) (indexed_spends 0 (transactions (sv_block sv)))) us \<and>
        list_all2 (\<lambda>(i, tx, op) u.
          (case sv_new_outputs sv op of
             Some created \<Rightarrow> u = created \<and> tx_index_in_block created < i
           | None \<Rightarrow> spent_utxos c op = None \<and>
               (created_utxos c op = Some u \<or> created_utxos c op = None \<and> db_utxo db op = Some u)) \<and>
          transparent_coinbase_spend op (tx_coinbase_spend_restriction tx (db_network db) (sv_height sv)) (ou_utxo u) =
            Done (Inr ()))
          (indexed_spends 0 (transactions (sv_block sv))) us) \<and>
     (\<forall>tx \<in> set (transactions (sv_block sv)). \<not> is_coinbase tx \<longrightarrow>
        (\<exists>vb v. tx_value_balance tx (utxos_from_ordered_utxos (map_of spends)) = Done (Inr vb) \<and>
                remaining_transaction_value vb = Done (Inr v)))"
proof -
  let ?L = "indexed_spends 0 (transactions (sv_block sv))"
  have op: "snd \<circ> snd = (\<lambda>(_, _, op). op)" by (simp add: fun_eq_iff split_def)
  have order: "transparent_spend_chain_order op i (sv_new_outputs sv) (unspent_utxos c) (spent_utxos c) db = Inr u \<longleftrightarrow>
      (case sv_new_outputs sv op of
         Some created \<Rightarrow> u = created \<and> tx_index_in_block created < i
       | None \<Rightarrow> spent_utxos c op = None \<and>
           (created_utxos c op = Some u \<or> created_utxos c op = None \<and> db_utxo db op = Some u))" for op i u
    by (auto simp: transparent_spend_chain_order_def unspent_utxos_def ok_or_def split: option.splits)
  have "block_transaction_spends sv c db 0 (transactions (sv_block sv)) [] = Done (Inr spends) \<longleftrightarrow>
      (\<exists>us. list_all2 (spend_ok sv c db) ?L us \<and> spends = zip (map (\<lambda>(_, _, op). op) ?L) us \<and> distinct (map (\<lambda>(_, _, op). op) ?L))"
    using spends_loop_iff [of "[]" sv c db ?L spends] by (simp add: block_spends_loop op)
  moreover have "transparent_spend sv c db = Done (Inr spends) \<longleftrightarrow>
      block_transaction_spends sv c db 0 (transactions (sv_block sv)) [] = Done (Inr spends) \<and>
      check_remaining_transaction_value sv (map_of spends) 0 (transactions (sv_block sv)) = Done (Inr ())"
    by (auto simp: transparent_spend_def try_bind_Inr_iff)
  ultimately show ?thesis unfolding check_remaining_iff spend_ok_def order by blast
qed

definition sample_utxo :: ordered_utxo where
  "sample_utxo = ordered_utxo_new (sample_output 100) 1 1"

definition sample_spend_block :: semantically_verified_block where
  "sample_spend_block = (sample_prepared 3)\<lparr>
     sv_block := (cv_block (sample_chain_block 3))\<lparr>transactions := [sample_note_tx 3, sample_spend_tx]\<rparr>\<rparr>"

lemma sample_spend_balance:
  "value_balance_from_outputs sample_spend_tx [OutPoint [1] 0 \<mapsto> sample_output 100] = Done (Inr (pools_of 10 0 0 0))"
proof -
  let ?outs = "[OutPoint [1] 0 \<mapsto> sample_output 100]"
  have "tx_values_ok sample_spend_tx" "inputs_known sample_spend_tx ?outs"
    by (simp_all add: tx_values_ok_def sample_spend_tx_def sample_output_def inputs_known_def
        spent_outpoints_def map_filter_simps sprout_joinsplits_def over_joinsplit_data_def
        constraints.zero_done MAX_MONEY_value)
  from value_balance_cases [OF this] show ?thesis
    by (simp add: sample_spend_tx_def sample_output_def total_in_def total_out_def input_zatoshis_def balance_in_range_def tx_pools_def
        sprout_changes_def sprout_joinsplits_def over_joinsplit_data_def sapling_change_def orchard_change_def
        prefixes_in_range_def constraints.zero_done MAX_MONEY_value)
qed

theorem transparent_spend_exact_witness:
  "transparent_spend sample_spend_block sample_chain (sample_db\<lparr>db_utxo := [OutPoint [1] 0 \<mapsto> sample_utxo]\<rparr>) =
     Done (Inr [(OutPoint [1] 0, sample_utxo)])"
proof -
  have spends: "indexed_spends 0 (transactions (sv_block sample_spend_block)) = [(1, sample_spend_tx, OutPoint [1] 0)]"
    by (simp add: sample_spend_block_def sample_note_tx_def sample_spend_tx_def map_filter_simps)
  have "outputs_from_utxos (utxos_from_ordered_utxos [OutPoint [1] 0 \<mapsto> sample_utxo]) = [OutPoint [1] 0 \<mapsto> sample_output 100]"
    by (auto simp: outputs_from_utxos_def utxos_from_ordered_utxos_def sample_utxo_def ordered_utxo_new_def utxo_new_def fun_eq_iff)
  then have balance: "tx_value_balance sample_spend_tx (utxos_from_ordered_utxos [OutPoint [1] 0 \<mapsto> sample_utxo]) =
      Done (Inr (pools_of 10 0 0 0))" by (simp add: tx_value_balance_def sample_spend_balance)
  have remaining: "remaining_transaction_value (pools_of 10 0 0 0) = Done (Inr (Amount 10))"
    by (simp add: remaining_transaction_value_def pools_of_def amount_add_def amount_result_add_def checked_i64_def in_i64_def
        amount_try_from_i64_def amount_constrain_def validate_def MAX_MONEY_value)
  have "transparent_coinbase_spend op r (ou_utxo sample_utxo) = Done (Inr ())" for op r
    by (simp add: transparent_coinbase_spend_def sample_utxo_def ordered_utxo_new_def utxo_new_def)
  moreover have "sv_new_outputs sample_spend_block (OutPoint [1] 0) = None" "spent_utxos sample_chain (OutPoint [1] 0) = None"
    "created_utxos sample_chain (OutPoint [1] 0) = None"
    by (simp_all add: sample_spend_block_def sample_prepared_def sample_pushed_defs)
  moreover have "set (transactions (sv_block sample_spend_block)) = {sample_note_tx 3, sample_spend_tx}" "is_coinbase (sample_note_tx 3)"
    by (simp_all add: sample_spend_block_def is_coinbase_def sample_note_tx_def)
  ultimately show ?thesis
    using balance remaining by (subst transparent_spend_exact) (auto simp: spends list_all2_Cons1)
qed



end
