(* ===== verification/Hash_Orders.thy ===== *)
theory Hash_Orders
  imports Main "HOL-Library.Multiset" "HOL-Library.AList"
begin

text \<open>
  The iteration order of Rust's hash sets and hash maps is not specified. Where the code iterates over one, the model takes the
  order as an argument, a function that permutes lists.
\<close>

definition permuting :: "('a list \<Rightarrow> 'a list) \<Rightarrow> bool" where
  "permuting f \<longleftrightarrow> (\<forall>xs. mset (f xs) = mset xs)"

lemma permutingD: "permuting f \<Longrightarrow> set (f xs) = set xs \<and> (distinct (f xs) \<longleftrightarrow> distinct xs) \<and> length (f xs) = length xs"
  by (metis mset_eq_imp_distinct_iff mset_eq_length mset_eq_setD permuting_def)

text \<open>Hash maps that the code iterates over or drains are association lists.\<close>

lemma length_AList_delete: "map_of bs k \<noteq> None \<Longrightarrow> length (AList.delete k bs) < length bs"
proof (induction bs)
  case (Cons b bs)
  have "length (AList.delete k bs) \<le> length bs" by (simp add: AList.delete_eq)
  then show ?case using Cons by (cases b) auto
qed simp

lemma length_AList_update: "map_of bs k \<noteq> None \<Longrightarrow> length (AList.update k v bs) = length bs"
  by (induction bs) auto

end
