(* ===== verification/Block_Queues.thy ===== *)
theory Block_Queues
  imports Non_Finalized_States Hash_Orders
begin

text \<open>
  The block queues of the state service: \<open>zebra-state/src/service/queued_blocks.rs\<close> and the queueing methods of
  \<open>StateService\<close> in \<open>zebra-state/src/service.rs\<close>.

  A hash map that is iterated or drained is an association list with different keys, other hash maps are partial functions, and a
  hash set is a list without repetitions. The order in which a hash set is iterated is not specified: it is the argument
  \<open>order\<close>, of which the theorems only assume that it permutes its list. A one-shot response channel is a number; the
  responses that were sent are collected in the service record, as are the messages that were sent to the block
  write worker. Whether the worker still receives, when a number of messages was sent to it, is an argument.
  Metrics and logs are left out.
\<close>

section \<open>Queued blocks\<close>

type_synonym queued_block = "semantically_verified_block \<times> nat"

datatype known_block = Finalized | BestChain | SideChain | WriteChannel | Queue

datatype commit_block_error =
    DuplicateBlock "hash_or_height option" known_block
  | ContextError validate_context_error
  | WriteTaskExited

type_synonym response = "nat \<times> commit_block_error"

record queued_blocks =
  queued :: "(block_hash \<times> queued_block) list"
  by_parent :: "block_hash \<rightharpoonup> block_hash list"
  by_height :: "(height, block_hash list) btree"
  known_utxos :: "outpoint \<rightharpoonup> utxo"

definition queue_default :: queued_blocks where
  "queue_default = \<lparr>queued = [], by_parent = Map.empty, by_height = [], known_utxos = Map.empty\<rparr>"

text \<open>\<open>entry(key).or_default().insert(hash)\<close> on an index.\<close>

definition index_add :: "block_hash \<Rightarrow> block_hash list option \<Rightarrow> block_hash list" where
  "index_add hash hs = List.insert hash (case hs of Some l \<Rightarrow> l | None \<Rightarrow> [])"

definition forget_utxos :: "(outpoint \<rightharpoonup> 'u) \<Rightarrow> (outpoint \<rightharpoonup> utxo) \<Rightarrow> (outpoint \<rightharpoonup> utxo)" where
  "forget_utxos outputs known = (\<lambda>op. if outputs op \<noteq> None then None else known op)"

definition parent_of :: "semantically_verified_block \<Rightarrow> block_hash" where
  "parent_of b = previous_block_hash (block_header (sv_block b))"

definition queue_block :: "queued_block \<Rightarrow> queued_blocks \<Rightarrow> queued_blocks" where
  "queue_block new q =
     (let b = fst new in
      if map_of (queued q) (sv_hash b) \<noteq> None then q
      else q\<lparr>known_utxos := known_utxos q ++ utxos_from_ordered_utxos (sv_new_outputs b),
             queued := AList.update (sv_hash b) new (queued q),
             by_height := btree_insert (sv_height b) (index_add (sv_hash b) (map_of (by_height q) (sv_height b))) (by_height q),
             by_parent := (by_parent q)(parent_of b \<mapsto> index_add (sv_hash b) (by_parent q (parent_of b)))\<rparr>)"

definition has_queued_children :: "block_hash \<Rightarrow> queued_blocks \<Rightarrow> bool" where
  "has_queued_children parent_hash q \<longleftrightarrow> by_parent q parent_hash \<noteq> None"

fun remove_blocks ::
  "block_hash list \<Rightarrow> (block_hash \<times> queued_block) list \<Rightarrow> (queued_block list \<times> (block_hash \<times> queued_block) list) outcome" where
  "remove_blocks [] bs = Done ([], bs)"
| "remove_blocks (hash # hs) bs =
     run_bind (expect_some (map_of bs hash)) (\<lambda>b.
     run_bind (remove_blocks hs (AList.delete hash bs)) (\<lambda>(children, rest).
       Done (b # children, rest)))"

definition dequeue_children ::
  "(block_hash list \<Rightarrow> block_hash list) \<Rightarrow> block_hash \<Rightarrow> queued_blocks \<Rightarrow> (queued_block list \<times> queued_blocks) outcome" where
  "dequeue_children order parent_hash q =
     run_bind (remove_blocks (order (case by_parent q parent_hash of Some hs \<Rightarrow> hs | None \<Rightarrow> [])) (queued q))
       (\<lambda>(queued_children, rest).
       Done (queued_children,
         fold (\<lambda>(b, _) q. q\<lparr>by_height := btree_remove (sv_height b) (by_height q),
                           known_utxos := forget_utxos (sv_new_outputs b) (known_utxos q)\<rparr>)
           queued_children (q\<lparr>by_parent := (by_parent q)(parent_hash := None), queued := rest\<rparr>)))"

definition prune_block :: "block_hash \<Rightarrow> queued_blocks \<Rightarrow> (response \<times> queued_blocks) outcome" where
  "prune_block hash q =
     run_bind (expect_some (map_of (queued q) hash)) (\<lambda>(expired_block, expired_sender).
     let parent_hash = parent_of expired_block in
     run_bind (expect_some (by_parent q parent_hash)) (\<lambda>parent_list.
     run_bind (assert_that (hash \<in> set parent_list)) (\<lambda>_.
       Done ((expired_sender, DuplicateBlock (Some (AtHeight (sv_height expired_block))) Finalized),
         q\<lparr>queued := AList.delete hash (queued q),
           known_utxos := forget_utxos (sv_new_outputs expired_block) (known_utxos q),
           by_parent := (if length parent_list = 1 then (by_parent q)(parent_hash := None)
                         else (by_parent q)(parent_hash \<mapsto> removeAll hash parent_list))\<rparr>))))"

fun prune_blocks :: "block_hash list \<Rightarrow> queued_blocks \<Rightarrow> (response list \<times> queued_blocks) outcome" where
  "prune_blocks [] q = Done ([], q)"
| "prune_blocks (hash # hs) q =
     run_bind (prune_block hash q) (\<lambda>(r, q').
     run_bind (prune_blocks hs q') (\<lambda>(rs, q''). Done (r # rs, q'')))"

definition prune_by_height ::
  "(block_hash list \<Rightarrow> block_hash list) \<Rightarrow> height \<Rightarrow> queued_blocks \<Rightarrow> (response list \<times> queued_blocks) outcome" where
  "prune_by_height order tip_height q =
     run_bind (expect_some (height_add tip_height 1)) (\<lambda>split_height.
     prune_blocks (concat (map (\<lambda>(_, hs). order hs) (filter (\<lambda>(h, _). h < split_height) (by_height q))))
       (q\<lparr>by_height := filter (\<lambda>(h, _). h \<ge> split_height) (by_height q)\<rparr>))"

definition queued_utxo :: "outpoint \<Rightarrow> queued_blocks \<Rightarrow> utxo option" where
  "queued_utxo op q = known_utxos q op"

definition queue_drain :: "queued_blocks \<Rightarrow> queued_block list \<times> queued_blocks" where
  "queue_drain q = (map snd (queued q), queue_default)"

section \<open>Sent hashes\<close>

record sent_hashes =
  bufs :: "(block_hash \<times> height) list list"
  curr_buf :: "(block_hash \<times> height) list"
  sent :: "block_hash \<rightharpoonup> (outpoint \<rightharpoonup> ordered_utxo)"
  sent_known_utxos :: "outpoint \<rightharpoonup> utxo"
  can_fork_chain_at_hashes :: bool

definition sent_default :: sent_hashes where
  "sent_default = \<lparr>bufs = [], curr_buf = [], sent = Map.empty, sent_known_utxos = Map.empty, can_fork_chain_at_hashes = False\<rparr>"

text \<open>The outpoints of a sent block are kept as the keys of its outputs.\<close>

definition sent_add :: "semantically_verified_block \<Rightarrow> sent_hashes \<Rightarrow> sent_hashes" where
  "sent_add b s =
     s\<lparr>sent_known_utxos := sent_known_utxos s ++ utxos_from_ordered_utxos (sv_new_outputs b),
       curr_buf := curr_buf s @ [(sv_hash b, sv_height b)],
       sent := (sent s)(sv_hash b \<mapsto> sv_new_outputs b)\<rparr>"

definition semantically_verified_from_contextual :: "contextually_verified_block \<Rightarrow> semantically_verified_block" where
  "semantically_verified_from_contextual valid =
     \<lparr>sv_block = cv_block valid, sv_hash = cv_hash valid, sv_height = cv_height valid, sv_new_outputs = cv_new_outputs valid,
      sv_transaction_hashes = cv_transaction_hashes valid,
      sv_deferred_pool_balance_change = Some (DeferredPoolBalanceChange (deferred (cv_chain_value_pool_change valid)))\<rparr>"

definition sent_new :: "('t, 'h) non_finalized_state \<Rightarrow> sent_hashes" where
  "sent_new nfs =
     (let bs = concat (map (\<lambda>c. map snd (blocks c)) (chain_iter nfs));
          s = fold (\<lambda>b. sent_add (semantically_verified_from_contextual b)) bs sent_default
      in s\<lparr>can_fork_chain_at_hashes := (bs \<noteq> [])\<rparr>)"

definition finish_batch :: "sent_hashes \<Rightarrow> sent_hashes" where
  "finish_batch s = (if curr_buf s \<noteq> [] then s\<lparr>bufs := bufs s @ [curr_buf s], curr_buf := []\<rparr> else s)"

fun prune_buf ::
  "height \<Rightarrow> (block_hash \<times> height) list \<Rightarrow> sent_hashes \<Rightarrow> (block_hash \<times> height) list \<times> sent_hashes" where
  "prune_buf height_bound [] s = ([], s)"
| "prune_buf height_bound ((hash, h) # buf) s =
     (if h > height_bound then ((hash, h) # buf, s)
      else case sent s hash of
        Some expired_outpoints \<Rightarrow>
          prune_buf height_bound buf
            (s\<lparr>sent := (sent s)(hash := None), sent_known_utxos := forget_utxos expired_outpoints (sent_known_utxos s)\<rparr>)
      | None \<Rightarrow> prune_buf height_bound buf s)"

fun prune_bufs ::
  "height \<Rightarrow> (block_hash \<times> height) list list \<Rightarrow> sent_hashes \<Rightarrow> (block_hash \<times> height) list list \<times> sent_hashes" where
  "prune_bufs height_bound [] s = ([], s)"
| "prune_bufs height_bound (buf # rest) s =
     (let (buf', s1) = prune_buf height_bound buf s; (rest', s2) = prune_bufs height_bound rest s1
      in (if buf' = [] then rest' else buf' # rest', s2))"

definition sent_prune_by_height :: "height \<Rightarrow> sent_hashes \<Rightarrow> sent_hashes" where
  "sent_prune_by_height height_bound s =
     (let s1 = finish_batch s; (bs, s2) = prune_bufs height_bound (bufs s1) s1 in s2\<lparr>bufs := bs\<rparr>)"

definition sent_contains :: "block_hash \<Rightarrow> sent_hashes \<Rightarrow> bool" where
  "sent_contains hash s \<longleftrightarrow> sent s hash \<noteq> None"

definition sent_can_fork_chain_at :: "block_hash \<Rightarrow> sent_hashes \<Rightarrow> bool" where
  "sent_can_fork_chain_at hash s \<longleftrightarrow> can_fork_chain_at_hashes s \<and> sent_contains hash s"

section \<open>The state service\<close>

record state_service =
  full_verifier_utxo_lookahead :: height
  nf_queue :: queued_blocks
  finalized_queue :: "(block_hash \<times> queued_block) list"
  finalized_sender :: bool
  non_finalized_sender :: bool
  last_sent_hash :: block_hash
  sent_to_writer :: sent_hashes
  finalized_channel :: "queued_block list"
  non_finalized_channel :: "queued_block list"
  responses :: "response list"
  channels :: nat

record service_env =
  hash_order :: "block_hash list \<Rightarrow> block_hash list"
  finalized_open :: "nat \<Rightarrow> bool"
  non_finalized_open :: "nat \<Rightarrow> bool"

definition new_channel :: "state_service \<Rightarrow> nat \<times> state_service" where
  "new_channel svc = (channels svc, svc\<lparr>channels := Suc (channels svc)\<rparr>)"

definition respond :: "nat \<Rightarrow> commit_block_error \<Rightarrow> state_service \<Rightarrow> state_service" where
  "respond tx e svc = svc\<lparr>responses := responses svc @ [(tx, e)]\<rparr>"

definition db_contains_height :: "('t, 'h) zebra_db \<Rightarrow> height \<Rightarrow> bool" where
  "db_contains_height db h \<longleftrightarrow> db_block db h \<noteq> None"

definition clear_finalized_block_queue :: "commit_block_error \<Rightarrow> state_service \<Rightarrow> state_service" where
  "clear_finalized_block_queue e svc =
     fold (\<lambda>(_, _, tx). respond tx e) (finalized_queue svc) (svc\<lparr>finalized_queue := []\<rparr>)"

definition clear_non_finalized_block_queue :: "commit_block_error \<Rightarrow> state_service \<Rightarrow> state_service" where
  "clear_non_finalized_block_queue e svc =
     (let (bs, q) = queue_drain (nf_queue svc) in fold (\<lambda>(_, tx). respond tx e) bs (svc\<lparr>nf_queue := q\<rparr>))"

text \<open>The loop over the children of one parent. It returns early, as \<open>Inl\<close>, when the worker does not receive any more.\<close>

fun send_children ::
  "service_env \<Rightarrow> queued_block list \<Rightarrow> block_hash list \<Rightarrow> state_service \<Rightarrow> state_service + block_hash list \<times> state_service" where
  "send_children senv [] new_parents svc = Inr (new_parents, svc)"
| "send_children senv ((b, tx) # children) new_parents svc =
     (let svc1 = svc\<lparr>sent_to_writer := sent_add b (sent_to_writer svc)\<rparr> in
      if non_finalized_open senv (length (non_finalized_channel svc))
      then send_children senv children (sv_hash b # new_parents)
             (svc1\<lparr>non_finalized_channel := non_finalized_channel svc1 @ [(b, tx)]\<rparr>)
      else Inl (clear_non_finalized_block_queue WriteTaskExited (respond tx WriteTaskExited svc1)))"

lemma remove_blocks_length:
  "remove_blocks hs bs = Done (children, rest) \<Longrightarrow> length children + length rest \<le> length bs"
proof (induction hs arbitrary: bs children rest)
  case (Cons hash hs)
  then obtain b cs where "map_of bs hash = Some b" "remove_blocks hs (AList.delete hash bs) = Done (cs, rest)" "children = b # cs"
    by (auto simp: run_bind_Done_iff)
  then show ?case using Cons.IH [of "AList.delete hash bs" cs rest] length_AList_delete [of bs hash] by simp
qed simp

lemma fold_queue_fields:
  "queued (fold (\<lambda>(b, _) q. q\<lparr>by_height := H b q, known_utxos := K b q\<rparr>) bs q) = queued q"
  "by_parent (fold (\<lambda>(b, _) q. q\<lparr>by_height := H b q, known_utxos := K b q\<rparr>) bs q) = by_parent q"
  by (induction bs arbitrary: q) (auto simp: split_def)

lemma dequeue_children_length:
  "dequeue_children order p q = Done (children, q') \<Longrightarrow> length children + length (queued q') \<le> length (queued q)"
  by (auto simp: dequeue_children_def run_bind_Done_iff fold_queue_fields dest: remove_blocks_length)

lemma send_children_length:
  "send_children senv children ps svc = Inr (ps', svc') \<Longrightarrow> length ps' = length children + length ps \<and> nf_queue svc' = nf_queue svc"
  by (induction senv children ps svc rule: send_children.induct) (auto simp: Let_def split: if_splits)

function send_ready_loop :: "service_env \<Rightarrow> block_hash list \<Rightarrow> state_service \<Rightarrow> state_service outcome" where
  "send_ready_loop senv [] svc = Done (svc\<lparr>sent_to_writer := finish_batch (sent_to_writer svc)\<rparr>)"
| "send_ready_loop senv (parent_hash # new_parents) svc =
     (case dequeue_children (hash_order senv) parent_hash (nf_queue svc) of
        Panic \<Rightarrow> Panic
      | Done (queued_children, q) \<Rightarrow>
          (case send_children senv queued_children new_parents (svc\<lparr>nf_queue := q\<rparr>) of
             Inl svc' \<Rightarrow> Done svc'
           | Inr (new_parents', svc') \<Rightarrow> send_ready_loop senv new_parents' svc'))"
  by pat_completeness auto
termination
  by (relation "measure (\<lambda>(_, ps, svc). length ps + 2 * length (queued (nf_queue svc)))")
    (auto dest!: send_children_length dequeue_children_length)

definition send_ready_non_finalized_queued ::
  "service_env \<Rightarrow> block_hash \<Rightarrow> state_service \<Rightarrow> state_service outcome" where
  "send_ready_non_finalized_queued senv new_parent svc =
     (if non_finalized_sender svc then send_ready_loop senv [new_parent] svc else Done svc)"

definition can_fork_chain_at :: "('t, 'h) zebra_db \<Rightarrow> block_hash \<Rightarrow> state_service \<Rightarrow> bool" where
  "can_fork_chain_at db hash svc \<longleftrightarrow> sent_can_fork_chain_at hash (sent_to_writer svc) \<or> finalized_tip_hash db = hash"

text \<open>The result is the channel on which the response to the request will be sent.\<close>

definition queue_or_replace ::
  "semantically_verified_block \<Rightarrow> state_service \<Rightarrow> nat \<times> state_service" where
  "queue_or_replace b svc =
     (let (tx, svc1) = new_channel svc in
      case map_of (queued (nf_queue svc1)) (sv_hash b) of
        Some (old, old_tx) \<Rightarrow>
          (tx, respond old_tx (DuplicateBlock (Some (Hash (sv_hash b))) Queue)
                 (svc1\<lparr>nf_queue := (nf_queue svc1)\<lparr>queued := AList.update (sv_hash b) (old, tx) (queued (nf_queue svc1))\<rparr>\<rparr>))
      | None \<Rightarrow> (tx, svc1\<lparr>nf_queue := queue_block (b, tx) (nf_queue svc1)\<rparr>))"

definition send_and_prune ::
  "service_env \<Rightarrow> ('t, 'h) zebra_db \<Rightarrow> block_hash \<Rightarrow> state_service \<Rightarrow> state_service outcome" where
  "send_and_prune senv db parent_hash svc =
     (if finalized_sender svc \<and> has_queued_children (last_sent_hash svc) (nf_queue svc) \<and>
         finalized_tip_hash db = last_sent_hash svc
      then
        run_bind (send_ready_non_finalized_queued senv (last_sent_hash svc)
                    (svc\<lparr>finalized_sender := False, sent_to_writer := sent_default\<lparr>can_fork_chain_at_hashes := True\<rparr>\<rparr>)) (\<lambda>svc'.
          Done (clear_finalized_block_queue (DuplicateBlock None Finalized) svc'))
      else if \<not> can_fork_chain_at db parent_hash svc then Done svc
      else if \<not> finalized_sender svc then
        run_bind (send_ready_non_finalized_queued senv parent_hash svc) (\<lambda>svc'.
        run_bind (expect_some (finalized_tip_height db)) (\<lambda>tip_height.
        run_bind (prune_by_height (hash_order senv) tip_height (nf_queue svc')) (\<lambda>(rs, q).
          Done (svc'\<lparr>nf_queue := q, responses := responses svc' @ rs,
                     sent_to_writer := sent_prune_by_height tip_height (sent_to_writer svc')\<rparr>))))
      else Done svc)"

definition queue_and_commit_to_non_finalized_state ::
  "service_env \<Rightarrow> ('t, 'h) zebra_db \<Rightarrow> semantically_verified_block \<Rightarrow> state_service \<Rightarrow> (nat \<times> state_service) outcome" where
  "queue_and_commit_to_non_finalized_state senv db b svc =
     (if sent_contains (sv_hash b) (sent_to_writer svc) then
        let (tx, svc') = new_channel svc
        in Done (tx, respond tx (DuplicateBlock (Some (Hash (sv_hash b))) WriteChannel) svc')
      else if db_contains_height db (sv_height b) then
        let (tx, svc') = new_channel svc
        in Done (tx, respond tx (DuplicateBlock (Some (AtHeight (sv_height b))) Finalized) svc')
      else
        let (tx, svc') = queue_or_replace b svc
        in run_bind (send_and_prune senv db (parent_of b) svc') (\<lambda>svc''. Done (tx, svc'')))"

section \<open>Checkpoint verified blocks\<close>

datatype 'a try_recv = Received 'a | EmptyChannel | Disconnected

definition is_close_to_final_checkpoint :: "height \<Rightarrow> state_service \<Rightarrow> bool" where
  "is_close_to_final_checkpoint queued_height svc \<longleftrightarrow> queued_height \<ge> full_verifier_utxo_lookahead svc"

function drain_finalized_queue :: "service_env \<Rightarrow> state_service \<Rightarrow> state_service" where
  "drain_finalized_queue senv svc =
     (case map_of (finalized_queue svc) (last_sent_hash svc) of
        None \<Rightarrow> svc
      | Some (b, tx) \<Rightarrow>
          let svc1 = svc\<lparr>finalized_queue := AList.delete (last_sent_hash svc) (finalized_queue svc), last_sent_hash := sv_hash b\<rparr>
          in drain_finalized_queue senv
               (if \<not> finalized_sender svc1 then svc1
                else if finalized_open senv (length (finalized_channel svc1))
                then svc1\<lparr>finalized_channel := finalized_channel svc1 @ [(b, tx)]\<rparr>
                else clear_finalized_block_queue WriteTaskExited (respond tx WriteTaskExited svc1)))"
  by pat_completeness auto

lemma respond_fields [simp]:
  "finalized_queue (respond tx e svc) = finalized_queue svc" "nf_queue (respond tx e svc) = nf_queue svc"
  "finalized_sender (respond tx e svc) = finalized_sender svc" "last_sent_hash (respond tx e svc) = last_sent_hash svc"
  "non_finalized_sender (respond tx e svc) = non_finalized_sender svc"
  "sent_to_writer (respond tx e svc) = sent_to_writer svc" "finalized_channel (respond tx e svc) = finalized_channel svc"
  "non_finalized_channel (respond tx e svc) = non_finalized_channel svc" "channels (respond tx e svc) = channels svc"
  "responses (respond tx e svc) = responses svc @ [(tx, e)]"
  by (simp_all add: respond_def)

lemma fold_respond [simp]:
  "finalized_queue (fold (\<lambda>x. respond (g x) e) xs svc) = finalized_queue svc"
  "nf_queue (fold (\<lambda>x. respond (g x) e) xs svc) = nf_queue svc"
  "finalized_sender (fold (\<lambda>x. respond (g x) e) xs svc) = finalized_sender svc"
  "non_finalized_sender (fold (\<lambda>x. respond (g x) e) xs svc) = non_finalized_sender svc"
  "last_sent_hash (fold (\<lambda>x. respond (g x) e) xs svc) = last_sent_hash svc"
  "sent_to_writer (fold (\<lambda>x. respond (g x) e) xs svc) = sent_to_writer svc"
  "finalized_channel (fold (\<lambda>x. respond (g x) e) xs svc) = finalized_channel svc"
  "non_finalized_channel (fold (\<lambda>x. respond (g x) e) xs svc) = non_finalized_channel svc"
  "channels (fold (\<lambda>x. respond (g x) e) xs svc) = channels svc"
  "responses (fold (\<lambda>x. respond (g x) e) xs svc) = responses svc @ map (\<lambda>x. (g x, e)) xs"
  by (induction xs arbitrary: svc) simp_all

termination drain_finalized_queue
proof (relation "measure (\<lambda>(_, svc). length (finalized_queue svc))", goal_cases)
  case (2 senv svc b tx svc1)
  then have "length (AList.delete (last_sent_hash svc) (finalized_queue svc)) < length (finalized_queue svc)"
    by (intro length_AList_delete) simp
  then show ?case using 2 by (auto simp: clear_finalized_block_queue_def split_def)
qed simp

declare drain_finalized_queue.simps [simp del]

definition drain_finalized_queue_and_commit ::
  "service_env \<Rightarrow> block_hash try_recv \<Rightarrow> state_service \<Rightarrow> state_service" where
  "drain_finalized_queue_and_commit senv reset svc =
     (case reset of
        Received reset_tip_hash \<Rightarrow> drain_finalized_queue senv (svc\<lparr>last_sent_hash := reset_tip_hash\<rparr>)
      | Disconnected \<Rightarrow> svc
      | EmptyChannel \<Rightarrow> drain_finalized_queue senv svc)"

definition queue_and_commit_to_finalized_state ::
  "service_env \<Rightarrow> block_hash try_recv \<Rightarrow> semantically_verified_block \<Rightarrow> state_service \<Rightarrow> nat \<times> state_service" where
  "queue_and_commit_to_finalized_state senv reset b svc =
     (let svc1 = (if is_close_to_final_checkpoint (sv_height b) svc
                  then svc\<lparr>sent_to_writer := sent_add b (sent_to_writer svc)\<rparr> else svc);
          (tx, svc2) = new_channel svc1
      in if finalized_sender svc2 then
           let svc3 = svc2\<lparr>finalized_queue := AList.update (parent_of b) (b, tx) (finalized_queue svc2)\<rparr>;
               svc4 = (case map_of (finalized_queue svc2) (parent_of b) of
                         Some (_, duplicate_tx) \<Rightarrow>
                           respond duplicate_tx (DuplicateBlock (Some (Hash (parent_of b))) Queue) svc3
                       | None \<Rightarrow> svc3)
           in (tx, drain_finalized_queue_and_commit senv reset svc4)
         else
           (tx, clear_finalized_block_queue (DuplicateBlock None Finalized)
                  (respond tx (DuplicateBlock None Finalized) svc2)))"

section \<open>The new service\<close>

text \<open>The restored non-finalized state and the finalized state are arguments.\<close>

definition service_new ::
  "('t, 'h) non_finalized_state \<Rightarrow> ('t, 'h) zebra_db \<Rightarrow> height \<Rightarrow> nat \<Rightarrow> state_service outcome" where
  "service_new non_finalized_state db max_checkpoint_height checkpoint_verify_concurrency_limit =
     run_bind (expect_some (checked_i64 (int checkpoint_verify_concurrency_limit))) (\<lambda>limit.
       Done \<lparr>full_verifier_utxo_lookahead = (case height_sub max_checkpoint_height limit of Some h \<Rightarrow> h | None \<Rightarrow> Height_MIN),
             nf_queue = queue_default, finalized_queue = [], finalized_sender = (chain_set non_finalized_state = []),
             non_finalized_sender = True, last_sent_hash = finalized_tip_hash db,
             sent_to_writer = sent_new non_finalized_state, finalized_channel = [], non_finalized_channel = [],
             responses = [], channels = 0\<rparr>)"

end
