(* ===== verification/Queue_Invariants.thy ===== *)
theory Queue_Invariants
  imports Block_Queues
begin

text \<open>
  The invariant of the queue of blocks that wait for their parents, and that every operation of the queue keeps it
  and does not panic.
\<close>

section \<open>The invariant\<close>

definition queued_children :: "block_hash \<Rightarrow> queued_blocks \<Rightarrow> block_hash set" where
  "queued_children p q = {h. \<exists>b tx. map_of (queued q) h = Some (b, tx) \<and> parent_of b = p}"

definition queue_ok :: "queued_blocks \<Rightarrow> bool" where
  "queue_ok q \<longleftrightarrow>
     distinct (map fst (queued q)) \<and>
     (\<forall>(h, b, tx) \<in> set (queued q). sv_hash b = h) \<and>
     (\<forall>p. case by_parent q p of
            None \<Rightarrow> queued_children p q = {}
          | Some hs \<Rightarrow> hs \<noteq> [] \<and> distinct hs \<and> set hs = queued_children p q) \<and>
     btree_ok (by_height q) \<and>
     (\<forall>(h, hs) \<in> set (by_height q). distinct hs \<and>
        (\<forall>x \<in> set hs. \<exists>b tx. map_of (queued q) x = Some (b, tx) \<and> sv_height b = h))"

lemma queue_okD:
  assumes "queue_ok q"
  shows "distinct (map fst (queued q))" "map_of (queued q) h = Some (b, tx) \<Longrightarrow> sv_hash b = h"
    "by_parent q p = None \<Longrightarrow> queued_children p q = {}"
    "by_parent q p = Some hs \<Longrightarrow> hs \<noteq> [] \<and> distinct hs \<and> set hs = queued_children p q"
    "btree_ok (by_height q)"
    "(i, hs) \<in> set (by_height q) \<Longrightarrow> distinct hs"
    "(i, hs) \<in> set (by_height q) \<Longrightarrow> x \<in> set hs \<Longrightarrow> \<exists>b tx. map_of (queued q) x = Some (b, tx) \<and> sv_height b = i"
proof -
  have parents: "\<forall>p. case by_parent q p of None \<Rightarrow> queued_children p q = {}
      | Some hs \<Rightarrow> hs \<noteq> [] \<and> distinct hs \<and> set hs = queued_children p q"
    using assms by (simp add: queue_ok_def)
  show "by_parent q p = None \<Longrightarrow> queued_children p q = {}"
    "by_parent q p = Some hs \<Longrightarrow> hs \<noteq> [] \<and> distinct hs \<and> set hs = queued_children p q"
    using parents [rule_format, of p] by auto
  show "map_of (queued q) h = Some (b, tx) \<Longrightarrow> sv_hash b = h"
    using assms by (auto simp: queue_ok_def dest!: map_of_SomeD)
  show "distinct (map fst (queued q))" "btree_ok (by_height q)" using assms by (simp_all add: queue_ok_def)
  show "(i, hs) \<in> set (by_height q) \<Longrightarrow> distinct hs"
    "(i, hs) \<in> set (by_height q) \<Longrightarrow> x \<in> set hs \<Longrightarrow> \<exists>b tx. map_of (queued q) x = Some (b, tx) \<and> sv_height b = i"
    using assms unfolding queue_ok_def by blast+
qed

lemma queue_default_ok: "queue_ok queue_default"
  by (simp add: queue_ok_def queue_default_def queued_children_def)

section \<open>Queueing\<close>

lemma queue_block_new:
  assumes "map_of (queued q) (sv_hash b) = None"
  shows "queued (queue_block (b, tx) q) = queued q @ [(sv_hash b, b, tx)]"
    "by_parent (queue_block (b, tx) q) = (by_parent q)(parent_of b \<mapsto> index_add (sv_hash b) (by_parent q (parent_of b)))"
    "by_height (queue_block (b, tx) q) =
       btree_insert (sv_height b) (index_add (sv_hash b) (map_of (by_height q) (sv_height b))) (by_height q)"
proof -
  have "AList.update k v m = m @ [(k, v)]" if "map_of m k = None" for k v and m :: "(block_hash \<times> queued_block) list"
    using that by (induction m) (auto split: if_splits)
  then show "queued (queue_block (b, tx) q) = queued q @ [(sv_hash b, b, tx)]"
    using assms by (simp add: queue_block_def)
qed (use assms in \<open>simp_all add: queue_block_def\<close>)

lemma queue_block_ok:
  assumes ok: "queue_ok q"
  shows "queue_ok (queue_block (b, tx) q)"
proof (cases "map_of (queued q) (sv_hash b)")
  case None
  let ?q = "queue_block (b, tx) q"
  note new = queue_block_new [OF None]
  have lookup: "map_of (queued ?q) h = (if h = sv_hash b then Some (b, tx) else map_of (queued q) h)" for h
    using None by (auto simp: new map_add_def split: option.splits)
  then have children: "queued_children p ?q = (if p = parent_of b then insert (sv_hash b) (queued_children p q) else queued_children p q)" for p
    using None by (auto simp: queued_children_def)
  have heights: "map_of (by_height q) i = Some hs \<Longrightarrow> (i, hs) \<in> set (by_height q)" for i hs by (rule map_of_SomeD)
  show ?thesis
    unfolding queue_ok_def
  proof (intro conjI)
    show "distinct (map fst (queued ?q))" using queue_okD(1) [OF ok] None by (auto simp: new map_of_eq_None_iff)
    show "\<forall>(h, b, tx) \<in> set (queued ?q). sv_hash b = h" using ok by (auto simp: new queue_ok_def)
    show "\<forall>p. case by_parent ?q p of None \<Rightarrow> queued_children p ?q = {}
        | Some hs \<Rightarrow> hs \<noteq> [] \<and> distinct hs \<and> set hs = queued_children p ?q"
      using queue_okD(3,4) [OF ok] by (auto simp: new children index_add_def List.insert_def split: option.splits)
    show "btree_ok (by_height ?q)" using queue_okD(5) [OF ok] by (simp add: new btree_ok_insert)
    have old: "\<exists>b' tx'. map_of (queued ?q) x = Some (b', tx') \<and> sv_height b' = i"
      if "(i, hs) \<in> set (by_height q)" "x \<in> set hs" for i hs x
      using queue_okD(7) [OF ok that] None by (auto simp: lookup)
    have "distinct hs \<and> (\<forall>x \<in> set hs. \<exists>b' tx'. map_of (queued ?q) x = Some (b', tx') \<and> sv_height b' = i)"
      if entry: "(i, hs) \<in> set (by_height ?q)" for i hs
    proof -
      have "map_of (by_height ?q) i = Some hs" using entry \<open>btree_ok (by_height ?q)\<close>
        by (simp add: btree_ok_distinct)
      moreover have "map_of (by_height ?q) i =
          (if i = sv_height b then Some (index_add (sv_hash b) (map_of (by_height q) (sv_height b))) else map_of (by_height q) i)"
        using map_of_btree_insert [OF queue_okD(5) [OF ok]] by (simp add: new)
      ultimately consider "i = sv_height b" "hs = index_add (sv_hash b) (map_of (by_height q) i)" | "map_of (by_height q) i = Some hs"
        by (cases "i = sv_height b") simp_all
      then show ?thesis
      proof cases
        case 1
        have "x = sv_hash b \<or> (\<exists>l. map_of (by_height q) i = Some l \<and> x \<in> set l)" if "x \<in> set hs" for x
          using that 1 by (auto simp: index_add_def split: option.splits)
        moreover have "distinct hs" using 1 queue_okD(6) [OF ok heights] by (auto simp: index_add_def split: option.splits)
        moreover have "map_of (queued ?q) (sv_hash b) = Some (b, tx)" by (simp add: lookup)
        ultimately show ?thesis using old [OF heights] 1(1) by metis
      qed (use queue_okD(6) [OF ok heights] old [OF heights] in blast)
    qed
    then show "\<forall>(i, hs) \<in> set (by_height ?q). distinct hs \<and>
        (\<forall>x \<in> set hs. \<exists>b' tx'. map_of (queued ?q) x = Some (b', tx') \<and> sv_height b' = i)" by blast
  qed
qed (use ok in \<open>simp add: queue_block_def\<close>)

section \<open>Dequeueing\<close>

definition drop_hashes :: "block_hash set \<Rightarrow> (block_hash \<times> 'b) list \<Rightarrow> (block_hash \<times> 'b) list" where
  "drop_hashes S bs = filter (\<lambda>(h, _). h \<notin> S) bs"

lemma map_of_drop_hashes: "map_of (drop_hashes S bs) h = (if h \<in> S then None else map_of bs h)"
  by (induction bs) (auto simp: drop_hashes_def)

lemma AList_delete_drop: "AList.delete k bs = drop_hashes {k} bs"
  by (auto simp: AList.delete_eq drop_hashes_def intro!: filter_cong)

lemma drop_hashes_drop: "drop_hashes S (drop_hashes T bs) = drop_hashes (S \<union> T) bs"
  by (auto simp: drop_hashes_def intro!: filter_cong)

lemma distinct_drop_hashes: "distinct (map fst bs) \<Longrightarrow> distinct (map fst (drop_hashes S bs))"
  by (auto simp: drop_hashes_def distinct_map intro: inj_on_subset)

lemma remove_blocks_spec:
  assumes "distinct hs" and "\<forall>h \<in> set hs. map_of bs h \<noteq> None"
  shows "remove_blocks hs bs = Done (map (\<lambda>h. the (map_of bs h)) hs, drop_hashes (set hs) bs)"
  using assms
proof (induction hs arbitrary: bs)
  case Nil
  have "drop_hashes {} bs = bs" by (simp add: drop_hashes_def split_def)
  then show ?case by simp
next
  case (Cons h hs)
  then obtain b where b: "map_of bs h = Some b" by auto
  have rest: "map_of (AList.delete h bs) h' = map_of bs h'" if "h' \<in> set hs" for h'
    using Cons.prems that by (auto simp: AList_delete_drop map_of_drop_hashes)
  then have "remove_blocks hs (AList.delete h bs) =
      Done (map (\<lambda>h. the (map_of bs h)) hs, drop_hashes (set hs) (AList.delete h bs))"
    using Cons by simp
  moreover have "drop_hashes (set hs) (AList.delete h bs) = drop_hashes (set (h # hs)) bs"
    by (simp add: AList_delete_drop drop_hashes_drop)
  ultimately show ?case using b by simp
qed

lemma fold_by_height:
  "by_height (fold (\<lambda>(b, _) q. q\<lparr>by_height := btree_remove (sv_height b) (by_height q), known_utxos := K b q\<rparr>) bs q) =
     filter (\<lambda>(i, _). i \<notin> sv_height ` fst ` set bs) (by_height q)"
proof (induction bs arbitrary: q)
  case (Cons b bs)
  have "filter (\<lambda>(i, _). i \<notin> A) (btree_remove k m) = filter (\<lambda>(i, _). i \<notin> insert k A) m" for A k and m :: "(nat \<times> 'v) list"
    by (auto simp: btree_remove_def intro!: filter_cong)
  then show ?case by (cases b) (simp add: Cons.IH)
qed (simp add: split_def)

lemma map_of_in_set: "map_of bs h = Some b \<Longrightarrow> h \<in> fst ` set bs"
  by (metis domI dom_map_of_conv_image_fst)

lemma dequeue_children_spec:
  assumes ok: "queue_ok q" and "permuting order"
  obtains children q' where "dequeue_children order p q = Done (children, q')" "queue_ok q'"
    "set children = {(b, tx). map_of (queued q) (sv_hash b) = Some (b, tx) \<and> parent_of b = p}"
    "distinct (map (\<lambda>(b, _). sv_hash b) children)"
    "queued q' = drop_hashes (queued_children p q) (queued q)"
    "\<forall>(b, _) \<in> set children. sv_height b \<notin> fst ` set (by_height q')"
proof -
  define hs where "hs = order (case by_parent q p of Some hs \<Rightarrow> hs | None \<Rightarrow> [])"
  have hs: "set hs = queued_children p q" "distinct hs"
    using permutingD [OF assms(2)] queue_okD(3,4) [OF ok, where p = p]
    by (cases "by_parent q p"; simp add: hs_def)+
  then have present: "\<forall>h \<in> set hs. map_of (queued q) h \<noteq> None" by (auto simp: queued_children_def)
  define children where "children = map (\<lambda>h. the (map_of (queued q) h)) hs"
  define q' where "q' = fold (\<lambda>(b, _) q. q\<lparr>by_height := btree_remove (sv_height b) (by_height q),
      known_utxos := forget_utxos (sv_new_outputs b) (known_utxos q)\<rparr>) children
      (q\<lparr>by_parent := (by_parent q)(p := None), queued := drop_hashes (set hs) (queued q)\<rparr>)"
  have dequeue: "dequeue_children order p q = Done (children, q')"
    using remove_blocks_spec [OF hs(2) present] by (simp add: dequeue_children_def hs_def children_def q'_def)
  have fields: "queued q' = drop_hashes (queued_children p q) (queued q)" "by_parent q' = (by_parent q)(p := None)"
    "by_height q' = filter (\<lambda>(i, _). i \<notin> sv_height ` fst ` set children) (by_height q)"
    by (simp_all add: q'_def fold_queue_fields fold_by_height hs)
  have children_at: "b \<in> set children \<longleftrightarrow> (\<exists>h. map_of (queued q) h = Some b \<and> parent_of (fst b) = p)" for b
  proof
    assume "b \<in> set children"
    then obtain h where "h \<in> queued_children p q" "b = the (map_of (queued q) h)" by (auto simp: children_def hs(1))
    then show "\<exists>h. map_of (queued q) h = Some b \<and> parent_of (fst b) = p" by (auto simp: queued_children_def)
  next
    assume "\<exists>h. map_of (queued q) h = Some b \<and> parent_of (fst b) = p"
    then obtain h where h: "map_of (queued q) h = Some b" "parent_of (fst b) = p" by blast
    then have "h \<in> set hs" unfolding hs(1) queued_children_def by (cases b) simp
    then have "the (map_of (queued q) h) \<in> set children" by (simp add: children_def)
    then show "b \<in> set children" by (simp add: h)
  qed
  have set_children: "set children = {(b, tx). map_of (queued q) (sv_hash b) = Some (b, tx) \<and> parent_of b = p}"
    using children_at queue_okD(2) [OF ok] unfolding set_eq_iff mem_Collect_eq split_def by (metis fst_conv prod.collapse)
  have lookup: "map_of (queued q') h = (if h \<in> queued_children p q then None else map_of (queued q) h)" for h
    by (simp add: fields map_of_drop_hashes)
  have others: "queued_children p' q' = (if p' = p then {} else queued_children p' q)" for p'
    by (auto simp: queued_children_def lookup)
  have "queue_ok q'"
    unfolding queue_ok_def
  proof (intro conjI)
    show "distinct (map fst (queued q'))" by (simp add: fields distinct_drop_hashes queue_okD(1) [OF ok])
    show "\<forall>(h, b, tx) \<in> set (queued q'). sv_hash b = h" using ok by (auto simp: fields queue_ok_def drop_hashes_def)
    show "\<forall>p'. case by_parent q' p' of None \<Rightarrow> queued_children p' q' = {}
        | Some hs \<Rightarrow> hs \<noteq> [] \<and> distinct hs \<and> set hs = queued_children p' q'"
      using queue_okD(3,4) [OF ok] by (auto simp: fields others split: option.splits)
    show "btree_ok (by_height q')"
      using queue_okD(5) [OF ok] by (auto simp: fields btree_ok_def sorted_wrt_map intro!: sorted_wrt_filter)
    have "\<exists>b tx. map_of (queued q') x = Some (b, tx) \<and> sv_height b = i" if entry: "(i, hs) \<in> set (by_height q')" "x \<in> set hs" for i hs x
    proof -
      obtain b tx where b: "map_of (queued q) x = Some (b, tx)" "sv_height b = i"
        using entry queue_okD(7) [OF ok, of i hs x] by (auto simp: fields)
      moreover have "i \<notin> sv_height ` fst ` set children" using entry(1) by (auto simp: fields)
      ultimately have "(b, tx) \<notin> set children" by force
      then have "x \<notin> queued_children p q" using b children_at by (auto simp: queued_children_def)
      then show ?thesis using b by (auto simp: lookup)
    qed
    then show "\<forall>(i, hs) \<in> set (by_height q'). distinct hs \<and>
        (\<forall>x \<in> set hs. \<exists>b tx. map_of (queued q') x = Some (b, tx) \<and> sv_height b = i)"
      using queue_okD(6) [OF ok] by (fastforce simp: fields)
  qed
  moreover have "map (\<lambda>(b, _). sv_hash b) children = hs"
    using present queue_okD(2) [OF ok] by (force simp: children_def comp_def split_def intro!: map_idI)
  ultimately have "queue_ok q'" "distinct (map (\<lambda>(b, _). sv_hash b) children)" using hs(2) by simp_all
  moreover have "\<forall>(b, _) \<in> set children. sv_height b \<notin> fst ` set (by_height q')" by (force simp: fields)
  ultimately show thesis by (intro that [OF dequeue _ set_children _ fields(1)])
qed

section \<open>Pruning\<close>

lemma prune_block_spec:
  assumes ok: "queue_ok q" and b: "map_of (queued q) hash = Some (b, tx)" and gone: "\<forall>(i, hs) \<in> set (by_height q). hash \<notin> set hs"
  obtains q' where
    "prune_block hash q = Done ((tx, DuplicateBlock (Some (AtHeight (sv_height b))) Finalized), q')" "queue_ok q'"
    "queued q' = drop_hashes {hash} (queued q)" "by_height q' = by_height q"
proof -
  have mem: "hash \<in> queued_children (parent_of b) q" using b by (auto simp: queued_children_def)
  then obtain hs where hs: "by_parent q (parent_of b) = Some hs" using queue_okD(3) [OF ok] by fastforce
  note parents = queue_okD(4) [OF ok hs]
  define q' where "q' = q\<lparr>queued := AList.delete hash (queued q),
      known_utxos := forget_utxos (sv_new_outputs b) (known_utxos q),
      by_parent := (if length hs = 1 then (by_parent q)(parent_of b := None)
                    else (by_parent q)(parent_of b \<mapsto> removeAll hash hs))\<rparr>"
  have prune: "prune_block hash q = Done ((tx, DuplicateBlock (Some (AtHeight (sv_height b))) Finalized), q')"
    using mem parents by (simp add: prune_block_def b hs q'_def)
  have fields: "queued q' = drop_hashes {hash} (queued q)" "by_height q' = by_height q"
    by (simp_all add: q'_def AList_delete_drop)
  have lookup: "map_of (queued q') h = (if h = hash then None else map_of (queued q) h)" for h
    by (simp add: fields map_of_drop_hashes)
  have children: "queued_children p q' = queued_children p q - {hash}" for p
    by (auto simp: queued_children_def lookup)
  have other: "hash \<notin> queued_children p q" if "p \<noteq> parent_of b" for p using b that by (auto simp: queued_children_def)
  have hs_set: "distinct hs" "set hs = queued_children (parent_of b) q" "hash \<in> set hs" using parents mem by simp_all
  have single: "hs = [hash]" if one: "length hs = 1"
  proof -
    obtain x where "hs = [x]" using one by (auto simp: length_Suc_conv)
    then show ?thesis using hs_set(3) by simp
  qed
  have several: "removeAll hash hs \<noteq> []" if "length hs \<noteq> 1"
  proof
    assume "removeAll hash hs = []"
    then have "set hs = {hash}" using hs_set(3) by (metis Diff_eq_empty_iff set_empty set_removeAll subset_singleton_iff empty_iff)
    then have "length hs = 1" using hs_set(1) by (metis card.empty card_insert_disjoint distinct_card empty_iff finite.emptyI One_nat_def)
    then show False using that by simp
  qed
  have "queue_ok q'"
    unfolding queue_ok_def
  proof (intro conjI allI)
    show "distinct (map fst (queued q'))" by (simp add: fields distinct_drop_hashes queue_okD(1) [OF ok])
    show "\<forall>(h, b, tx) \<in> set (queued q'). sv_hash b = h" using ok by (auto simp: fields queue_ok_def drop_hashes_def)
    show "btree_ok (by_height q')" using queue_okD(5) [OF ok] by (simp add: fields)
    show "case by_parent q' p of None \<Rightarrow> queued_children p q' = {}
        | Some hs \<Rightarrow> hs \<noteq> [] \<and> distinct hs \<and> set hs = queued_children p q'" for p
    proof (cases "p = parent_of b")
      case True
      have "queued_children p q' = set hs - {hash}" by (simp add: children True hs_set(2))
      moreover have "by_parent q' p = (if length hs = 1 then None else Some (removeAll hash hs))" by (simp add: q'_def True)
      ultimately show ?thesis using single several hs_set(1) by (cases "length hs = 1") (simp_all add: distinct_removeAll)
    next
      case False
      then have "queued_children p q' = queued_children p q" using other by (auto simp: children)
      moreover have "by_parent q' p = by_parent q p" using False by (simp add: q'_def)
      ultimately show ?thesis using queue_okD(3,4) [OF ok, where p = p] by (simp split: option.split)
    qed
    have "\<exists>b tx. map_of (queued q') x = Some (b, tx) \<and> sv_height b = i" if "(i, l) \<in> set (by_height q)" "x \<in> set l" for i l x
      using queue_okD(7) [OF ok that] gone that by (auto simp: lookup)
    then show "\<forall>(i, hs) \<in> set (by_height q'). distinct hs \<and>
        (\<forall>x \<in> set hs. \<exists>b tx. map_of (queued q') x = Some (b, tx) \<and> sv_height b = i)"
      using queue_okD(6) [OF ok] unfolding fields by blast
  qed
  then show thesis by (intro that [OF prune _ fields])
qed

lemma prune_blocks_spec:
  assumes "queue_ok q" and "distinct hs" and "\<forall>h \<in> set hs. map_of (queued q) h \<noteq> None"
    and "\<forall>(i, l) \<in> set (by_height q). set hs \<inter> set l = {}"
  shows "\<exists>rs q'. prune_blocks hs q = Done (rs, q') \<and> queue_ok q' \<and> queued q' = drop_hashes (set hs) (queued q) \<and>
    by_height q' = by_height q"
  using assms
proof (induction hs arbitrary: q)
  case Nil
  have "drop_hashes {} (queued q) = queued q" by (simp add: drop_hashes_def split_def)
  then show ?case using Nil by simp
next
  case (Cons h hs)
  obtain b tx where b: "map_of (queued q) h = Some (b, tx)" using Cons.prems(3) by force
  have "\<forall>(i, l) \<in> set (by_height q). h \<notin> set l" using Cons.prems(4) by auto
  then obtain q1 where q1: "prune_block h q = Done ((tx, DuplicateBlock (Some (AtHeight (sv_height b))) Finalized), q1)"
    "queue_ok q1" "queued q1 = drop_hashes {h} (queued q)" "by_height q1 = by_height q"
    by (rule prune_block_spec [OF Cons.prems(1) b])
  have "\<forall>h' \<in> set hs. map_of (queued q1) h' \<noteq> None"
    using Cons.prems(2,3) by (auto simp: q1(3) map_of_drop_hashes)
  moreover have "\<forall>(i, l) \<in> set (by_height q1). set hs \<inter> set l = {}" using Cons.prems(4) by (auto simp: q1(4))
  ultimately obtain rs q' where "prune_blocks hs q1 = Done (rs, q')" "queue_ok q'"
    "queued q' = drop_hashes (set hs) (queued q1)" "by_height q' = by_height q1"
    using Cons.IH [OF q1(2)] Cons.prems(2) by auto
  then show ?case by (simp add: q1 drop_hashes_drop)
qed

text \<open>The blocks that the height index has at or below a height.\<close>

definition indexed_below :: "height \<Rightarrow> queued_blocks \<Rightarrow> block_hash set" where
  "indexed_below h q = (\<Union>(i, hs) \<in> {e \<in> set (by_height q). fst e \<le> h}. set hs)"

lemma prune_by_height_spec:
  assumes ok: "queue_ok q" and order: "permuting order" and "h < Height_MAX"
  obtains rs q' where "prune_by_height order h q = Done (rs, q')" "queue_ok q'"
    "queued q' = drop_hashes (indexed_below h q) (queued q)"
proof -
  let ?low = "filter (\<lambda>(i, _). i < Suc h) (by_height q)" and ?high = "filter (\<lambda>(i, _). i \<ge> Suc h) (by_height q)"
  define hs where "hs = concat (map (\<lambda>(_, hs). order hs) ?low)"
  note keys = btree_ok_distinct [OF queue_okD(5) [OF ok]]
  have next_height: "height_add h 1 = Some (Suc h)"
    using assms(3) by (simp add: height_add_def Height_MAX_def u32_try_from_def in_u32_def wrap_i64_id in_i64_def height_try_from_u32_def nat_add_distrib)
  have same: "i = j" if "(i, l) \<in> set (by_height q)" "(j, l') \<in> set (by_height q)" "x \<in> set l" "x \<in> set l'" for i j l l' x
    using queue_okD(7) [OF ok that(1,3)] queue_okD(7) [OF ok that(2,4)] by auto
  have "distinct (concat (map (\<lambda>(_, hs). order hs) es))" if "distinct (map fst es)" "set es \<subseteq> set (by_height q)" for es
    using that
  proof (induction es)
    case (Cons e es)
    obtain i l where e: "e = (i, l)" by (cases e)
    have "set l \<inter> set l' = {}" if "(j, l') \<in> set es" for j l'
      using Cons.prems that same [of i l j l'] by (force simp: e)
    moreover have "distinct l" using Cons.prems queue_okD(6) [OF ok, of i l] by (simp add: e)
    ultimately show ?case using Cons permutingD [OF order] by (fastforce simp: e)
  qed simp
  moreover have "distinct (map fst ?low)" "set ?low \<subseteq> set (by_height q)"
    using keys by (auto simp: distinct_map intro: inj_on_subset)
  ultimately have distinct: "distinct hs" by (simp add: hs_def)
  have set_hs: "set hs = indexed_below h q" using permutingD [OF order] by (auto simp: hs_def indexed_below_def less_Suc_eq_le)
  define q0 where "q0 = q\<lparr>by_height := ?high\<rparr>"
  have "queued_children p q0 = queued_children p q" "by_parent q0 = by_parent q" "queued q0 = queued q" "by_height q0 = ?high" for p
    by (simp_all add: q0_def queued_children_def)
  then have "queue_ok q0"
    using ok by (auto simp: queue_ok_def btree_ok_def sorted_wrt_map intro!: sorted_wrt_filter cong: option.case_cong)
  moreover have "\<forall>h' \<in> set hs. map_of (queued q0) h' \<noteq> None"
    using queue_okD(7) [OF ok] by (fastforce simp: set_hs indexed_below_def q0_def)
  moreover have "\<forall>(i, l) \<in> set (by_height q0). set hs \<inter> set l = {}"
    using same by (fastforce simp: set_hs indexed_below_def q0_def)
  ultimately obtain rs q' where "prune_blocks hs q0 = Done (rs, q')" "queue_ok q'" "queued q' = drop_hashes (set hs) (queued q0)"
    using prune_blocks_spec [OF _ distinct] by metis
  then show thesis using that by (simp add: prune_by_height_def next_height hs_def [symmetric] set_hs q0_def)
qed

end
