(* ===== verification/Queue_Theorems.thy ===== *)
theory Queue_Theorems
  imports Queue_Invariants State_Theorems
begin

text \<open>
  The queueing of blocks by the state service: no request panics, a queued block is sent to the block write worker as
  soon as its parent is, and the parents come first.
\<close>

section \<open>Waiting blocks\<close>

inductive_set descendants :: "queued_blocks \<Rightarrow> block_hash set \<Rightarrow> block_hash set" for q P where
  child: "p \<in> P \<Longrightarrow> h \<in> queued_children p q \<Longrightarrow> h \<in> descendants q P"
| grandchild: "p \<in> descendants q P \<Longrightarrow> h \<in> queued_children p q \<Longrightarrow> h \<in> descendants q P"

fun parents_first :: "block_hash set \<Rightarrow> semantically_verified_block list \<Rightarrow> bool" where
  "parents_first P [] \<longleftrightarrow> True"
| "parents_first P (b # bs) \<longleftrightarrow> parent_of b \<in> P \<and> parents_first (insert (sv_hash b) P) bs"

lemma parents_first_mono: "parents_first P bs \<Longrightarrow> P \<subseteq> P' \<Longrightarrow> parents_first P' bs"
  by (induction bs arbitrary: P P') (auto, meson insert_mono)

lemma parents_first_append:
  "parents_first P (xs @ ys) \<longleftrightarrow> parents_first P xs \<and> parents_first (P \<union> sv_hash ` set xs) ys"
  by (induction xs arbitrary: P) auto

lemma parents_first_siblings: "\<forall>b \<in> set bs. parent_of b \<in> P \<Longrightarrow> parents_first P bs"
  by (induction bs arbitrary: P) auto

lemma queued_children_drop:
  assumes "queued q' = drop_hashes S (queued q)"
  shows "queued_children p q' = queued_children p q - S"
  using assms by (auto simp: queued_children_def map_of_drop_hashes split: if_splits)

lemma descendants_Cons:
  assumes "queued q' = drop_hashes (queued_children p q) (queued q)"
  shows "descendants q (insert p P) = queued_children p q \<union> descendants q' (queued_children p q \<union> P)"
proof (intro equalityI subsetI)
  fix h assume "h \<in> descendants q (insert p P)"
  then show "h \<in> queued_children p q \<union> descendants q' (queued_children p q \<union> P)"
    by induction (auto simp: queued_children_drop [OF assms] intro: descendants.intros)
next
  have C: "h \<in> descendants q (insert p P)" if "h \<in> queued_children p q" for h using that by (blast intro: descendants.intros)
  have "h \<in> descendants q (insert p P)" if "h \<in> descendants q' (queued_children p q \<union> P)" for h
    using that by induction (auto simp: queued_children_drop [OF assms] intro: descendants.intros C)
  then show "h \<in> descendants q (insert p P)" if "h \<in> queued_children p q \<union> descendants q' (queued_children p q \<union> P)" for h
    using that C by blast
qed

lemma descendants_queued: "h \<in> descendants q P \<Longrightarrow> \<exists>b tx. map_of (queued q) h = Some (b, tx)"
  by (induction rule: descendants.induct) (auto simp: queued_children_def)

lemma descendants_empty: "descendants q {} = {}"
proof -
  have "h \<notin> descendants q {}" for h by (rule notI, induction rule: descendants.induct) auto
  then show ?thesis by blast
qed

section \<open>Sending\<close>

definition keeps_senders :: "state_service \<Rightarrow> state_service \<Rightarrow> bool" where
  "keeps_senders svc svc' \<longleftrightarrow>
     finalized_sender svc' = finalized_sender svc \<and> non_finalized_sender svc' = non_finalized_sender svc \<and>
     can_fork_chain_at_hashes (sent_to_writer svc') = can_fork_chain_at_hashes (sent_to_writer svc)"

lemma can_fork_fields [simp]:
  "can_fork_chain_at_hashes (sent_add b s) = can_fork_chain_at_hashes s"
  "can_fork_chain_at_hashes (finish_batch s) = can_fork_chain_at_hashes s"
  "sent (sent_add b s) = (sent s)(sv_hash b \<mapsto> sv_new_outputs b)"
  "sent (finish_batch s) = sent s"
  by (simp_all add: sent_add_def finish_batch_def)

lemma clear_non_finalized_fields [simp]:
  "nf_queue (clear_non_finalized_block_queue e svc) = queue_default"
  "finalized_sender (clear_non_finalized_block_queue e svc) = finalized_sender svc"
  "non_finalized_sender (clear_non_finalized_block_queue e svc) = non_finalized_sender svc"
  "sent_to_writer (clear_non_finalized_block_queue e svc) = sent_to_writer svc"
  by (simp_all add: clear_non_finalized_block_queue_def queue_drain_def split_def)

lemma clear_finalized_fields [simp]:
  "nf_queue (clear_finalized_block_queue e svc) = nf_queue svc"
  "finalized_sender (clear_finalized_block_queue e svc) = finalized_sender svc"
  "non_finalized_sender (clear_finalized_block_queue e svc) = non_finalized_sender svc"
  "sent_to_writer (clear_finalized_block_queue e svc) = sent_to_writer svc"
  by (simp_all add: clear_finalized_block_queue_def split_def)

lemma send_children_cases:
  "case send_children senv children ps svc of
     Inl svc' \<Rightarrow> keeps_senders svc svc' \<and> nf_queue svc' = queue_default
   | Inr (ps', svc') \<Rightarrow> keeps_senders svc svc' \<and> nf_queue svc' = nf_queue svc \<and>
       non_finalized_channel svc' = non_finalized_channel svc @ children \<and> set ps' = set ps \<union> (\<lambda>(b, _). sv_hash b) ` set children \<and>
       dom (sent (sent_to_writer svc')) = dom (sent (sent_to_writer svc)) \<union> (\<lambda>(b, _). sv_hash b) ` set children"
proof (induction senv children ps svc rule: send_children.induct)
  case (2 senv b tx children ps svc)
  let ?svc = "svc\<lparr>sent_to_writer := sent_add b (sent_to_writer svc), non_finalized_channel := non_finalized_channel svc @ [(b, tx)]\<rparr>"
  show ?case
  proof (cases "non_finalized_open senv (length (non_finalized_channel svc))")
    case True
    then show ?thesis
      using 2 by (cases "send_children senv children (sv_hash b # ps) ?svc") (simp_all add: Let_def keeps_senders_def split_def)
  qed (simp add: Let_def keeps_senders_def)
qed (simp add: keeps_senders_def)

lemma send_children_open:
  "(\<And>n. non_finalized_open senv n) \<Longrightarrow> \<exists>r. send_children senv children ps svc = Inr r"
  by (induction senv children ps svc rule: send_children.induct) (auto simp: Let_def)

text \<open>What the loop sends, unless the worker stops receiving.\<close>

definition sends_waiting :: "block_hash set \<Rightarrow> state_service \<Rightarrow> state_service \<Rightarrow> bool" where
  "sends_waiting P svc svc' \<longleftrightarrow>
     (\<exists>L. non_finalized_channel svc' = non_finalized_channel svc @ L \<and>
        set L = {(b, tx). map_of (queued (nf_queue svc)) (sv_hash b) = Some (b, tx) \<and> sv_hash b \<in> descendants (nf_queue svc) P} \<and>
        distinct (map (\<lambda>(b, _). sv_hash b) L) \<and> parents_first P (map fst L)) \<and>
     queued (nf_queue svc') = drop_hashes (descendants (nf_queue svc) P) (queued (nf_queue svc)) \<and>
     dom (sent (sent_to_writer svc')) = dom (sent (sent_to_writer svc)) \<union> descendants (nf_queue svc) P"

lemma sends_waiting_Cons:
  assumes q: "set children = {(b, tx). map_of (queued (nf_queue svc)) (sv_hash b) = Some (b, tx) \<and> parent_of b = p}"
      "distinct (map (\<lambda>(b, _). sv_hash b) children)" "queued q = drop_hashes (queued_children p (nf_queue svc)) (queued (nf_queue svc))"
      "queue_ok (nf_queue svc)"
    and svc1: "nf_queue svc1 = q" "non_finalized_channel svc1 = non_finalized_channel svc @ children"
      "dom (sent (sent_to_writer svc1)) = dom (sent (sent_to_writer svc)) \<union> (\<lambda>(b, _). sv_hash b) ` set children"
    and rest: "sends_waiting (P \<union> (\<lambda>(b, _). sv_hash b) ` set children) svc1 svc'"
  shows "sends_waiting (insert p P) svc svc'"
proof -
  let ?C = "queued_children p (nf_queue svc)" and ?D = "descendants (nf_queue svc) (insert p P)"
  have C: "(\<lambda>(b, _). sv_hash b) ` set children = ?C"
    using queue_okD(2) [OF q(4)] by (force simp: q(1) queued_children_def)
  have D: "?D = ?C \<union> descendants q (?C \<union> P)" using descendants_Cons [OF q(3)] .
  have later: "h \<notin> ?C" if "h \<in> descendants q (?C \<union> P)" for h
    using descendants_queued [OF that] by (auto simp: q(3) map_of_drop_hashes split: if_splits)
  have PC: "P \<union> ?C = ?C \<union> P" by blast
  obtain L where L: "non_finalized_channel svc' = non_finalized_channel svc1 @ L"
    "set L = {(b, tx). map_of (queued q) (sv_hash b) = Some (b, tx) \<and> sv_hash b \<in> descendants q (?C \<union> P)}"
    "distinct (map (\<lambda>(b, _). sv_hash b) L)" "parents_first (?C \<union> P) (map fst L)"
    using rest unfolding sends_waiting_def C svc1(1) PC by blast
  have after: "queued (nf_queue svc') = drop_hashes (descendants q (?C \<union> P)) (queued q)"
    "dom (sent (sent_to_writer svc')) = dom (sent (sent_to_writer svc1)) \<union> descendants q (?C \<union> P)"
    using rest unfolding sends_waiting_def C svc1(1) PC by blast+
  have "set (children @ L) = {(b, tx). map_of (queued (nf_queue svc)) (sv_hash b) = Some (b, tx) \<and> sv_hash b \<in> ?D}"
    using later by (auto simp: q(1) L(2) D q(3) map_of_drop_hashes queued_children_def split: if_splits)
  moreover have "distinct (map (\<lambda>(b, _). sv_hash b) (children @ L))"
    using q(2) L(3) later C by (fastforce simp: L(2))
  moreover have "parents_first (insert p P) (map fst (children @ L))"
  proof -
    have "parents_first (insert p P) (map fst children)" by (intro parents_first_siblings) (auto simp: q(1))
    moreover have "sv_hash ` set (map fst children) = ?C" using C by (simp add: image_image split_def)
    ultimately show ?thesis
      using parents_first_mono [OF L(4), of "insert p P \<union> ?C"] by (auto simp: parents_first_append image_image)
  qed
  moreover have "queued (nf_queue svc') = drop_hashes ?D (queued (nf_queue svc))"
    unfolding after(1) q(3) drop_hashes_drop D by (simp only: Un_commute)
  moreover have "dom (sent (sent_to_writer svc')) = dom (sent (sent_to_writer svc)) \<union> ?D"
    unfolding after(2) svc1(3) C D by (simp only: Un_assoc)
  moreover have "non_finalized_channel svc' = non_finalized_channel svc @ children @ L" by (simp add: L(1) svc1(2))
  ultimately show ?thesis unfolding sends_waiting_def by blast
qed

lemma send_ready_loop_spec:
  assumes "permuting (hash_order senv)" and "queue_ok (nf_queue svc)"
  shows "\<exists>svc'. send_ready_loop senv ps svc = Done svc' \<and> queue_ok (nf_queue svc') \<and> keeps_senders svc svc' \<and>
    (nf_queue svc' = queue_default \<and> \<not> (\<forall>n. non_finalized_open senv n) \<or> sends_waiting (set ps) svc svc')"
  using assms
proof (induction senv ps svc rule: send_ready_loop.induct)
  case (1 senv svc)
  have "drop_hashes {} bs = bs" for bs :: "(block_hash \<times> queued_block) list" by (simp add: drop_hashes_def split_def)
  then show ?case using 1 by (simp add: keeps_senders_def sends_waiting_def descendants_empty)
next
  case (2 senv p ps svc)
  obtain children q where q: "dequeue_children (hash_order senv) p (nf_queue svc) = Done (children, q)" "queue_ok q"
    "set children = {(b, tx). map_of (queued (nf_queue svc)) (sv_hash b) = Some (b, tx) \<and> parent_of b = p}"
    "distinct (map (\<lambda>(b, _). sv_hash b) children)" "queued q = drop_hashes (queued_children p (nf_queue svc)) (queued (nf_queue svc))"
    using dequeue_children_spec [OF 2(3,2)] .
  let ?svc = "svc\<lparr>nf_queue := q\<rparr>"
  show ?case
  proof (cases "send_children senv children ps ?svc")
    case (Inl svc1)
    then have "\<not> (\<forall>n. non_finalized_open senv n)" using send_children_open [where senv = senv] by (metis sum.distinct(1))
    then show ?thesis
      using Inl send_children_cases [where senv = senv and children = children and ps = ps and svc = ?svc] by (auto simp: q(1) queue_default_ok keeps_senders_def)
  next
    case (Inr r)
    obtain ps1 svc1 where r: "r = (ps1, svc1)" by (cases r)
    have svc1: "keeps_senders svc svc1" "nf_queue svc1 = q" "non_finalized_channel svc1 = non_finalized_channel svc @ children"
      "set ps1 = set ps \<union> (\<lambda>(b, _). sv_hash b) ` set children"
      "dom (sent (sent_to_writer svc1)) = dom (sent (sent_to_writer svc)) \<union> (\<lambda>(b, _). sv_hash b) ` set children"
      using send_children_cases [where senv = senv and children = children and ps = ps and svc = ?svc] by (simp_all add: Inr r keeps_senders_def)
    obtain svc' where svc': "send_ready_loop senv ps1 svc1 = Done svc'" "queue_ok (nf_queue svc')" "keeps_senders svc1 svc'"
      "nf_queue svc' = queue_default \<and> \<not> (\<forall>n. non_finalized_open senv n) \<or> sends_waiting (set ps1) svc1 svc'"
      using 2(1) [OF q(1) refl Inr r [symmetric]] 2(2) q(2) svc1(2) by auto
    moreover have "keeps_senders svc svc'" using svc1(1) svc'(3) by (simp add: keeps_senders_def)
    moreover have "sends_waiting (set ps1) svc1 svc' \<Longrightarrow> sends_waiting (set (p # ps)) svc svc'"
      using sends_waiting_Cons [OF q(3-5) 2(3) svc1(2,3,5), of "set ps" svc'] by (simp add: svc1(4))
    ultimately show ?thesis by (auto simp: q(1) Inr r)
  qed
qed

section \<open>The state service\<close>

definition service_ok :: "state_service \<Rightarrow> bool" where
  "service_ok svc \<longleftrightarrow> queue_ok (nf_queue svc) \<and> non_finalized_sender svc \<and>
     (\<not> finalized_sender svc \<longrightarrow> can_fork_chain_at_hashes (sent_to_writer svc) \<and>
        (\<forall>(h, b, tx) \<in> set (queued (nf_queue svc)). sent (sent_to_writer svc) (parent_of b) = None))"

lemma no_waiting_default: "service_ok svc' \<longleftrightarrow> non_finalized_sender svc' \<and>
    (\<not> finalized_sender svc' \<longrightarrow> can_fork_chain_at_hashes (sent_to_writer svc'))" if "nf_queue svc' = queue_default"
  using that by (auto simp: service_ok_def queue_default_ok) (simp_all add: queue_default_def)

text \<open>Replacing the response channel of a queued block.\<close>

lemma queue_replace_ok:
  assumes ok: "queue_ok q" and old: "map_of (queued q) h0 = Some (b, tx)"
  shows "queue_ok (q\<lparr>queued := AList.update h0 (b, tx') (queued q)\<rparr>)" (is "queue_ok ?q")
    and "\<forall>(h, b', t') \<in> set (AList.update h0 (b, tx') (queued q)). \<exists>t''. (h, b', t'') \<in> set (queued q)"
proof -
  have lookup: "map_of (queued ?q) h = (if h = h0 then Some (b, tx') else map_of (queued q) h)" for h
    by (simp add: update_conv)
  have "map fst (queued ?q) = map fst (queued q)" using map_of_in_set [OF old] by (simp add: update_keys)
  then have distinct: "distinct (map fst (queued ?q))" using queue_okD(1) [OF ok] by simp
  then have members: "(h, x) \<in> set (queued ?q) \<longleftrightarrow> map_of (queued ?q) h = Some x" for h x by simp
  have old_block: "\<exists>t''. map_of (queued q) h = Some (b', t'')" if "map_of (queued ?q) h = Some (b', t')" for h b' t'
    using that old unfolding lookup by (auto split: if_splits)
  then show "\<forall>(h, b', t') \<in> set (AList.update h0 (b, tx') (queued q)). \<exists>t''. (h, b', t'') \<in> set (queued q)"
    using members map_of_SomeD by fastforce
  show "queue_ok ?q"
    unfolding queue_ok_def
  proof (intro conjI allI distinct)
    show "\<forall>(h, b, tx) \<in> set (queued ?q). sv_hash b = h" using members old_block queue_okD(2) [OF ok] by fast
    have "queued_children p ?q = queued_children p q" for p
      using old unfolding queued_children_def lookup by auto
    moreover have "by_parent ?q = by_parent q" by simp
    ultimately show "case by_parent ?q p of None \<Rightarrow> queued_children p ?q = {}
        | Some hs \<Rightarrow> hs \<noteq> [] \<and> distinct hs \<and> set hs = queued_children p ?q" for p
      using queue_okD(3,4) [OF ok, where p = p] by (simp split: option.split)
    show "btree_ok (by_height ?q)" using queue_okD(5) [OF ok] by simp
    have "\<exists>b' t'. map_of (queued ?q) x = Some (b', t') \<and> sv_height b' = i" if "(i, hs) \<in> set (by_height q)" "x \<in> set hs" for i hs x
      using queue_okD(7) [OF ok that] old unfolding lookup by auto
    then show "\<forall>(i, hs) \<in> set (by_height ?q). distinct hs \<and>
        (\<forall>x \<in> set hs. \<exists>b tx. map_of (queued ?q) x = Some (b, tx) \<and> sv_height b = i)"
      using queue_okD(6) [OF ok] by auto
  qed
qed

lemma queue_or_replace_spec:
  assumes ok: "queue_ok (nf_queue svc)"
  obtains tx svc' where "queue_or_replace b svc = (tx, svc')" "queue_ok (nf_queue svc')" "keeps_senders svc svc'"
    "sent_to_writer svc' = sent_to_writer svc"
    "\<forall>(h, b', tx') \<in> set (queued (nf_queue svc')). b' = b \<or> (\<exists>tx''. (h, b', tx'') \<in> set (queued (nf_queue svc)))"
proof (cases "map_of (queued (nf_queue svc)) (sv_hash b)")
  case None
  show ?thesis
    by (rule that [OF prod.collapse [symmetric]])
      (auto simp: queue_or_replace_def new_channel_def None keeps_senders_def queue_block_ok [OF ok] queue_block_new [OF None])
next
  case (Some old)
  obtain old_b old_tx where old: "old = (old_b, old_tx)" by (cases old)
  note replaced = queue_replace_ok [OF ok Some [unfolded old], where tx' = "channels svc"]
  show ?thesis
    by (rule that [OF prod.collapse [symmetric]])
      (use replaced in \<open>auto simp: queue_or_replace_def new_channel_def Some old keeps_senders_def\<close>)
qed

lemma sent_prune_fields:
  "can_fork_chain_at_hashes (sent_prune_by_height h s) = can_fork_chain_at_hashes s"
  "sent s k = None \<Longrightarrow> sent (sent_prune_by_height h s) k = None"
proof -
  have buf: "can_fork_chain_at_hashes (snd (prune_buf h b s)) = can_fork_chain_at_hashes s \<and>
      (sent s k = None \<longrightarrow> sent (snd (prune_buf h b s)) k = None)" for b s
    by (induction h b s rule: prune_buf.induct) (auto split: option.splits)
  have "can_fork_chain_at_hashes (snd (prune_bufs h bs s)) = can_fork_chain_at_hashes s \<and>
      (sent s k = None \<longrightarrow> sent (snd (prune_bufs h bs s)) k = None)" for bs s
  proof (induction bs arbitrary: s)
    case (Cons b bs)
    show ?case using buf [of b s] Cons.IH [of "snd (prune_buf h b s)"] by (simp add: split_def Let_def)
  qed simp
  then show "can_fork_chain_at_hashes (sent_prune_by_height h s) = can_fork_chain_at_hashes s"
    "sent s k = None \<Longrightarrow> sent (sent_prune_by_height h s) k = None"
    by (simp_all add: sent_prune_by_height_def split_def Let_def)
qed

text \<open>After sending from a parent, no queued block has a parent that was sent, if this held for the blocks that do
  not have that parent.\<close>

lemma send_ready_ok:
  assumes "permuting (hash_order senv)" and "queue_ok (nf_queue svc)" and "non_finalized_sender svc"
    and "can_fork_chain_at_hashes (sent_to_writer svc)"
    and "\<forall>(h, b, tx) \<in> set (queued (nf_queue svc)). parent_of b \<noteq> p \<longrightarrow> sent (sent_to_writer svc) (parent_of b) = None"
  obtains svc' where "send_ready_non_finalized_queued senv p svc = Done svc'" "service_ok svc'" "keeps_senders svc svc'"
proof -
  obtain svc' where svc': "send_ready_loop senv [p] svc = Done svc'" "queue_ok (nf_queue svc')" "keeps_senders svc svc'"
    "nf_queue svc' = queue_default \<or> sends_waiting {p} svc svc'"
    using send_ready_loop_spec [OF assms(1,2), of "[p]"] by auto
  have "service_ok svc'"
  proof (cases "nf_queue svc' = queue_default")
    case True
    then show ?thesis using svc'(3) assms(3,4) by (simp add: no_waiting_default keeps_senders_def)
  next
    case False
    let ?D = "descendants (nf_queue svc) {p}"
    have D: "queued (nf_queue svc') = drop_hashes ?D (queued (nf_queue svc))"
      "dom (sent (sent_to_writer svc')) = dom (sent (sent_to_writer svc)) \<union> ?D"
      using svc'(4) False by (simp_all add: sends_waiting_def)
    have "sent (sent_to_writer svc') (parent_of b) = None" if "(h, b, tx) \<in> set (queued (nf_queue svc'))" for h b tx
    proof -
      have h: "(h, b, tx) \<in> set (queued (nf_queue svc))" "h \<notin> ?D" using that by (auto simp: D drop_hashes_def)
      then have child: "h \<in> queued_children (parent_of b) (nf_queue svc)"
        using queue_okD(1) [OF assms(2)] by (force simp: queued_children_def)
      then have "parent_of b \<noteq> p" "parent_of b \<notin> ?D" using h(2) by (auto intro: descendants.intros)
      then have "parent_of b \<notin> dom (sent (sent_to_writer svc'))" using assms(5) h(1) by (auto simp: D(2))
      then show ?thesis by blast
    qed
    then show ?thesis using svc'(2,3) assms(3,4) by (auto simp: service_ok_def keeps_senders_def)
  qed
  then show thesis using that svc' assms(3) by (simp add: send_ready_non_finalized_queued_def)
qed

lemma send_and_prune_ok:
  assumes senv: "permuting (hash_order senv)" and tip: "finalized_tip_height db = Some h" "h < Height_MAX"
    and ok: "queue_ok (nf_queue svc)" "non_finalized_sender svc"
    and waiting: "\<not> finalized_sender svc \<Longrightarrow> can_fork_chain_at_hashes (sent_to_writer svc)"
      "\<not> finalized_sender svc \<Longrightarrow> \<forall>(h, b, tx) \<in> set (queued (nf_queue svc)). parent_of b \<noteq> p \<longrightarrow> sent (sent_to_writer svc) (parent_of b) = None"
  shows "\<exists>svc'. send_and_prune senv db p svc = Done svc' \<and> service_ok svc'"
proof -
  consider (switch) "finalized_sender svc" "has_queued_children (last_sent_hash svc) (nf_queue svc)" "finalized_tip_hash db = last_sent_hash svc"
    | (wait) "\<not> (finalized_sender svc \<and> has_queued_children (last_sent_hash svc) (nf_queue svc) \<and> finalized_tip_hash db = last_sent_hash svc)"
        "\<not> can_fork_chain_at db p svc \<or> finalized_sender svc"
    | (send) "can_fork_chain_at db p svc" "\<not> finalized_sender svc" by blast
  then show ?thesis
  proof cases
    case switch
    let ?svc = "svc\<lparr>finalized_sender := False, sent_to_writer := sent_default\<lparr>can_fork_chain_at_hashes := True\<rparr>\<rparr>"
    obtain svc' where "send_ready_non_finalized_queued senv (last_sent_hash svc) ?svc = Done svc'" "service_ok svc'"
      by (rule send_ready_ok [OF senv, of ?svc "last_sent_hash svc"]) (use ok in \<open>auto simp: sent_default_def\<close>)
    then show ?thesis using switch by (simp add: send_and_prune_def service_ok_def)
  next
    case wait
    have "service_ok svc"
      using wait ok waiting by (fastforce simp: service_ok_def can_fork_chain_at_def sent_can_fork_chain_at_def sent_contains_def)
    then show ?thesis using wait by (auto simp: send_and_prune_def)
  next
    case send
    obtain svc1 where svc1: "send_ready_non_finalized_queued senv p svc = Done svc1" "service_ok svc1" "keeps_senders svc svc1"
      using send_ready_ok [OF senv ok waiting [OF send(2)]] .
    then obtain rs q where q: "prune_by_height (hash_order senv) h (nf_queue svc1) = Done (rs, q)" "queue_ok q"
      "queued q = drop_hashes (indexed_below h (nf_queue svc1)) (queued (nf_queue svc1))"
      using prune_by_height_spec [OF _ senv tip(2), of "nf_queue svc1"] by (auto simp: service_ok_def)
    then show ?thesis
      using send svc1 tip(1) by (auto simp: send_and_prune_def service_ok_def sent_prune_fields drop_hashes_def)
  qed
qed

lemma semantic_request_ok:
  assumes "permuting (hash_order senv)" and "finalized_tip_height db = Some h" "h < Height_MAX" and ok: "service_ok svc"
  shows "\<exists>tx svc'. queue_and_commit_to_non_finalized_state senv db b svc = Done (tx, svc') \<and> service_ok svc'"
proof -
  have "queue_ok (nf_queue svc)" using ok by (simp add: service_ok_def)
  from queue_or_replace_spec [OF this, of b] obtain tx svc1 where svc1: "queue_or_replace b svc = (tx, svc1)"
    "queue_ok (nf_queue svc1)" "keeps_senders svc svc1" "sent_to_writer svc1 = sent_to_writer svc"
    "\<forall>(h, b', tx') \<in> set (queued (nf_queue svc1)). b' = b \<or> (\<exists>tx''. (h, b', tx'') \<in> set (queued (nf_queue svc)))" .
  have "\<exists>svc'. send_and_prune senv db (parent_of b) svc1 = Done svc' \<and> service_ok svc'"
  proof (rule send_and_prune_ok [OF assms(1-3) svc1(2)])
    show "non_finalized_sender svc1" using ok svc1(3) by (simp add: service_ok_def keeps_senders_def)
    assume closed: "\<not> finalized_sender svc1"
    then show "can_fork_chain_at_hashes (sent_to_writer svc1)" using ok svc1(3) by (simp add: service_ok_def keeps_senders_def)
    show "\<forall>(h, b', tx) \<in> set (queued (nf_queue svc1)). parent_of b' \<noteq> parent_of b \<longrightarrow> sent (sent_to_writer svc1) (parent_of b') = None"
      using closed svc1(3,5) ok unfolding service_ok_def keeps_senders_def svc1(4) by fast
  qed
  moreover have "service_ok (respond t e (snd (new_channel svc)))" for t e
    using ok by (simp add: service_ok_def new_channel_def)
  ultimately show ?thesis using svc1(1)
    by (auto simp: queue_and_commit_to_non_finalized_state_def split_def Let_def)
qed

lemma drain_finalized_fields:
  "nf_queue (drain_finalized_queue senv svc) = nf_queue svc \<and> finalized_sender (drain_finalized_queue senv svc) = finalized_sender svc \<and>
   non_finalized_sender (drain_finalized_queue senv svc) = non_finalized_sender svc \<and>
   sent_to_writer (drain_finalized_queue senv svc) = sent_to_writer svc"
proof (induction senv svc rule: drain_finalized_queue.induct)
  case (1 senv svc)
  show ?case using 1 by (subst (1 2 3 4) drain_finalized_queue.simps) (auto simp: Let_def split: option.split)
qed

lemma checkpoint_request_ok:
  assumes "service_ok svc" and "finalized_sender svc \<or> \<not> is_close_to_final_checkpoint (sv_height b) svc"
  shows "service_ok (snd (queue_and_commit_to_finalized_state senv reset b svc))"
  using assms
  by (auto simp: queue_and_commit_to_finalized_state_def service_ok_def new_channel_def Let_def drain_finalized_queue_and_commit_def
      drain_finalized_fields split: option.split try_recv.split)

lemma service_new_ok:
  assumes "service_new nfs db m limit = Done svc" and "\<forall>c \<in> set (chain_set nfs). blocks c \<noteq> []"
  shows "service_ok svc"
  using assms
  by (auto simp: service_new_def run_bind_Done_iff service_ok_def queue_default_ok sent_new_def chain_iter_def Let_def)
    (auto simp: queue_default_def)

text \<open>The states that the service reaches, when the finalized state is one of \<open>dbs\<close> at each request.\<close>

inductive service_run :: "('t, 'h) zebra_db set \<Rightarrow> state_service \<Rightarrow> bool" for dbs where
  start: "db \<in> dbs \<Longrightarrow> service_new nfs db m limit = Done svc \<Longrightarrow> \<forall>c \<in> set (chain_set nfs). blocks c \<noteq> [] \<Longrightarrow> service_run dbs svc"
| semantic: "service_run dbs svc \<Longrightarrow> db \<in> dbs \<Longrightarrow> permuting (hash_order senv) \<Longrightarrow> finalized_tip_height db = Some h \<Longrightarrow> h < Height_MAX \<Longrightarrow>
    queue_and_commit_to_non_finalized_state senv db b svc = Done (tx, svc') \<Longrightarrow> service_run dbs svc'"
| checkpoint: "service_run dbs svc \<Longrightarrow> finalized_sender svc \<or> \<not> is_close_to_final_checkpoint (sv_height b) svc \<Longrightarrow>
    queue_and_commit_to_finalized_state senv reset b svc = (tx, svc') \<Longrightarrow> service_run dbs svc'"

lemma service_run_ok: "service_run dbs svc \<Longrightarrow> service_ok svc"
proof (induction rule: service_run.induct)
  case (semantic svc db senv h b tx svc')
  then show ?case using semantic_request_ok [OF semantic(3-5,7), of b] by auto
next
  case (checkpoint svc b senv reset tx svc')
  then show ?case using checkpoint_request_ok [OF checkpoint(4,2), of senv reset] by simp
qed (rule service_new_ok)

section \<open>A sample service\<close>

definition sample_service_env :: service_env where
  "sample_service_env = \<lparr>hash_order = (\<lambda>hs. hs), finalized_open = (\<lambda>_. True), non_finalized_open = (\<lambda>_. True)\<rparr>"

definition sample_side_block :: semantically_verified_block where
  "sample_side_block = (sample_prepared 2)\<lparr>sv_hash := [9],
     sv_block := (cv_block (sample_chain_block 2))\<lparr>block_header := sample_header\<lparr>previous_block_hash := [8]\<rparr>\<rparr>\<rparr>"

definition sample_queue :: queued_blocks where
  "sample_queue = queue_block (sample_side_block, 2) (queue_block (sample_prepared 3, 1) (queue_block (sample_prepared 2, 0) queue_default))"

definition sample_service :: state_service where
  "sample_service =
     \<lparr>full_verifier_utxo_lookahead = 0, nf_queue = sample_queue, finalized_queue = [], finalized_sender = False,
      non_finalized_sender = True, last_sent_hash = [1], sent_to_writer = sent_default\<lparr>can_fork_chain_at_hashes := True\<rparr>,
      finalized_channel = [], non_finalized_channel = [], responses = [], channels = 3\<rparr>"

lemma sample_order: "permuting (hash_order sample_service_env)"
  by (simp add: permuting_def sample_service_env_def)

lemma sample_queue_ok: "queue_ok sample_queue"
  by (simp add: sample_queue_def queue_block_ok queue_default_ok)

lemma sample_block_fields [simp]:
  "sv_hash (sample_prepared h) = [of_nat h]" "sv_height (sample_prepared h) = h" "parent_of (sample_prepared h) = [of_nat h - 1]"
  "sv_hash sample_side_block = [9]" "sv_height sample_side_block = 2" "parent_of sample_side_block = [8]"
  by (simp_all add: sample_prepared_def sample_side_block_def parent_of_def sample_chain_block_def)

lemma sample_queued:
  "queued sample_queue = [([2], sample_prepared 2, 0), ([3], sample_prepared 3, 1), ([9], sample_side_block, 2)]"
  by (simp add: sample_queue_def queue_block_new queue_default_def)

section \<open>Theorems\<close>



text \<open>C19. Sending from a new parent sends all the queued blocks that descend from it, each once and after its parent, while the
  worker receives; exactly these leave the queue.\<close>

theorem send_ready_sends_descendants:
  assumes "queue_ok (nf_queue svc)" and "permuting (hash_order senv)" and "non_finalized_sender svc"
    and "\<forall>n. non_finalized_open senv n"
  shows "\<exists>svc' L. send_ready_non_finalized_queued senv p svc = Done svc' \<and>
    non_finalized_channel svc' = non_finalized_channel svc @ L \<and>
    set L = {(b, tx). map_of (queued (nf_queue svc)) (sv_hash b) = Some (b, tx) \<and> sv_hash b \<in> descendants (nf_queue svc) {p}} \<and>
    distinct (map (\<lambda>(b, _). sv_hash b) L) \<and> parents_first {p} (map fst L) \<and>
    (\<forall>h. map_of (queued (nf_queue svc')) h =
       (if h \<in> descendants (nf_queue svc) {p} then None else map_of (queued (nf_queue svc)) h))"
proof -
  obtain svc' where "send_ready_loop senv [p] svc = Done svc'" "sends_waiting {p} svc svc'"
    using send_ready_loop_spec [OF assms(2,1), of "[p]"] assms(4) by auto
  then show ?thesis using assms(3) by (auto simp: send_ready_non_finalized_queued_def sends_waiting_def map_of_drop_hashes)
qed

theorem send_ready_sends_descendants_witness:
  "\<exists>svc'. send_ready_non_finalized_queued sample_service_env [1] sample_service = Done svc' \<and>
     parents_first {[1]} (map fst (non_finalized_channel svc')) \<and> map_of (queued (nf_queue svc')) [3] = None \<and>
     map_of (queued (nf_queue svc')) [9] = Some (sample_side_block, 2)"
proof -
  have q: "nf_queue sample_service = sample_queue" "non_finalized_channel sample_service = []" "non_finalized_sender sample_service"
    by (simp_all add: sample_service_def)
  have children: "queued_children p sample_queue = (if p = [1] then {[2]} else if p = [2] then {[3]} else if p = [8] then {[9]} else {})" for p
    by (auto simp: queued_children_def sample_queued split: if_splits)
  have "[2] \<in> descendants sample_queue {[1]}" by (rule descendants.child [of "[1]"]) (simp_all add: children)
  then have three: "[3] \<in> descendants sample_queue {[1]}" by (rule descendants.grandchild) (simp add: children)
  have nine: "[9] \<notin> descendants sample_queue {[1]}"
  proof -
    have "h = [2] \<or> h = [3]" if "h \<in> descendants sample_queue {[1]}" for h
      using that by induction (auto simp: children split: if_splits)
    from this [of "[9]"] show ?thesis by auto
  qed
  have open_all: "\<forall>n. non_finalized_open sample_service_env n" by (simp add: sample_service_env_def)
  obtain svc' L where "send_ready_non_finalized_queued sample_service_env [1] sample_service = Done svc'"
    "non_finalized_channel svc' = L" "parents_first {[1]} (map fst L)"
    "\<forall>h. map_of (queued (nf_queue svc')) h =
       (if h \<in> descendants sample_queue {[1]} then None else map_of (queued sample_queue) h)"
    using send_ready_sends_descendants [of sample_service sample_service_env "[1]", unfolded q(1,2), OF sample_queue_ok sample_order q(3) open_all]
    by auto
  then show ?thesis using three nine by (auto simp: sample_queued)
qed

text \<open>C21. The queue of waiting blocks implements a map from block hashes to blocks. Queueing adds a block that is not there, a
  parent has queued children when the map has blocks with that parent, and dequeueing the children of a parent does not panic,
  returns exactly these blocks and removes them.\<close>

theorem queue_refines_map:
  assumes "queue_ok q" and "permuting order"
  shows "map_of (queued (queue_block (b, tx) q)) =
      (if map_of (queued q) (sv_hash b) = None then (map_of (queued q))(sv_hash b \<mapsto> (b, tx)) else map_of (queued q)) \<and>
    (has_queued_children p q \<longleftrightarrow> (\<exists>h b' tx'. map_of (queued q) h = Some (b', tx') \<and> parent_of b' = p)) \<and>
    (\<exists>children q'. dequeue_children order p q = Done (children, q') \<and> queue_ok q' \<and>
      set children = {(b', tx'). map_of (queued q) (sv_hash b') = Some (b', tx') \<and> parent_of b' = p} \<and>
      distinct (map (\<lambda>(b', _). sv_hash b') children) \<and>
      (\<forall>h. map_of (queued q') h = (case map_of (queued q) h of
         Some (b', tx') \<Rightarrow> if parent_of b' = p then None else Some (b', tx') | None \<Rightarrow> None)))"
proof (intro conjI)
  show "map_of (queued (queue_block (b, tx) q)) =
      (if map_of (queued q) (sv_hash b) = None then (map_of (queued q))(sv_hash b \<mapsto> (b, tx)) else map_of (queued q))"
    using queue_block_new(1) [of q b tx] by (cases "map_of (queued q) (sv_hash b)") (auto simp: queue_block_def fun_eq_iff map_add_def split: option.split)
  have "has_queued_children p q \<longleftrightarrow> queued_children p q \<noteq> {}"
    using queue_okD(3,4) [OF assms(1), where p = p] by (cases "by_parent q p") (auto simp: has_queued_children_def)
  then show "has_queued_children p q \<longleftrightarrow> (\<exists>h b' tx'. map_of (queued q) h = Some (b', tx') \<and> parent_of b' = p)"
    by (auto simp: queued_children_def)
  obtain children q' where "dequeue_children order p q = Done (children, q')" "queue_ok q'"
    "set children = {(b, tx). map_of (queued q) (sv_hash b) = Some (b, tx) \<and> parent_of b = p}"
    "distinct (map (\<lambda>(b, _). sv_hash b) children)" "queued q' = drop_hashes (queued_children p q) (queued q)"
    using dequeue_children_spec [OF assms] .
  then show "\<exists>children q'. dequeue_children order p q = Done (children, q') \<and> queue_ok q' \<and>
      set children = {(b', tx'). map_of (queued q) (sv_hash b') = Some (b', tx') \<and> parent_of b' = p} \<and>
      distinct (map (\<lambda>(b', _). sv_hash b') children) \<and>
      (\<forall>h. map_of (queued q') h = (case map_of (queued q) h of
         Some (b', tx') \<Rightarrow> if parent_of b' = p then None else Some (b', tx') | None \<Rightarrow> None))"
    by (auto simp: map_of_drop_hashes queued_children_def split: option.split)
qed

theorem queue_refines_map_witness:
  "\<exists>children q'. dequeue_children (\<lambda>hs. hs) [1] sample_queue = Done (children, q') \<and> map_of (queued q') [2] = None \<and>
     map_of (queued q') [3] = Some (sample_prepared 3, 1)"
proof -
  have order: "permuting (\<lambda>hs :: block_hash list. hs)" by (simp add: permuting_def)
  obtain children q' where "dequeue_children (\<lambda>hs. hs) [1] sample_queue = Done (children, q')"
    and "\<forall>h. map_of (queued q') h = (case map_of (queued sample_queue) h of
      Some (b', tx') \<Rightarrow> if parent_of b' = [1] then None else Some (b', tx') | None \<Rightarrow> None)"
    using queue_refines_map [OF sample_queue_ok order, of sample_side_block 0 "[1]"] by blast
  then show ?thesis by (auto simp: sample_queued)
qed

text \<open>C39. Dequeueing the children of a parent drops the whole height index entry of each. So a queued block at
  the height of a dequeued one, with another parent, is not pruned any more, whatever the new finalized height is.\<close>

theorem dequeued_height_never_pruned:
  assumes "queue_ok q" and "permuting order" and "bound < Height_MAX"
    and "map_of (queued q) h1 = Some (b1, tx1)" and "parent_of b1 = p"
    and "map_of (queued q) h2 = Some (b2, tx2)" and "parent_of b2 \<noteq> p" and "sv_height b2 = sv_height b1"
  shows "\<exists>children q1 rs q2. dequeue_children order p q = Done (children, q1) \<and>
    prune_by_height order bound q1 = Done (rs, q2) \<and> map_of (queued q2) h2 = Some (b2, tx2)"
proof -
  obtain children q1 where q1: "dequeue_children order p q = Done (children, q1)" "queue_ok q1"
    "set children = {(b, tx). map_of (queued q) (sv_hash b) = Some (b, tx) \<and> parent_of b = p}"
    "queued q1 = drop_hashes (queued_children p q) (queued q)"
    "\<forall>(b, _) \<in> set children. sv_height b \<notin> fst ` set (by_height q1)"
    by (rule dequeue_children_spec [OF assms(1,2)])
  obtain rs q2 where q2: "prune_by_height order bound q1 = Done (rs, q2)"
    "queued q2 = drop_hashes (indexed_below bound q1) (queued q1)"
    by (rule prune_by_height_spec [OF q1(2) assms(2,3)])
  have "(b1, tx1) \<in> set children" using assms(4,5) queue_okD(2) [OF assms(1,4)] by (simp add: q1(3))
  then have height: "sv_height b2 \<notin> fst ` set (by_height q1)" using q1(5) assms(8) by auto
  have b2: "map_of (queued q1) h2 = Some (b2, tx2)" using assms(6,7) by (simp add: q1(4) map_of_drop_hashes queued_children_def)
  have "h2 \<notin> indexed_below bound q1"
  proof
    assume "h2 \<in> indexed_below bound q1"
    then obtain i hs where "(i, hs) \<in> set (by_height q1)" "h2 \<in> set hs" by (auto simp: indexed_below_def)
    then have "sv_height b2 = i" "i \<in> fst ` set (by_height q1)" using queue_okD(7) [OF q1(2)] b2 by force+
    then show False using height by simp
  qed
  then show ?thesis using q1(1) q2 b2 by (auto simp: map_of_drop_hashes)
qed

theorem dequeued_height_never_pruned_witness:
  "\<exists>children q1 rs q2. dequeue_children (\<lambda>hs. hs) [1] sample_queue = Done (children, q1) \<and>
     prune_by_height (\<lambda>hs. hs) 1000 q1 = Done (rs, q2) \<and> map_of (queued q2) [9] = Some (sample_side_block, 2)"
  by (rule dequeued_height_never_pruned [OF sample_queue_ok, of "\<lambda>hs. hs" 1000 "[2]" "sample_prepared 2" 0])
    (simp_all add: permuting_def Height_MAX_def sample_queued)

end
