(* ===== verification/Write_Workers.thy ===== *)
theory Write_Workers
  imports Block_Queues Chain_Sets
begin

text \<open>
  The block write worker: \<open>zebra-state/src/service/write.rs\<close>.

  The worker runs two loops, one over the checkpoint verified blocks and one over the messages for the non-finalized
  state; a definition below is one turn of each. Writing a block to the database, which is \<open>commit_finalized\<close> and
  \<open>commit_finalized_direct\<close> of the finalized state, is an argument: it returns the note commitment trees that are
  passed to the next write and the new database, or an error. The index map of rejected blocks is an association
  list in the order of insertion. The watch channels hold their latest value; backups, logs and metrics are left out.
\<close>

definition MAX_BLOCK_REORG_HEIGHT :: nat where
  "MAX_BLOCK_REORG_HEIGHT = MIN_TRANSPARENT_COINBASE_MATURITY - 1"

definition PARENT_ERROR_MAP_LIMIT :: nat where
  "PARENT_ERROR_MAP_LIMIT = MAX_BLOCK_REORG_HEIGHT * 2"

record ('t, 'h, 'p) write_env =
  we_chain :: "('t, 'h) chain_env"
  we_commitments :: "'h commitment_env"
  commit_finalized_direct ::
    "contextually_verified_block \<Rightarrow> ('t, 'h) treestate \<Rightarrow> 'p option \<Rightarrow> ('t, 'h) zebra_db \<Rightarrow> ('p \<times> ('t, 'h) zebra_db) option"
  commit_finalized ::
    "semantically_verified_block \<Rightarrow> 'p option \<Rightarrow> ('t, 'h) zebra_db \<Rightarrow> ('p \<times> ('t, 'h) zebra_db) option"

record ('t, 'h, 'p) write_worker =
  ww_db :: "('t, 'h) zebra_db"
  ww_nfs :: "('t, 'h) non_finalized_state"
  prev_finalized_note_commitment_trees :: "'p option"
  parent_error_map :: "(block_hash \<times> validate_context_error) list"
  latest_tip :: "(height \<times> block_hash) option"
  latest_nfs :: "('t, 'h) non_finalized_state option"
  resets :: "block_hash list"

datatype write_message =
    CommitBlock semantically_verified_block
  | InvalidateBlock block_hash
  | ReconsiderBlock block_hash

datatype write_response =
    Committed block_hash
  | Rejected validate_context_error
  | Invalidated "invalidate_error + block_hash"
  | Reconsidered "reconsider_error + block_hash list"

section \<open>Checkpoint verified blocks\<close>

definition next_valid_height :: "('t, 'h) zebra_db \<Rightarrow> height outcome" where
  "next_valid_height db =
     (case finalized_tip_height db of Some h \<Rightarrow> expect_some (height_add h 1) | None \<Rightarrow> Done 0)"

definition write_checkpoint_block ::
  "('t, 'h, 'p) write_env \<Rightarrow> semantically_verified_block \<Rightarrow> ('t, 'h, 'p) write_worker \<Rightarrow> ('t, 'h, 'p) write_worker outcome" where
  "write_checkpoint_block wenv ordered_block w =
     run_bind (next_valid_height (ww_db w)) (\<lambda>next_height.
       if sv_height ordered_block \<noteq> next_height then Done w
       else case commit_finalized wenv ordered_block (prev_finalized_note_commitment_trees w) (ww_db w) of
         Some (trees, db) \<Rightarrow>
           Done (w\<lparr>ww_db := db, prev_finalized_note_commitment_trees := Some trees,
                   latest_tip := Some (sv_height ordered_block, sv_hash ordered_block)\<rparr>)
       | None \<Rightarrow>
           Done (w\<lparr>prev_finalized_note_commitment_trees := None, resets := resets w @ [finalized_tip_hash (ww_db w)]\<rparr>))"

section \<open>Messages for the non-finalized state\<close>

definition update_latest_chain_channels ::
  "('t, 'h, 'p) write_worker \<Rightarrow> ('t, 'h, 'p) write_worker outcome" where
  "update_latest_chain_channels w =
     run_bind (expect_some (best_chain (ww_nfs w))) (\<lambda>c.
     run_bind (expect_some (tip_block c)) (\<lambda>tip.
       Done (w\<lparr>latest_tip := Some (cv_height tip, cv_hash tip), latest_nfs := Some (ww_nfs w)\<rparr>)))"

definition total_blocks :: "('t, 'h) chain list \<Rightarrow> nat" where
  "total_blocks cs = sum_list (map (\<lambda>c. length (blocks c)) cs)"

lemma pop_root_blocks:
  assumes "pop_root env c = Done (cv, ts, d)"
  shows "length (blocks d) < length (blocks c)"
proof -
  from assms obtain h cv' where h: "map_of (blocks c) h = Some cv'" "blocks d = btree_remove h (blocks c)"
    by (auto simp: pop_root_def run_bind_Done_iff Let_def kept_fields_def dest!: revert_chain_with_keeps(1) split: if_splits)
  then show ?thesis
    using map_of_SomeD [OF h(1)] unfolding btree_remove_def by (auto intro!: length_filter_less)
qed

lemma chain_set_insert_blocks: "chain_set_insert c cs = Done cs' \<Longrightarrow> total_blocks cs' \<le> length (blocks c) + total_blocks cs"
proof (induction cs arbitrary: cs')
  case (Cons d ds)
  obtain r where r: "chain_cmp c d = Done r" using Cons.prems by (auto simp: run_bind_Done_iff)
  show ?case
  proof (cases r)
    case Greater
    then obtain ds' where "chain_set_insert c ds = Done ds'" "cs' = d # ds'" using Cons.prems r by (auto simp: run_bind_Done_iff)
    then show ?thesis using Cons.IH by (auto simp: total_blocks_def)
  qed (use Cons.prems r in \<open>auto simp: total_blocks_def\<close>)
qed (simp add: total_blocks_def)

lemma total_blocks_drop: "total_blocks (drop n cs) \<le> total_blocks cs"
  by (induction cs arbitrary: n) (auto simp: total_blocks_def drop_Cons split: nat.split intro: le_trans trans_le_add2)

lemma nfs_insert_blocks:
  assumes "nfs_insert c s = Done s'"
  shows "total_blocks (chain_set s') \<le> length (blocks c) + total_blocks (chain_set s)"
proof -
  from assms obtain cs where cs: "chain_set_insert c (chain_set s) = Done cs" "chain_set s' = pop_excess cs"
    by (auto simp: nfs_insert_def insert_with_def run_bind_Done_iff)
  have "total_blocks (pop_excess cs) \<le> total_blocks cs" unfolding pop_excess_drop by (rule total_blocks_drop)
  then show ?thesis using chain_set_insert_blocks [OF cs(1)] cs(2) by simp
qed

lemma finalize_sides_blocks:
  "updates (finalize_side_chain env root) cs s = Done s' \<Longrightarrow> total_blocks (chain_set s') \<le> total_blocks cs + total_blocks (chain_set s)"
proof (induction cs arbitrary: s)
  case (Cons c cs)
  then obtain s1 where s1: "finalize_side_chain env root c s = Done s1" "updates (finalize_side_chain env root) cs s1 = Done s'"
    by (auto simp: run_bind_Done_iff)
  have "total_blocks (chain_set s1) \<le> length (blocks c) + total_blocks (chain_set s)"
    using s1(1) by (auto simp: finalize_side_chain_def run_bind_Done_iff split: if_splits dest!: nfs_insert_blocks pop_root_blocks)
  then show ?case using Cons.IH [OF s1(2)] by (simp add: total_blocks_def)
qed simp

lemma finalize_blocks:
  assumes "finalize env s = Done (root, ts, s')"
  shows "total_blocks (chain_set s') < total_blocks (chain_set s)"
proof -
  obtain best s1 s2 where parts: "chain_set s \<noteq> []" "pop_root env (last (chain_set s)) = Done (root, ts, best)"
    "(if chain_is_empty best then Done (s\<lparr>chain_set := []\<rparr>) else nfs_insert best (s\<lparr>chain_set := []\<rparr>)) = Done s1"
    "updates (finalize_side_chain env root) (rev (butlast (chain_set s))) s1 = Done s2" and last: "s' = s2\<lparr>invalidated_blocks :=
       filter (\<lambda>(h, _). h \<ge> cv_height root) (invalidated_blocks s2)\<rparr>" by (rule finalize_parts [OF assms])
  have "total_blocks (chain_set s1) \<le> length (blocks best)"
    using parts(3) by (auto simp: total_blocks_def split: if_splits dest!: nfs_insert_blocks)
  moreover have "total_blocks (chain_set s) = total_blocks (rev (butlast (chain_set s))) + length (blocks (last (chain_set s)))"
  proof -
    have "total_blocks (chain_set s) = total_blocks (butlast (chain_set s) @ [last (chain_set s)])" using parts(1) by simp
    then show ?thesis by (simp add: total_blocks_def rev_map [symmetric])
  qed
  ultimately show ?thesis
    using finalize_sides_blocks [OF parts(4)] pop_root_blocks [OF parts(2)] last by simp
qed

function finalize_past_reorg_limit ::
  "('t, 'h, 'p) write_env \<Rightarrow> ('t, 'h, 'p) write_worker \<Rightarrow> ('t, 'h, 'p) write_worker outcome" where
  "finalize_past_reorg_limit wenv w =
     (case best_chain_len (ww_nfs w) of
        None \<Rightarrow> Panic
      | Some len \<Rightarrow>
          if len > MAX_BLOCK_REORG_HEIGHT then
            (case finalize (we_chain wenv) (ww_nfs w) of
               Panic \<Rightarrow> Panic
             | Done (root, ts, nfs) \<Rightarrow>
                 (case commit_finalized_direct wenv root ts (prev_finalized_note_commitment_trees w) (ww_db w) of
                    None \<Rightarrow> Panic
                  | Some (trees, db) \<Rightarrow>
                      finalize_past_reorg_limit wenv
                        (w\<lparr>ww_nfs := nfs, ww_db := db, prev_finalized_note_commitment_trees := Some trees\<rparr>)))
          else Done w)"
  by pat_completeness auto
termination
  by (relation "measure (\<lambda>(_, w). total_blocks (chain_set (ww_nfs w)))") (auto dest!: finalize_blocks)

declare finalize_past_reorg_limit.simps [simp del]

definition reject_block ::
  "block_hash \<Rightarrow> validate_context_error \<Rightarrow> ('t, 'h, 'p) write_worker \<Rightarrow> ('t, 'h, 'p) write_worker" where
  "reject_block child_hash error w =
     (let errors = index_insert child_hash error (parent_error_map w)
      in w\<lparr>parent_error_map := (if length errors > PARENT_ERROR_MAP_LIMIT then tl errors else errors)\<rparr>)"

definition write_commit ::
  "('t, 'h, 'p) write_env \<Rightarrow> semantically_verified_block \<Rightarrow> ('t, 'h, 'p) write_worker \<Rightarrow>
   (write_response \<times> ('t, 'h, 'p) write_worker) outcome" where
  "write_commit wenv queued_child w =
     run_bind (case map_of (parent_error_map w) (parent_of queued_child) of
                 Some parent_error \<Rightarrow> Done (Inl parent_error)
               | None \<Rightarrow>
                   validate_and_commit_non_finalized (we_chain wenv) (we_commitments wenv) (ww_db w) queued_child (ww_nfs w))
       (\<lambda>result. case result of
          Inl error \<Rightarrow> Done (Rejected error, reject_block (sv_hash queued_child) error w)
        | Inr nfs \<Rightarrow>
            run_bind (update_latest_chain_channels (w\<lparr>ww_nfs := nfs\<rparr>)) (\<lambda>w1.
            run_bind (finalize_past_reorg_limit wenv w1) (\<lambda>w2.
              Done (Committed (sv_hash queued_child), w2))))"

definition write_non_finalized ::
  "('t, 'h, 'p) write_env \<Rightarrow> write_message \<Rightarrow> ('t, 'h, 'p) write_worker \<Rightarrow>
   (write_response \<times> ('t, 'h, 'p) write_worker) outcome" where
  "write_non_finalized wenv msg w =
     (case msg of
        CommitBlock queued_child \<Rightarrow> write_commit wenv queued_child w
      | InvalidateBlock hash \<Rightarrow>
          run_bind (invalidate_block (we_chain wenv) hash (ww_nfs w)) (\<lambda>r.
          run_bind (update_latest_chain_channels (case r of Inl _ \<Rightarrow> w | Inr (_, nfs) \<Rightarrow> w\<lparr>ww_nfs := nfs\<rparr>)) (\<lambda>w'.
            Done (Invalidated (case r of Inl e \<Rightarrow> Inl e | Inr (hash', _) \<Rightarrow> Inr hash'), w')))
      | ReconsiderBlock hash \<Rightarrow>
          run_bind (reconsider_block (we_chain wenv) (ww_db w) hash (ww_nfs w)) (\<lambda>r.
          run_bind (update_latest_chain_channels (case r of Inl _ \<Rightarrow> w | Inr (_, nfs) \<Rightarrow> w\<lparr>ww_nfs := nfs\<rparr>)) (\<lambda>w'.
            Done (Reconsidered (case r of Inl e \<Rightarrow> Inl e | Inr (hashes, _) \<Rightarrow> Inr hashes), w'))))"

fun write_all ::
  "('t, 'h, 'p) write_env \<Rightarrow> write_message list \<Rightarrow> ('t, 'h, 'p) write_worker \<Rightarrow>
   (write_response list \<times> ('t, 'h, 'p) write_worker) outcome" where
  "write_all wenv [] w = Done ([], w)"
| "write_all wenv (msg # msgs) w =
     run_bind (write_non_finalized wenv msg w) (\<lambda>(r, w1).
     run_bind (write_all wenv msgs w1) (\<lambda>(rs, w2). Done (r # rs, w2)))"

end
