(* ===== verification/Worker_Theorems.thy ===== *)
theory Worker_Theorems
  imports Write_Workers State_Theorems
begin

text \<open>
  The block write worker: the descendants of a rejected block are rejected, and after a commit the oldest blocks of the
  best chain are written to the database, in order, until the chain is within the reorganization limit.
\<close>

section \<open>Rejected blocks\<close>

lemma update_channels_fields:
  assumes "update_latest_chain_channels w = Done w'"
  shows "parent_error_map w' = parent_error_map w" "ww_nfs w' = ww_nfs w" "ww_db w' = ww_db w"
    "prev_finalized_note_commitment_trees w' = prev_finalized_note_commitment_trees w"
  using assms by (auto simp: update_latest_chain_channels_def run_bind_Done_iff)

lemma finalize_limit_errors:
  "finalize_past_reorg_limit wenv w = Done w' \<Longrightarrow> parent_error_map w' = parent_error_map w"
proof (induction wenv w arbitrary: w' rule: finalize_past_reorg_limit.induct)
  case (1 wenv w)
  note unfolded = 1(2) [unfolded finalize_past_reorg_limit.simps [of wenv w]]
  obtain len where len: "best_chain_len (ww_nfs w) = Some len" using unfolded by (cases "best_chain_len (ww_nfs w)") simp_all
  show ?case
  proof (cases "len > MAX_BLOCK_REORG_HEIGHT")
    case True
    then obtain root ts nfs where f: "finalize (we_chain wenv) (ww_nfs w) = Done (root, ts, nfs)"
      using unfolded len by (cases "finalize (we_chain wenv) (ww_nfs w)") auto
    then obtain trees db where d:
      "commit_finalized_direct wenv root ts (prev_finalized_note_commitment_trees w) (ww_db w) = Some (trees, db)"
      using unfolded len True by (cases "commit_finalized_direct wenv root ts (prev_finalized_note_commitment_trees w) (ww_db w)") auto
    have "finalize_past_reorg_limit wenv (w\<lparr>ww_nfs := nfs, ww_db := db, prev_finalized_note_commitment_trees := Some trees\<rparr>) = Done w'"
      using unfolded len True f d by simp
    from 1(1) [OF len True f refl refl d refl this] show ?thesis by simp
  qed (use unfolded len in simp)
qed

lemma write_errors:
  assumes "write_non_finalized wenv msg w = Done (r, w')"
  shows "(case r of Rejected e \<Rightarrow> \<exists>b. msg = CommitBlock b \<and> w' = reject_block (sv_hash b) e w
    | _ \<Rightarrow> parent_error_map w' = parent_error_map w)"
proof (cases msg)
  case (CommitBlock b)
  have "write_commit wenv b w = Done (r, w')" using assms CommitBlock by (simp add: write_non_finalized_def)
  then obtain result where result: "(case result of
      Inl error \<Rightarrow> Done (Rejected error, reject_block (sv_hash b) error w)
    | Inr nfs \<Rightarrow>
        run_bind (update_latest_chain_channels (w\<lparr>ww_nfs := nfs\<rparr>)) (\<lambda>w1.
        run_bind (finalize_past_reorg_limit wenv w1) (\<lambda>w2. Done (Committed (sv_hash b), w2)))) = Done (r, w')"
    unfolding write_commit_def run_bind_Done_iff by blast
  then show ?thesis
    using CommitBlock by (cases result) (auto simp: run_bind_Done_iff dest!: finalize_limit_errors update_channels_fields(1))
qed (use assms in \<open>auto simp: write_non_finalized_def run_bind_Done_iff dest!: update_channels_fields(1) split: sum.splits\<close>)

definition is_rejection :: "write_response \<Rightarrow> bool" where
  "is_rejection r \<longleftrightarrow> (\<exists>e. r = Rejected e)"

text \<open>The error of a rejected block is in the map, with at most so many entries after it.\<close>

definition remembered :: "block_hash \<Rightarrow> validate_context_error \<Rightarrow> nat \<Rightarrow> ('t, 'h, 'p) write_worker \<Rightarrow> bool" where
  "remembered hash e n w \<longleftrightarrow> length (parent_error_map w) \<le> PARENT_ERROR_MAP_LIMIT \<and>
     (\<exists>xs ys. parent_error_map w = xs @ (hash, e) # ys \<and> hash \<notin> fst ` set xs \<and> length ys \<le> n)"

lemma rememberedI:
  "parent_error_map w = xs @ (hash, e) # ys \<Longrightarrow> hash \<notin> fst ` set xs \<Longrightarrow> length ys \<le> n \<Longrightarrow>
   length (xs @ (hash, e) # ys) \<le> PARENT_ERROR_MAP_LIMIT \<Longrightarrow> remembered hash e n w"
  unfolding remembered_def by auto

lemma remembered_lookup: "remembered hash e n w \<Longrightarrow> map_of (parent_error_map w) hash = Some e"
proof -
  have "map_of (xs @ (hash, e) # ys) hash = Some e" if "hash \<notin> fst ` set xs" for xs ys :: "(block_hash \<times> validate_context_error) list"
    using that by (induction xs) auto
  then show "remembered hash e n w \<Longrightarrow> map_of (parent_error_map w) hash = Some e" by (auto simp: remembered_def)
qed

lemma remembered_mono: "remembered hash e n w \<Longrightarrow> n \<le> m \<Longrightarrow> remembered hash e m w"
  unfolding remembered_def by (meson le_trans)

lemma remembered_reject:
  assumes "remembered hash e n w" and "k \<noteq> hash" and "Suc n < PARENT_ERROR_MAP_LIMIT"
  shows "remembered hash e (Suc n) (reject_block k e' w)"
proof -
  obtain xs ys where m: "parent_error_map w = xs @ (hash, e) # ys" "hash \<notin> fst ` set xs" "length ys \<le> n"
    "length (parent_error_map w) \<le> PARENT_ERROR_MAP_LIMIT" using assms(1) by (auto simp: remembered_def)
  show ?thesis
  proof (cases "map_of (parent_error_map w) k")
    case None
    then have "index_insert k e' (parent_error_map w) = xs @ (hash, e) # ys @ [(k, e')]" by (simp add: index_insert_def m(1))
    then have errors: "parent_error_map (reject_block k e' w) =
        (let l = xs @ (hash, e) # ys @ [(k, e')] in if length l > PARENT_ERROR_MAP_LIMIT then tl l else l)"
      by (simp add: reject_block_def Let_def)
    show ?thesis
    proof (cases "length (xs @ (hash, e) # ys @ [(k, e')]) > PARENT_ERROR_MAP_LIMIT")
      case True
      then obtain x xs' where "xs = x # xs'" using m(3) assms(3) by (cases xs) auto
      then show ?thesis using m(2-4) m(4) [unfolded m(1)] True errors
        by (intro rememberedI [of _ xs' _ _ "ys @ [(k, e')]"]) auto
    next
      case False
      then show ?thesis using m(2,3) errors by (intro rememberedI [of _ xs _ _ "ys @ [(k, e')]"]) auto
    qed
  next
    case (Some old)
    define f where "f = (\<lambda>(k', v'). (k', if k' = k then e' else v' :: validate_context_error))"
    have "index_insert k e' (parent_error_map w) = map f xs @ (hash, e) # map f ys"
      using Some assms(2) by (simp add: index_insert_def m(1) f_def)
    then have errors: "parent_error_map (reject_block k e' w) = map f xs @ (hash, e) # map f ys"
      using m(4) [unfolded m(1)] by (simp add: reject_block_def Let_def)
    have "fst ` set (map f xs) = fst ` set xs" by (force simp: f_def)
    then show ?thesis using m(2,3) m(4) [unfolded m(1)] by (intro rememberedI [OF errors]) simp_all
  qed
qed

lemma remembered_write:
  assumes "write_all wenv msgs w = Done (rs, w')" and "\<forall>b. CommitBlock b \<in> set msgs \<longrightarrow> sv_hash b \<noteq> hash"
    and "remembered hash e n w" and "n + length (filter is_rejection rs) < PARENT_ERROR_MAP_LIMIT"
  shows "remembered hash e (n + length (filter is_rejection rs)) w'"
  using assms
proof (induction msgs arbitrary: w rs n)
  case (Cons msg msgs)
  then obtain r rs' w1 where r: "write_non_finalized wenv msg w = Done (r, w1)" "write_all wenv msgs w1 = Done (rs', w')" "rs = r # rs'"
    by (auto simp: run_bind_Done_iff)
  show ?case
  proof (cases "is_rejection r")
    case True
    then obtain b e' where "msg = CommitBlock b" "w1 = reject_block (sv_hash b) e' w"
      using write_errors [OF r(1)] by (auto simp: is_rejection_def)
    then have "remembered hash e (Suc n) w1" using Cons.prems r(3) True by (auto intro!: remembered_reject)
    then show ?thesis using Cons.IH [OF r(2), of "Suc n"] Cons.prems(2,4) r(3) True by simp
  next
    case False
    then have "parent_error_map w1 = parent_error_map w"
      using write_errors [OF r(1)] by (auto simp: is_rejection_def split: write_response.splits)
    then have "remembered hash e n w1" using Cons.prems(3) by (simp add: remembered_def)
    then show ?thesis using Cons.IH [OF r(2)] Cons.prems r(3) False by auto
  qed
qed simp

definition error_map_ok :: "('t, 'h, 'p) write_worker \<Rightarrow> bool" where
  "error_map_ok w \<longleftrightarrow> length (parent_error_map w) \<le> PARENT_ERROR_MAP_LIMIT"

lemma reject_map_bounded: "error_map_ok w \<Longrightarrow> error_map_ok (reject_block k e w)"
  using length_index_insert [of k e "parent_error_map w"] by (auto simp: error_map_ok_def reject_block_def Let_def)

section \<open>Finalization\<close>

text \<open>Blocks with the same hash are the same block.\<close>

definition hashes_unique :: "('t, 'h) non_finalized_state \<Rightarrow> bool" where
  "hashes_unique s \<longleftrightarrow> (\<forall>c \<in> set (chain_set s). \<forall>d \<in> set (chain_set s). \<forall>x \<in> set (blocks c). \<forall>y \<in> set (blocks d).
     cv_hash (snd x) = cv_hash (snd y) \<longrightarrow> snd x = snd y)"

lemma popped_less:
  assumes "leaves_ok env C" and "c \<in> C" "d \<in> C" and "popped env r c c'" "popped env r d d'" and "chain_less c d"
    and "snd (hd (blocks c)) = snd (hd (blocks d))"
  shows "chain_less c' d'"
proof -
  have inv: "chain_inv env c" "blocks c \<noteq> []" "chain_inv env d" "blocks d \<noteq> []" using assms(1-3) by (simp_all add: leaves_ok_def)
  obtain x ts y ts' where x: "pop_root env c = Done (x, ts, c')" and y: "pop_root env d = Done (y, ts', d')"
    using assms(4,5) by (auto simp: popped_def)
  have "x = snd (hd (blocks c))" by (rule pop_root_result [OF inv(1,2)]) (use x in auto)
  moreover have "y = snd (hd (blocks d))" by (rule pop_root_result [OF inv(3,4)]) (use y in auto)
  ultimately have "x = y" using assms(7) by simp
  then obtain v where work: "chain_work c = v + chain_work c'" "chain_work d = v + chain_work d'"
    using pop_root_work [OF x] pop_root_work [OF y] by auto
  note leaf = popped_leaf [OF assms(1,2,4)] popped_leaf [OF assms(1,3,5)]
  have "non_finalized_tip_hash c' = non_finalized_tip_hash c" "non_finalized_tip_hash d' = non_finalized_tip_hash d"
    using leaf inv by (simp_all add: tip_hash_Done)
  then show ?thesis using assms(6) work unfolding chain_less_cases by auto
qed

lemma finalize_best:
  assumes ok: "leaves_ok env (set (chain_set s))" "set_sorted s" "chain_set s \<noteq> []" and unique: "hashes_unique s"
    and long: "length (blocks (last (chain_set s))) \<ge> 2"
  obtains root ts s' h where "finalize env s = Done (root, ts, s')" "chain_set s' \<noteq> []"
    "blocks (last (chain_set s)) = (h, root) # blocks (last (chain_set s'))"
    "leaves_ok env (set (chain_set s'))" "set_sorted s'" "hashes_unique s'"
proof -
  let ?b = "last (chain_set s)"
  have b: "?b \<in> set (chain_set s)" "chain_inv env ?b" "blocks ?b \<noteq> []" using ok(1,3) by (simp_all add: leaves_ok_def)
  obtain root ts s' h bs where f: "finalize env s = Done (root, ts, s')" "blocks ?b = (h, root) # bs"
    "set (chain_set s') = {d. \<exists>c \<in> set (chain_set s). popped env (cv_hash root) c d}"
    using finalize_total [OF ok] by blast
  obtain cv ts' best h' where best: "pop_root env ?b = Done (cv, ts', best)" "blocks ?b = (h', cv) # blocks best"
    by (rule pop_root_result [OF b(2,3)])
  have pop_best: "popped env (cv_hash root) ?b best" using best f(2) long by (auto simp: popped_def)
  then have mem: "best \<in> set (chain_set s')" using f(3) b(1) by blast
  then have ne: "chain_set s' \<noteq> []" by auto
  have sorted': "set_sorted s'" using finalize_sorted [OF ok(2) f(1)] .
  have less: "chain_less e best" if e: "e \<in> set (chain_set s')" "e \<noteq> best" for e
  proof -
    obtain c where c: "c \<in> set (chain_set s)" "popped env (cv_hash root) c e" using e(1) f(3) by blast
    then have "c \<noteq> ?b" using e(2) pop_best popped_unique by metis
    then have "chain_less c ?b" using sorted_last [of "chain_set s" c] ok(2) c(1) by (simp add: set_sorted_def)
    moreover have "snd (hd (blocks c)) = snd (hd (blocks ?b))"
    proof -
      have c_inv: "chain_inv env c" "blocks c \<noteq> []" using ok(1) c(1) by (simp_all add: leaves_ok_def)
      have "cv_hash (snd (hd (blocks c))) = cv_hash root"
        by (rule pop_root_result [OF c_inv]) (use c(2) in \<open>auto simp: popped_def\<close>)
      moreover have "hd (blocks c) \<in> set (blocks c)" "hd (blocks ?b) \<in> set (blocks ?b)" using c_inv b(3) by simp_all
      ultimately show ?thesis using unique c(1) b(1) f(2) unfolding hashes_unique_def by (metis list.sel(1) snd_conv)
    qed
    ultimately show ?thesis using popped_less [OF ok(1) c(1) b(1) c(2) pop_best] by blast
  qed
  have "last (chain_set s') = best"
  proof (rule ccontr)
    assume other: "last (chain_set s') \<noteq> best"
    then have "chain_less (last (chain_set s')) best" using less ne by simp
    moreover have "chain_less best (last (chain_set s'))"
      using sorted_last [of "chain_set s'" best] sorted' mem other by (auto simp: set_sorted_def)
    ultimately show False using chain_less_trans chain_less_irrefl by blast
  qed
  moreover have "leaves_ok env (set (chain_set s'))" using f(3) by (intro popped_leaves [OF ok(1)]) simp
  moreover have "hashes_unique s'"
  proof -
    have "\<exists>c \<in> set (chain_set s). set (blocks d) \<subseteq> set (blocks c)" if d: "d \<in> set (chain_set s')" for d
    proof -
      obtain c where c: "c \<in> set (chain_set s)" "popped env (cv_hash root) c d" using d f(3) by blast
      have c_inv: "chain_inv env c" "blocks c \<noteq> []" using ok(1) c(1) by (simp_all add: leaves_ok_def)
      have "set (blocks d) \<subseteq> set (blocks c)" by (rule pop_root_result [OF c_inv]) (use c(2) in \<open>auto simp: popped_def\<close>)
      then show ?thesis using c(1) by blast
    qed
    then show ?thesis using unique unfolding hashes_unique_def by (meson subsetD)
  qed
  ultimately show thesis using that f(1) ne best(2) f(2) sorted' by simp
qed

text \<open>The blocks are written to the database in this order, each with the trees of the write before it.\<close>

fun writes_blocks ::
  "('t, 'h, 'p) write_env \<Rightarrow> contextually_verified_block list \<Rightarrow> 'p option \<times> ('t, 'h) zebra_db \<Rightarrow> 'p option \<times> ('t, 'h) zebra_db \<Rightarrow> bool" where
  "writes_blocks wenv [] x y \<longleftrightarrow> x = y"
| "writes_blocks wenv (b # bs) x y \<longleftrightarrow>
     (\<exists>ts p db. commit_finalized_direct wenv b ts (fst x) (snd x) = Some (p, db) \<and> writes_blocks wenv bs (Some p, db) y)"

lemma finalize_limit_total:
  assumes "leaves_ok (we_chain wenv) (set (chain_set (ww_nfs w)))" "set_sorted (ww_nfs w)" "chain_set (ww_nfs w) \<noteq> []"
    and "hashes_unique (ww_nfs w)" and "length (blocks (last (chain_set (ww_nfs w)))) < 2 ^ 32"
    and db: "\<And>b ts p db. commit_finalized_direct wenv b ts p db \<noteq> None"
  shows "\<exists>w' written. finalize_past_reorg_limit wenv w = Done w' \<and> chain_set (ww_nfs w') \<noteq> [] \<and>
    map snd (blocks (last (chain_set (ww_nfs w)))) = written @ map snd (blocks (last (chain_set (ww_nfs w')))) \<and>
    length (blocks (last (chain_set (ww_nfs w')))) = min (length (blocks (last (chain_set (ww_nfs w))))) MAX_BLOCK_REORG_HEIGHT \<and>
    writes_blocks wenv written (prev_finalized_note_commitment_trees w, ww_db w) (prev_finalized_note_commitment_trees w', ww_db w')"
  using assms(1-5)
proof (induction "length (blocks (last (chain_set (ww_nfs w))))" arbitrary: w)
  case 0
  have "best_chain_len (ww_nfs w) = Some 0" using 0 by (simp add: best_chain_len_def best_chain_last)
  then have "finalize_past_reorg_limit wenv w = Done w" by (subst finalize_past_reorg_limit.simps) simp
  then show ?case using 0 by (intro exI [of _ w] exI [of _ "[]"]) simp
next
  case (Suc n)
  let ?b = "last (chain_set (ww_nfs w))"
  have len: "best_chain_len (ww_nfs w) = Some (length (blocks ?b))"
    using Suc.prems(3,5) by (simp add: best_chain_len_def best_chain_last)
  show ?case
  proof (cases "length (blocks ?b) > MAX_BLOCK_REORG_HEIGHT")
    case False
    then have "finalize_past_reorg_limit wenv w = Done w" by (subst finalize_past_reorg_limit.simps) (simp add: len)
    then show ?thesis using Suc.prems False by (intro exI [of _ w] exI [of _ "[]"]) simp
  next
    case True
    then have long: "length (blocks ?b) \<ge> 2" by (simp add: MAX_BLOCK_REORG_HEIGHT_def MIN_TRANSPARENT_COINBASE_MATURITY_def)
    obtain root ts s' h where f: "finalize (we_chain wenv) (ww_nfs w) = Done (root, ts, s')" "chain_set s' \<noteq> []"
      "blocks ?b = (h, root) # blocks (last (chain_set s'))" "leaves_ok (we_chain wenv) (set (chain_set s'))" "set_sorted s'" "hashes_unique s'"
      by (rule finalize_best [OF Suc.prems(1-4) long])
    obtain p db' where p: "commit_finalized_direct wenv root ts (prev_finalized_note_commitment_trees w) (ww_db w) = Some (p, db')"
      using db by fastforce
    let ?w = "w\<lparr>ww_nfs := s', ww_db := db', prev_finalized_note_commitment_trees := Some p\<rparr>"
    have step: "finalize_past_reorg_limit wenv w = finalize_past_reorg_limit wenv ?w"
      using True by (subst finalize_past_reorg_limit.simps) (simp add: len f(1) p)
    have "\<exists>w' written. finalize_past_reorg_limit wenv ?w = Done w' \<and> chain_set (ww_nfs w') \<noteq> [] \<and>
      map snd (blocks (last (chain_set (ww_nfs ?w)))) = written @ map snd (blocks (last (chain_set (ww_nfs w')))) \<and>
      length (blocks (last (chain_set (ww_nfs w')))) = min (length (blocks (last (chain_set (ww_nfs ?w))))) MAX_BLOCK_REORG_HEIGHT \<and>
      writes_blocks wenv written (prev_finalized_note_commitment_trees ?w, ww_db ?w) (prev_finalized_note_commitment_trees w', ww_db w')"
      by (rule Suc.hyps(1)) (use Suc.hyps(2) Suc.prems(5) f in auto)
    then obtain w' written where w': "finalize_past_reorg_limit wenv ?w = Done w'" "chain_set (ww_nfs w') \<noteq> []"
      "map snd (blocks (last (chain_set s'))) = written @ map snd (blocks (last (chain_set (ww_nfs w'))))"
      "length (blocks (last (chain_set (ww_nfs w')))) = min (length (blocks (last (chain_set s')))) MAX_BLOCK_REORG_HEIGHT"
      "writes_blocks wenv written (Some p, db') (prev_finalized_note_commitment_trees w', ww_db w')" by auto
    show ?thesis
      using w' f(3) True p by (intro exI [of _ w'] exI [of _ "root # written"]) (auto simp: step)
  qed
qed

section \<open>Theorems\<close>


definition sample_write_env :: "(byte list, nat, unit) write_env" where
  "sample_write_env = \<lparr>we_chain = sample_chain_env, we_commitments = sample_commitment_env,
     commit_finalized_direct = (\<lambda>_ _ _ db. Some ((), db)), commit_finalized = (\<lambda>_ _ db. Some ((), db))\<rparr>"

definition sample_worker :: "(byte list, nat) non_finalized_state \<Rightarrow> (byte list, nat, unit) write_worker" where
  "sample_worker nfs = \<lparr>ww_db = sample_db, ww_nfs = nfs, prev_finalized_note_commitment_trees = None, parent_error_map = [],
     latest_tip = None, latest_nfs = None, resets = []\<rparr>"


text \<open>C22. When the worker has rejected a block, it rejects every child of that block with the same error, without changing the state, as
  long as fewer than 198 other blocks were rejected in between; the map of rejected blocks never has more than 198 entries.\<close>

theorem rejected_block_rejects_children:
  assumes "length (parent_error_map w) \<le> 198" and "sv_hash b \<notin> fst ` set (parent_error_map w)"
    and "write_non_finalized wenv (CommitBlock b) w = Done (Rejected e, w1)"
    and "write_all wenv msgs w1 = Done (rs, w2)" and "\<forall>b'. CommitBlock b' \<in> set msgs \<longrightarrow> sv_hash b' \<noteq> sv_hash b"
    and "length (filter is_rejection rs) < 198" and "parent_of child = sv_hash b"
  shows "\<exists>w3. write_non_finalized wenv (CommitBlock child) w2 = Done (Rejected e, w3) \<and> ww_nfs w3 = ww_nfs w2 \<and> ww_db w3 = ww_db w2 \<and>
    length (parent_error_map w3) \<le> 198"
proof -
  have limit: "PARENT_ERROR_MAP_LIMIT = 198"
    by (simp add: PARENT_ERROR_MAP_LIMIT_def MAX_BLOCK_REORG_HEIGHT_def MIN_TRANSPARENT_COINBASE_MATURITY_def)
  have w1: "w1 = reject_block (sv_hash b) e w" using write_errors [OF assms(3)] by simp
  have "index_insert (sv_hash b) e (parent_error_map w) = parent_error_map w @ [(sv_hash b, e)]"
    using assms(2) by (simp add: index_insert_def map_of_eq_None_iff)
  then have map: "parent_error_map w1 = (if length (parent_error_map w) = 198 then tl (parent_error_map w) else parent_error_map w) @ [(sv_hash b, e)]"
    using assms(1) by (cases "parent_error_map w") (auto simp: w1 reject_block_def Let_def limit)
  have "set (tl m) \<subseteq> set m" for m :: "(block_hash \<times> validate_context_error) list" by (cases m) auto
  then have "remembered (sv_hash b) e 0 w1"
    using assms(1,2) by (intro rememberedI [OF map]) (auto simp: limit image_iff dest!: subsetD)
  then have known: "remembered (sv_hash b) e (length (filter is_rejection rs)) w2"
    using remembered_write [OF assms(4,5)] assms(6) by (metis add_0 limit)
  have error: "map_of (parent_error_map w2) (parent_of child) = Some e" using remembered_lookup [OF known] assms(7) by simp
  have ok: "error_map_ok w2" using known by (simp add: remembered_def error_map_ok_def)
  show ?thesis
    using error reject_map_bounded [OF ok, of "sv_hash child" e]
    by (simp add: write_non_finalized_def write_commit_def error_map_ok_def limit) (simp add: reject_block_def Let_def)
qed

theorem rejected_block_rejects_children_witness:
  "\<exists>w1 w3. write_non_finalized sample_write_env (CommitBlock (sample_prepared 2))
        ((sample_worker sample_state)\<lparr>parent_error_map := [([1], NotReadyToBeCommitted)]\<rparr>) = Done (Rejected NotReadyToBeCommitted, w1) \<and>
     write_non_finalized sample_write_env (CommitBlock (sample_prepared 3)) w1 = Done (Rejected NotReadyToBeCommitted, w3)"
proof -
  let ?w = "(sample_worker sample_state)\<lparr>parent_error_map := [([1], NotReadyToBeCommitted)]\<rparr>"
  have fields: "sv_hash (sample_prepared 2) = [2]" "parent_of (sample_prepared 2) = [1]" "parent_of (sample_prepared 3) = [2]"
    by (simp_all add: sample_prepared_def parent_of_def sample_chain_block_def)
  obtain w1 where w1: "write_non_finalized sample_write_env (CommitBlock (sample_prepared 2)) ?w = Done (Rejected NotReadyToBeCommitted, w1)"
    by (simp add: write_non_finalized_def write_commit_def fields)
  have "\<exists>w3. write_non_finalized sample_write_env (CommitBlock (sample_prepared 3)) w1 = Done (Rejected NotReadyToBeCommitted, w3) \<and>
      ww_nfs w3 = ww_nfs w1 \<and> ww_db w3 = ww_db w1 \<and> length (parent_error_map w3) \<le> 198"
    by (rule rejected_block_rejects_children [OF _ _ w1, where msgs = "[]" and rs = "[]"]) (simp_all add: fields)
  then show ?thesis using w1 by blast
qed

text \<open>C40. A request to invalidate a block, or to reconsider a block that is not invalidated, stops the worker when there are no
  non-finalized blocks: the request fails, and then updating the chain channels panics.\<close>

theorem request_on_empty_state_panics:
  assumes "chain_set (ww_nfs w) = []"
  shows "write_non_finalized wenv (InvalidateBlock hash) w = Panic \<and>
    (invalidated_blocks (ww_nfs w) = [] \<longrightarrow> write_non_finalized wenv (ReconsiderBlock hash) w = Panic)"
  using assms
  by (simp add: write_non_finalized_def invalidate_block_def find_chain_def reconsider_block_def update_latest_chain_channels_def
      best_chain_last)

theorem request_on_empty_state_panics_witness:
  "write_non_finalized sample_write_env (InvalidateBlock [7]) (sample_worker (nfs_new Mainnet)) = Panic"
  using request_on_empty_state_panics [of "sample_worker (nfs_new Mainnet)" sample_write_env "[7]"]
  by (simp add: sample_worker_def nfs_new_def)

end
