(* ===== verification/Unmined_Transactions.thy ===== *)
theory Unmined_Transactions
  imports Transactions Block_Headers
begin

text \<open>
  Unmined transactions: \<open>zebra-chain/src/transaction/unmined.rs\<close> and the fee rules of
  \<open>zebra-chain/src/transaction/unmined/zip317.rs\<close>.

  The fee weight ratio of a verified transaction is a floating point number that only block templates and metrics use; it
  is left out, as is the time at which a transaction was added. The numbers of bytes and actions are natural numbers: they are
  bounded by the block size, far below the machine sizes.
\<close>

section \<open>Identifiers\<close>

datatype unmined_tx_id = LegacyId transaction_hash | WitnessedId transaction_hash "byte list"

fun mined_id :: "unmined_tx_id \<Rightarrow> transaction_hash" where
  "mined_id (LegacyId legacy_id) = legacy_id"
| "mined_id (WitnessedId hash auth_digest) = hash"

record unmined_tx =
  um_transaction :: transaction
  um_id :: unmined_tx_id
  um_size :: nat
  conventional_fee_field :: amount

section \<open>Conventional fees\<close>

definition MARGINAL_FEE :: int where
  "MARGINAL_FEE = 5000"

definition GRACE_ACTIONS :: nat where
  "GRACE_ACTIONS = 2"

definition P2PKH_STANDARD_INPUT_SIZE :: nat where
  "P2PKH_STANDARD_INPUT_SIZE = 150"

definition P2PKH_STANDARD_OUTPUT_SIZE :: nat where
  "P2PKH_STANDARD_OUTPUT_SIZE = 34"

definition BLOCK_UNPAID_ACTION_LIMIT :: nat where
  "BLOCK_UNPAID_ACTION_LIMIT = 0"

definition MIN_MEMPOOL_TX_FEE_RATE :: nat where
  "MIN_MEMPOOL_TX_FEE_RATE = 100"

definition MEMPOOL_TX_FEE_REQUIREMENT_CAP :: nat where
  "MEMPOOL_TX_FEE_REQUIREMENT_CAP = 1000"

datatype zip317_error = UnpaidActions | FeeBelowMinimumRate | InvalidMinFee

definition zcash_serialized_size :: "(unit + byte list) outcome \<Rightarrow> nat outcome" where
  "zcash_serialized_size serialized =
     run_bind serialized (\<lambda>r. run_bind (expect_ok r) (\<lambda>bs. Done (length bs)))"

definition conventional_actions :: "(nat \<Rightarrow> nat \<Rightarrow> nat) \<Rightarrow> transaction \<Rightarrow> nat outcome" where
  "conventional_actions div_ceil tx =
     run_bind (map_outcome_list (\<lambda>input. zcash_serialized_size (input_serialize input)) (tx_inputs tx)) (\<lambda>input_sizes.
     run_bind (map_outcome_list (\<lambda>output. zcash_serialized_size (output_serialize output)) (tx_outputs tx)) (\<lambda>output_sizes.
     run_bind (sapling_spends_per_anchor tx) (\<lambda>spends.
       let n_join_split = joinsplit_count tx;
           n_spends_sapling = length spends;
           n_outputs_sapling = length (sapling_outputs tx);
           n_actions_orchard = length (orchard_actions tx);
           tx_in_logical_actions = div_ceil (sum_list input_sizes) P2PKH_STANDARD_INPUT_SIZE;
           tx_out_logical_actions = div_ceil (sum_list output_sizes) P2PKH_STANDARD_OUTPUT_SIZE;
           logical_actions = max tx_in_logical_actions tx_out_logical_actions + 2 * n_join_split +
             max n_spends_sapling n_outputs_sapling + n_actions_orchard
       in run_bind (expect_some (u32_try_from (int logical_actions))) (\<lambda>logical_actions.
            Done (max GRACE_ACTIONS logical_actions)))))"

definition conventional_fee :: "(nat \<Rightarrow> nat \<Rightarrow> nat) \<Rightarrow> transaction \<Rightarrow> amount outcome" where
  "conventional_fee div_ceil tx =
     run_bind (expect_ok (amount_try_from_u64 NonNegative MARGINAL_FEE)) (\<lambda>marginal_fee.
     run_bind (conventional_actions div_ceil tx) (\<lambda>actions.
     run_bind (amount_mul NonNegative marginal_fee (int actions)) expect_ok))"

definition unpaid_actions :: "(nat \<Rightarrow> nat \<Rightarrow> nat) \<Rightarrow> unmined_tx \<Rightarrow> amount \<Rightarrow> nat outcome" where
  "unpaid_actions div_ceil tx miner_fee =
     run_bind (conventional_actions div_ceil (um_transaction tx)) (\<lambda>actions.
     run_bind (amount_div NonNegative miner_fee MARGINAL_FEE) (\<lambda>r.
     run_bind (expect_ok r) (\<lambda>marginal_fee_weight_ratio.
       Done (case u32_try_from (int actions - zatoshis marginal_fee_weight_ratio) of Some n \<Rightarrow> n | None \<Rightarrow> 0))))"

definition mempool_checks :: "nat \<Rightarrow> amount \<Rightarrow> nat \<Rightarrow> (zip317_error + unit) outcome" where
  "mempool_checks unpaid miner_fee transaction_size =
     (if unpaid > BLOCK_UNPAID_ACTION_LIMIT then Done (Inl UnpaidActions)
      else
        run_bind (assert_that (MIN_MEMPOOL_TX_FEE_RATE < (2 ^ 64 - 1) div MAX_BLOCK_BYTES)) (\<lambda>_.
        let min_fee = min MEMPOOL_TX_FEE_REQUIREMENT_CAP
                        (max MIN_MEMPOOL_TX_FEE_RATE (MIN_MEMPOOL_TX_FEE_RATE * transaction_size div 1000))
        in case amount_try_from_u64 NonNegative (int min_fee) of
             Inl _ \<Rightarrow> Done (Inl InvalidMinFee)
           | Inr min_fee \<Rightarrow>
               if zatoshis miner_fee < zatoshis min_fee then Done (Inl FeeBelowMinimumRate) else Done (Inr ())))"

section \<open>Verified transactions\<close>

definition MEMPOOL_TRANSACTION_COST_THRESHOLD :: nat where
  "MEMPOOL_TRANSACTION_COST_THRESHOLD = 10000"

definition MEMPOOL_TRANSACTION_LOW_FEE_PENALTY :: nat where
  "MEMPOOL_TRANSACTION_LOW_FEE_PENALTY = 40000"

record verified_unmined_tx =
  vt_transaction :: unmined_tx
  miner_fee :: amount
  legacy_sigop_count :: nat
  p2sh_sigop_count :: nat
  conventional_actions_field :: nat
  unpaid_actions_field :: nat
  vt_height :: "height option"
  spent_outputs :: "transparent_output list"

definition unmined_from ::
  "(nat \<Rightarrow> nat \<Rightarrow> nat) \<Rightarrow> (transaction \<Rightarrow> unmined_tx_id) \<Rightarrow> (transaction \<Rightarrow> nat) \<Rightarrow> transaction \<Rightarrow> unmined_tx outcome" where
  "unmined_from div_ceil tx_id tx_size tx =
     (let size = tx_size tx
      in run_bind (conventional_fee div_ceil tx) (\<lambda>fee.
           Done \<lparr>um_transaction = tx, um_id = tx_id tx, um_size = size, conventional_fee_field = fee\<rparr>))"

definition verified_new ::
  "(nat \<Rightarrow> nat \<Rightarrow> nat) \<Rightarrow> unmined_tx \<Rightarrow> amount \<Rightarrow> nat \<Rightarrow> nat \<Rightarrow> transparent_output list \<Rightarrow>
   (zip317_error + verified_unmined_tx) outcome" where
  "verified_new div_ceil tx fee legacy_sigops p2sh_sigops spent =
     run_bind (conventional_actions div_ceil (um_transaction tx)) (\<lambda>actions.
     run_bind (unpaid_actions div_ceil tx fee) (\<lambda>unpaid.
     try_bind (mempool_checks unpaid fee (um_size tx)) (\<lambda>_.
       Done (Inr \<lparr>vt_transaction = tx, miner_fee = fee, legacy_sigop_count = legacy_sigops, p2sh_sigop_count = p2sh_sigops,
                  conventional_actions_field = actions, unpaid_actions_field = unpaid, vt_height = None, spent_outputs = spent\<rparr>))))"

definition block_sigop_count :: "verified_unmined_tx \<Rightarrow> nat" where
  "block_sigop_count tx = min (2 ^ 32 - 1) (legacy_sigop_count tx + p2sh_sigop_count tx)"

definition pays_conventional_fee :: "verified_unmined_tx \<Rightarrow> bool" where
  "pays_conventional_fee tx \<longleftrightarrow> zatoshis (miner_fee tx) \<ge> zatoshis (conventional_fee_field (vt_transaction tx))"

definition tx_cost :: "verified_unmined_tx \<Rightarrow> nat" where
  "tx_cost tx = max (um_size (vt_transaction tx)) MEMPOOL_TRANSACTION_COST_THRESHOLD"

definition eviction_weight :: "verified_unmined_tx \<Rightarrow> nat" where
  "eviction_weight tx =
     tx_cost tx + (if \<not> pays_conventional_fee tx then MEMPOOL_TRANSACTION_LOW_FEE_PENALTY else 0)"

section \<open>Lemmas\<close>

lemma conventional_actions_bounds:
  "conventional_actions div_ceil tx = Done n \<Longrightarrow> 2 \<le> n \<and> n < 2 ^ 32"
  by (auto simp: conventional_actions_def run_bind_Done_iff Let_def GRACE_ACTIONS_def u32_try_from_def in_u32_def nat_less_iff
      split: if_splits)

lemma conventional_fee_value:
  "conventional_fee div_ceil tx = Done fee \<longleftrightarrow>
   (\<exists>n. conventional_actions div_ceil tx = Done n \<and> 5000 * int n \<le> MAX_MONEY \<and> fee = Amount (5000 * int n))"
proof (cases "conventional_actions div_ceil tx")
  case (Done n)
  have n: "2 \<le> n" "n < 2 ^ 32" using conventional_actions_bounds [OF Done] by blast+
  have marginal: "amount_try_from_u64 NonNegative MARGINAL_FEE = Inr (Amount 5000)"
    by (simp add: amount_try_from_u64_def MARGINAL_FEE_def checked_i64_def in_i64_def amount_try_from_i64_def validate_def
        ok_or_def MAX_MONEY_value)
  have "amount_ok NonNegative (Amount 5000)" "in_u64 (int n)" using n by (simp_all add: amount_ok_def MAX_MONEY_value in_u64_def)
  from amount_mul_div_exact [OF this] show ?thesis using Done marginal n by (auto simp: conventional_fee_def amount_ok_def)
qed (simp add: conventional_fee_def run_bind_Done_iff)

lemma unpaid_actions_value:
  assumes "conventional_actions div_ceil (um_transaction tx) = Done n" and "amount_ok NonNegative fee"
  shows "\<exists>m. unpaid_actions div_ceil tx fee = Done m \<and> (m = 0 \<longleftrightarrow> 5000 * int n \<le> zatoshis fee)"
proof -
  have n: "n < 2 ^ 32" using conventional_actions_bounds [OF assms(1)] by blast
  have nonneg: "0 \<le> zatoshis fee" using assms(2) by (simp add: amount_ok_def)
  then have "rust_div (zatoshis fee) 5000 = zatoshis fee div 5000" by (simp add: rust_div_nonneg)
  then have div: "amount_div NonNegative fee MARGINAL_FEE = Done (Inr (Amount (zatoshis fee div 5000)))"
    using amount_mul_div_exact [OF assms(2), of 5000] by (simp add: MARGINAL_FEE_def in_u64_def)
  show ?thesis
    using assms(1) div n nonneg by (auto simp: unpaid_actions_def u32_try_from_def in_u32_def)
qed

lemma mempool_checks_paid:
  assumes "10000 \<le> zatoshis fee"
  shows "mempool_checks 0 fee bytes = Done (Inr ())"
proof -
  define m where "m = min 1000 (max 100 (bytes div 10))"
  have "m \<le> 1000" by (simp add: m_def)
  then have "amount_try_from_u64 NonNegative (int m) = Inr (Amount (int m))"
    by (simp add: amount_try_from_u64_def checked_i64_def in_i64_def amount_try_from_i64_def validate_def ok_or_def MAX_MONEY_value)
  then show ?thesis
    using assms \<open>m \<le> 1000\<close>
    by (simp add: mempool_checks_def BLOCK_UNPAID_ACTION_LIMIT_def MIN_MEMPOOL_TX_FEE_RATE_def MEMPOOL_TX_FEE_REQUIREMENT_CAP_def
        MAX_BLOCK_BYTES_def Let_def m_def [symmetric])
qed

section \<open>Theorems\<close>

text \<open>C23. A transaction is accepted for the mempool exactly when its fee is at least the conventional fee of its actions: then it is never
  refused by the older minimum fee rate, it pays the conventional fee and its eviction weight has no low fee penalty. Otherwise the
  error is that it has unpaid actions.\<close>

theorem mempool_accepts_conventional_fee:
  assumes "unmined_from div_ceil tx_id tx_size t = Done tx" and "amount_ok NonNegative fee"
  shows "if zatoshis (conventional_fee_field tx) \<le> zatoshis fee
    then \<exists>v. verified_new div_ceil tx fee legacy p2sh spent = Done (Inr v) \<and> vt_transaction v = tx \<and> pays_conventional_fee v \<and>
      eviction_weight v = max (um_size tx) 10000
    else verified_new div_ceil tx fee legacy p2sh spent = Done (Inl UnpaidActions)"
proof -
  obtain n where actions: "conventional_actions div_ceil (um_transaction tx) = Done n"
    and fee: "conventional_fee_field tx = Amount (5000 * int n)"
    using assms(1) by (auto simp: unmined_from_def run_bind_Done_iff conventional_fee_value)
  obtain m where m: "unpaid_actions div_ceil tx fee = Done m" "m = 0 \<longleftrightarrow> 5000 * int n \<le> zatoshis fee"
    using unpaid_actions_value [OF actions assms(2)] by blast
  have "2 \<le> n" using conventional_actions_bounds [OF actions] by blast
  then have paid: "mempool_checks 0 fee bytes = Done (Inr ())" if "5000 * int n \<le> zatoshis fee" for bytes
    using that by (intro mempool_checks_paid) linarith
  show ?thesis
  proof (cases "5000 * int n \<le> zatoshis fee")
    case True
    then show ?thesis
      using m paid actions fee
      by (simp add: verified_new_def pays_conventional_fee_def eviction_weight_def tx_cost_def MEMPOOL_TRANSACTION_COST_THRESHOLD_def)
  next
    case False
    then show ?thesis using m actions fee by (simp add: verified_new_def mempool_checks_def BLOCK_UNPAID_ACTION_LIMIT_def)
  qed
qed

definition sample_unmined :: unmined_tx where
  "sample_unmined = \<lparr>um_transaction = V1 [] [] unlocked, um_id = LegacyId [1], um_size = 100, conventional_fee_field = Amount 10000\<rparr>"

definition ceiling_division :: "nat \<Rightarrow> nat \<Rightarrow> nat" where
  "ceiling_division n d = (n + d - 1) div d"

theorem mempool_accepts_conventional_fee_witness:
  "(\<exists>v. verified_new ceiling_division sample_unmined (Amount 10000) 0 0 [] = Done (Inr v) \<and> pays_conventional_fee v) \<and>
   verified_new ceiling_division sample_unmined (Amount 9999) 0 0 [] = Done (Inl UnpaidActions)"
proof -
  have actions: "conventional_actions ceiling_division (um_transaction sample_unmined) = Done 2"
    by (simp add: conventional_actions_def sample_unmined_def Let_def ceiling_division_def P2PKH_STANDARD_INPUT_SIZE_def
        P2PKH_STANDARD_OUTPUT_SIZE_def joinsplit_count_def sprout_joinsplits_def over_joinsplit_data_def orchard_actions_def
        over_orchard_data_def u32_try_from_def in_u32_def GRACE_ACTIONS_def)
  then have unmined: "unmined_from ceiling_division (\<lambda>_. LegacyId [1]) (\<lambda>_. 100) (um_transaction sample_unmined) = Done sample_unmined"
    by (simp add: unmined_from_def run_bind_Done_iff conventional_fee_value) (simp add: sample_unmined_def MAX_MONEY_value)
  have ok: "amount_ok NonNegative (Amount 10000)" "amount_ok NonNegative (Amount 9999)" by (simp_all add: amount_ok_def MAX_MONEY_value)
  show ?thesis
    using mempool_accepts_conventional_fee [OF unmined ok(1), of 0 0 "[]"]
      mempool_accepts_conventional_fee [OF unmined ok(2), of 0 0 "[]"]
    by (auto simp: sample_unmined_def)
qed

end
