(* ===== verification/Mempool_Dependencies.thy ===== *)
theory Mempool_Dependencies
  imports Hash_Orders Transparent
begin

text \<open>
  The dependencies between mempool transactions: \<open>zebra-node-services/src/mempool/transaction_dependencies.rs\<close>.

  A hash map to hash sets is an association list from transaction hashes to lists without an order of their own; the order in which
  the code iterates over a set is the argument \<open>order\<close>.
\<close>

section \<open>Model\<close>

type_synonym hash_sets = "(transaction_hash \<times> transaction_hash list) list"

record transaction_dependencies =
  dependencies :: hash_sets
  dependents :: hash_sets

definition members_of :: "hash_sets \<Rightarrow> transaction_hash \<Rightarrow> transaction_hash list" where
  "members_of m k = (case map_of m k of Some s \<Rightarrow> s | None \<Rightarrow> [])"

definition remove_member :: "transaction_hash \<Rightarrow> transaction_hash \<Rightarrow> hash_sets \<Rightarrow> hash_sets" where
  "remove_member k x m =
     (case map_of m k of
        None \<Rightarrow> m
      | Some s \<Rightarrow> let s' = removeAll x s in if s' = [] then AList.delete k m else AList.update k s' m)"

definition add_dependencies :: "transaction_hash \<Rightarrow> outpoint list \<Rightarrow> transaction_dependencies \<Rightarrow> transaction_dependencies" where
  "add_dependencies dependent spent_mempool_outpoints deps =
     (let deps' = deps\<lparr>dependents :=
            fold (\<lambda>outpoint m. AList.update (outpoint_hash outpoint) (List.insert dependent (members_of m (outpoint_hash outpoint))) m)
              spent_mempool_outpoints (dependents deps)\<rparr>
      in if spent_mempool_outpoints \<noteq> []
         then deps'\<lparr>dependencies := AList.update dependent (remdups (map outpoint_hash spent_mempool_outpoints)) (dependencies deps')\<rparr>
         else deps')"

definition clear_mined_dependency :: "(transaction_hash list \<Rightarrow> transaction_hash list) \<Rightarrow> transaction_hash \<Rightarrow>
  transaction_dependencies \<Rightarrow> transaction_dependencies" where
  "clear_mined_dependency order mined_tx_id deps =
     fold (\<lambda>dependent_id deps. deps\<lparr>dependencies := remove_member dependent_id mined_tx_id (dependencies deps)\<rparr>)
       (order (members_of (dependents deps) mined_tx_id))
       (deps\<lparr>dependents := AList.delete mined_tx_id (dependents deps)\<rparr>)"

definition clear_mined_dependencies :: "(transaction_hash list \<Rightarrow> transaction_hash list) \<Rightarrow> transaction_hash list \<Rightarrow>
  transaction_dependencies \<Rightarrow> transaction_dependencies" where
  "clear_mined_dependencies order mined_ids = fold (clear_mined_dependency order) (order mined_ids)"

definition remove_dependent :: "(transaction_hash list \<Rightarrow> transaction_hash list) \<Rightarrow> transaction_hash \<Rightarrow>
  transaction_dependencies \<Rightarrow> transaction_dependencies \<times> transaction_hash list" where
  "remove_dependent order dependent deps =
     (let ds = fold (\<lambda>dependency. remove_member dependency dependent)
            (order (members_of (dependencies deps) dependent)) (dependents deps)
      in (deps\<lparr>dependencies := AList.delete dependent (dependencies deps), dependents := AList.delete dependent ds\<rparr>,
          members_of ds dependent))"

fun remove_level :: "(transaction_hash list \<Rightarrow> transaction_hash list) \<Rightarrow> transaction_hash list \<Rightarrow>
  transaction_dependencies \<Rightarrow> transaction_dependencies \<times> transaction_hash list" where
  "remove_level order [] deps = (deps, [])"
| "remove_level order (dependent # level) deps =
     (let (deps', found) = remove_dependent order dependent deps;
          (deps'', found') = remove_level order level deps'
      in (deps'', found @ found'))"

lemma remove_member_length: "length (remove_member k x m) \<le> length m"
  by (auto simp: remove_member_def Let_def length_delete_le length_AList_update split: option.split)

lemma remove_members_length: "length (fold (\<lambda>k. remove_member k x) ks m) \<le> length m"
  by (induction ks arbitrary: m) (auto intro: order_trans [OF _ remove_member_length])

lemma remove_dependent_length:
  "length (dependents (fst (remove_dependent order d deps))) + (if snd (remove_dependent order d deps) = [] then 0 else 1)
     \<le> length (dependents deps)"
proof -
  define ds where "ds = fold (\<lambda>k. remove_member k d) (order (members_of (dependencies deps) d)) (dependents deps)"
  have "length ds \<le> length (dependents deps)" by (simp add: ds_def remove_members_length)
  moreover have "length (AList.delete d ds) + (if members_of ds d = [] then 0 else 1) \<le> length ds"
    using length_AList_delete [of ds d] length_delete_le [of d ds] by (auto simp: members_of_def split: option.splits)
  ultimately show ?thesis by (simp add: remove_dependent_def Let_def ds_def [symmetric])
qed

lemma remove_level_length:
  "length (dependents (fst (remove_level order level deps))) + (if snd (remove_level order level deps) = [] then 0 else 1)
     \<le> length (dependents deps)"
proof (induction level arbitrary: deps)
  case (Cons d level)
  show ?case
    using remove_dependent_length [of order d deps] Cons [of "fst (remove_dependent order d deps)"]
    by (auto simp: case_prod_unfold Let_def)
qed simp

function remove_levels :: "(transaction_hash list \<Rightarrow> transaction_hash list) \<Rightarrow> transaction_hash list \<Rightarrow> transaction_hash list \<Rightarrow>
  transaction_dependencies \<Rightarrow> transaction_dependencies \<times> transaction_hash list" where
  "remove_levels order current_level_dependents all_dependents deps =
     (if current_level_dependents = [] then (deps, all_dependents)
      else
        let (deps', found) = remove_level order (order current_level_dependents) deps;
            level = remdups found
        in remove_levels order level (remdups (all_dependents @ level)) deps')"
  by pat_completeness auto
termination
proof (relation "measure (\<lambda>(order, level, all_dependents, deps). 2 * length (dependents deps) + (if level = [] then 0 else 1))", goal_cases)
  case (2 order level all_dependents deps x deps' found level')
  then have result: "remove_level order (order level) deps = (deps', found)" and level: "level \<noteq> []" "level' = remdups found" by simp_all
  show ?case using level remove_level_length [of order "order level" deps, unfolded result] by (auto split: if_splits)
qed simp

declare remove_levels.simps [simp del]

definition remove_all :: "(transaction_hash list \<Rightarrow> transaction_hash list) \<Rightarrow> transaction_hash \<Rightarrow>
  transaction_dependencies \<Rightarrow> transaction_dependencies \<times> transaction_hash list" where
  "remove_all order tx_hash deps = remove_levels order [tx_hash] [] deps"

definition direct_dependents :: "transaction_dependencies \<Rightarrow> transaction_hash \<Rightarrow> transaction_hash list" where
  "direct_dependents deps tx_hash = members_of (dependents deps) tx_hash"

definition direct_dependencies :: "transaction_dependencies \<Rightarrow> transaction_hash \<Rightarrow> transaction_hash list" where
  "direct_dependencies deps tx_hash = members_of (dependencies deps) tx_hash"

definition no_dependencies :: transaction_dependencies where
  "no_dependencies = \<lparr>dependencies = [], dependents = []\<rparr>"

section \<open>The dependency relation\<close>

definition dependency_edges :: "transaction_dependencies \<Rightarrow> (transaction_hash \<times> transaction_hash) set" where
  "dependency_edges deps = {(p, d). d \<in> set (members_of (dependents deps) p)}"

definition sets_filled :: "hash_sets \<Rightarrow> bool" where
  "sets_filled m \<longleftrightarrow> (\<forall>k. map_of m k \<noteq> Some [])"

definition dependencies_ok :: "transaction_dependencies \<Rightarrow> bool" where
  "dependencies_ok deps \<longleftrightarrow>
     (\<forall>p d. p \<in> set (members_of (dependencies deps) d) \<longleftrightarrow> (p, d) \<in> dependency_edges deps) \<and>
     sets_filled (dependencies deps) \<and> sets_filled (dependents deps)"

lemma members_of_delete [simp]: "members_of (AList.delete k m) j = (if j = k then [] else members_of m j)"
  by (simp add: members_of_def delete_conv')

lemma members_of_update [simp]: "members_of (AList.update k s m) j = (if j = k then s else members_of m j)"
  by (simp add: members_of_def update_conv')

lemma sets_filled_delete [intro]: "sets_filled m \<Longrightarrow> sets_filled (AList.delete k m)"
  by (simp add: sets_filled_def delete_conv')

lemma sets_filled_update [intro]: "sets_filled m \<Longrightarrow> s \<noteq> [] \<Longrightarrow> sets_filled (AList.update k s m)"
  by (simp add: sets_filled_def update_conv')

lemma set_members_of_remove_member [simp]:
  "set (members_of (remove_member k x m) j) = set (members_of m j) - (if j = k then {x} else {})"
proof (cases "map_of m k")
  case (Some s)
  then have s: "members_of m k = s" by (simp add: members_of_def)
  show ?thesis
  proof (cases "removeAll x s = []")
    case True
    then have "set s - {x} = {}" by (metis empty_set set_removeAll)
    then show ?thesis using Some True s by (simp add: remove_member_def Let_def)
  next
    case False
    then show ?thesis using Some s by (simp add: remove_member_def Let_def)
  qed
qed (auto simp: remove_member_def members_of_def)

lemma sets_filled_remove_member [intro]: "sets_filled m \<Longrightarrow> sets_filled (remove_member k x m)"
  by (auto simp: remove_member_def Let_def split: option.split)

lemma set_members_of_remove_members:
  "set (members_of (fold (\<lambda>k. remove_member k x) ks m) j) = set (members_of m j) - (if j \<in> set ks then {x} else {})"
  by (induction ks arbitrary: m) auto

lemma sets_filled_remove_members: "sets_filled m \<Longrightarrow> sets_filled (fold (\<lambda>k. remove_member k x) ks m)"
  by (induction ks arbitrary: m) auto

lemma fold_dependencies:
  "fold (\<lambda>d deps. deps\<lparr>dependencies := remove_member d x (dependencies deps)\<rparr>) ds deps =
   deps\<lparr>dependencies := fold (\<lambda>d. remove_member d x) ds (dependencies deps)\<rparr>"
  by (induction ds arbitrary: deps) simp_all

lemma add_dependents_members:
  "set (members_of (fold (\<lambda>outpoint m. AList.update (outpoint_hash outpoint)
      (List.insert x (members_of m (outpoint_hash outpoint))) m) spent m) j) =
   set (members_of m j) \<union> (if j \<in> outpoint_hash ` set spent then {x} else {})"
  by (induction spent arbitrary: m) auto

lemma add_dependents_filled:
  "sets_filled m \<Longrightarrow> sets_filled (fold (\<lambda>outpoint m. AList.update (outpoint_hash outpoint)
      (List.insert x (members_of m (outpoint_hash outpoint))) m) spent m)"
proof (induction spent arbitrary: m)
  case (Cons outpoint spent)
  have "List.insert x s \<noteq> []" for s by (metis empty_iff empty_set insertI1 set_insert)
  then show ?case using Cons by (simp add: sets_filled_update)
qed simp

lemma no_dependencies_ok: "dependencies_ok no_dependencies" "dependency_edges no_dependencies = {}"
  by (simp_all add: dependencies_ok_def no_dependencies_def dependency_edges_def members_of_def sets_filled_def)

lemma add_dependencies_ok:
  assumes ok: "dependencies_ok deps" and new: "x \<notin> Range (dependency_edges deps)"
  shows "dependencies_ok (add_dependencies x spent deps)"
    and "dependency_edges (add_dependencies x spent deps) = dependency_edges deps \<union> outpoint_hash ` set spent \<times> {x}"
proof -
  have "members_of (dependencies deps) x = []"
    using ok new by (metis (no_types, lifting) Range.intros dependencies_ok_def list.set_intros(1) neq_Nil_conv)
  then show "dependency_edges (add_dependencies x spent deps) = dependency_edges deps \<union> outpoint_hash ` set spent \<times> {x}"
    by (auto simp: add_dependencies_def Let_def dependency_edges_def add_dependents_members split: if_splits)
  then show "dependencies_ok (add_dependencies x spent deps)"
    using ok new
    by (auto simp: dependencies_ok_def add_dependencies_def Let_def intro!: add_dependents_filled sets_filled_update)
qed

lemma clear_mined_dependency_ok:
  assumes ok: "dependencies_ok deps" and order: "permuting order"
  shows "dependencies_ok (clear_mined_dependency order x deps)"
    and "dependency_edges (clear_mined_dependency order x deps) = {(p, d) \<in> dependency_edges deps. p \<noteq> x}"
proof -
  show edges: "dependency_edges (clear_mined_dependency order x deps) = {(p, d) \<in> dependency_edges deps. p \<noteq> x}"
    by (auto simp: clear_mined_dependency_def fold_dependencies dependency_edges_def split: if_splits)
  show "dependencies_ok (clear_mined_dependency order x deps)"
    using ok unfolding dependencies_ok_def edges
    by (auto simp: clear_mined_dependency_def fold_dependencies set_members_of_remove_members permutingD [OF order]
        dependency_edges_def intro!: sets_filled_remove_members split: if_splits)
qed

lemma clear_mined_dependencies_ok:
  assumes ok: "dependencies_ok deps" and order: "permuting order"
  shows "dependencies_ok (clear_mined_dependencies order xs deps)"
    and "dependency_edges (clear_mined_dependencies order xs deps) = {(p, d) \<in> dependency_edges deps. p \<notin> set xs}"
proof -
  have "dependencies_ok (fold (clear_mined_dependency order) ys deps) \<and>
      dependency_edges (fold (clear_mined_dependency order) ys deps) = {(p, d) \<in> dependency_edges deps. p \<notin> set ys}" for ys
    using ok by (induction ys arbitrary: deps) (auto simp: clear_mined_dependency_ok [OF _ order])
  then show "dependencies_ok (clear_mined_dependencies order xs deps)"
    "dependency_edges (clear_mined_dependencies order xs deps) = {(p, d) \<in> dependency_edges deps. p \<notin> set xs}"
    using permutingD [OF order, of xs] by (simp_all add: clear_mined_dependencies_def)
qed

section \<open>Removing a transaction with its dependents\<close>

definition edges_avoiding :: "'a set \<Rightarrow> ('a \<times> 'a) set \<Rightarrow> ('a \<times> 'a) set" where
  "edges_avoiding xs r = {(p, d) \<in> r. p \<notin> xs \<and> d \<notin> xs}"

lemma edges_avoiding_avoiding: "edges_avoiding xs (edges_avoiding ys r) = edges_avoiding (xs \<union> ys) r"
  by (auto simp: edges_avoiding_def)

text \<open>Between two steps of the traversal, the transactions that are still to be visited may list dependencies that are gone.\<close>

definition dependencies_upto :: "transaction_hash set \<Rightarrow> transaction_dependencies \<Rightarrow> bool" where
  "dependencies_upto xs deps \<longleftrightarrow>
     (\<forall>p d. (p, d) \<in> dependency_edges deps \<longrightarrow> p \<in> set (members_of (dependencies deps) d)) \<and>
     (\<forall>p d. p \<in> set (members_of (dependencies deps) d) \<longrightarrow> (p, d) \<in> dependency_edges deps \<or> d \<in> xs) \<and>
     sets_filled (dependencies deps) \<and> sets_filled (dependents deps)"

lemma dependencies_upto_empty: "dependencies_upto {} deps \<longleftrightarrow> dependencies_ok deps"
  by (auto simp: dependencies_upto_def dependencies_ok_def)

lemma dependencies_upto_mono: "dependencies_upto xs deps \<Longrightarrow> xs \<subseteq> ys \<Longrightarrow> dependencies_upto ys deps"
  unfolding dependencies_upto_def by blast

lemma remove_dependent_ok:
  assumes ok: "dependencies_upto xs deps" and order: "permuting order" and result: "remove_dependent order x deps = (deps', found)"
  shows "dependencies_upto (xs - {x} \<union> set found) deps' \<and> dependency_edges deps' = edges_avoiding {x} (dependency_edges deps) \<and>
    set found = {d. (x, d) \<in> dependency_edges deps} - {x}"
proof -
  define ds where "ds = fold (\<lambda>dependency. remove_member dependency x) (order (members_of (dependencies deps) x)) (dependents deps)"
  have deps': "deps' = deps\<lparr>dependencies := AList.delete x (dependencies deps), dependents := AList.delete x ds\<rparr>"
    and found: "found = members_of ds x"
    using result by (simp_all add: remove_dependent_def Let_def ds_def)
  have "set (members_of ds p) = {d. (p, d) \<in> dependency_edges deps} - {x}" for p
    using ok by (auto simp: ds_def set_members_of_remove_members permutingD [OF order] dependencies_upto_def dependency_edges_def)
  then have edges: "dependency_edges deps' = edges_avoiding {x} (dependency_edges deps)"
    and set_found: "set found = {d. (x, d) \<in> dependency_edges deps} - {x}"
    by (auto simp: deps' found dependency_edges_def edges_avoiding_def split: if_splits)
  have "sets_filled (dependencies deps')" "sets_filled (dependents deps')"
    using ok by (auto simp: deps' ds_def dependencies_upto_def intro!: sets_filled_delete sets_filled_remove_members)
  moreover have "set (members_of (dependencies deps') d) = (if d = x then {} else set (members_of (dependencies deps) d))" for d
    by (simp add: deps')
  ultimately have "dependencies_upto (xs - {x} \<union> set found) deps'"
    using ok unfolding dependencies_upto_def edges set_found by (auto simp: edges_avoiding_def)
  then show ?thesis using edges set_found by blast
qed

lemma remove_level_ok:
  assumes "dependencies_upto (set xs \<union> ys) deps" and order: "permuting order" and "remove_level order xs deps = (deps', found)"
  shows "dependencies_upto (ys \<union> set found) deps' \<and> dependency_edges deps' = edges_avoiding (set xs) (dependency_edges deps) \<and>
    set found \<subseteq> dependency_edges deps `` set xs \<and> dependency_edges deps `` set xs \<subseteq> set xs \<union> set found"
  using assms(1,3)
proof (induction xs arbitrary: ys deps deps' found)
  case Nil
  then show ?case by (auto simp: edges_avoiding_def)
next
  case (Cons x xs)
  obtain deps1 found1 where first: "remove_dependent order x deps = (deps1, found1)" by fastforce
  obtain found2 where rest: "remove_level order xs deps1 = (deps', found2)" and found: "found = found1 @ found2"
    using Cons.prems(2) first by (auto split: prod.splits)
  note step = remove_dependent_ok [OF Cons.prems(1) order first]
  then have "dependencies_upto (set xs \<union> (ys \<union> set found1)) deps1" by (auto elim!: dependencies_upto_mono)
  note IH = Cons.IH [OF this rest]
  have "dependency_edges deps `` set (x # xs) \<subseteq> insert x (set found1) \<union> dependency_edges deps1 `` set xs"
    using step by (auto simp: edges_avoiding_def)
  then have "dependency_edges deps `` set (x # xs) \<subseteq> set (x # xs) \<union> set found" using IH unfolding found set_append list.set by blast
  moreover have "set found \<subseteq> dependency_edges deps `` set (x # xs)" using IH step by (auto simp: found edges_avoiding_def)
  moreover have "dependency_edges deps' = edges_avoiding (set (x # xs)) (dependency_edges deps)"
    using IH step by (simp add: edges_avoiding_avoiding)
  ultimately show ?case using IH by (simp add: found Un_assoc)
qed

lemma reachable_by_levels:
  assumes "found \<subseteq> r `` xs" and "r `` xs \<subseteq> xs \<union> found"
  shows "r\<^sup>* `` xs = xs \<union> (edges_avoiding xs r)\<^sup>* `` found"
proof (intro equalityI subsetI)
  fix z assume "z \<in> r\<^sup>* `` xs"
  then obtain x where "x \<in> xs" "(x, z) \<in> r\<^sup>*" by blast
  from this(2,1) show "z \<in> xs \<union> (edges_avoiding xs r)\<^sup>* `` found"
  proof (induction rule: rtrancl_induct)
    case (step y z)
    then consider "z \<in> xs" | "z \<notin> xs" "y \<in> xs" | "z \<notin> xs" "y \<notin> xs" "y \<in> (edges_avoiding xs r)\<^sup>* `` found" by blast
    then show ?case
    proof cases
      case 2
      then have "z \<in> found" using step.hyps assms(2) by blast
      then show ?thesis by blast
    next
      case 3
      then have "(y, z) \<in> edges_avoiding xs r" using step.hyps by (simp add: edges_avoiding_def)
      then show ?thesis using 3 by (blast intro: rtrancl_into_rtrancl)
    qed blast
  qed blast
next
  fix z assume z: "z \<in> xs \<union> (edges_avoiding xs r)\<^sup>* `` found"
  have "edges_avoiding xs r \<subseteq> r" by (auto simp: edges_avoiding_def)
  then have "(edges_avoiding xs r)\<^sup>* \<subseteq> r\<^sup>*" by (rule rtrancl_mono)
  then show "z \<in> r\<^sup>* `` xs" using z assms(1) by (blast intro: converse_rtrancl_into_rtrancl)
qed

lemma remove_levels_ok:
  assumes "dependencies_upto (set level) deps" and "permuting order" and "remove_levels order level found deps = (deps', found')"
  shows "dependencies_ok deps' \<and> dependency_edges deps' = edges_avoiding ((dependency_edges deps)\<^sup>* `` set level) (dependency_edges deps) \<and>
    set found \<subseteq> set found' \<and> (dependency_edges deps)\<^sup>* `` set level \<subseteq> set level \<union> set found' \<and>
    set found' \<subseteq> set found \<union> (dependency_edges deps)\<^sup>+ `` set level"
  using assms
proof (induction order level found deps arbitrary: deps' found' rule: remove_levels.induct)
  case (1 order level found deps)
  show ?case
  proof (cases "level = []")
    case True
    then have "deps' = deps" "found' = found" using 1(4) by (simp_all add: remove_levels.simps [of order "[]"])
    then show ?thesis using True 1(2) by (simp add: dependencies_upto_empty edges_avoiding_def)
  next
    case False
    let ?r = "dependency_edges deps"
    obtain deps1 next1 where level: "remove_level order (order level) deps = (deps1, next1)" by fastforce
    then have rest: "remove_levels order (remdups next1) (remdups (found @ remdups next1)) deps1 = (deps', found')"
      using 1(4) False by (simp add: remove_levels.simps [of order level] Let_def)
    have set_level: "set (order level) = set level" using permutingD [OF 1(3)] by blast
    have step: "dependencies_upto (set (remdups next1)) deps1" "dependency_edges deps1 = edges_avoiding (set level) ?r"
      "set next1 \<subseteq> ?r `` set level" "?r `` set level \<subseteq> set level \<union> set next1"
      using remove_level_ok [of "order level" "{}" deps order, OF _ 1(3) level] 1(2) by (simp_all add: set_level)
    note IH = 1(1) [OF False level [symmetric] refl refl step(1) 1(3) rest]
    have reach: "?r\<^sup>* `` set level = set level \<union> (dependency_edges deps1)\<^sup>* `` set next1"
      using reachable_by_levels [OF step(3,4)] step(2) by simp
    have "dependency_edges deps1 \<subseteq> ?r" by (auto simp: step(2) edges_avoiding_def)
    then have "(dependency_edges deps1)\<^sup>+ \<subseteq> ?r\<^sup>+" by (metis subrelI trancl_mono)
    then have "set next1 \<union> (dependency_edges deps1)\<^sup>+ `` set next1 \<subseteq> ?r\<^sup>+ `` set level"
      using step(3) by (blast intro: trancl_trans)
    moreover have "set found' \<subseteq> set found \<union> (set next1 \<union> (dependency_edges deps1)\<^sup>+ `` set next1)" using IH by (simp add: Un_assoc)
    ultimately have "set found' \<subseteq> set found \<union> ?r\<^sup>+ `` set level" by blast
    moreover have "?r\<^sup>* `` set level \<subseteq> set level \<union> set found'" using IH unfolding reach by auto
    moreover have "dependency_edges deps' = edges_avoiding (?r\<^sup>* `` set level) ?r"
      using IH unfolding reach by (simp add: step(2) edges_avoiding_avoiding Un_commute)
    ultimately show ?thesis using IH by simp
  qed
qed

lemma remove_all_ok:
  assumes ok: "dependencies_ok deps" and order: "permuting order" and result: "remove_all order x deps = (deps', found)"
  shows "dependencies_ok deps'"
    and "dependency_edges deps' = edges_avoiding (insert x ((dependency_edges deps)\<^sup>+ `` {x})) (dependency_edges deps)"
    and "set found = (dependency_edges deps)\<^sup>+ `` {x} - {x}"
proof -
  let ?r = "dependency_edges deps"
  have upto: "dependencies_upto (set [x]) deps" using ok by (auto simp: dependencies_upto_empty [symmetric] elim: dependencies_upto_mono)
  note levels = remove_levels_ok [OF upto order result [unfolded remove_all_def]]
  have star: "?r\<^sup>* `` {x} = insert x (?r\<^sup>+ `` {x})" by (auto simp: rtrancl_eq_or_trancl)
  show "dependencies_ok deps'" "dependency_edges deps' = edges_avoiding (insert x (?r\<^sup>+ `` {x})) ?r" using levels by (simp_all add: star)
  obtain deps1 next1 where first: "remove_dependent order x deps = (deps1, next1)" by fastforce
  note step = remove_dependent_ok [OF upto order first]
  have "mset (order [x]) = {#x#}" using order by (simp add: permuting_def)
  then have "order [x] = [x]" by simp
  then have rest: "remove_levels order (remdups next1) (remdups next1) deps1 = (deps', found)"
    using result first by (simp add: remove_all_def remove_levels.simps [of order "[x]"] Let_def distinct_remdups_id)
  have "dependencies_upto (set (remdups next1)) deps1" using step by (auto elim!: dependencies_upto_mono)
  from remove_levels_ok [OF this order rest] have "set found \<subseteq> set next1 \<union> (dependency_edges deps1)\<^sup>+ `` set next1" by simp
  moreover have "x \<notin> (dependency_edges deps1)\<^sup>+ `` set next1" using step by (auto simp: edges_avoiding_def elim: tranclE)
  ultimately have "x \<notin> set found" using step by blast
  then show "set found = ?r\<^sup>+ `` {x} - {x}" using levels star by auto
qed

section \<open>Reachable dependencies\<close>

text \<open>The dependencies the mempool can build: a transaction is added only when it has no entry.\<close>

inductive reachable_dependencies :: "(transaction_hash list \<Rightarrow> transaction_hash list) \<Rightarrow> transaction_dependencies \<Rightarrow> bool"
  for order where
  start: "reachable_dependencies order no_dependencies"
| add: "reachable_dependencies order deps \<Longrightarrow> direct_dependencies deps x = [] \<Longrightarrow>
    reachable_dependencies order (add_dependencies x spent deps)"
| mined: "reachable_dependencies order deps \<Longrightarrow> reachable_dependencies order (clear_mined_dependencies order xs deps)"
| remove: "reachable_dependencies order deps \<Longrightarrow> reachable_dependencies order (fst (remove_all order x deps))"

lemma reachable_dependencies_ok:
  assumes "reachable_dependencies order deps" and order: "permuting order"
  shows "dependencies_ok deps"
  using assms(1)
proof induction
  case start
  show ?case by (rule no_dependencies_ok)
next
  case (add deps x spent)
  then have "x \<notin> Range (dependency_edges deps)" by (force simp: dependencies_ok_def direct_dependencies_def)
  then show ?case using add add_dependencies_ok(1) by blast
next
  case (mined deps xs)
  then show ?case using clear_mined_dependencies_ok(1) order by blast
next
  case (remove deps x)
  then show ?case using remove_all_ok(1) order by (metis prod.collapse)
qed

lemma trancl_within: "r \<subseteq> s \<Longrightarrow> trans s \<Longrightarrow> r\<^sup>+ \<subseteq> s"
  by (metis subrelI trancl_id trancl_mono)

text \<open>C24. On every dependency map the mempool can build, removing a transaction ends, whatever the iteration order of the hash sets. It
  returns exactly the other transactions that depend on it directly or through others, and afterwards the dependents and the
  dependencies of every transaction are the ones it had among the transactions that are left.\<close>

theorem remove_all_removes_dependents:
  assumes "permuting order" and "reachable_dependencies order deps"
  shows "let removed = {d. (x, d) \<in> {(p, d). d \<in> set (direct_dependents deps p)}\<^sup>+}; deps' = fst (remove_all order x deps) in
    set (snd (remove_all order x deps)) = removed - {x} \<and>
    (\<forall>p. set (direct_dependents deps' p) = (if p \<in> insert x removed then {} else set (direct_dependents deps p) - insert x removed)) \<and>
    (\<forall>d. set (direct_dependencies deps' d) = (if d \<in> insert x removed then {} else set (direct_dependencies deps d) - insert x removed))"
proof -
  note ok = reachable_dependencies_ok [OF assms(2,1)]
  have edges: "{(p, d). d \<in> set (direct_dependents deps p)} = dependency_edges deps" for deps
    by (simp add: dependency_edges_def direct_dependents_def)
  have mem: "d \<in> set (direct_dependents deps p) \<longleftrightarrow> (p, d) \<in> dependency_edges deps" for deps p d
    by (simp add: dependency_edges_def direct_dependents_def)
  have mem2: "p \<in> set (direct_dependencies deps d) \<longleftrightarrow> (p, d) \<in> dependency_edges deps" if "dependencies_ok deps" for deps p d
    using that by (simp add: dependencies_ok_def direct_dependencies_def)
  note result = remove_all_ok [OF ok assms(1) prod.collapse [symmetric], where x = x]
  show ?thesis
    unfolding Let_def edges by (auto simp: result(3) set_eq_iff mem mem2 [OF result(1)] mem2 [OF ok]) (auto simp: result(2) edges_avoiding_def)
qed

theorem remove_all_removes_dependents_witness:
  "let deps = add_dependencies [3] [OutPoint [2] 0] (add_dependencies [2] [OutPoint [1] 0] no_dependencies) in
   set (snd (remove_all rev [1] deps)) = {[2], [3]} \<and> direct_dependents (fst (remove_all rev [1] deps)) [2] = []"
proof -
  let ?deps = "add_dependencies [3] [OutPoint [2] 0] (add_dependencies [2] [OutPoint [1] 0] no_dependencies)"
  have reach: "reachable_dependencies rev ?deps"
    by (intro reachable_dependencies.add reachable_dependencies.start)
      (simp_all add: direct_dependencies_def members_of_def no_dependencies_def add_dependencies_def Let_def)
  have edges: "{(p, d). d \<in> set (direct_dependents ?deps p)} = {([1], [2]), ([2], [3])}"
    by (auto simp: direct_dependents_def members_of_def no_dependencies_def add_dependencies_def Let_def split: if_splits)
  have closure: "{([1], [2]), ([2], [3])}\<^sup>+ = {([1], [2]), ([2], [3]), ([1], [3 :: byte])}" (is "?e\<^sup>+ = ?c")
  proof
    have "trans ?c" by (auto simp: trans_def)
    then show "?e\<^sup>+ \<subseteq> ?c" by (intro trancl_within) auto
    have e: "([1], [2]) \<in> ?e\<^sup>+" "([2], [3]) \<in> ?e\<^sup>+" by auto
    show "?c \<subseteq> ?e\<^sup>+" using e trancl_trans [OF e] by simp
  qed
  have removed: "{d. ([1], d) \<in> {([1], [2]), ([2], [3]), ([1], [3 :: byte])}} = {[2], [3]}" by auto
  have "permuting rev" by (simp add: permuting_def)
  note result = remove_all_removes_dependents [OF this reach, of "[1]", unfolded edges closure Let_def removed]
  have "set (snd (remove_all rev [1] ?deps)) = {[2], [3]}" using conjunct1 [OF result] by simp
  moreover have "set (direct_dependents (fst (remove_all rev [1] ?deps)) [2]) = {}"
    using spec [OF conjunct1 [OF conjunct2 [OF result]], of "[2]"] by simp
  ultimately show ?thesis by (simp add: Let_def)
qed

end
