(* ===== verification/Spec2Isabelle.thy ===== *)
theory Spec2Isabelle
  imports Block_Checks Spend_Theorems Queue_Theorems Worker_Theorems Unmined_Transactions Mempool_Dependencies
begin

text \<open>
  A verification of the consensus core of Zebra, a Zcash full node.

  \<^bold>\<open>The program.\<close> Blocks arrive from the network as bytes (\<open>zebra-chain\<close> has the formats), are checked on their own
  by \<open>zebra-consensus\<close> (structure, proof of work, subsidy, Merkle root, transactions), and are handed to
  \<open>zebra-state\<close>. The state queues a block until its parent was sent to the block write worker, checks it against its
  parent chain and the finalized database (heights, times, difficulty, spends, nullifiers, anchors, commitments, value
  pools), keeps up to ten competing chains of recent blocks in memory, and moves the oldest block of the best
  chain to the database when that chain exceeds the reorganisation limit. Transactions that are not yet in a block wait in
  the mempool, which accepts those that pay the conventional fee and removes a transaction together with its dependents.

  \<^bold>\<open>Conventions\<close> (\<open>Zebra_Prelude\<close>). A function that may panic returns an \<open>outcome\<close>: \<open>Done\<close> its value or \<open>Panic\<close>, for
  \<open>expect\<close>, \<open>assert!\<close>, \<open>unreachable!\<close>, indexing and checked arithmetic. A \<open>Result\<close> is a sum with the error on the left. A
  method on \<open>&mut self\<close> takes and returns the state. Tree maps are association lists sorted by key, hash maps are
  partial functions, or association lists where the code iterates over them, index maps are association lists in insertion order. Amounts are integers in the
  signed 64-bit range with the wrap-around and the checks of the code; targets and work are naturals
  below \<open>2^256\<close> and \<open>2^128\<close>; bytes are words. No definition uses fuel: every loop of the modelled code ends, and the
  recursive functions have termination proofs. What other packages compute (hash functions, note commitment and
  history trees, script addresses, Equihash, signatures and proofs, the RocksDB database) is an argument of the
  definitions that use it: functions, or the records \<open>tree_ops\<close>, \<open>chain_env\<close>, \<open>zebra_db\<close>, \<open>commitment_env\<close>,
  \<open>service_env\<close> and \<open>write_env\<close>. The iteration order of a hash set or hash map is an argument that permutes lists.

  \<^bold>\<open>Theories, their sources under\<close> \<open>src/\<close> \<^bold>\<open>and what they show.\<close>

  \<^item> \<open>Amounts\<close>, \<open>Value_Balances\<close> (\<open>zebra-chain/src/amount.rs\<close>, \<open>value_balance.rs\<close>): arithmetic is exact or an error, sums
    stop at the first prefix out of range, chain value pools never become negative. The locale
    \<open>money_range\<close> is the contract of the constraint types and is interpreted for each of them.
  \<^item> \<open>Heights\<close>, \<open>Network_Upgrades\<close>, \<open>Checkpoint_Lists\<close> (\<open>block/height.rs\<close>, \<open>parameters/\<close>): activation schedules, the testnet
    builder, branch identifiers, checkpoint lists. The locale \<open>activation_schedule\<close> has the laws of a well-formed
    schedule; the mainnet, the default testnet and every accepted configuration satisfy them.
  \<^item> \<open>Difficulties\<close>, \<open>Adjusted_Difficulties\<close> (\<open>work/difficulty.rs\<close>, \<open>zebra-state/src/service/check/difficulty.rs\<close>,
    \<open>check.rs\<close>): compact targets are the protocol's \<open>ToTarget\<close>, work is exact, the difficulty adjustment never panics and
    stays within its bounds, and the recent chain check accepts exactly the blocks that the rules allow.
  \<^item> \<open>Subsidies\<close>, \<open>Founder_Addresses\<close> (\<open>parameters/network/subsidy.rs\<close> and constants, \<open>zebra-consensus/src/block/subsidy.rs\<close>):
    total issuance is at most 21 million coins, and the parts of a coinbase add up to the subsidy. The locale
    \<open>subsidy_network\<close> is the contract of a network's halving parameters.
  \<^item> \<open>Serialization\<close>, \<open>Block_Headers\<close>, \<open>Transparent\<close>, \<open>Addresses\<close> (\<open>serialization/\<close>, \<open>block/\<close>, \<open>transparent/\<close>): every decoder
    accepts exactly what its encoder writes. The locales \<open>fixed_codec\<close> and \<open>wire_codec\<close> carry the
    round trips from items to vectors and records.
  \<^item> \<open>Merkle_Trees\<close>, \<open>Blocks\<close>, \<open>Transactions\<close> (\<open>block/merkle.rs\<close>, \<open>block.rs\<close>, \<open>block/commitment.rs\<close>, \<open>transaction.rs\<close>, the shielded data
    modules): roots bind their leaves up to collisions, value balances are exact.
  \<^item> \<open>Transaction_Checks\<close>, \<open>Block_Checks\<close> (\<open>zebra-consensus/src/transaction/check.rs\<close>, \<open>block/check.rs\<close>, \<open>block.rs\<close>): coinbase maturity
    and spend conflicts are decided exactly, and an accepted block creates no money beyond its subsidy and fees.
  \<^item> \<open>Checked_Updates\<close>, \<open>Transparent_Indexes\<close>, \<open>Note_Commitment_Trees\<close>, \<open>Chains\<close> (\<open>zebra-state/src/service/non_finalized_state/chain.rs\<close>
    and \<open>chain/index.rs\<close>, \<open>zebra-chain/src/parallel/tree.rs\<close>): the indexes of a chain of recent blocks. The locale
    \<open>update_with\<close> is the contract of the \<open>UpdateWith\<close> trait, that reverting an update restores the state in any
    order of the parts; it is interpreted for address transfers and for the items of a block.
  \<^item> \<open>Chain_Reverts\<close>, \<open>Chain_Invariants\<close>, \<open>Chain_Pops\<close>, \<open>Chain_Forks\<close>, \<open>Chain_Theorems\<close>: every chain that pushes, forks, invalidations
    and finalizations build is a function of its blocks; removals never panic on it; a fork restores the
    chain as it was, apart from its subtrees.
  \<^item> \<open>Contextual_Checks\<close>, \<open>Non_Finalized_States\<close> (\<open>service/check/\<close>, \<open>service/non_finalized_state.rs\<close>, \<open>service/write.rs\<close>): the checks of
    a block against its chain, and the set of chains with its commits, finalization, invalidation and reconsideration.
    \<open>Chain_Sets\<close> and \<open>Chain_Leaves\<close> show that the set stays ordered and bounded, and that commits of new blocks and
    finalization never panic, with \<open>State_Theorems\<close> on the best chain, finalization and invalidated blocks, and \<open>Spend_Theorems\<close> on the
    transparent spend check and the absence of double spends in every chain the program can build.
  \<^item> \<open>Hash_Orders\<close>, \<open>Block_Queues\<close>, \<open>Queue_Invariants\<close>, \<open>Queue_Theorems\<close> (\<open>service/queued_blocks.rs\<close>, the queueing methods of \<open>service.rs\<close>):
    blocks that wait for their parents. The queue with its indexes refines a map, a request leaves no
    block waiting whose parent was sent, and sending a block sends its queued descendants.
  \<^item> \<open>Write_Workers\<close>, \<open>Worker_Theorems\<close> (\<open>service/write.rs\<close>): the turns of the block write worker. The finalization loop ends and writes
    the oldest blocks of the best chain in order, and the children of a rejected block are rejected.
  \<^item> \<open>Unmined_Transactions\<close> (\<open>zebra-chain/src/transaction/unmined.rs\<close>, \<open>unmined/zip317.rs\<close>): a transaction is accepted for the mempool exactly
    when it pays the conventional fee.
  \<^item> \<open>Mempool_Dependencies\<close> (\<open>zebra-node-services/src/mempool/transaction_dependencies.rs\<close>): removing a mempool transaction removes exactly
    its direct and indirect dependents.

  \<^bold>\<open>Bounds.\<close> Heights, counts and sizes are naturals; a theorem that depends on a bound of the program states it as
  a hypothesis (\<open>Height_MAX\<close>, the money range, the two million byte limit). Each theorem with hypotheses has a witness
  at a concrete input. Sample blocks, chains and databases that only witnesses use are named \<open>sample_...\<close>.

  \<^bold>\<open>Not modelled.\<close> The peer-to-peer network (\<open>zebra-network\<close>), the RPC, gRPC and scanning servers, the \<open>zebrad\<close> application with its
  syncer and mempool storage (random eviction, clocks, the script solver of another package), and the Tower services are asynchronous I/O around the core. The finalized database formats and queries
  depend on RocksDB. Proof, signature and script verification, key and note encryption, and the
  note commitment and history tree structures are computed by cryptographic packages outside of \<open>src/\<close>. Text
  forms, metrics, logs, test generators and test vectors have no consensus effect.
\<close>

end
